(* ===== verification/Prelude.thy ===== *)
theory Prelude
  imports "HOL-Library.Word" "HOL-Library.Multiset"
begin

text \<open>
  Shared vocabulary of the development: bytes and byte strings at the widths the Rust code uses,
  the little-endian and big-endian encodings of \<^verbatim>\<open>to_le_bytes\<close> / \<^verbatim>\<open>to_be_bytes\<close> with their
  round-trip laws, the error monad of \<^verbatim>\<open>Result\<close>, and generic facts on lists and sums.
\<close>

unbundle bit_operations_syntax

section \<open>Collections of facts\<close>

named_theorems byte_simps
  \<open>rewriting of byte encodings: lengths, concatenations, round trips\<close>

named_theorems result_simps
  \<open>case analysis of results: inversion of the error monad\<close>

section \<open>Machine types\<close>

type_synonym u8 = "8 word"
type_synonym u16 = "16 word"
type_synonym u32 = "32 word"
type_synonym u64 = "64 word"
type_synonym bytes = "8 word list"

abbreviation U16_MAX :: nat where
  "U16_MAX \<equiv> 65535"

lemma unat_word_of_nat: "n < 2 ^ LENGTH('a) \<Longrightarrow> unat (word_of_nat n :: 'a::len word) = n"
  by (simp add: unat_of_nat)

lemma word_of_nat_unat [simp]: "word_of_nat (unat w) = (w :: 'a::len word)"
  by (simp add: word_unat_eq_iff unat_of_nat)

lemma unat_u8_less [simp]: "unat (w :: u8) < 256"
  using unsigned_less[of w, where ?'a = nat] by simp

lemma unat_u16_less [simp]: "unat (w :: u16) < 65536"
  using unsigned_less[of w, where ?'a = nat] by simp

section \<open>Results\<close>

text \<open>\<^verbatim>\<open>Result<T, E>\<close> is the sum \<open>'e + 't\<close>; \<open>res_bind\<close> is the \<^verbatim>\<open>?\<close> operator.\<close>

definition res_bind :: "'e + 'a \<Rightarrow> ('a \<Rightarrow> 'e + 'b) \<Rightarrow> 'e + 'b" where
  "res_bind r f = (case r of Inl e \<Rightarrow> Inl e | Inr x \<Rightarrow> f x)"

definition res_map_err :: "('e \<Rightarrow> 'f) \<Rightarrow> 'e + 'a \<Rightarrow> 'f + 'a" where
  "res_map_err g r = (case r of Inl e \<Rightarrow> Inl (g e) | Inr x \<Rightarrow> Inr x)"

lemma res_bind_simps [simp]:
  "res_bind (Inl e) f = Inl e"
  "res_bind (Inr x) f = f x"
  by (simp_all add: res_bind_def)

lemma res_bind_eq_Inr [result_simps]:
  "res_bind r f = Inr y \<longleftrightarrow> (\<exists>x. r = Inr x \<and> f x = Inr y)"
  by (cases r) auto

lemma res_bind_eq_Inl [result_simps]:
  "res_bind r f = Inl e \<longleftrightarrow> r = Inl e \<or> (\<exists>x. r = Inr x \<and> f x = Inl e)"
  by (cases r) auto

lemma res_map_err_simps [simp]:
  "res_map_err g (Inl e) = Inl (g e)"
  "res_map_err g (Inr x) = Inr x"
  by (simp_all add: res_map_err_def)

lemma res_map_err_eq_Inr [result_simps]: "res_map_err g r = Inr y \<longleftrightarrow> r = Inr y"
  by (cases r) auto

lemma res_map_err_eq_Inl [result_simps]: "res_map_err g r = Inl e \<longleftrightarrow> (\<exists>e'. r = Inl e' \<and> e = g e')"
  by (cases r) auto

text \<open>Stateful calls: a computation takes the state and returns its result and the new state; \<open>st_bind\<close>
  is \<^verbatim>\<open>?\<close> between two calls on one \<^verbatim>\<open>&mut self\<close>.\<close>

type_synonym ('s, 'e, 'a) st = "'s \<Rightarrow> ('e + 'a) \<times> 's"

definition st_bind :: "('s, 'e, 'a) st \<Rightarrow> ('a \<Rightarrow> ('s, 'e, 'b) st) \<Rightarrow> ('s, 'e, 'b) st" where
  "st_bind m f s = (case m s of (Inl e, s') \<Rightarrow> (Inl e, s') | (Inr x, s') \<Rightarrow> f x s')"

definition st_lift :: "'e + 'a \<Rightarrow> ('s, 'e, 'a) st" where
  "st_lift r s = (r, s)"

lemma st_lift_simps [simp]: "st_lift r s = (r, s)"
  by (simp add: st_lift_def)

lemma st_bind_simps [simp]:
  "m s = (Inl e, s') \<Longrightarrow> st_bind m f s = (Inl e, s')"
  "m s = (Inr x, s') \<Longrightarrow> st_bind m f s = f x s'"
  by (simp_all add: st_bind_def)

lemma st_bind_lift [simp]: "st_bind (st_lift r) f s = (case r of Inl e \<Rightarrow> (Inl e, s) | Inr x \<Rightarrow> f x s)"
  by (simp add: st_bind_def split: sum.split)

lemma st_bind_eq_Inr [result_simps]:
  "st_bind m f s = (Inr y, s'') \<longleftrightarrow> (\<exists>x s'. m s = (Inr x, s') \<and> f x s' = (Inr y, s''))"
  by (auto simp: st_bind_def split: prod.splits sum.splits)

lemma st_bind_eq_Inl [result_simps]:
  "st_bind m f s = (Inl e, s'') \<longleftrightarrow>
     m s = (Inl e, s'') \<or> (\<exists>x s'. m s = (Inr x, s') \<and> f x s' = (Inl e, s''))"
  by (auto simp: st_bind_def split: prod.splits sum.splits)

section \<open>Byte encodings\<close>

fun le_bytes :: "nat \<Rightarrow> 'a::len word \<Rightarrow> bytes" where
  "le_bytes 0 w = []"
| "le_bytes (Suc n) w = ucast w # le_bytes n (drop_bit 8 w)"

fun of_le_bytes :: "bytes \<Rightarrow> 'a::len word" where
  "of_le_bytes [] = 0"
| "of_le_bytes (b # bs) = (ucast b OR push_bit 8 (of_le_bytes bs))"

definition be_bytes :: "nat \<Rightarrow> 'a::len word \<Rightarrow> bytes" where
  "be_bytes n w = rev (le_bytes n w)"

definition of_be_bytes :: "bytes \<Rightarrow> 'a::len word" where
  "of_be_bytes bs = of_le_bytes (rev bs)"

lemma length_le_bytes [simp, byte_simps]: "length (le_bytes n w) = n"
  by (induction n arbitrary: w) auto

lemma length_be_bytes [simp, byte_simps]: "length (be_bytes n w) = n"
  by (simp add: be_bytes_def)

lemma of_le_bytes_le_bytes: "of_le_bytes (le_bytes n w) = take_bit (8 * n) w"
proof (induction n arbitrary: w)
  case (Suc n)
  show ?case
    by (simp add: Suc) (rule bit_word_eqI, auto simp: bit_simps dest: bit_imp_le_length)
qed simp

lemma of_le_bytes_le_bytes_ucast:
  "(of_le_bytes (le_bytes n (w :: 'a::len word)) :: 'b::len word) = ucast (take_bit (8 * n) w)"
proof (induction n arbitrary: w)
  case (Suc n)
  show ?case
    by (simp add: Suc) (rule bit_word_eqI, auto simp: bit_simps dest: bit_imp_le_length)
qed simp

lemma of_be_bytes_be_bytes_ucast:
  "(of_be_bytes (be_bytes n (w :: 'a::len word)) :: 'b::len word) = ucast (take_bit (8 * n) w)"
  by (simp add: of_be_bytes_def be_bytes_def of_le_bytes_le_bytes_ucast)

lemma ucast_take_bit: "LENGTH('b::len) \<le> n \<Longrightarrow> (ucast (take_bit n w) :: 'b word) = ucast w"
  by (rule bit_word_eqI) (auto simp: bit_simps)

lemma ucast_ucast_small:
  assumes "unat (w :: 'a::len word) < 2 ^ LENGTH('b::len)"
  shows "ucast (ucast w :: 'b word) = w"
proof -
  have "take_bit LENGTH('b) w = w"
    using assms by (metis take_bit_nat_eq_self unsigned_take_bit_eq word_unat_eq_iff)
  moreover have "ucast (ucast w :: 'b word) = take_bit LENGTH('b) w"
    by (rule bit_word_eqI) (auto simp: bit_simps)
  ultimately show ?thesis by simp
qed

lemma scast_ucast_small:
  assumes "- (2 ^ (LENGTH('b::len) - 1)) \<le> sint (w :: 'a::len word)" and "sint w < 2 ^ (LENGTH('b) - 1)"
    and "LENGTH('b) \<le> LENGTH('a)"
  shows "scast (ucast w :: 'b word) = w"
proof (rule bit_word_eqI)
  fix i assume i: "i < LENGTH('a)"
  let ?n = "LENGTH('b) - 1"
  have "signed_take_bit ?n (sint w) = sint w"
    using assms(1,2) by (intro signed_take_bit_int_eq_self) simp_all
  then have "bit (signed_take_bit ?n (sint w)) i = bit (sint w) i"
    by simp
  then have "bit (sint w) (min i ?n) = bit (sint w) i"
    by (simp only: bit_signed_take_bit_iff possible_bit_int simp_thms min.commute)
  moreover have "bit (sint w) j = bit w j" if "j < LENGTH('a)" for j
    using that by (simp add: bit_sint_iff)
  ultimately have "bit w (min i ?n) = bit w i"
    using i by simp
  moreover have "min i ?n < LENGTH('b)" and "min i ?n < LENGTH('a)"
    using i by (simp_all add: min_less_iff_disj)
  ultimately show "bit (scast (ucast w :: 'b word) :: 'a word) i = bit w i"
    using i by (simp add: bit_simps min.commute)
qed

lemma of_be_bytes_be_bytes: "of_be_bytes (be_bytes n w) = take_bit (8 * n) w"
  by (simp add: of_be_bytes_def be_bytes_def of_le_bytes_le_bytes)

lemma take_bit_full_word: "LENGTH('a) \<le> n \<Longrightarrow> take_bit n (w :: 'a::len word) = w"
  by (rule bit_word_eqI) (auto simp: bit_simps)

lemma bit_of_le_bytes:
  "bit (of_le_bytes bs :: 'a::len word) i \<longleftrightarrow>
     i < LENGTH('a) \<and> i < 8 * length bs \<and> bit (bs ! (i div 8)) (i mod 8)"
proof (induction bs arbitrary: i)
  case (Cons b bs)
  show ?case
  proof (cases "i < 8")
    case True
    then show ?thesis by (auto simp: bit_simps)
  next
    case False
    then have "(b # bs) ! (i div 8) = bs ! ((i - 8) div 8)" and "(i - 8) mod 8 = i mod 8"
      by (simp_all add: nth_Cons' le_div_geq le_mod_geq)
    with False show ?thesis
      by (auto simp: bit_simps Cons.IH dest: bit_imp_le_length)
  qed
qed simp

lemma le_bytes_of_le_bytes_gen:
  assumes "8 * k + 8 * length bs \<le> LENGTH('a::len)"
    and "\<And>i. i < 8 * length bs \<Longrightarrow> bit (w :: 'a word) (8 * k + i) = bit (bs ! (i div 8)) (i mod 8)"
  shows "le_bytes (length bs) (drop_bit (8 * k) w) = bs"
  using assms
proof (induction bs arbitrary: k)
  case (Cons b bs)
  have hd_eq: "ucast (drop_bit (8 * k) w) = b"
  proof (rule bit_word_eqI)
    fix n assume n: "n < LENGTH(8)"
    then show "bit (ucast (drop_bit (8 * k) w) :: u8) n = bit b n"
      using Cons.prems(2)[of n] Cons.prems(1) by (simp add: bit_simps)
  qed
  have tl_eq: "le_bytes (length bs) (drop_bit (8 * Suc k) w) = bs"
  proof (rule Cons.IH)
    show "8 * Suc k + 8 * length bs \<le> LENGTH('a)"
      using Cons.prems(1) by simp
    fix i assume i: "i < 8 * length bs"
    have "(8 + i) div 8 = Suc (i div 8)" by simp
    with i show "bit w (8 * Suc k + i) = bit (bs ! (i div 8)) (i mod 8)"
      using Cons.prems(2)[of "8 + i"] by (simp add: ac_simps)
  qed
  have "drop_bit 8 (drop_bit (8 * k) w) = drop_bit (8 * Suc k) w"
    by (simp add: ac_simps)
  then show ?case
    using hd_eq tl_eq by (simp del: drop_bit_drop_bit)
qed simp

lemma le_bytes_of_le_bytes:
  assumes "8 * length bs \<le> LENGTH('a::len)"
  shows "le_bytes (length bs) (of_le_bytes bs :: 'a word) = bs"
  using le_bytes_of_le_bytes_gen[of 0 bs "of_le_bytes bs :: 'a word"] assms
  by (simp add: bit_of_le_bytes)

lemma be_bytes_of_be_bytes:
  assumes "8 * length bs \<le> LENGTH('a::len)"
  shows "be_bytes (length bs) (of_be_bytes bs :: 'a word) = bs"
  using le_bytes_of_le_bytes[of "rev bs", where 'a = 'a] assms
  by (simp add: be_bytes_def of_be_bytes_def)

lemma le_bytes_cong:
  assumes "\<And>i. i < 8 * n \<Longrightarrow> bit (w :: 'a::len word) i = bit (v :: 'b::len word) i"
  shows "le_bytes n w = le_bytes n v"
  using assms
proof (induction n arbitrary: w v)
  case (Suc n)
  have "(ucast w :: u8) = ucast v"
    by (rule bit_word_eqI) (use Suc.prems in \<open>auto simp: bit_simps\<close>)
  moreover have "le_bytes n (drop_bit 8 w) = le_bytes n (drop_bit 8 v)"
    by (rule Suc.IH) (simp add: bit_simps Suc.prems)
  ultimately show ?case by simp
qed simp

lemma le_bytes_ucast:
  "8 * n \<le> LENGTH('b::len) \<Longrightarrow> le_bytes n (ucast (w :: 'a::len word) :: 'b word) = le_bytes n w"
  by (rule le_bytes_cong) (auto simp: bit_simps)

lemma le_bytes_scast:
  "8 * n \<le> LENGTH('b::len) \<Longrightarrow> 8 * n \<le> LENGTH('a::len) \<Longrightarrow>
     le_bytes n (scast (w :: 'a word) :: 'b word) = le_bytes n w"
proof (rule le_bytes_cong)
  fix i assume "8 * n \<le> LENGTH('b)" "8 * n \<le> LENGTH('a)" "i < 8 * n"
  then have "i < LENGTH('b)" and "min (LENGTH('a) - Suc 0) i = i" by simp_all
  then show "bit (scast w :: 'b word) i = bit w i" by (simp add: bit_simps)
qed

lemma unat_ucast_le: "unat (ucast w) \<le> unat w"
  by (simp add: unsigned_ucast_eq take_bit_nat_less_eq_self)

lemma sint_scast_up: "LENGTH('a::len) \<le> LENGTH('b::len) \<Longrightarrow> sint (scast (w :: 'a word) :: 'b word) = sint w"
  by (simp add: signed_scast_eq) (rule bit_eqI, auto simp: bit_simps min_def)

section \<open>Generic facts on lists\<close>

lemma concat_map_singleton [simp]: "concat (map (\<lambda>x. [f x]) xs) = map f xs"
  by (induction xs) auto

lemma sum_list_ge_last: "xs \<noteq> [] \<Longrightarrow> (last xs :: nat) \<le> sum_list xs"
  by (induction xs) auto

end
