(* ===== verification/Rust_Str.thy ===== *)
theory Rust_Str
  imports Prelude
begin

text \<open>
  The string operations of the Rust standard library that the sources use: \<^verbatim>\<open>str::trim\<close>,
  \<^verbatim>\<open>str::split_once\<close>, \<^verbatim>\<open>str::parse\<close> to unsigned integers and the decimal \<^verbatim>\<open>Display\<close> of integers.
  A \<^verbatim>\<open>&str\<close> is its list of UTF-8 bytes (type \<^typ>\<open>string\<close>), so \<^verbatim>\<open>trim\<close> removes the UTF-8 encodings of
  all code points with the Unicode property White\_Space.
\<close>

section \<open>White space\<close>

text \<open>U+0009 to U+000D, U+0020, U+0085, U+00A0, U+1680, U+2000 to U+200A, U+2028, U+2029, U+202F,
  U+205F and U+3000 in UTF-8.\<close>

definition ws_seqs :: "string list" where
  "ws_seqs =
     [[CHR 0x09], [CHR 0x0A], [CHR 0x0B], [CHR 0x0C], [CHR 0x0D], [CHR 0x20],
      [CHR 0xC2, CHR 0x85], [CHR 0xC2, CHR 0xA0], [CHR 0xE1, CHR 0x9A, CHR 0x80],
      [CHR 0xE2, CHR 0x80, CHR 0x80], [CHR 0xE2, CHR 0x80, CHR 0x81], [CHR 0xE2, CHR 0x80, CHR 0x82],
      [CHR 0xE2, CHR 0x80, CHR 0x83], [CHR 0xE2, CHR 0x80, CHR 0x84], [CHR 0xE2, CHR 0x80, CHR 0x85],
      [CHR 0xE2, CHR 0x80, CHR 0x86], [CHR 0xE2, CHR 0x80, CHR 0x87], [CHR 0xE2, CHR 0x80, CHR 0x88],
      [CHR 0xE2, CHR 0x80, CHR 0x89], [CHR 0xE2, CHR 0x80, CHR 0x8A], [CHR 0xE2, CHR 0x80, CHR 0xA8],
      [CHR 0xE2, CHR 0x80, CHR 0xA9], [CHR 0xE2, CHR 0x80, CHR 0xAF], [CHR 0xE2, CHR 0x81, CHR 0x9F],
      [CHR 0xE3, CHR 0x80, CHR 0x80]]"

text \<open>\<open>strip_seqs ws s\<close> removes the longest prefix of \<open>s\<close> made of sequences in \<open>ws\<close>.\<close>

function strip_seqs :: "string list \<Rightarrow> string \<Rightarrow> string" where
  "strip_seqs ws s =
     (case find (\<lambda>w. w \<noteq> [] \<and> take (length w) s = w) ws of
        None \<Rightarrow> s
      | Some w \<Rightarrow> strip_seqs ws (drop (length w) s))"
  by pat_completeness auto
termination
proof (relation "measure (\<lambda>(ws, s). length s)")
  fix ws :: "string list" and s w
  assume "find (\<lambda>w. w \<noteq> [] \<and> take (length w) s = w) ws = Some w"
  then have "w \<noteq> []" and "take (length w) s = w"
    by (auto simp: find_Some_iff)
  then have "0 < length w" and "0 < length s"
    by auto
  then show "((ws, drop (length w) s), ws, s) \<in> measure (\<lambda>(ws, s). length s)"
    by simp
qed simp

declare strip_seqs.simps [simp del]

definition trim_start :: "string \<Rightarrow> string" where
  "trim_start s = strip_seqs ws_seqs s"

definition trim_end :: "string \<Rightarrow> string" where
  "trim_end s = rev (strip_seqs (map rev ws_seqs) (rev s))"

definition trim :: "string \<Rightarrow> string" where
  "trim s = trim_end (trim_start s)"

definition graphic :: "char \<Rightarrow> bool" where
  "graphic c \<longleftrightarrow> 0x20 < (of_char c :: nat) \<and> (of_char c :: nat) < 0x7F"

lemma strip_seqs_id:
  assumes "find (\<lambda>w. w \<noteq> [] \<and> take (length w) s = w) ws = None"
  shows "strip_seqs ws s = s"
  using assms by (subst strip_seqs.simps) simp

lemma strip_seqs_graphic:
  assumes "\<forall>w\<in>set ws. w \<noteq> [] \<and> \<not> graphic (hd w)" and "s = [] \<or> graphic (hd s)"
  shows "strip_seqs ws s = s"
proof (rule strip_seqs_id)
  have "\<not> (w \<noteq> [] \<and> take (length w) s = w)" if "w \<in> set ws" for w
  proof
    assume "w \<noteq> [] \<and> take (length w) s = w"
    then have "w \<noteq> []" and w: "w = take (length w) s"
      by simp_all
    then have "s \<noteq> []" by auto
    moreover from \<open>w \<noteq> []\<close> \<open>s \<noteq> []\<close> have "hd (take (length w) s) = hd s"
      by (cases w; cases s) simp_all
    then have "hd w = hd s"
      using w by argo
    ultimately show False
      using assms that by auto
  qed
  then show "find (\<lambda>w. w \<noteq> [] \<and> take (length w) s = w) ws = None"
    by (auto simp: find_None_iff)
qed

lemma ws_seqs_not_graphic:
  "\<forall>w\<in>set ws_seqs. w \<noteq> [] \<and> \<not> graphic (hd w)"
  "\<forall>w\<in>set (map rev ws_seqs). w \<noteq> [] \<and> \<not> graphic (hd w)"
  by (simp_all add: ws_seqs_def graphic_def)

lemma trim_graphic: "\<forall>c\<in>set s. graphic c \<Longrightarrow> trim s = s"
  using strip_seqs_graphic[OF ws_seqs_not_graphic(1), of s]
    strip_seqs_graphic[OF ws_seqs_not_graphic(2), of "rev s"]
  by (cases "s = []") (auto simp: trim_def trim_start_def trim_end_def hd_rev)

section \<open>Bytes of a string\<close>

definition string_bytes :: "string \<Rightarrow> bytes" where
  "string_bytes s = map (\<lambda>c. word_of_nat (of_char c)) s"

definition bytes_string :: "bytes \<Rightarrow> string" where
  "bytes_string bs = map (\<lambda>b. char_of (unat b)) bs"

lemma bytes_string_string_bytes: "bytes_string (string_bytes s) = s"
  by (induction s) (auto simp: bytes_string_def string_bytes_def unat_of_nat)

lemma string_bytes_bytes_string: "string_bytes (bytes_string bs) = bs"
  by (induction bs) (auto simp: bytes_string_def string_bytes_def)

section \<open>Splitting\<close>

fun split_once :: "char \<Rightarrow> string \<Rightarrow> (string \<times> string) option" where
  "split_once d [] = None"
| "split_once d (c # cs) =
     (if c = d then Some ([], cs)
      else map_option (\<lambda>(a, b). (c # a, b)) (split_once d cs))"

lemma split_once_None_iff: "split_once d s = None \<longleftrightarrow> d \<notin> set s"
  by (induction s) auto

lemma split_once_append: "d \<notin> set a \<Longrightarrow> split_once d (a @ d # b) = Some (a, b)"
  by (induction a) auto

lemma split_once_SomeD: "split_once d s = Some (a, b) \<Longrightarrow> s = a @ d # b \<and> d \<notin> set a"
  by (induction s arbitrary: a b) (auto split: if_splits)

section \<open>Decimal integers\<close>

definition digit_char :: "nat \<Rightarrow> char" where
  "digit_char d = char_of (48 + d)"

definition digit_val :: "char \<Rightarrow> nat option" where
  "digit_val c = (let n = of_char c in if 48 \<le> n \<and> n \<le> 57 then Some (n - 48) else None)"

fun nat_to_string :: "nat \<Rightarrow> string" where
  "nat_to_string n =
     (if n < 10 then [digit_char n] else nat_to_string (n div 10) @ [digit_char (n mod 10)])"

declare nat_to_string.simps [simp del]

text \<open>\<open>parse_digits m acc\<close>: the accumulation loop of \<^verbatim>\<open>from_str_radix\<close> for a type with maximum \<open>m\<close>.\<close>

fun parse_digits :: "nat \<Rightarrow> nat \<Rightarrow> string \<Rightarrow> nat option" where
  "parse_digits m acc [] = Some acc"
| "parse_digits m acc (c # cs) =
     (case digit_val c of
        None \<Rightarrow> None
      | Some d \<Rightarrow> if acc * 10 + d \<le> m then parse_digits m (acc * 10 + d) cs else None)"

text \<open>Unsigned \<^verbatim>\<open>FromStr\<close>: an empty string and a lone sign are errors, one leading \<open>+\<close> is accepted,
  \<open>-\<close> is an invalid digit.\<close>

fun parse_uint :: "nat \<Rightarrow> string \<Rightarrow> nat option" where
  "parse_uint m [] = None"
| "parse_uint m (c # cs) =
     (if c = CHR ''+'' then (if cs = [] then None else parse_digits m 0 cs)
      else parse_digits m 0 (c # cs))"

lemma of_char_digit_char: "d < 10 \<Longrightarrow> of_char (digit_char d) = 48 + d"
  by (simp add: digit_char_def)

lemma digit_val_digit_char [simp]: "d < 10 \<Longrightarrow> digit_val (digit_char d) = Some d"
  by (simp add: digit_val_def digit_char_def)

lemma digit_val_SomeD: "digit_val c = Some d \<Longrightarrow> d < 10"
  by (auto simp: digit_val_def Let_def split: if_splits)

lemma parse_digits_append:
  "parse_digits m acc (s @ t) = Option.bind (parse_digits m acc s) (\<lambda>a. parse_digits m a t)"
  by (induction s arbitrary: acc) (auto split: option.splits)

lemma parse_digits_le: "acc \<le> m \<Longrightarrow> parse_digits m acc s = Some n \<Longrightarrow> n \<le> m"
  by (induction s arbitrary: acc) (auto split: option.splits if_splits)

lemma parse_uint_le: "parse_uint m s = Some n \<Longrightarrow> n \<le> m"
  using parse_digits_le[of 0 m]
  by (cases s) (auto split: if_splits simp del: parse_digits.simps)

lemma parse_digits_nat_to_string: "n \<le> m \<Longrightarrow> parse_digits m 0 (nat_to_string n) = Some n"
proof (induction n rule: nat_to_string.induct)
  case (1 n)
  show ?case
  proof (cases "n < 10")
    case True
    with "1.prems" show ?thesis by (subst nat_to_string.simps) simp
  next
    case False
    with 1 have "parse_digits m 0 (nat_to_string (n div 10)) = Some (n div 10)"
      by (meson div_le_dividend le_trans)
    with False "1.prems" show ?thesis
      by (subst nat_to_string.simps) (simp add: parse_digits_append)
  qed
qed

lemma nat_to_string_digits:
  "nat_to_string n \<noteq> [] \<and> (\<forall>c\<in>set (nat_to_string n). 48 \<le> (of_char c :: nat) \<and> (of_char c :: nat) \<le> 57)"
proof (induction n rule: nat_to_string.induct)
  case (1 n)
  have "48 \<le> (of_char (digit_char d) :: nat) \<and> (of_char (digit_char d) :: nat) \<le> 57" if "d < 10" for d
    using that by (simp add: of_char_digit_char)
  then show ?case
    using 1 by (subst (1 2) nat_to_string.simps) auto
qed

lemma nat_to_string_graphic: "c \<in> set (nat_to_string n) \<Longrightarrow> graphic c"
  using nat_to_string_digits[of n] by (fastforce simp: graphic_def)

lemma not_in_nat_to_string:
  "\<not> (48 \<le> (of_char c :: nat) \<and> (of_char c :: nat) \<le> 57) \<Longrightarrow> c \<notin> set (nat_to_string n)"
  using nat_to_string_digits[of n] by blast

lemma trim_nat_to_string [simp]: "trim (nat_to_string n) = nat_to_string n"
  by (rule trim_graphic) (auto intro: nat_to_string_graphic)

lemma parse_uint_nat_to_string [simp]: "n \<le> m \<Longrightarrow> parse_uint m (nat_to_string n) = Some n"
  using parse_digits_nat_to_string[of n m] not_in_nat_to_string[of "CHR ''+''" n]
    nat_to_string_digits[of n]
  by (cases "nat_to_string n") auto

end
