(* ===== verification/Observation.thy ===== *)
theory Observation
  imports Rust_Str
begin

text \<open>
  The shared data model of \<^verbatim>\<open>crates/observation-model\<close> and \<^verbatim>\<open>crates/driver-contract\<close>: declared data
  types, raw protocol values and the request and result structures at the driver boundary.
  A \<^verbatim>\<open>u64\<close> identifier is a natural number, a \<^verbatim>\<open>TimestampNs\<close> an integer; a 64-bit value of a
  \<^verbatim>\<open>RawValue\<close> keeps its width. The human-readable \<^verbatim>\<open>message\<close> of an error is not modelled: no code
  branches on it. Its stable \<^verbatim>\<open>code\<close>, the protocol code and the retry flag are.
\<close>

type_synonym timestamp_ns = int

datatype data_type =
    DT_Bool | DT_I8 | DT_I16 | DT_I32 | DT_I64
  | DT_U8 | DT_U16 | DT_U32 | DT_U64 | DT_F32 | DT_F64
  | DT_String | DT_Bytes
  | DT_Array data_type
  | DT_Struct "(string \<times> data_type) list"

text \<open>\<open>RV_I64\<close> holds the two's complement pattern of the \<^verbatim>\<open>i64\<close>, \<open>RV_F64\<close> the bits of the \<^verbatim>\<open>f64\<close>.\<close>

datatype raw_value =
    RV_Bool bool
  | RV_I64 u64
  | RV_U64 u64
  | RV_F64 u64
  | RV_String string
  | RV_Bytes bytes
  | RV_Array "raw_value list"
  | RV_Struct "(string \<times> raw_value) list"

text \<open>\<^verbatim>\<open>serde_json::Value\<close>: a number is an integer of 64 bits or the bits of an \<^verbatim>\<open>f64\<close>.\<close>

datatype json =
    J_Null
  | J_Bool bool
  | J_Int int
  | J_Float u64
  | J_String string
  | J_Array "json list"
  | J_Object "(string \<times> json) list"

record driver_error_info =
  ei_code :: string
  ei_protocol_code :: "int option"
  ei_retryable :: bool

record driver_read_item =
  ri_id :: nat
  ri_address :: string
  ri_expected_type :: "data_type option"

record raw_read_result =
  rr_item_id :: nat
  rr_value :: "raw_value option"
  rr_source_timestamp_ns :: "timestamp_ns option"
  rr_received_timestamp_ns :: timestamp_ns
  rr_protocol_quality_code :: "int option"
  rr_error :: "driver_error_info option"

record raw_write_result =
  rw_item_id :: nat
  rw_success :: bool
  rw_protocol_code :: "int option"
  rw_error :: "driver_error_info option"

record raw_command_result =
  rc_success :: bool
  rc_protocol_code :: "int option"
  rc_payload :: "json option"
  rc_error :: "driver_error_info option"

record address_metadata =
  am_canonical_address :: string
  am_raw_type :: "data_type option"
  am_readable :: bool
  am_writable :: bool

end
