(* ===== verification/Ieee_Float.thy ===== *)
theory Ieee_Float
  imports Prelude
begin

text \<open>
  IEEE-754 \<^verbatim>\<open>f32\<close> and \<^verbatim>\<open>f64\<close> as bit patterns (what \<^verbatim>\<open>to_bits\<close> shows), with the conversions
  \<^verbatim>\<open>as f64\<close> (exact) and \<^verbatim>\<open>as f32\<close> (round to nearest, ties to even, overflow to infinity) that the
  sources use. A NaN keeps its leading payload bits and becomes quiet, as on the targets the program
  runs on; no theorem below depends on that choice.
\<close>

section \<open>Fields of a bit pattern\<close>

definition f64_sign :: "u64 \<Rightarrow> nat" where "f64_sign w = unat w div 2 ^ 63"
definition f64_exp :: "u64 \<Rightarrow> nat" where "f64_exp w = unat w div 2 ^ 52 mod 2 ^ 11"
definition f64_man :: "u64 \<Rightarrow> nat" where "f64_man w = unat w mod 2 ^ 52"

definition f32_sign :: "u32 \<Rightarrow> nat" where "f32_sign w = unat w div 2 ^ 31"
definition f32_exp :: "u32 \<Rightarrow> nat" where "f32_exp w = unat w div 2 ^ 23 mod 2 ^ 8"
definition f32_man :: "u32 \<Rightarrow> nat" where "f32_man w = unat w mod 2 ^ 23"

definition f64_make :: "nat \<Rightarrow> nat \<Rightarrow> nat \<Rightarrow> u64" where
  "f64_make s e m = word_of_nat (s * 2 ^ 63 + e * 2 ^ 52 + m)"

definition f32_make :: "nat \<Rightarrow> nat \<Rightarrow> u32" where
  "f32_make s mag = word_of_nat (s * 2 ^ 31 + mag)"

definition f64_is_nan :: "u64 \<Rightarrow> bool" where
  "f64_is_nan w \<longleftrightarrow> f64_exp w = 2047 \<and> f64_man w \<noteq> 0"

definition f64_is_finite :: "u64 \<Rightarrow> bool" where
  "f64_is_finite w \<longleftrightarrow> f64_exp w \<noteq> 2047"

definition f32_is_nan :: "u32 \<Rightarrow> bool" where
  "f32_is_nan w \<longleftrightarrow> f32_exp w = 255 \<and> f32_man w \<noteq> 0"

definition f32_is_infinite :: "u32 \<Rightarrow> bool" where
  "f32_is_infinite w \<longleftrightarrow> f32_exp w = 255 \<and> f32_man w = 0"

definition f64_is_zero :: "u64 \<Rightarrow> bool" where
  "f64_is_zero w \<longleftrightarrow> f64_exp w = 0 \<and> f64_man w = 0"

text \<open>The operator \<^verbatim>\<open>==\<close> on \<^verbatim>\<open>f64\<close>: false on NaN, and \<open>0.0 == -0.0\<close>.\<close>

definition f64_eq :: "u64 \<Rightarrow> u64 \<Rightarrow> bool" where
  "f64_eq a b \<longleftrightarrow> \<not> f64_is_nan a \<and> \<not> f64_is_nan b \<and> (a = b \<or> f64_is_zero a \<and> f64_is_zero b)"

section \<open>Conversions\<close>

fun flog2 :: "nat \<Rightarrow> nat" where
  "flog2 n = (if n \<le> 1 then 0 else Suc (flog2 (n div 2)))"

declare flog2.simps [simp del]

definition rne :: "nat \<Rightarrow> nat \<Rightarrow> nat" where
  "rne n k =
     (let q = n div 2 ^ k; r = n mod 2 ^ k; half = 2 ^ (k - 1)
      in if r > half \<or> (r = half \<and> odd q) then q + 1 else q)"

definition f32_to_f64 :: "u32 \<Rightarrow> u64" where
  "f32_to_f64 w =
     (let s = f32_sign w; e = f32_exp w; m = f32_man w in
      if e = 255 then
        f64_make s 2047 (if m = 0 then 0 else (if m < 2 ^ 22 then m + 2 ^ 22 else m) * 2 ^ 29)
      else if e = 0 then
        (if m = 0 then f64_make s 0 0
         else f64_make s (flog2 m + 874) ((m - 2 ^ flog2 m) * 2 ^ (52 - flog2 m)))
      else f64_make s (e + 896) (m * 2 ^ 29))"

definition f64_to_f32 :: "u64 \<Rightarrow> u32" where
  "f64_to_f32 w =
     (let s = f64_sign w; e = f64_exp w; m = f64_man w in
      if e = 2047 then
        f32_make s (255 * 2 ^ 23 +
          (if m = 0 then 0
           else (let p = m div 2 ^ 29 in if p < 2 ^ 22 then p + 2 ^ 22 else p)))
      else if 897 \<le> e then f32_make s (min ((e - 896) * 2 ^ 23 + rne m 29) (255 * 2 ^ 23))
      else if e = 0 then f32_make s 0
      else f32_make s (rne (2 ^ 52 + m) (926 - e)))"

section \<open>Facts\<close>

lemma flog2_bounds: "0 < n \<Longrightarrow> 2 ^ flog2 n \<le> n \<and> n < 2 * 2 ^ flog2 n"
proof (induction n rule: flog2.induct)
  case (1 n)
  show ?case
  proof (cases "n \<le> 1")
    case True
    with "1.prems" show ?thesis by (simp add: flog2.simps[of n])
  next
    case False
    with 1 have "2 ^ flog2 (n div 2) \<le> n div 2 \<and> n div 2 < 2 * 2 ^ flog2 (n div 2)"
      by simp
    with False show ?thesis by (simp add: flog2.simps[of n]) arith
  qed
qed

lemma flog2_less: "0 < n \<Longrightarrow> n < 2 ^ k \<Longrightarrow> flog2 n < k"
proof (rule ccontr)
  assume n: "0 < n" "n < 2 ^ k" and "\<not> flog2 n < k"
  then have "(2::nat) ^ k \<le> 2 ^ flog2 n" by (simp add: power_increasing)
  with flog2_bounds[OF n(1)] n(2) show False by simp
qed

lemma rne_exact: "rne (q * 2 ^ k) k = q"
  by (simp add: rne_def)

lemma three_fields: "(n :: nat) = n div a div b * (a * b) + n div a mod b * a + n mod a"
proof -
  have "n div a = n div a div b * b + n div a mod b" by simp
  then have "n div a * a = n div a div b * (a * b) + n div a mod b * a"
    by (metis add_mult_distrib mult.assoc mult.commute)
  then show ?thesis
    by (metis div_mult_mod_eq)
qed

lemma f32_fields:
  "unat w = f32_sign w * 2 ^ 31 + f32_exp w * 2 ^ 23 + f32_man w"
  "f32_sign w < 2" "f32_exp w < 256" "f32_man w < 2 ^ 23"
proof -
  have lt: "unat w < 2 ^ 32" using unsigned_less[of w, where ?'a = nat] by simp
  show "f32_sign w < 2" using lt by (simp add: f32_sign_def)
  show "f32_exp w < 256" "f32_man w < 2 ^ 23" by (simp_all add: f32_exp_def f32_man_def)
  have "f32_sign w = unat w div 2 ^ 23 div 2 ^ 8"
    by (simp add: f32_sign_def div_mult2_eq[symmetric])
  then show "unat w = f32_sign w * 2 ^ 31 + f32_exp w * 2 ^ 23 + f32_man w"
    using three_fields[of "unat w" "2 ^ 23" "2 ^ 8"] by (simp add: f32_exp_def f32_man_def)
qed

lemma f64_fields:
  "unat w = f64_sign w * 2 ^ 63 + f64_exp w * 2 ^ 52 + f64_man w"
  "f64_sign w < 2" "f64_exp w < 2048" "f64_man w < 2 ^ 52"
proof -
  have lt: "unat w < 2 ^ 64" using unsigned_less[of w, where ?'a = nat] by simp
  show "f64_sign w < 2" using lt by (simp add: f64_sign_def)
  show "f64_exp w < 2048" "f64_man w < 2 ^ 52" by (simp_all add: f64_exp_def f64_man_def)
  have "f64_sign w = unat w div 2 ^ 52 div 2 ^ 11"
    by (simp add: f64_sign_def div_mult2_eq[symmetric])
  then show "unat w = f64_sign w * 2 ^ 63 + f64_exp w * 2 ^ 52 + f64_man w"
    using three_fields[of "unat w" "2 ^ 52" "2 ^ 11"] by (simp add: f64_exp_def f64_man_def)
qed

lemma f64_make_fields:
  assumes "s < 2" "e < 2048" "m < 2 ^ 52"
  shows "f64_sign (f64_make s e m) = s" "f64_exp (f64_make s e m) = e" "f64_man (f64_make s e m) = m"
proof -
  have "s * 2 ^ 63 + e * 2 ^ 52 + m < 2 ^ LENGTH(64)"
    using assms by simp
  then have u: "unat (f64_make s e m) = s * 2 ^ 63 + e * 2 ^ 52 + m"
    unfolding f64_make_def by (rule unat_word_of_nat)
  have "s * 2 ^ 63 + e * 2 ^ 52 + m = (s * 2048 + e) * 2 ^ 52 + m" by simp
  then have "unat (f64_make s e m) div 2 ^ 52 = s * 2048 + e" and "unat (f64_make s e m) mod 2 ^ 52 = m"
    unfolding u using assms(3) by (simp_all only: div_mult_self3 mod_mult_self3) simp_all
  moreover have "unat (f64_make s e m) div 2 ^ 63 = unat (f64_make s e m) div 2 ^ 52 div 2048"
    by (simp add: div_mult2_eq[symmetric])
  ultimately
  show "f64_sign (f64_make s e m) = s" "f64_exp (f64_make s e m) = e" "f64_man (f64_make s e m) = m"
    using assms by (simp_all add: f64_sign_def f64_exp_def f64_man_def)
qed

lemma f32_make_fields: "f32_make (f32_sign w) (f32_exp w * 2 ^ 23 + f32_man w) = w"
  by (simp only: f32_make_def add.assoc[symmetric] f32_fields(1)[symmetric] word_of_nat_unat)

lemma f64_make_self: "f64_make (f64_sign w) (f64_exp w) (f64_man w) = w"
  by (simp only: f64_make_def f64_fields(1)[symmetric] word_of_nat_unat)

lemma f64_make_inject:
  assumes "f64_sign a = f64_sign b" "f64_exp a = f64_exp b" "f64_man a = f64_man b"
  shows "a = b"
  using f64_make_self[of a] f64_make_self[of b] unfolding assms by argo

lemma f64_to_f32_to_f64:
  assumes "\<not> f32_is_nan w"
  shows "f64_to_f32 (f32_to_f64 w) = w"
proof -
  let ?s = "f32_sign w" and ?e = "f32_exp w" and ?m = "f32_man w"
  note bounds = f32_fields(2-4)[of w]
  consider "?e = 255" "?m = 0" | "?e = 0" "?m = 0" | "?e = 0" "?m \<noteq> 0" | "0 < ?e" "?e < 255"
    using assms bounds(2) unfolding f32_is_nan_def by linarith
  then show ?thesis
  proof cases
    case 1
    have "f64_to_f32 (f64_make ?s 2047 0) = f32_make ?s (255 * 2 ^ 23)"
      using bounds by (simp add: f64_to_f32_def f64_make_fields)
    with 1 show ?thesis
      using f32_make_fields[of w] by (simp add: f32_to_f64_def)
  next
    case 2
    have "f64_to_f32 (f64_make ?s 0 0) = f32_make ?s 0"
      using bounds by (simp add: f64_to_f32_def f64_make_fields)
    with 2 show ?thesis
      using f32_make_fields[of w] by (simp add: f32_to_f64_def)
  next
    case 3
    let ?k = "flog2 ?m"
    have k: "?k < 23" using 3 bounds(3) by (intro flog2_less) simp_all
    have pow: "(2::nat) ^ ?k * 2 ^ (52 - ?k) = 2 ^ 52"
      using k by (simp flip: power_add)
    have "?m < 2 * 2 ^ ?k" "2 ^ ?k \<le> ?m" using flog2_bounds[of ?m] 3 by simp_all
    then have "(?m - 2 ^ ?k) * 2 ^ (52 - ?k) < 2 ^ ?k * 2 ^ (52 - ?k)"
      by (intro mult_strict_right_mono) simp_all
    then have man: "(?m - 2 ^ ?k) * 2 ^ (52 - ?k) < 2 ^ 52"
      unfolding pow .
    have sum: "2 ^ 52 + (?m - 2 ^ ?k) * 2 ^ (52 - ?k) = ?m * 2 ^ (52 - ?k)"
      using \<open>2 ^ ?k \<le> ?m\<close> unfolding pow[symmetric] by (simp flip: add_mult_distrib)
    have "f64_to_f32 (f64_make ?s (?k + 874) ((?m - 2 ^ ?k) * 2 ^ (52 - ?k))) = f32_make ?s ?m"
      using bounds k man sum rne_exact[of ?m "52 - ?k"]
      by (simp add: f64_to_f32_def f64_make_fields)
    with 3 show ?thesis
      using f32_make_fields[of w] by (simp add: f32_to_f64_def Let_def)
  next
    case 4
    have "?m * 2 ^ 29 < 2 ^ 52" using bounds(3) by simp
    moreover have "(?e + 896 - 896) * 2 ^ 23 + ?m < 255 * 2 ^ 23" using 4 bounds(3) by simp
    ultimately have "f64_to_f32 (f64_make ?s (?e + 896) (?m * 2 ^ 29)) = f32_make ?s (?e * 2 ^ 23 + ?m)"
      using 4 bounds rne_exact[of ?m 29] by (simp add: f64_to_f32_def f64_make_fields)
    with 4 show ?thesis
      using f32_make_fields[of w] by (simp add: f32_to_f64_def)
  qed
qed

lemma rne_le: "rne n k \<le> n div 2 ^ k + 1"
  by (simp add: rne_def Let_def)

lemma f32_make_sign: "s < 2 \<Longrightarrow> mag < 2 ^ 31 \<Longrightarrow> f32_sign (f32_make s mag) = s"
  by (simp only: f32_sign_def f32_make_def, subst unat_word_of_nat) simp_all

lemma f64_to_f32_sign: "f32_sign (f64_to_f32 w) = f64_sign w"
proof -
  let ?e = "f64_exp w" and ?m = "f64_man w"
  note bounds = f64_fields(2-4)[of w]
  have nan: "?m div 2 ^ 29 < 2 ^ 23"
    using bounds(3) by (intro less_mult_imp_div_less) simp
  have sub: "rne (2 ^ 52 + ?m) (926 - ?e) < 2 ^ 31" if "?e < 897"
  proof -
    have "(2::nat) ^ 30 \<le> 2 ^ (926 - ?e)"
      using that by (intro power_increasing) simp_all
    then have "(2 ^ 52 + ?m) div 2 ^ (926 - ?e) \<le> (2 ^ 52 + ?m) div 2 ^ 30"
      by (intro div_le_mono2) simp_all
    also have "(2 ^ 52 + ?m) div 2 ^ 30 < 2 ^ 23"
      using bounds(3) by (intro less_mult_imp_div_less) simp
    finally show ?thesis
      using rne_le[of "2 ^ 52 + ?m" "926 - ?e"] by simp
  qed
  show ?thesis
    using bounds(1) nan sub
    by (simp add: f64_to_f32_def Let_def f32_make_sign min_less_iff_disj)
qed

lemma f32_to_f64_sign: "f64_sign (f32_to_f64 w) = f32_sign w"
proof -
  let ?k = "flog2 (f32_man w)"
  note bounds = f32_fields(2-4)[of w]
  have "?k + 874 < 2048 \<and> (f32_man w - 2 ^ ?k) * 2 ^ (52 - ?k) < 2 ^ 52" if "f32_man w \<noteq> 0"
  proof -
    have k: "?k < 23" using that bounds(3) by (intro flog2_less) simp_all
    have "f32_man w - 2 ^ ?k < 2 ^ ?k"
      using flog2_bounds[of "f32_man w"] that by linarith
    then have "(f32_man w - 2 ^ ?k) * 2 ^ (52 - ?k) < 2 ^ ?k * 2 ^ (52 - ?k)"
      by (intro mult_strict_right_mono) simp_all
    also have "(2::nat) ^ ?k * 2 ^ (52 - ?k) = 2 ^ 52"
      using k by (simp flip: power_add)
    finally show ?thesis using k by simp
  qed
  then show ?thesis
    using bounds by (auto simp: f32_to_f64_def Let_def f64_make_fields)
qed

text \<open>A narrowing that compares equal after widening is exact on bit patterns.\<close>

lemma f64_eq_narrow_exact:
  assumes "f64_eq (f32_to_f64 (f64_to_f32 v)) v"
  shows "f32_to_f64 (f64_to_f32 v) = v"
proof -
  have "f64_sign (f32_to_f64 (f64_to_f32 v)) = f64_sign v"
    by (simp add: f32_to_f64_sign f64_to_f32_sign)
  with assms show ?thesis
    by (auto simp: f64_eq_def f64_is_zero_def intro: f64_make_inject)
qed

end
