(* ===== verification/Abi_Tag.thy ===== *)
theory Abi_Tag
  imports Observation Ieee_Float
begin

text \<open>
  ABI v1 type tags and the scalar encoding of \<^verbatim>\<open>value_bytes\<close> (\<^verbatim>\<open>crates/driver-abi/src/tag.rs\<close>): the
  tag table in both directions, \<^verbatim>\<open>encode_value_bytes\<close>, \<^verbatim>\<open>decode_value_bytes\<close> and their round trips.
\<close>

section \<open>Tags\<close>

definition TAG_UNKNOWN :: nat where "TAG_UNKNOWN = 0"

datatype type_tag =
    Tag_Bool | Tag_I8 | Tag_I16 | Tag_I32 | Tag_I64
  | Tag_U8 | Tag_U16 | Tag_U32 | Tag_U64 | Tag_F32 | Tag_F64
  | Tag_String | Tag_Bytes | Tag_Array | Tag_Struct

fun tag_num :: "type_tag \<Rightarrow> nat" where
  "tag_num Tag_Bool = 1"
| "tag_num Tag_I8 = 2"
| "tag_num Tag_I16 = 3"
| "tag_num Tag_I32 = 4"
| "tag_num Tag_I64 = 5"
| "tag_num Tag_U8 = 6"
| "tag_num Tag_U16 = 7"
| "tag_num Tag_U32 = 8"
| "tag_num Tag_U64 = 9"
| "tag_num Tag_F32 = 10"
| "tag_num Tag_F64 = 11"
| "tag_num Tag_String = 12"
| "tag_num Tag_Bytes = 13"
| "tag_num Tag_Array = 14"
| "tag_num Tag_Struct = 15"

datatype tag_error =
    UnknownTag nat
  | ComplexTypeNeedsSchema nat
  | TypeMismatch nat
  | ComplexTypeNotEncodable
  | InvalidLength nat nat nat
  | InvalidBool u8
  | TagOutOfRange nat
  | InvalidUtf8

fun from_data_type :: "data_type \<Rightarrow> type_tag" where
  "from_data_type DT_Bool = Tag_Bool"
| "from_data_type DT_I8 = Tag_I8"
| "from_data_type DT_I16 = Tag_I16"
| "from_data_type DT_I32 = Tag_I32"
| "from_data_type DT_I64 = Tag_I64"
| "from_data_type DT_U8 = Tag_U8"
| "from_data_type DT_U16 = Tag_U16"
| "from_data_type DT_U32 = Tag_U32"
| "from_data_type DT_U64 = Tag_U64"
| "from_data_type DT_F32 = Tag_F32"
| "from_data_type DT_F64 = Tag_F64"
| "from_data_type DT_String = Tag_String"
| "from_data_type DT_Bytes = Tag_Bytes"
| "from_data_type (DT_Array _) = Tag_Array"
| "from_data_type (DT_Struct _) = Tag_Struct"

fun to_data_type :: "type_tag \<Rightarrow> data_type option" where
  "to_data_type Tag_Bool = Some DT_Bool"
| "to_data_type Tag_I8 = Some DT_I8"
| "to_data_type Tag_I16 = Some DT_I16"
| "to_data_type Tag_I32 = Some DT_I32"
| "to_data_type Tag_I64 = Some DT_I64"
| "to_data_type Tag_U8 = Some DT_U8"
| "to_data_type Tag_U16 = Some DT_U16"
| "to_data_type Tag_U32 = Some DT_U32"
| "to_data_type Tag_U64 = Some DT_U64"
| "to_data_type Tag_F32 = Some DT_F32"
| "to_data_type Tag_F64 = Some DT_F64"
| "to_data_type Tag_String = Some DT_String"
| "to_data_type Tag_Bytes = Some DT_Bytes"
| "to_data_type Tag_Array = None"
| "to_data_type Tag_Struct = None"

definition tag_try_from :: "nat \<Rightarrow> tag_error + type_tag" where
  "tag_try_from v =
     (if v = 1 then Inr Tag_Bool else if v = 2 then Inr Tag_I8 else if v = 3 then Inr Tag_I16
      else if v = 4 then Inr Tag_I32 else if v = 5 then Inr Tag_I64 else if v = 6 then Inr Tag_U8
      else if v = 7 then Inr Tag_U16 else if v = 8 then Inr Tag_U32 else if v = 9 then Inr Tag_U64
      else if v = 10 then Inr Tag_F32 else if v = 11 then Inr Tag_F64
      else if v = 12 then Inr Tag_String else if v = 13 then Inr Tag_Bytes
      else if v = 14 then Inr Tag_Array else if v = 15 then Inr Tag_Struct
      else Inl (UnknownTag v))"

definition data_type_to_tag :: "data_type option \<Rightarrow> nat" where
  "data_type_to_tag dt = (case dt of Some t \<Rightarrow> tag_num (from_data_type t) | None \<Rightarrow> TAG_UNKNOWN)"

definition tag_to_data_type :: "nat \<Rightarrow> tag_error + data_type option" where
  "tag_to_data_type tag =
     (if tag = TAG_UNKNOWN then Inr None
      else res_bind (tag_try_from tag) (\<lambda>t.
        case to_data_type t of
          Some dt \<Rightarrow> Inr (Some dt)
        | None \<Rightarrow> Inl (ComplexTypeNeedsSchema (tag_num t))))"

section \<open>Scalar encoding\<close>

definition exact_len :: "type_tag \<Rightarrow> nat \<Rightarrow> bytes \<Rightarrow> tag_error + unit" where
  "exact_len tag expected bs =
     (if length bs = expected then Inr () else Inl (InvalidLength (tag_num tag) expected (length bs)))"

text \<open>\<^verbatim>\<open>iN::try_from\<close> and \<^verbatim>\<open>uN::try_from\<close> on 64-bit patterns.\<close>

definition fits_signed :: "nat \<Rightarrow> u64 \<Rightarrow> bool" where
  "fits_signed n v \<longleftrightarrow> - (2 ^ (n - 1)) \<le> sint v \<and> sint v < 2 ^ (n - 1)"

definition fits_unsigned :: "nat \<Rightarrow> u64 \<Rightarrow> bool" where
  "fits_unsigned n v \<longleftrightarrow> unat v < 2 ^ n"

text \<open>\<^verbatim>\<open>std::str::from_utf8\<close>: well-formed UTF-8 as the Unicode standard defines it (no overlong forms,
  no surrogates, nothing past U+10FFFF).\<close>

definition cont :: "u8 \<Rightarrow> bool" where
  "cont b \<longleftrightarrow> 0x80 \<le> b \<and> b \<le> 0xBF"

fun utf8_valid :: "bytes \<Rightarrow> bool" where
  "utf8_valid [] = True"
| "utf8_valid (a # r) =
     (if a < 0x80 then utf8_valid r
      else case r of
        [] \<Rightarrow> False
      | b # r2 \<Rightarrow>
          if 0xC2 \<le> a \<and> a \<le> 0xDF then cont b \<and> utf8_valid r2
          else (case r2 of
            [] \<Rightarrow> False
          | c # r3 \<Rightarrow>
              if a = 0xE0 then 0xA0 \<le> b \<and> b \<le> 0xBF \<and> cont c \<and> utf8_valid r3
              else if a = 0xED then 0x80 \<le> b \<and> b \<le> 0x9F \<and> cont c \<and> utf8_valid r3
              else if 0xE1 \<le> a \<and> a \<le> 0xEF then cont b \<and> cont c \<and> utf8_valid r3
              else (case r3 of
                [] \<Rightarrow> False
              | d # r4 \<Rightarrow>
                  if a = 0xF0 then 0x90 \<le> b \<and> b \<le> 0xBF \<and> cont c \<and> cont d \<and> utf8_valid r4
                  else if a = 0xF4 then 0x80 \<le> b \<and> b \<le> 0x8F \<and> cont c \<and> cont d \<and> utf8_valid r4
                  else 0xF1 \<le> a \<and> a \<le> 0xF3 \<and> cont b \<and> cont c \<and> cont d \<and> utf8_valid r4)))"

definition encode_scalar :: "type_tag \<Rightarrow> raw_value \<Rightarrow> tag_error + bytes" where
  "encode_scalar tag v =
     (case (tag, v) of
         (Tag_Bool, RV_Bool b) \<Rightarrow> Inr [if b then 1 else 0]
       | (Tag_Bool, _) \<Rightarrow> Inl (TypeMismatch (tag_num tag))
       | (Tag_I8, RV_I64 x) \<Rightarrow>
           if fits_signed 8 x then Inr (le_bytes 1 x) else Inl (TagOutOfRange (tag_num tag))
       | (Tag_I16, RV_I64 x) \<Rightarrow>
           if fits_signed 16 x then Inr (le_bytes 2 x) else Inl (TagOutOfRange (tag_num tag))
       | (Tag_I32, RV_I64 x) \<Rightarrow>
           if fits_signed 32 x then Inr (le_bytes 4 x) else Inl (TagOutOfRange (tag_num tag))
       | (Tag_I64, RV_I64 x) \<Rightarrow> Inr (le_bytes 8 x)
       | (Tag_U8, RV_U64 x) \<Rightarrow>
           if fits_unsigned 8 x then Inr (le_bytes 1 x) else Inl (TagOutOfRange (tag_num tag))
       | (Tag_U16, RV_U64 x) \<Rightarrow>
           if fits_unsigned 16 x then Inr (le_bytes 2 x) else Inl (TagOutOfRange (tag_num tag))
       | (Tag_U32, RV_U64 x) \<Rightarrow>
           if fits_unsigned 32 x then Inr (le_bytes 4 x) else Inl (TagOutOfRange (tag_num tag))
       | (Tag_U64, RV_U64 x) \<Rightarrow> Inr (le_bytes 8 x)
       | (Tag_F32, RV_F64 x) \<Rightarrow>
           (let x32 = f64_to_f32 x in
            if f64_is_finite x \<and> f32_is_infinite x32 then Inl (TagOutOfRange (tag_num tag))
            else Inr (le_bytes 4 x32))
       | (Tag_F64, RV_F64 x) \<Rightarrow> Inr (le_bytes 8 x)
       | (Tag_String, RV_String s) \<Rightarrow> Inr (string_bytes s)
       | (Tag_Bytes, RV_Bytes b) \<Rightarrow> Inr b
       | (Tag_Array, _) \<Rightarrow> Inl ComplexTypeNotEncodable
       | (Tag_Struct, _) \<Rightarrow> Inl ComplexTypeNotEncodable
       | _ \<Rightarrow> Inl (TypeMismatch (tag_num tag)))"

definition encode_value_bytes :: "nat \<Rightarrow> raw_value \<Rightarrow> tag_error + bytes" where
  "encode_value_bytes tagn v = res_bind (tag_try_from tagn) (\<lambda>tag. encode_scalar tag v)"

text \<open>A decoded integer is sign-extended (\<open>scast\<close>) or zero-extended (\<open>ucast\<close>) to 64 bits.\<close>

definition decode_scalar :: "type_tag \<Rightarrow> bytes \<Rightarrow> tag_error + raw_value" where
  "decode_scalar tag bs =
     (case tag of
         Tag_Bool \<Rightarrow> res_bind (exact_len tag 1 bs) (\<lambda>_.
           if bs ! 0 = 0 then Inr (RV_Bool False)
           else if bs ! 0 = 1 then Inr (RV_Bool True)
           else Inl (InvalidBool (bs ! 0)))
       | Tag_I8 \<Rightarrow> res_bind (exact_len tag 1 bs) (\<lambda>_. Inr (RV_I64 (scast (of_le_bytes bs :: u8))))
       | Tag_I16 \<Rightarrow> res_bind (exact_len tag 2 bs) (\<lambda>_. Inr (RV_I64 (scast (of_le_bytes bs :: u16))))
       | Tag_I32 \<Rightarrow> res_bind (exact_len tag 4 bs) (\<lambda>_. Inr (RV_I64 (scast (of_le_bytes bs :: u32))))
       | Tag_I64 \<Rightarrow> res_bind (exact_len tag 8 bs) (\<lambda>_. Inr (RV_I64 (of_le_bytes bs)))
       | Tag_U8 \<Rightarrow> res_bind (exact_len tag 1 bs) (\<lambda>_. Inr (RV_U64 (ucast (of_le_bytes bs :: u8))))
       | Tag_U16 \<Rightarrow> res_bind (exact_len tag 2 bs) (\<lambda>_. Inr (RV_U64 (ucast (of_le_bytes bs :: u16))))
       | Tag_U32 \<Rightarrow> res_bind (exact_len tag 4 bs) (\<lambda>_. Inr (RV_U64 (ucast (of_le_bytes bs :: u32))))
       | Tag_U64 \<Rightarrow> res_bind (exact_len tag 8 bs) (\<lambda>_. Inr (RV_U64 (of_le_bytes bs)))
       | Tag_F32 \<Rightarrow> res_bind (exact_len tag 4 bs) (\<lambda>_. Inr (RV_F64 (f32_to_f64 (of_le_bytes bs))))
       | Tag_F64 \<Rightarrow> res_bind (exact_len tag 8 bs) (\<lambda>_. Inr (RV_F64 (of_le_bytes bs)))
       | Tag_String \<Rightarrow>
           if utf8_valid bs then Inr (RV_String (bytes_string bs)) else Inl InvalidUtf8
       | Tag_Bytes \<Rightarrow> Inr (RV_Bytes bs)
       | Tag_Array \<Rightarrow> Inl ComplexTypeNotEncodable
       | Tag_Struct \<Rightarrow> Inl ComplexTypeNotEncodable)"

definition decode_value_bytes :: "nat \<Rightarrow> bytes \<Rightarrow> tag_error + raw_value" where
  "decode_value_bytes tagn bs = res_bind (tag_try_from tagn) (\<lambda>tag. decode_scalar tag bs)"

section \<open>The tag table\<close>

lemma tag_try_from_tag_num [simp]: "tag_try_from (tag_num t) = Inr t"
  by (cases t) (simp_all add: tag_try_from_def)

lemma tag_num_inject: "tag_num s = tag_num t \<longleftrightarrow> s = t"
  by (metis sum.inject(2) tag_try_from_tag_num)

lemma tag_try_from_InrD: "tag_try_from v = Inr t \<Longrightarrow> v = tag_num t"
  by (auto simp: tag_try_from_def split: if_splits)

lemma tag_try_from_Inr_iff: "tag_try_from v = Inr t \<longleftrightarrow> v = tag_num t"
  using tag_try_from_InrD tag_try_from_tag_num by blast

lemma tag_num_not_unknown [simp]: "tag_num t \<noteq> TAG_UNKNOWN"
  by (cases t) (simp_all add: TAG_UNKNOWN_def)

section \<open>Round trips\<close>

lemma narrow_signed:
  "fits_signed 8 x \<Longrightarrow> scast (of_le_bytes (le_bytes 1 x) :: u8) = x"
  "fits_signed 16 x \<Longrightarrow> scast (of_le_bytes (le_bytes 2 x) :: u16) = x"
  "fits_signed 32 x \<Longrightarrow> scast (of_le_bytes (le_bytes 4 x) :: u32) = x"
  using scast_ucast_small[of x, where 'b = 8] scast_ucast_small[of x, where 'b = 16]
    scast_ucast_small[of x, where 'b = 32]
  by (simp_all add: fits_signed_def of_le_bytes_le_bytes_ucast ucast_take_bit)

lemma fits_unsigned_ucast:
  "fits_unsigned 8 (ucast (a :: u8))" "fits_unsigned 16 (ucast (b :: u16))" "fits_unsigned 32 (ucast (c :: u32))"
  using le_less_trans[OF unat_ucast_le[where w = a] unsigned_less]
    le_less_trans[OF unat_ucast_le[where w = b] unsigned_less]
    le_less_trans[OF unat_ucast_le[where w = c] unsigned_less]
  by (simp_all add: fits_unsigned_def)

lemma fits_signed_scast:
  "fits_signed 8 (scast (a :: u8))" "fits_signed 16 (scast (b :: u16))" "fits_signed 32 (scast (c :: u32))"
  using sint_lt[of a] sint_ge[of a] sint_lt[of b] sint_ge[of b] sint_lt[of c] sint_ge[of c]
  by (simp_all add: fits_signed_def sint_scast_up)

lemma narrow_unsigned:
  "fits_unsigned 8 x \<Longrightarrow> ucast (of_le_bytes (le_bytes 1 x) :: u8) = x"
  "fits_unsigned 16 x \<Longrightarrow> ucast (of_le_bytes (le_bytes 2 x) :: u16) = x"
  "fits_unsigned 32 x \<Longrightarrow> ucast (of_le_bytes (le_bytes 4 x) :: u32) = x"
  by (simp_all add: fits_unsigned_def of_le_bytes_le_bytes_ucast ucast_take_bit ucast_ucast_small)

lemma f32_to_f64_infinite: "f32_is_infinite w \<Longrightarrow> \<not> f64_is_finite (f32_to_f64 w)"
  using f32_fields(2)[of w]
  by (simp add: f32_is_infinite_def f64_is_finite_def f32_to_f64_def f64_make_fields)

definition tag_canonical :: "type_tag \<Rightarrow> raw_value \<Rightarrow> raw_value" where
  "tag_canonical tag v =
     (case (tag, v) of (Tag_F32, RV_F64 x) \<Rightarrow> RV_F64 (f32_to_f64 (f64_to_f32 x)) | _ \<Rightarrow> v)"

lemma byte_round:
  "length bs = Suc 0 \<Longrightarrow> [ucast (scast (of_le_bytes bs :: u8) :: u64)] = bs"
  "length bs = Suc 0 \<Longrightarrow> [ucast (ucast (of_le_bytes bs :: u8) :: u64)] = bs"
  using le_bytes_scast[of 1 "of_le_bytes bs :: u8", where 'b = 64]
    le_bytes_ucast[of 1 "of_le_bytes bs :: u8", where 'b = 64]
    le_bytes_of_le_bytes[of bs, where 'a = 8]
  by simp_all

lemma word_round:
  "length bs = 2 \<Longrightarrow> le_bytes 2 (of_le_bytes bs :: u16) = bs"
  "length bs = 4 \<Longrightarrow> le_bytes 4 (of_le_bytes bs :: u32) = bs"
  "length bs = 8 \<Longrightarrow> le_bytes 8 (of_le_bytes bs :: u64) = bs"
  using le_bytes_of_le_bytes[of bs, where 'a = 16] le_bytes_of_le_bytes[of bs, where 'a = 32]
    le_bytes_of_le_bytes[of bs, where 'a = 64]
  by simp_all

lemma bool_round: "length bs = Suc 0 \<Longrightarrow> bs ! 0 = b \<Longrightarrow> [b] = bs"
  by (cases bs) auto

lemmas encode_round = byte_round word_round bool_round le_bytes_ucast le_bytes_scast
  fits_signed_scast fits_unsigned_ucast string_bytes_bytes_string f64_to_f32_to_f64

lemmas decode_round = narrow_unsigned narrow_unsigned(1)[simplified] narrow_signed
  narrow_signed(1)[simplified] of_le_bytes_le_bytes take_bit_full_word bytes_string_string_bytes

lemma decode_scalar_encode_scalar:
  assumes "encode_scalar tag v = Inr bs"
    and "\<And>s. v = RV_String s \<Longrightarrow> utf8_valid (string_bytes s)"
  shows "decode_scalar tag bs = Inr (tag_canonical tag v)"
  using assms
  by (cases tag; cases v)
    (auto simp: encode_scalar_def decode_scalar_def exact_len_def tag_canonical_def Let_def
      decode_round simp del: tag_num.simps split: if_splits)

lemma encode_scalar_decode_scalar:
  assumes "decode_scalar tag bs = Inr v"
    and "tag = Tag_F32 \<Longrightarrow> \<not> f32_is_nan (of_le_bytes bs)"
  shows "encode_scalar tag v = Inr bs"
  using assms f32_to_f64_infinite[of "of_le_bytes bs"]
  by (cases tag)
    (auto simp: encode_scalar_def decode_scalar_def exact_len_def result_simps Let_def encode_round
      simp del: tag_num.simps split: if_splits)

text \<open>C20: what the loader encodes for an ABI v1 tag is exactly what the driver decodes, at every tag
  and every value the encoder accepts (an \<^verbatim>\<open>F32\<close> tag delivers the value rounded to \<^verbatim>\<open>f32\<close>; a
  \<^verbatim>\<open>String\<close> is valid UTF-8, as every Rust \<^verbatim>\<open>String\<close> is).\<close>

theorem value_bytes_roundtrip:
  assumes "encode_value_bytes (tag_num tag) v = Inr bs"
    and "\<And>s. v = RV_String s \<Longrightarrow> utf8_valid (string_bytes s)"
  shows "decode_value_bytes (tag_num tag) bs = Inr (tag_canonical tag v)"
  using assms decode_scalar_encode_scalar
  by (simp add: encode_value_bytes_def decode_value_bytes_def del: tag_num.simps)

theorem value_bytes_roundtrip_witness:
  "decode_value_bytes 3 [0xFE, 0xFF] = Inr (RV_I64 (- 2))"
proof -
  have "encode_value_bytes (tag_num Tag_I16) (RV_I64 (- 2)) = Inr [0xFE, 0xFF]"
    by code_simp
  then show ?thesis
    using value_bytes_roundtrip[of Tag_I16 "RV_I64 (- 2)" "[0xFE, 0xFF]"]
    by (simp add: tag_canonical_def)
qed

lemma decode_encode_value_bytes:
  assumes "decode_value_bytes (tag_num tag) bs = Inr v"
    and "tag = Tag_F32 \<Longrightarrow> \<not> f32_is_nan (of_le_bytes bs)"
  shows "encode_value_bytes (tag_num tag) v = Inr bs"
  using assms encode_scalar_decode_scalar
  by (simp add: encode_value_bytes_def decode_value_bytes_def del: tag_num.simps)

lemma tag_to_data_type_to_tag:
  "tag_to_data_type (data_type_to_tag dt) =
     (case dt of
        None \<Rightarrow> Inr None
      | Some t \<Rightarrow> (case to_data_type (from_data_type t) of
          Some t' \<Rightarrow> Inr (Some t')
        | None \<Rightarrow> Inl (ComplexTypeNeedsSchema (tag_num (from_data_type t)))))"
  by (simp add: tag_to_data_type_def data_type_to_tag_def del: tag_num.simps split: option.splits)

end
