(* ===== verification/Modbus_Address.thy ===== *)
theory Modbus_Address
  imports Observation
begin

text \<open>
  Modbus addresses (\<^verbatim>\<open>drivers/modbus/src/address.rs\<close>): the register segments, the four textual forms
  accepted by \<^verbatim>\<open>parse_address\<close>, the canonical form and the 16-bit protocol offset.
\<close>

section \<open>Register segments\<close>

datatype register_kind = Coil | DiscreteInput | InputRegister | HoldingRegister

text \<open>The derived \<^verbatim>\<open>Ord\<close> is the order of declaration; it orders the groups of a batch.\<close>

fun kind_rank :: "register_kind \<Rightarrow> nat" where
  "kind_rank Coil = 0"
| "kind_rank DiscreteInput = 1"
| "kind_rank InputRegister = 2"
| "kind_rank HoldingRegister = 3"

lemma kind_rank_inject: "kind_rank a = kind_rank b \<longleftrightarrow> a = b"
  by (cases a; cases b) simp_all

instantiation register_kind :: linorder
begin

definition less_eq_register_kind :: "register_kind \<Rightarrow> register_kind \<Rightarrow> bool" where
  "a \<le> b \<longleftrightarrow> kind_rank a \<le> kind_rank b"

definition less_register_kind :: "register_kind \<Rightarrow> register_kind \<Rightarrow> bool" where
  "a < b \<longleftrightarrow> kind_rank a < kind_rank b"

instance
  by standard (auto simp: less_eq_register_kind_def less_register_kind_def kind_rank_inject)

end

fun function_code :: "register_kind \<Rightarrow> u8" where
  "function_code Coil = 0x01"
| "function_code DiscreteInput = 0x02"
| "function_code HoldingRegister = 0x03"
| "function_code InputRegister = 0x04"

fun segment_base :: "register_kind \<Rightarrow> nat" where
  "segment_base Coil = 1"
| "segment_base DiscreteInput = 10001"
| "segment_base InputRegister = 30001"
| "segment_base HoldingRegister = 40001"

definition explicit_max :: "register_kind \<Rightarrow> nat" where
  "explicit_max k = segment_base k + 65535"

definition matches_numeric :: "register_kind \<Rightarrow> nat \<Rightarrow> bool" where
  "matches_numeric k address \<longleftrightarrow> address \<ge> segment_base k \<and> address < segment_base k + 9999"

fun kind_writable :: "register_kind \<Rightarrow> bool" where
  "kind_writable Coil = True"
| "kind_writable HoldingRegister = True"
| "kind_writable _ = False"

fun kind_name :: "register_kind \<Rightarrow> string" where
  "kind_name Coil = ''coil''"
| "kind_name DiscreteInput = ''discrete''"
| "kind_name InputRegister = ''input''"
| "kind_name HoldingRegister = ''holding''"

section \<open>Addresses\<close>

record modbus_address =
  ma_unit_id :: nat
  ma_kind :: register_kind
  ma_address :: nat

text \<open>\<^verbatim>\<open>(self.address - base) as u16\<close>: \<^verbatim>\<open>u32\<close> subtraction (wrapping in a release build), truncated.\<close>

definition offset :: "modbus_address \<Rightarrow> nat" where
  "offset a = ((ma_address a + 2 ^ 32 - segment_base (ma_kind a)) mod 2 ^ 32) mod 2 ^ 16"

definition canonical :: "modbus_address \<Rightarrow> string" where
  "canonical a =
     nat_to_string (ma_unit_id a) @ ''!'' @ kind_name (ma_kind a) @ '':'' @ nat_to_string (ma_address a)"

text \<open>The payload of \<open>InvalidSyntax\<close> is the whole input, or the name of an unknown segment.\<close>

datatype syntax_detail = WholeInput string | UnknownSegmentName string

datatype address_error =
    OutOfRange string
  | UnknownSegment string
  | InvalidSyntax syntax_detail
  | InvalidUnit nat

definition infer_kind_from_numeric :: "nat \<Rightarrow> address_error + register_kind" where
  "infer_kind_from_numeric number =
     (case find (\<lambda>k. matches_numeric k number) [Coil, DiscreteInput, InputRegister, HoldingRegister] of
        Some k \<Rightarrow> Inr k
      | None \<Rightarrow> Inl (UnknownSegment (nat_to_string number)))"

definition validate :: "register_kind \<Rightarrow> nat \<Rightarrow> address_error + modbus_address" where
  "validate kind number =
     (if number < segment_base kind \<or> number > explicit_max kind
      then Inl (OutOfRange (nat_to_string number))
      else Inr \<lparr>ma_unit_id = 1, ma_kind = kind, ma_address = number\<rparr>)"

definition parse_u8 :: "string \<Rightarrow> nat option" where "parse_u8 = parse_uint 255"
definition parse_u32 :: "string \<Rightarrow> nat option" where "parse_u32 = parse_uint 4294967295"

definition ok_or :: "'a option \<Rightarrow> 'e \<Rightarrow> 'e + 'a" where
  "ok_or r e = (case r of Some x \<Rightarrow> Inr x | None \<Rightarrow> Inl e)"

definition segment_of_name :: "string \<Rightarrow> register_kind option" where
  "segment_of_name name =
     (if name = ''coil'' then Some Coil
      else if name = ''discrete'' then Some DiscreteInput
      else if name = ''input'' then Some InputRegister
      else if name = ''holding'' then Some HoldingRegister
      else None)"

definition parse_address :: "string \<Rightarrow> nat \<Rightarrow> address_error + modbus_address" where
  "parse_address input default_unit_id =
     (if default_unit_id = 0 \<or> default_unit_id > 247 then Inl (InvalidUnit default_unit_id)
      else
        res_bind
          (case split_once (CHR ''!'') input of
             Some (u, rest) \<Rightarrow>
               res_bind (ok_or (parse_u8 (trim u)) (InvalidSyntax (WholeInput input)))
                 (\<lambda>unit. Inr (unit, rest))
           | None \<Rightarrow> Inr (default_unit_id, input))
          (\<lambda>(unit, rest).
             if unit = 0 \<or> unit > 247 then Inl (InvalidUnit unit)
             else
               res_bind
                 (case split_once (CHR '':'') rest of
                    Some (name, number) \<Rightarrow>
                      res_bind
                        (ok_or (segment_of_name (trim name))
                           (InvalidSyntax (UnknownSegmentName (trim name))))
                        (\<lambda>kind.
                           res_bind
                             (ok_or (parse_u32 (trim number)) (InvalidSyntax (WholeInput input)))
                             (\<lambda>n. Inr (kind, n)))
                  | None \<Rightarrow>
                      res_bind (ok_or (parse_u32 (trim rest)) (InvalidSyntax (WholeInput input)))
                        (\<lambda>n. res_bind (infer_kind_from_numeric n) (\<lambda>kind. Inr (kind, n))))
                 (\<lambda>(kind, number).
                    res_bind (validate kind number) (\<lambda>a. Inr (a\<lparr>ma_unit_id := unit\<rparr>)))))"

section \<open>Well-formed addresses\<close>

definition wf_address :: "modbus_address \<Rightarrow> bool" where
  "wf_address a \<longleftrightarrow>
     1 \<le> ma_unit_id a \<and> ma_unit_id a \<le> 247 \<and>
     segment_base (ma_kind a) \<le> ma_address a \<and> ma_address a \<le> explicit_max (ma_kind a)"

lemma ok_or_Inr [result_simps]: "ok_or r e = Inr x \<longleftrightarrow> r = Some x"
  by (auto simp: ok_or_def split: option.splits)

lemma ok_or_simps [simp]: "ok_or (Some x) e = Inr x" "ok_or None e = Inl e"
  by (simp_all add: ok_or_def)

lemma segment_base_pos: "1 \<le> segment_base k" "segment_base k \<le> 40001"
  by (cases k; simp)+

lemma offset_eq:
  assumes "segment_base (ma_kind a) \<le> ma_address a" "ma_address a \<le> explicit_max (ma_kind a)"
  shows "offset a = ma_address a - segment_base (ma_kind a)" "offset a \<le> 65535"
proof -
  define x where "x = ma_address a - segment_base (ma_kind a)"
  have x: "x < 65536"
    using assms by (simp add: explicit_max_def x_def)
  have "ma_address a + 2 ^ 32 - segment_base (ma_kind a) = x + 2 ^ 32"
    using assms(1) by (simp add: x_def)
  then have "offset a = (x + 2 ^ 32) mod 2 ^ 32 mod 2 ^ 16"
    by (simp only: offset_def)
  also have "\<dots> = x"
    using x by (subst mod_add_self2) simp
  finally show "offset a = ma_address a - segment_base (ma_kind a)" "offset a \<le> 65535"
    using x by (simp_all add: x_def)
qed

lemma validate_Inr [result_simps]:
  "validate k n = Inr a \<longleftrightarrow>
     a = \<lparr>ma_unit_id = 1, ma_kind = k, ma_address = n\<rparr> \<and> segment_base k \<le> n \<and> n \<le> explicit_max k"
  by (auto simp: validate_def)

lemma parse_address_wf: "parse_address s d = Inr a \<Longrightarrow> wf_address a"
  by (auto simp: parse_address_def wf_address_def result_simps split: if_splits option.splits prod.splits)

lemma kind_name_graphic: "\<forall>c\<in>set (kind_name k). graphic c"
  by (cases k) (simp_all add: graphic_def)

lemma trim_kind_name [simp]: "trim (kind_name k) = kind_name k"
  by (rule trim_graphic) (rule kind_name_graphic)

lemma segment_of_name_kind_name [simp]: "segment_of_name (kind_name k) = Some k"
  by (cases k) (simp_all add: segment_of_name_def)

lemma colon_not_in_kind_name: "CHR '':'' \<notin> set (kind_name k)"
  by (cases k) simp_all

lemma split_once_canonical:
  "split_once (CHR ''!'') (canonical a) =
     Some (nat_to_string (ma_unit_id a), kind_name (ma_kind a) @ '':'' @ nat_to_string (ma_address a))"
  "split_once (CHR '':'') (kind_name (ma_kind a) @ CHR '':'' # nat_to_string (ma_address a)) =
     Some (kind_name (ma_kind a), nat_to_string (ma_address a))"
  using split_once_append[OF not_in_nat_to_string[of "CHR ''!''" "ma_unit_id a"]]
    split_once_append[OF colon_not_in_kind_name]
  by (simp_all add: canonical_def)

lemma parse_address_canonical:
  assumes "wf_address a" "1 \<le> d" "d \<le> 247"
  shows "parse_address (canonical a) d = Inr a"
proof -
  have "ma_unit_id a \<le> 255" "ma_address a \<le> 2 ^ 32 - 1"
    using assms(1) segment_base_pos(2)[of "ma_kind a"] by (simp_all add: wf_address_def explicit_max_def)
  then show ?thesis
    using assms
    by (simp add: parse_address_def split_once_canonical parse_u8_def parse_u32_def validate_def
        wf_address_def)
qed

section \<open>Properties\<close>

text \<open>Every address the parser accepts is within the protocol: the unit is in 1..=247, the register
  number lies in its segment, and the protocol offset is the distance to the segment base, without
  underflow and within 16 bits.\<close>

theorem parse_address_sound:
  assumes "parse_address s d = Inr a"
  shows "1 \<le> ma_unit_id a \<and> ma_unit_id a \<le> 247 \<and>
    ma_address a = segment_base (ma_kind a) + offset a \<and> offset a \<le> 65535"
  using parse_address_wf[OF assms] offset_eq[of a]
  by (simp add: wf_address_def)

theorem parse_address_sound_witness:
  "parse_address ''2!holding:40011'' 1 = Inr \<lparr>ma_unit_id = 2, ma_kind = HoldingRegister, ma_address = 40011\<rparr>
   \<and> offset \<lparr>ma_unit_id = 2, ma_kind = HoldingRegister, ma_address = 40011\<rparr> = 10"
proof -
  have "parse_address ''2!holding:40011'' 1 =
      Inr \<lparr>ma_unit_id = 2, ma_kind = HoldingRegister, ma_address = 40011\<rparr>"
    using trim_graphic[of "''2''"] trim_graphic[of "''holding''"] trim_graphic[of "''40011''"]
    by (simp add: parse_address_def graphic_def parse_u8_def parse_u32_def digit_val_def
        segment_of_name_def validate_def explicit_max_def)
  with parse_address_sound[OF this] show ?thesis by simp
qed

text \<open>C19: the canonical form of a well-formed address parses back to that address, whatever default unit
  is configured; so canonical forms identify addresses.\<close>

theorem canonical_roundtrip:
  assumes "wf_address a" "1 \<le> d" "d \<le> 247"
  shows "parse_address (canonical a) d = Inr a \<and>
    (\<forall>b. wf_address b \<longrightarrow> canonical b = canonical a \<longrightarrow> b = a)"
  using parse_address_canonical[OF assms] parse_address_canonical[OF _ assms(2,3)]
  by (metis sum.inject(2))

theorem canonical_roundtrip_witness:
  "parse_address (canonical \<lparr>ma_unit_id = 3, ma_kind = Coil, ma_address = 1\<rparr>) 1 =
     Inr \<lparr>ma_unit_id = 3, ma_kind = Coil, ma_address = 1\<rparr>"
  using canonical_roundtrip[of "\<lparr>ma_unit_id = 3, ma_kind = Coil, ma_address = 1\<rparr>" 1]
  by (simp add: wf_address_def explicit_max_def)

end
