(* ===== verification/Rust_Index.thy ===== *)
theory Rust_Index
  imports Prelude
begin

text \<open>
  Indexing and slicing of Rust: \<^verbatim>\<open>xs[i]\<close> and \<^verbatim>\<open>&xs[a..b]\<close> panic outside of the bounds. What a panic is depends on the
  function, so its value is the first argument; the rest of the function is the last one.
\<close>

definition at_index :: "'r \<Rightarrow> 'a list \<Rightarrow> nat \<Rightarrow> ('a \<Rightarrow> 'r) \<Rightarrow> 'r" where
  "at_index panic xs i k = (if i < length xs then k (xs ! i) else panic)"

definition in_slice :: "'r \<Rightarrow> 'a list \<Rightarrow> nat \<Rightarrow> nat \<Rightarrow> ('a list \<Rightarrow> 'r) \<Rightarrow> 'r" where
  "in_slice panic xs a b k = (if a \<le> b \<and> b \<le> length xs then k (take (b - a) (drop a xs)) else panic)"

text \<open>\<^verbatim>\<open>[xs[i], xs[j], ..]\<close>; \<^const>\<open>None\<close> is a panic.\<close>

fun gather :: "nat list \<Rightarrow> 'a list \<Rightarrow> 'a list option" where
  "gather [] xs = Some []"
| "gather (i # is) xs = at_index None xs i (\<lambda>x. map_option (\<lambda>ys. x # ys) (gather is xs))"

text \<open>\<^verbatim>\<open>xs[i] = x\<close>.\<close>

definition set_index :: "nat \<Rightarrow> 'a \<Rightarrow> 'a list \<Rightarrow> 'a list option" where
  "set_index i x xs = (if i < length xs then Some (xs[i := x]) else None)"

text \<open>Within the bounds there is no panic.\<close>

lemma at_index_in [simp]: "i < length xs \<Longrightarrow> at_index panic xs i k = k (xs ! i)"
  by (simp add: at_index_def)

lemma in_slice_in [simp]: "a \<le> b \<Longrightarrow> b \<le> length xs \<Longrightarrow> in_slice panic xs a b k = k (take (b - a) (drop a xs))"
  by (simp add: in_slice_def)

lemma gather_in: "\<forall>i\<in>set is. i < length xs \<Longrightarrow> gather is xs = Some (map (\<lambda>i. xs ! i) is)"
  by (induction "is") simp_all

lemma set_index_in [simp]: "i < length xs \<Longrightarrow> set_index i x xs = Some (xs[i := x])"
  by (simp add: set_index_def)

end
