(* ===== verification/Modbus_Frame.thy ===== *)
theory Modbus_Frame
  imports Modbus_Address Rust_Index
begin

text \<open>
  Modbus frames (\<^verbatim>\<open>drivers/modbus/src/crc.rs\<close> and \<^verbatim>\<open>drivers/modbus/src/frame.rs\<close>): the CRC16 of RTU
  frames, the request builders for TCP and RTU, the response headers, the echo check of writes and the
  table of exception codes. Static messages of \<^verbatim>\<open>FrameError\<close> are kept in English. An index or a slice out
  of bounds is the value \<open>FramePanic\<close> (\<^const>\<open>None\<close> for \<open>verify\<close>); the lemmas named \<open>_alt\<close> show that the guards
  before the accesses exclude it.
\<close>

section \<open>CRC16\<close>

definition crc_shift :: "u16 \<Rightarrow> u16" where
  "crc_shift crc = (if crc AND 1 \<noteq> 0 then drop_bit 1 crc XOR 0xA001 else drop_bit 1 crc)"

definition crc_byte :: "u16 \<Rightarrow> u8 \<Rightarrow> u16" where
  "crc_byte crc b = (crc_shift ^^ 8) (crc XOR ucast b)"

definition crc16 :: "bytes \<Rightarrow> u16" where
  "crc16 data = foldl crc_byte 0xFFFF data"

text \<open>\<^verbatim>\<open>split_at\<close> panics beyond the end, and so does the access to the two bytes of the check sum.\<close>

definition verify :: "bytes \<Rightarrow> bool option" where
  "verify frame =
     (if length frame < 2 then Some False
      else
        (let n = length frame - 2; payload = take n frame; expected = drop n frame in
         map_option (\<lambda>bs. crc16 payload = of_le_bytes bs) (gather [0, 1] expected)))"

definition crc_verify :: "bytes \<Rightarrow> bool" where
  "crc_verify frame \<longleftrightarrow> verify frame = Some True"

section \<open>Function codes and limits\<close>

definition FC_READ_COILS :: u8 where "FC_READ_COILS = 0x01"
definition FC_READ_DISCRETE_INPUTS :: u8 where "FC_READ_DISCRETE_INPUTS = 0x02"
definition FC_READ_HOLDING_REGISTERS :: u8 where "FC_READ_HOLDING_REGISTERS = 0x03"
definition FC_READ_INPUT_REGISTERS :: u8 where "FC_READ_INPUT_REGISTERS = 0x04"
definition FC_WRITE_SINGLE_COIL :: u8 where "FC_WRITE_SINGLE_COIL = 0x05"
definition FC_WRITE_SINGLE_REGISTER :: u8 where "FC_WRITE_SINGLE_REGISTER = 0x06"
definition FC_WRITE_MULTIPLE_COILS :: u8 where "FC_WRITE_MULTIPLE_COILS = 0x0F"
definition FC_WRITE_MULTIPLE_REGISTERS :: u8 where "FC_WRITE_MULTIPLE_REGISTERS = 0x10"

lemmas fc_defs = FC_READ_COILS_def FC_READ_DISCRETE_INPUTS_def FC_READ_HOLDING_REGISTERS_def
  FC_READ_INPUT_REGISTERS_def FC_WRITE_SINGLE_COIL_def FC_WRITE_SINGLE_REGISTER_def
  FC_WRITE_MULTIPLE_COILS_def FC_WRITE_MULTIPLE_REGISTERS_def

definition MAX_REGISTERS_PER_REQUEST :: nat where "MAX_REGISTERS_PER_REQUEST = 125"
definition MAX_BITS_PER_REQUEST :: nat where "MAX_BITS_PER_REQUEST = 2000"
definition MAX_WRITE_REGISTERS_PER_REQUEST :: nat where "MAX_WRITE_REGISTERS_PER_REQUEST = 123"
definition MAX_WRITE_BITS_PER_REQUEST :: nat where "MAX_WRITE_BITS_PER_REQUEST = 1968"

lemmas limit_defs = MAX_REGISTERS_PER_REQUEST_def MAX_BITS_PER_REQUEST_def
  MAX_WRITE_REGISTERS_PER_REQUEST_def MAX_WRITE_BITS_PER_REQUEST_def

definition is_write_function :: "u8 \<Rightarrow> bool" where
  "is_write_function f \<longleftrightarrow>
     f = FC_WRITE_SINGLE_COIL \<or> f = FC_WRITE_SINGLE_REGISTER \<or>
     f = FC_WRITE_MULTIPLE_COILS \<or> f = FC_WRITE_MULTIPLE_REGISTERS"

definition read_function_code :: "register_kind \<Rightarrow> u8" where
  "read_function_code kind = function_code kind"

definition is_bit_function :: "u8 \<Rightarrow> bool" where
  "is_bit_function f \<longleftrightarrow> f = FC_READ_COILS \<or> f = FC_READ_DISCRETE_INPUTS"

definition expected_data_len :: "u8 \<Rightarrow> u16 \<Rightarrow> nat" where
  "expected_data_len f quantity =
     (if f = FC_READ_COILS \<or> f = FC_READ_DISCRETE_INPUTS then (unat quantity + 7) div 8
      else if f = FC_READ_HOLDING_REGISTERS \<or> f = FC_READ_INPUT_REGISTERS then unat quantity * 2
      else if is_write_function f then 4
      else 0)"

section \<open>Requests\<close>

definition build_tcp_read_request :: "u16 \<Rightarrow> u8 \<Rightarrow> u8 \<Rightarrow> u16 \<Rightarrow> u16 \<Rightarrow> bytes" where
  "build_tcp_read_request transaction_id unit_id f start_offset quantity =
     be_bytes 2 transaction_id @ be_bytes 2 (0 :: u16) @ be_bytes 2 (6 :: u16) @
     [unit_id, f] @ be_bytes 2 start_offset @ be_bytes 2 quantity"

definition build_rtu_read_request :: "u8 \<Rightarrow> u8 \<Rightarrow> u16 \<Rightarrow> u16 \<Rightarrow> bytes" where
  "build_rtu_read_request unit_id f start_offset quantity =
     (let frame = [unit_id, f] @ be_bytes 2 start_offset @ be_bytes 2 quantity
      in frame @ le_bytes 2 (crc16 frame))"

definition build_tcp_write_request :: "u16 \<Rightarrow> u8 \<Rightarrow> u8 \<Rightarrow> u16 \<Rightarrow> bytes \<Rightarrow> bytes" where
  "build_tcp_write_request transaction_id unit_id f start_offset payload =
     be_bytes 2 transaction_id @ be_bytes 2 (0 :: u16) @
     be_bytes 2 (word_of_nat (4 + length payload) :: u16) @
     [unit_id, f] @ be_bytes 2 start_offset @ payload"

definition build_rtu_write_request :: "u8 \<Rightarrow> u8 \<Rightarrow> u16 \<Rightarrow> bytes \<Rightarrow> bytes" where
  "build_rtu_write_request unit_id f start_offset payload =
     (let frame = [unit_id, f] @ be_bytes 2 start_offset @ payload
      in frame @ le_bytes 2 (crc16 frame))"

section \<open>Responses\<close>

datatype frame_error = Truncated string | Invalid string | FramePanic

definition validate_write_echo :: "bytes \<Rightarrow> u16 \<Rightarrow> bytes \<Rightarrow> frame_error + unit" where
  "validate_write_echo data start_offset payload =
     (if length data \<noteq> 4 then Inl (Invalid ''write response is not a 4-byte echo'')
      else in_slice (Inl FramePanic) data 0 2 (\<lambda>address.
        if address \<noteq> be_bytes 2 start_offset then Inl (Invalid ''echoed address differs from the request'')
        else if length payload < 2 then Inl (Invalid ''echoed value or quantity differs from the request'')
        else in_slice (Inl FramePanic) data 2 4 (\<lambda>echo. in_slice (Inl FramePanic) payload 0 2 (\<lambda>sent.
          if echo \<noteq> sent then Inl (Invalid ''echoed value or quantity differs from the request'')
          else Inr ()))))"

record tcp_response_header =
  th_transaction_id :: u16
  th_unit_id :: u8
  th_data_len :: nat

definition parse_tcp_response_header :: "bytes \<Rightarrow> frame_error + tcp_response_header" where
  "parse_tcp_response_header header =
     (if length header < 7 then Inl (Truncated ''MBAP header shorter than 7 bytes'')
      else
        (case gather [2, 3] header of
           None \<Rightarrow> Inl FramePanic
         | Some protocol \<Rightarrow>
             if (of_be_bytes protocol :: u16) \<noteq> 0 then Inl (Invalid ''protocol id is not 0'')
             else
               (case gather [4, 5] header of
                  None \<Rightarrow> Inl FramePanic
                | Some len_bytes \<Rightarrow>
                    (let len = unat (of_be_bytes len_bytes :: u16) in
                     if len < 2 then Inl (Invalid ''MBAP length below 2'')
                     else
                       (case gather [0, 1] header of
                          None \<Rightarrow> Inl FramePanic
                        | Some transaction_id \<Rightarrow>
                            at_index (Inl FramePanic) header 6 (\<lambda>unit_id.
                              Inr \<lparr>th_transaction_id = of_be_bytes transaction_id, th_unit_id = unit_id, th_data_len = len - 1\<rparr>))))))"

record rtu_response_meta =
  rm_unit_id :: u8
  rm_function :: u8
  rm_is_exception :: bool
  rm_data_len :: nat

definition rtu_response_total_len :: "bytes \<Rightarrow> u8 \<Rightarrow> u16 \<Rightarrow> frame_error + nat" where
  "rtu_response_total_len frame request_function request_quantity =
     (if length frame < 2 then Inl (Truncated ''RTU response shorter than 2 bytes'')
      else at_index (Inl FramePanic) frame 1 (\<lambda>raw.
        let is_exception = (raw AND 0x80 \<noteq> 0); f = raw AND 0x7F in
        if f \<noteq> request_function then Inl (Invalid ''response function differs from the request'')
        else
          (let data_len =
             (if is_exception then 1
              else if is_write_function f then expected_data_len f request_quantity
              else 1 + expected_data_len f request_quantity)
           in Inr (2 + data_len + 2))))"

text \<open>\<^verbatim>\<open>frame.len() - 5\<close> is a \<^verbatim>\<open>usize\<close> subtraction, written with its wrap-around; every caller passes at
  least five bytes.\<close>

definition parse_rtu_response_meta :: "bytes \<Rightarrow> frame_error + rtu_response_meta" where
  "parse_rtu_response_meta frame =
     (if length frame < 4 then Inl (Truncated ''RTU response shorter than 4 bytes'')
      else at_index (Inl FramePanic) frame 0 (\<lambda>unit_id. at_index (Inl FramePanic) frame 1 (\<lambda>raw.
        let data_len = (if raw AND 0x80 \<noteq> 0 then 1 else (length frame + 2 ^ 64 - 5) mod 2 ^ 64) in
        Inr \<lparr>rm_unit_id = unit_id, rm_function = raw AND 0x7F,
             rm_is_exception = (raw AND 0x80 \<noteq> 0), rm_data_len = data_len\<rparr>)))"

definition exception_code_name :: "u8 \<Rightarrow> string \<times> bool" where
  "exception_code_name code =
     (if code = 0x01 then (''illegal function'', False)
      else if code = 0x02 then (''illegal data address'', False)
      else if code = 0x03 then (''illegal data value'', False)
      else if code = 0x04 then (''slave device failure'', True)
      else if code = 0x05 then (''acknowledge'', True)
      else if code = 0x06 then (''slave device busy'', True)
      else if code = 0x08 then (''memory parity error'', True)
      else if code = 0x0A then (''gateway path unavailable'', True)
      else if code = 0x0B then (''gateway target device failed to respond'', True)
      else (''unknown modbus exception'', True))"

section \<open>No access is out of bounds\<close>

lemma gather_pair: "i < length xs \<Longrightarrow> j < length xs \<Longrightarrow> gather [i, j] xs = Some [xs ! i, xs ! j]"
  by simp

lemma verify_total: "verify frame = Some (crc_verify frame)"
  by (cases "length frame < 2") (auto simp: crc_verify_def verify_def Let_def)

lemma crc_verify_alt:
  "crc_verify frame =
     (if length frame < 2 then False
      else crc16 (take (length frame - 2) frame) = of_le_bytes (drop (length frame - 2) frame))"
proof (cases "length frame < 2")
  case False
  define tail where "tail = drop (length frame - 2) frame"
  have "length tail = 2" using False by (simp add: tail_def)
  then obtain a b where "tail = [a, b]" by (auto simp: length_Suc_conv numeral_2_eq_2)
  then show ?thesis using False by (simp add: crc_verify_def verify_def Let_def flip: tail_def)
qed (simp add: crc_verify_def verify_def)

lemma validate_write_echo_alt:
  "validate_write_echo data start_offset payload =
     (if length data \<noteq> 4 then Inl (Invalid ''write response is not a 4-byte echo'')
      else if take 2 data \<noteq> be_bytes 2 start_offset
        then Inl (Invalid ''echoed address differs from the request'')
      else if length payload < 2 \<or> take 2 (drop 2 data) \<noteq> take 2 payload
        then Inl (Invalid ''echoed value or quantity differs from the request'')
      else Inr ())"
  by (simp add: validate_write_echo_def)

lemma parse_tcp_response_header_alt:
  "parse_tcp_response_header header =
     (if length header < 7 then Inl (Truncated ''MBAP header shorter than 7 bytes'')
      else if (of_be_bytes [header ! 2, header ! 3] :: u16) \<noteq> 0
        then Inl (Invalid ''protocol id is not 0'')
      else
        (let len = unat (of_be_bytes [header ! 4, header ! 5] :: u16) in
         if len < 2 then Inl (Invalid ''MBAP length below 2'')
         else Inr \<lparr>th_transaction_id = of_be_bytes [header ! 0, header ! 1],
                   th_unit_id = header ! 6, th_data_len = len - 1\<rparr>))"
proof (cases "length header < 7")
  case False
  then have "header \<noteq> []" by auto
  with False show ?thesis by (simp add: parse_tcp_response_header_def Let_def)
qed (simp add: parse_tcp_response_header_def)

lemma rtu_response_total_len_alt:
  "rtu_response_total_len frame request_function request_quantity =
     (if length frame < 2 then Inl (Truncated ''RTU response shorter than 2 bytes'')
      else
        (let raw = frame ! 1; f = raw AND 0x7F in
         if f \<noteq> request_function then Inl (Invalid ''response function differs from the request'')
         else
           Inr (4 + (if raw AND 0x80 \<noteq> 0 then 1
                else if is_write_function f then expected_data_len f request_quantity
                else 1 + expected_data_len f request_quantity))))"
  by (simp add: rtu_response_total_len_def Let_def)

lemma parse_rtu_response_meta_alt:
  "parse_rtu_response_meta frame =
     (if length frame < 4 then Inl (Truncated ''RTU response shorter than 4 bytes'')
      else
        (let raw = frame ! 1;
             data_len = (if raw AND 0x80 \<noteq> 0 then 1 else (length frame + 2 ^ 64 - 5) mod 2 ^ 64)
         in Inr \<lparr>rm_unit_id = frame ! 0, rm_function = raw AND 0x7F,
                 rm_is_exception = (raw AND 0x80 \<noteq> 0), rm_data_len = data_len\<rparr>))"
proof (cases "length frame < 4")
  case False
  then have "frame \<noteq> []" by auto
  with False show ?thesis by (simp add: parse_rtu_response_meta_def Let_def)
qed (simp add: parse_rtu_response_meta_def)

text \<open>No response makes a parser of frames panic.\<close>

lemma frame_no_panic:
  "validate_write_echo data off payload \<noteq> Inl FramePanic" "parse_tcp_response_header header \<noteq> Inl FramePanic"
  "rtu_response_total_len frame f q \<noteq> Inl FramePanic" "parse_rtu_response_meta frame \<noteq> Inl FramePanic"
  by (simp_all add: validate_write_echo_alt parse_tcp_response_header_alt rtu_response_total_len_alt
      parse_rtu_response_meta_alt Let_def)

section \<open>Facts on the CRC\<close>

lemma bit_crc_shift:
  "bit (crc_shift x) n \<longleftrightarrow> (bit x (Suc n) \<noteq> (bit x 0 \<and> bit (0xA001 :: u16) n))"
proof -
  have "x AND 1 \<noteq> 0 \<longleftrightarrow> bit x 0"
    by (simp add: and_one_eq bit_0 odd_iff_mod_2_eq_one)
  then show ?thesis
    by (auto simp: crc_shift_def bit_simps simp del: bit_0)
qed

lemma crc_shift_xor: "crc_shift (x XOR y) = crc_shift x XOR crc_shift y"
  by (rule bit_word_eqI) (auto simp: bit_crc_shift bit_xor_iff simp del: bit_0)

lemma crc_shift_zero_iff: "crc_shift x = 0 \<longleftrightarrow> x = 0"
proof
  assume z: "crc_shift x = 0"
  have "\<not> bit x 0"
    using bit_crc_shift[of x 15] z by (auto dest: bit_imp_le_length)
  then have "bit x (Suc n) = False" for n
    using bit_crc_shift[of x n] z by simp
  with \<open>\<not> bit x 0\<close> show "x = 0"
    by (intro bit_word_eqI) (metis bit_0_eq bot_apply bot_bool_def not0_implies_Suc)
qed (simp add: crc_shift_def)

lemma crc_shift_pow_xor: "(crc_shift ^^ n) (x XOR y) = (crc_shift ^^ n) x XOR (crc_shift ^^ n) y"
  by (induction n) (simp_all add: crc_shift_xor)

lemma crc_shift_pow_zero_iff: "(crc_shift ^^ n) x = 0 \<longleftrightarrow> x = 0"
  by (induction n) (simp_all add: crc_shift_zero_iff)

lemma xor_eq_0_iff_word: "x XOR y = 0 \<longleftrightarrow> x = (y :: 'a::len word)"
  by (metis xor.left_neutral xor.assoc xor_self_eq xor.right_neutral)

lemma xor_left_cancel: "c XOR x = c XOR y \<Longrightarrow> x = (y :: 'a::len word)"
  by (metis xor.assoc xor_self_eq xor.left_neutral)

lemma crc_shift_pow_inj: "(crc_shift ^^ n) x = (crc_shift ^^ n) y \<longleftrightarrow> x = y"
  by (metis crc_shift_pow_xor crc_shift_pow_zero_iff xor_eq_0_iff_word)

lemma crc_byte_inj: "crc_byte c b = crc_byte d b \<longleftrightarrow> c = d"
  by (simp add: crc_byte_def crc_shift_pow_inj) (metis xor.assoc xor_self_eq xor.right_neutral)

lemma crc_shift_push_bit:
  "n < 8 \<Longrightarrow> crc_shift (push_bit (Suc n) (ucast (b :: u8))) = push_bit n (ucast b)"
  by (rule bit_word_eqI) (auto simp: bit_crc_shift bit_simps simp del: bit_0 simp del: push_bit_Suc dest: bit_imp_le_length)

lemma crc_shift_pow_push_bit:
  "n \<le> 8 \<Longrightarrow> (crc_shift ^^ n) (push_bit n (ucast (b :: u8))) = ucast b"
  by (induction n) (simp_all add: funpow_swap1 crc_shift_push_bit del: push_bit_Suc)

lemma crc_two_bytes:
  "crc_byte (crc_byte c a) b = (crc_shift ^^ 16) (c XOR of_le_bytes [a, b])"
proof -
  let ?b = "push_bit 8 (ucast b) :: u16"
  have "of_le_bytes [a, b] = (ucast a XOR ?b :: u16)"
    by (rule bit_word_eqI) (auto simp: bit_simps dest: bit_imp_le_length)
  then have "(crc_shift ^^ 8) (c XOR of_le_bytes [a, b]) = (crc_shift ^^ 8) (c XOR ucast a) XOR ucast b"
    by (simp add: crc_shift_pow_push_bit[of 8 b] flip: crc_shift_pow_xor xor.assoc)
       (simp add: crc_shift_pow_xor crc_shift_pow_push_bit)
  then show ?thesis
    by (simp add: crc_byte_def funpow_add[of 8 8 crc_shift, simplified])
qed

lemma crc_two_bytes_inj:
  assumes "crc_byte (crc_byte c a) b = crc_byte (crc_byte c a') b'"
  shows "a = a' \<and> b = b'"
proof -
  have "(of_le_bytes [a, b] :: u16) = of_le_bytes [a', b']"
    using assms unfolding crc_two_bytes crc_shift_pow_inj by (rule xor_left_cancel)
  then show ?thesis
    using le_bytes_of_le_bytes[of "[a, b]", where 'a = 16]
      le_bytes_of_le_bytes[of "[a', b']", where 'a = 16] by simp
qed

lemma crc_foldl_inj: "foldl crc_byte c q = foldl crc_byte d q \<longleftrightarrow> c = d"
  by (induction q arbitrary: c d) (simp_all add: crc_byte_inj)

lemma le_bytes_u16_inverse: "length bs = 2 \<Longrightarrow> le_bytes 2 (of_le_bytes bs :: u16) = bs"
  using le_bytes_of_le_bytes[of bs, where 'a = 16] by simp

lemma crc_verify_iff:
  "crc_verify frame \<longleftrightarrow> (\<exists>payload. frame = payload @ le_bytes 2 (crc16 payload))"
proof
  assume v: "crc_verify frame"
  let ?p = "take (length frame - 2) frame" and ?t = "drop (length frame - 2) frame"
  from v have "2 \<le> length frame" and "crc16 ?p = of_le_bytes ?t"
    by (auto simp: crc_verify_alt split: if_splits)
  then have "frame = ?p @ le_bytes 2 (crc16 ?p)"
    by (simp add: le_bytes_u16_inverse)
  then show "\<exists>payload. frame = payload @ le_bytes 2 (crc16 payload)" ..
qed (auto simp: crc_verify_alt of_le_bytes_le_bytes take_bit_full_word)

lemma crc_verify_append: "length tail = 2 \<Longrightarrow> crc_verify (payload @ tail) \<longleftrightarrow> tail = le_bytes 2 (crc16 payload)"
  by (auto simp: crc_verify_iff append_eq_append_conv)

lemma le_bytes_u16_inj: "le_bytes 2 x = le_bytes 2 y \<longleftrightarrow> x = (y :: u16)"
proof
  assume "le_bytes 2 x = le_bytes 2 y"
  then have "(of_le_bytes (le_bytes 2 x) :: u16) = of_le_bytes (le_bytes 2 y)" by simp
  then show "x = y" by (simp add: of_le_bytes_le_bytes take_bit_full_word)
qed simp

text \<open>A change of one byte moves the high byte of the check sum: the difference is the image of a value
  below 256, and a difference confined to the low byte would be the image of a value above it.\<close>

lemma crc_byte_high_byte:
  assumes "le_bytes 2 (crc_byte c a) = [l, h]" and "le_bytes 2 (crc_byte c a') = [l', h]"
  shows "a = a'"
proof -
  have of_le: "z = ucast r XOR push_bit 8 (ucast h)" if "le_bytes 2 z = [r, h]" for z :: u16 and r
  proof -
    have "z = of_le_bytes [r, h]"
      using that[symmetric] by (simp add: of_le_bytes_le_bytes take_bit_full_word)
    also have "\<dots> = ucast r XOR push_bit 8 (ucast h)"
      by (rule bit_word_eqI) (auto simp: bit_simps dest: bit_imp_le_length)
    finally show ?thesis .
  qed
  have "crc_byte c a XOR crc_byte c a' = ucast (l XOR l')"
    unfolding of_le[OF assms(1)] of_le[OF assms(2)]
    by (rule bit_word_eqI) (auto simp: bit_simps)
  moreover have "crc_byte c a XOR crc_byte c a' = (crc_shift ^^ 8) (ucast (a XOR a'))"
    unfolding crc_byte_def crc_shift_pow_xor[symmetric]
    by (rule arg_cong[where f = "crc_shift ^^ 8"], rule bit_word_eqI) (auto simp: bit_simps)
  moreover have "(crc_shift ^^ 8) (push_bit 8 (ucast (l XOR l'))) = ucast (l XOR l')"
    by (rule crc_shift_pow_push_bit) simp
  ultimately have "(ucast (a XOR a') :: u16) = push_bit 8 (ucast (l XOR l'))"
    using crc_shift_pow_inj by metis
  then have "\<not> bit (ucast (a XOR a') :: u16) n" if "n < 8" for n
    using that by (simp add: bit_push_bit_iff)
  then show ?thesis
    by (intro bit_word_eqI) (auto simp: bit_simps)
qed

section \<open>Properties\<close>

text \<open>C18. Error detection of the RTU check sum: when a frame accepted by \<^verbatim>\<open>crc::verify\<close> is altered only
  within two neighbouring bytes, wherever they stand (in the payload, in the two trailing check bytes, or
  across the border), the altered frame is rejected.\<close>

theorem crc_detects_burst:
  assumes "crc_verify (pre @ [a, b] @ post)" and "[a', b'] \<noteq> [a, b]"
  shows "\<not> crc_verify (pre @ [a', b'] @ post)"
proof -
  consider "post = []" | c where "post = [c]" | q t where "post = q @ t" "length t = 2"
    by (metis append_take_drop_id diff_diff_cancel length_0_conv length_Suc_conv length_drop less_2_cases_iff
        linorder_not_le One_nat_def)
  then show ?thesis
  proof cases
    case 1
    then show ?thesis
      using assms crc_verify_append[of "[a, b]" pre] crc_verify_append[of "[a', b']" pre] by auto
  next
    case (2 c)
    have eq: "pre @ [x, y] @ post = (pre @ [x]) @ [y, c]" for x y
      by (simp add: 2)
    show ?thesis
    proof
      assume "crc_verify (pre @ [a', b'] @ post)"
      then have "le_bytes 2 (crc16 (pre @ [a'])) = [b', c]" "le_bytes 2 (crc16 (pre @ [a])) = [b, c]"
        using assms(1) unfolding eq by (simp_all only: crc_verify_append[of "[_, c]", simplified])
      moreover from this have "a = a'"
        using crc_byte_high_byte[of _ a b c a' b'] by (simp add: crc16_def)
      ultimately show False using assms(2) by simp
    qed
  next
    case (3 q t)
    have eq: "pre @ [x, y] @ post = (pre @ [x, y] @ q) @ t" for x y
      by (simp add: 3)
    have "crc16 (pre @ [a, b] @ q) \<noteq> crc16 (pre @ [a', b'] @ q)"
      using crc_two_bytes_inj[of _ a b a' b'] assms(2) by (auto simp: crc16_def crc_foldl_inj)
    then show ?thesis
      using assms(1) unfolding eq crc_verify_append[OF 3(2)] by (simp add: le_bytes_u16_inj)
  qed
qed

theorem crc_detects_burst_witness:
  "\<not> crc_verify ([0x01] @ [0x03, 0x01] @ [0x00, 0x00, 0x01] @ le_bytes 2 (crc16 [0x01, 0x03, 0x00, 0x00, 0x00, 0x01]))"
proof -
  have "crc_verify ([0x01, 0x03, 0x00, 0x00, 0x00, 0x01] @ le_bytes 2 (crc16 [0x01, 0x03, 0x00, 0x00, 0x00, 0x01]))"
    by (simp only: crc_verify_append length_le_bytes)
  then show ?thesis
    using crc_detects_burst[of "[0x01]" "0x03" "0x00" _ "0x03" "0x01"] by simp
qed

end
