(* ===== verification/Modbus_Codec.thy ===== *)
theory Modbus_Codec
  imports Abi_Tag Modbus_Frame
begin

text \<open>
  Conversion between protocol data and values (\<^verbatim>\<open>drivers/modbus/src/decode.rs\<close> and
  \<^verbatim>\<open>drivers/modbus/src/encode.rs\<close>): the decoders of bits and registers, the two word orders, and the
  encoder of writes with its rule for the width of a write. A failing item names the reason of its
  failure; the texts of the messages are not modelled. An index or a slice out of bounds and an
  \<^verbatim>\<open>unreachable!\<close> are the values \<open>DecodePanic\<close>, \<open>EncodePanic\<close> and \<^const>\<open>None\<close>.
\<close>

section \<open>Decoding\<close>

datatype word_order = Abcd | Cdab

datatype decode_error =
    BitBeyondData nat nat
  | BitSegmentNeedsBool data_type
  | RegisterSegmentRejectsBool register_kind
  | TypeNotDecodable data_type
  | DataTooShort nat nat nat
  | DecodePanic

fun register_width :: "data_type \<Rightarrow> nat option" where
  "register_width DT_U8 = Some 1"
| "register_width DT_I8 = Some 1"
| "register_width DT_U16 = Some 1"
| "register_width DT_I16 = Some 1"
| "register_width DT_U32 = Some 2"
| "register_width DT_I32 = Some 2"
| "register_width DT_F32 = Some 2"
| "register_width DT_U64 = Some 4"
| "register_width DT_I64 = Some 4"
| "register_width DT_F64 = Some 4"
| "register_width DT_Bool = Some 1"
| "register_width DT_String = None"
| "register_width DT_Bytes = None"
| "register_width (DT_Array _) = None"
| "register_width (DT_Struct _) = None"

definition decode_bit :: "bytes \<Rightarrow> nat \<Rightarrow> decode_error + bool" where
  "decode_bit bs bit_offset =
     (if bit_offset div 8 < length bs
      then Inr (drop_bit (bit_offset mod 8) (bs ! (bit_offset div 8)) AND 1 \<noteq> 0)
      else Inl (BitBeyondData bit_offset (length bs)))"

definition reorder_words4 :: "bytes \<Rightarrow> word_order \<Rightarrow> bytes option" where
  "reorder_words4 s wo = (case wo of Abcd \<Rightarrow> gather [0, 1, 2, 3] s | Cdab \<Rightarrow> gather [2, 3, 0, 1] s)"

definition reorder_words8 :: "bytes \<Rightarrow> word_order \<Rightarrow> bytes option" where
  "reorder_words8 s wo =
     (case wo of
        Abcd \<Rightarrow> gather [0, 1, 2, 3, 4, 5, 6, 7] s
      | Cdab \<Rightarrow> gather [6, 7, 4, 5, 2, 3, 0, 1] s)"

text \<open>The rest of a function after a step that may panic.\<close>

definition or_panic :: "'e \<Rightarrow> 'a option \<Rightarrow> ('a \<Rightarrow> 'e + 'b) \<Rightarrow> 'e + 'b" where
  "or_panic panic r k = (case r of None \<Rightarrow> Inl panic | Some x \<Rightarrow> k x)"

lemma or_panic_Some [simp]: "or_panic panic (Some x) k = k x"
  by (simp add: or_panic_def)

definition decode_u16 :: "bytes \<Rightarrow> nat \<Rightarrow> decode_error + u16" where
  "decode_u16 bs reg_offset =
     (let byte_start = reg_offset * 2; byte_end = byte_start + 2 in
      if length bs < byte_end then Inl (DataTooShort 1 byte_start (length bs))
      else or_panic DecodePanic (gather [byte_start, byte_start + 1] bs) (\<lambda>w. Inr (of_be_bytes w)))"

text \<open>\<open>of_slice\<close> is the final \<^verbatim>\<open>match\<close> of \<^verbatim>\<open>decode_register_value\<close>, on the slice of the value
  (the \<^verbatim>\<open>U16\<close> arm calls \<^verbatim>\<open>decode_u16\<close> on the same two bytes).\<close>

definition of_slice :: "data_type \<Rightarrow> bytes \<Rightarrow> word_order \<Rightarrow> decode_error + raw_value" where
  "of_slice dt s wo =
     (case dt of
        DT_U8 \<Rightarrow> at_index (Inl DecodePanic) s 1 (\<lambda>b. Inr (RV_U64 (ucast b)))
      | DT_I8 \<Rightarrow> at_index (Inl DecodePanic) s 1 (\<lambda>b. Inr (RV_I64 (scast b)))
      | DT_U16 \<Rightarrow> or_panic DecodePanic (gather [0, 1] s) (\<lambda>w. Inr (RV_U64 (ucast (of_be_bytes w :: u16))))
      | DT_I16 \<Rightarrow> or_panic DecodePanic (gather [0, 1] s) (\<lambda>w. Inr (RV_I64 (scast (of_be_bytes w :: u16))))
      | DT_U32 \<Rightarrow> or_panic DecodePanic (reorder_words4 s wo) (\<lambda>w. Inr (RV_U64 (ucast (of_be_bytes w :: u32))))
      | DT_I32 \<Rightarrow> or_panic DecodePanic (reorder_words4 s wo) (\<lambda>w. Inr (RV_I64 (scast (of_be_bytes w :: u32))))
      | DT_F32 \<Rightarrow> or_panic DecodePanic (reorder_words4 s wo) (\<lambda>w. Inr (RV_F64 (f32_to_f64 (of_be_bytes w))))
      | DT_U64 \<Rightarrow> or_panic DecodePanic (reorder_words8 s wo) (\<lambda>w. Inr (RV_U64 (of_be_bytes w)))
      | DT_I64 \<Rightarrow> or_panic DecodePanic (reorder_words8 s wo) (\<lambda>w. Inr (RV_I64 (of_be_bytes w)))
      | DT_F64 \<Rightarrow> or_panic DecodePanic (reorder_words8 s wo) (\<lambda>w. Inr (RV_F64 (of_be_bytes w)))
      | DT_Bool \<Rightarrow> Inl DecodePanic
      | _ \<Rightarrow> Inl (TypeNotDecodable dt))"

definition is_bit_segment :: "register_kind \<Rightarrow> bool" where
  "is_bit_segment kind \<longleftrightarrow> kind = Coil \<or> kind = DiscreteInput"

definition res_map :: "('a \<Rightarrow> 'b) \<Rightarrow> 'e + 'a \<Rightarrow> 'e + 'b" where
  "res_map f r = res_bind r (\<lambda>x. Inr (f x))"

definition decode_register_value ::
  "register_kind \<Rightarrow> bytes \<Rightarrow> nat \<Rightarrow> data_type option \<Rightarrow> word_order \<Rightarrow> decode_error + raw_value" where
  "decode_register_value kind bs reg_offset data_type wo =
     (case data_type of
        None \<Rightarrow>
          (if is_bit_segment kind then res_map RV_Bool (decode_bit bs reg_offset)
           else res_map (\<lambda>v. RV_U64 (ucast v)) (decode_u16 bs reg_offset))
      | Some dt \<Rightarrow>
          (if is_bit_segment kind then
             (if dt \<noteq> DT_Bool then Inl (BitSegmentNeedsBool dt)
              else res_map RV_Bool (decode_bit bs reg_offset))
           else if dt = DT_Bool then Inl (RegisterSegmentRejectsBool kind)
           else (case register_width dt of
               None \<Rightarrow> Inl (TypeNotDecodable dt)
             | Some words \<Rightarrow>
                 (let byte_start = reg_offset * 2; byte_end = byte_start + words * 2 in
                  if length bs < byte_end then Inl (DataTooShort words byte_start (length bs))
                  else in_slice (Inl DecodePanic) bs byte_start byte_end (\<lambda>s. of_slice dt s wo)))))"

section \<open>Encoding\<close>

datatype encode_error =
    CoilNeedsBool
  | InvalidTag tag_error
  | RegisterRejectsBool
  | ValueTagMismatch type_tag
  | BadRegisterLength nat
  | ReadOnlySegment register_kind
  | EncodePanic

datatype encoded_write = WCoil bool | WRegisters bytes

fun units :: "encoded_write \<Rightarrow> nat" where
  "units (WCoil _) = 1"
| "units (WRegisters d) = (length d div 2) mod 65536"

definition coil_payload :: "bool \<Rightarrow> bytes" where
  "coil_payload on = (if on then [0xFF, 0x00] else [0x00, 0x00])"

fun pack_from :: "nat \<Rightarrow> bool list \<Rightarrow> bytes \<Rightarrow> bytes option" where
  "pack_from i [] bs = Some bs"
| "pack_from i (b # bits) bs =
     (if b then at_index None bs (i div 8) (\<lambda>old.
        Option.bind (set_index (i div 8) (old OR push_bit (i mod 8) 1) bs) (pack_from (Suc i) bits))
      else pack_from (Suc i) bits bs)"

definition pack_bits :: "bool list \<Rightarrow> bytes option" where
  "pack_bits bits = pack_from 0 bits (replicate ((length bits + 7) div 8) 0)"

definition unsigned_be :: "u64 \<Rightarrow> nat \<Rightarrow> bytes" where
  "unsigned_be v words =
     (if words = 1 then be_bytes 2 (ucast v :: u16)
      else if words = 2 then be_bytes 4 (ucast v :: u32)
      else be_bytes 8 v)"

definition signed_be :: "u64 \<Rightarrow> nat \<Rightarrow> bytes" where
  "signed_be v words =
     (if words = 1 then be_bytes 2 (ucast v :: u16)
      else if words = 2 then be_bytes 4 (ucast v :: u32)
      else be_bytes 8 v)"

definition minimal_unsigned_words :: "u64 \<Rightarrow> nat" where
  "minimal_unsigned_words v = (if v \<le> 0xFFFF then 1 else if v \<le> 0xFFFFFFFF then 2 else 4)"

definition minimal_signed_words :: "u64 \<Rightarrow> nat" where
  "minimal_signed_words v =
     (if - (2 ^ 15) \<le> sint v \<and> sint v \<le> 2 ^ 15 - 1 then 1
      else if - (2 ^ 31) \<le> sint v \<and> sint v \<le> 2 ^ 31 - 1 then 2
      else 4)"

definition f32_lossless :: "u64 \<Rightarrow> bool" where
  "f32_lossless v \<longleftrightarrow> \<not> f64_is_nan v \<and> f64_eq (f32_to_f64 (f64_to_f32 v)) v"

definition register_bytes :: "type_tag \<Rightarrow> raw_value \<Rightarrow> encode_error + bytes" where
  "register_bytes tag v =
     (case (tag, v) of
        (Tag_U64, RV_U64 x) \<Rightarrow> Inr (unsigned_be x (minimal_unsigned_words x))
      | (Tag_I64, RV_I64 x) \<Rightarrow> Inr (signed_be x (minimal_signed_words x))
      | (Tag_U8, RV_U64 x) \<Rightarrow> Inr [0x00, ucast x]
      | (Tag_I8, RV_I64 x) \<Rightarrow> Inr [0x00, ucast x]
      | (Tag_U16, RV_U64 x) \<Rightarrow> Inr (be_bytes 2 (ucast x :: u16))
      | (Tag_I16, RV_I64 x) \<Rightarrow> Inr (be_bytes 2 (ucast x :: u16))
      | (Tag_U32, RV_U64 x) \<Rightarrow> Inr (be_bytes 4 (ucast x :: u32))
      | (Tag_I32, RV_I64 x) \<Rightarrow> Inr (be_bytes 4 (ucast x :: u32))
      | (Tag_F32, RV_F64 x) \<Rightarrow> Inr (be_bytes 4 (f64_to_f32 x))
      | (Tag_F64, RV_F64 x) \<Rightarrow>
          Inr (if f32_lossless x then be_bytes 4 (f64_to_f32 x) else be_bytes 8 x)
      | (Tag_Bool, _) \<Rightarrow> Inl RegisterRejectsBool
      | (tag, _) \<Rightarrow> Inl (ValueTagMismatch tag))"

definition encode_register_data :: "nat \<Rightarrow> raw_value \<Rightarrow> word_order \<Rightarrow> encode_error + bytes" where
  "encode_register_data value_type v wo =
     res_bind (res_map_err InvalidTag (tag_try_from value_type)) (\<lambda>tag.
     res_bind (register_bytes tag v) (\<lambda>bs.
       if length bs = 2 then Inr bs
       else if length bs = 4 then or_panic EncodePanic (reorder_words4 bs wo) Inr
       else if length bs = 8 then or_panic EncodePanic (reorder_words8 bs wo) Inr
       else Inl (BadRegisterLength (length bs))))"

definition encode_write_value ::
  "register_kind \<Rightarrow> nat \<Rightarrow> raw_value \<Rightarrow> word_order \<Rightarrow> encode_error + encoded_write" where
  "encode_write_value kind value_type v wo =
     (case kind of
        Coil \<Rightarrow> (case v of RV_Bool b \<Rightarrow> Inr (WCoil b) | _ \<Rightarrow> Inl CoilNeedsBool)
      | HoldingRegister \<Rightarrow> res_map WRegisters (encode_register_data value_type v wo)
      | _ \<Rightarrow> Inl (ReadOnlySegment kind))"

section \<open>Word orders\<close>

text \<open>The permutations of two and four registers, without the bounds of the accesses.\<close>

definition swap4 :: "bytes \<Rightarrow> word_order \<Rightarrow> bytes" where
  "swap4 s wo = (case wo of Abcd \<Rightarrow> [s ! 0, s ! 1, s ! 2, s ! 3] | Cdab \<Rightarrow> [s ! 2, s ! 3, s ! 0, s ! 1])"

definition swap8 :: "bytes \<Rightarrow> word_order \<Rightarrow> bytes" where
  "swap8 s wo =
     (case wo of
        Abcd \<Rightarrow> [s ! 0, s ! 1, s ! 2, s ! 3, s ! 4, s ! 5, s ! 6, s ! 7]
      | Cdab \<Rightarrow> [s ! 6, s ! 7, s ! 4, s ! 5, s ! 2, s ! 3, s ! 0, s ! 1])"

lemma reorder_words4_in: "length s = 4 \<Longrightarrow> reorder_words4 s wo = Some (swap4 s wo)"
  by (cases wo) (simp_all add: reorder_words4_def swap4_def gather_in del: gather.simps)

lemma reorder_words8_in: "length s = 8 \<Longrightarrow> reorder_words8 s wo = Some (swap8 s wo)"
  by (cases wo) (simp_all add: reorder_words8_def swap8_def gather_in del: gather.simps)

lemma length_swap [simp]: "length (swap4 s wo) = 4" "length (swap8 s wo) = 8"
  by (cases wo; simp add: swap4_def swap8_def)+

lemma swap4_involution: "length s = 4 \<Longrightarrow> swap4 (swap4 s wo) wo = s"
  by (cases wo; auto simp: swap4_def list_eq_iff_nth_eq less_Suc_eq numeral_eq_Suc)

lemma swap8_involution: "length s = 8 \<Longrightarrow> swap8 (swap8 s wo) wo = s"
  by (cases wo; auto simp: swap8_def list_eq_iff_nth_eq less_Suc_eq numeral_eq_Suc)

section \<open>No access is out of bounds\<close>

lemma gather_zero_one: "length s = 2 \<Longrightarrow> gather [0, 1] s = Some [s ! 0, s ! 1]"
  by (simp add: gather_in del: gather.simps)

lemma decode_u16_alt:
  "decode_u16 bs off =
     (if length bs < off * 2 + 2 then Inl (DataTooShort 1 (off * 2) (length bs))
      else Inr (of_be_bytes [bs ! (off * 2), bs ! (off * 2 + 1)]))"
  by (simp add: decode_u16_def Let_def gather_in del: gather.simps)

text \<open>The final match on a slice of the width of its type.\<close>

lemma of_slice_in:
  assumes "register_width dt = Some n" "length s = 2 * n" "dt \<noteq> DT_Bool"
  shows "\<exists>v. of_slice dt s wo = Inr v"
  using assms by (cases dt) (auto simp: of_slice_def gather_zero_one reorder_words4_in reorder_words8_in)

lemma decode_no_panic: "decode_register_value kind bs off ty wo \<noteq> Inl DecodePanic"
proof -
  have "of_slice dt (take (2 * n) (drop (off * 2) bs)) wo \<noteq> Inl DecodePanic"
    if "register_width dt = Some n" "dt \<noteq> DT_Bool" "\<not> length bs < off * 2 + n * 2" for dt n
    using of_slice_in[OF that(1) _ that(2), of "take (2 * n) (drop (off * 2) bs)" wo] that(3) by auto
  then show ?thesis
    by (auto simp: decode_register_value_def decode_bit_def decode_u16_alt res_map_def result_simps Let_def mult.commute
        split: option.splits if_splits)
qed

section \<open>Bits\<close>

lemma bit_set_bit_at:
  assumes "i div 8 < length bs" and "j div 8 < length bs"
  shows "bit ((bs[i div 8 := bs ! (i div 8) OR push_bit (i mod 8) 1]) ! (j div 8)) (j mod 8) \<longleftrightarrow>
           bit (bs ! (j div 8) :: u8) (j mod 8) \<or> i = j"
proof -
  have "i = j" if "i div 8 = j div 8" "i mod 8 = j mod 8"
    using that by (metis div_mult_mod_eq)
  then show ?thesis
    using assms by (auto simp: nth_list_update bit_simps)
qed

lemma pack_from_bits:
  assumes "n + length bits \<le> 8 * length bs"
  shows "\<exists>out. pack_from n bits bs = Some out \<and> length out = length bs \<and>
    (\<forall>j. j div 8 < length bs \<longrightarrow>
       (bit (out ! (j div 8)) (j mod 8) \<longleftrightarrow>
          bit (bs ! (j div 8)) (j mod 8) \<or> (n \<le> j \<and> j < n + length bits \<and> bits ! (j - n))))"
  using assms
proof (induction bits arbitrary: n bs)
  case (Cons b bits)
  define bs1 where "bs1 = (if b then bs[n div 8 := bs ! (n div 8) OR push_bit (n mod 8) 1] else bs)"
  have n: "n div 8 < length bs" using Cons.prems by (simp add: div_less_iff_less_mult)
  have step: "pack_from n (b # bits) bs = pack_from (Suc n) bits bs1" using n by (simp add: bs1_def)
  have shift: "(b # bits) ! (j - n) = bits ! (j - Suc n)" if "Suc n \<le> j" for j
    using that by (simp add: nth_Cons')
  have len: "length bs1 = length bs" by (simp add: bs1_def)
  have old: "bit (bs1 ! (j div 8)) (j mod 8) \<longleftrightarrow> bit (bs ! (j div 8)) (j mod 8) \<or> (n = j \<and> b)" if "j div 8 < length bs" for j
    using bit_set_bit_at[OF n that] by (simp add: bs1_def)
  obtain out where out: "pack_from (Suc n) bits bs1 = Some out" "length out = length bs"
    and bits: "\<And>j. j div 8 < length bs \<Longrightarrow> bit (out ! (j div 8)) (j mod 8) \<longleftrightarrow>
        bit (bs1 ! (j div 8)) (j mod 8) \<or> (Suc n \<le> j \<and> j < Suc n + length bits \<and> bits ! (j - Suc n))"
    using Cons.IH[of "Suc n" bs1] Cons.prems len by auto
  show ?case
    using out bits old shift unfolding step by (auto simp: nth_Cons' dest!: le_antisym)
qed auto

lemma pack_bits_total:
  obtains out where "pack_bits bits = Some out" "length out = (length bits + 7) div 8"
    "\<And>j. j < length bits \<Longrightarrow> bit (out ! (j div 8)) (j mod 8) \<longleftrightarrow> bits ! j"
proof -
  have "0 + length bits \<le> 8 * length (replicate ((length bits + 7) div 8) (0 :: u8))" by simp
  from pack_from_bits[OF this] obtain out where out: "pack_bits bits = Some out" "length out = (length bits + 7) div 8"
    "\<And>j. j div 8 < (length bits + 7) div 8 \<Longrightarrow> bit (out ! (j div 8)) (j mod 8) \<longleftrightarrow> j < length bits \<and> bits ! j"
    by (auto simp: pack_bits_def)
  moreover have "j div 8 < (length bits + 7) div 8" if "j < length bits" for j using that by linarith
  ultimately show ?thesis using that by blast
qed

lemma decode_bit_alt:
  "decode_bit bs i = (if i div 8 < length bs then Inr (bit (bs ! (i div 8)) (i mod 8))
                      else Inl (BitBeyondData i (length bs)))"
  by (simp add: decode_bit_def bit_iff_odd_drop_bit and_one_eq odd_iff_mod_2_eq_one)

lemma decode_bit_pack_bits:
  assumes "pack_bits bits = Some out" "i < length bits"
  shows "decode_bit out i = Inr (bits ! i)"
proof -
  have "i div 8 < (length bits + 7) div 8" using assms(2) by linarith
  moreover have "length out = (length bits + 7) div 8 \<and> bit (out ! (i div 8)) (i mod 8) = bits ! i"
    by (rule pack_bits_total[of bits]) (use assms in simp)
  ultimately show ?thesis by (simp add: decode_bit_alt)
qed

section \<open>Registers\<close>

text \<open>The type at which a written value is read back: the type of its tag, and for the carrier tags
  \<^verbatim>\<open>U64\<close>, \<^verbatim>\<open>I64\<close>, \<^verbatim>\<open>F64\<close> the smallest type that holds the value.\<close>

definition written_type :: "type_tag \<Rightarrow> raw_value \<Rightarrow> data_type" where
  "written_type tag v =
     (case (tag, v) of
        (Tag_U64, RV_U64 x) \<Rightarrow>
          (if unat x < 2 ^ 16 then DT_U16 else if unat x < 2 ^ 32 then DT_U32 else DT_U64)
      | (Tag_I64, RV_I64 x) \<Rightarrow>
          (if fits_signed 16 x then DT_I16 else if fits_signed 32 x then DT_I32 else DT_I64)
      | (Tag_F64, RV_F64 x) \<Rightarrow> (if f32_lossless x then DT_F32 else DT_F64)
      | _ \<Rightarrow> (case to_data_type tag of Some dt \<Rightarrow> dt | None \<Rightarrow> DT_Bytes))"

lemma word_le_unat: "v \<le> 0xFFFF \<longleftrightarrow> unat (v :: u64) < 2 ^ 16" "v \<le> 0xFFFFFFFF \<longleftrightarrow> unat v < 2 ^ 32"
  by (auto simp: word_le_nat_alt)

lemma minimal_unsigned_words_alt:
  "minimal_unsigned_words v = (if unat v < 2 ^ 16 then 1 else if unat v < 2 ^ 32 then 2 else 4)"
  by (simp add: minimal_unsigned_words_def word_le_unat)

lemma minimal_signed_words_alt:
  "minimal_signed_words v = (if fits_signed 16 v then 1 else if fits_signed 32 v then 2 else 4)"
  by (auto simp: minimal_signed_words_def fits_signed_def)

lemma be_pair: "length s = 2 \<Longrightarrow> [s ! 0, s ! Suc 0] = s"
  by (auto simp: list_eq_iff_nth_eq less_Suc_eq numeral_eq_Suc)

lemma f32_lossless_exact: "f32_lossless v \<Longrightarrow> f32_to_f64 (f64_to_f32 v) = v"
  using f64_eq_narrow_exact by (auto simp: f32_lossless_def)

lemma signed_back:
  "fits_signed 8 x \<Longrightarrow> scast (ucast x :: u8) = (x :: u64)"
  "fits_signed 16 x \<Longrightarrow> scast (ucast x :: u16) = (x :: u64)"
  "fits_signed 32 x \<Longrightarrow> scast (ucast x :: u32) = (x :: u64)"
  using scast_ucast_small[of x, where 'b = 8] scast_ucast_small[of x, where 'b = 16]
    scast_ucast_small[of x, where 'b = 32]
  by (simp_all add: fits_signed_def)

lemmas be_round = of_be_bytes_be_bytes take_bit_full_word signed_back ucast_ucast_small
  reorder_words4_in reorder_words8_in gather_zero_one swap4_involution swap8_involution be_pair f32_lossless_exact

text \<open>What \<^verbatim>\<open>decode_value_bytes\<close> delivers for a tag is within the range of the tag.\<close>

lemma decoded_in_range:
  "decode_scalar Tag_U8 bs = Inr (RV_U64 x) \<Longrightarrow> fits_unsigned 8 x"
  "decode_scalar Tag_U16 bs = Inr (RV_U64 x) \<Longrightarrow> fits_unsigned 16 x"
  "decode_scalar Tag_U32 bs = Inr (RV_U64 x) \<Longrightarrow> fits_unsigned 32 x"
  "decode_scalar Tag_I8 bs = Inr (RV_I64 x) \<Longrightarrow> fits_signed 8 x"
  "decode_scalar Tag_I16 bs = Inr (RV_I64 x) \<Longrightarrow> fits_signed 16 x"
  "decode_scalar Tag_I32 bs = Inr (RV_I64 x) \<Longrightarrow> fits_signed 32 x"
  by (auto simp: decode_scalar_def result_simps fits_unsigned_ucast fits_signed_scast)

lemma register_bytes_of_slice:
  assumes "register_bytes tag v = Inr bs" and "decode_scalar tag src = Inr v"
    and "length bs = 2 \<and> d = bs \<or> length bs = 4 \<and> d = swap4 bs wo \<or>
         length bs = 8 \<and> d = swap8 bs wo"
  shows "written_type tag v \<noteq> DT_Bool \<and> register_width (written_type tag v) = Some (length d div 2) \<and>
    length d \<in> {2, 4, 8} \<and> of_slice (written_type tag v) d wo = Inr (tag_canonical tag v)"
  using assms
  by (cases tag; cases v)
    (auto simp: register_bytes_def written_type_def of_slice_def tag_canonical_def unsigned_be_def signed_be_def
      minimal_unsigned_words_alt minimal_signed_words_alt be_round fits_unsigned_def
      dest: decoded_in_range split: if_splits)

lemma encode_register_data_shape:
  assumes "encode_register_data (tag_num tag) v wo = Inr d"
  shows "\<exists>bs. register_bytes tag v = Inr bs \<and>
    (length bs = 2 \<and> d = bs \<or> length bs = 4 \<and> d = swap4 bs wo \<or>
     length bs = 8 \<and> d = swap8 bs wo)"
  using assms
  by (auto simp: encode_register_data_def result_simps reorder_words4_in reorder_words8_in simp del: tag_num.simps split: if_splits)

lemma encode_no_panic: "encode_write_value kind ty v wo \<noteq> Inl EncodePanic"
proof -
  have "register_bytes tag v \<noteq> Inl EncodePanic" for tag
    by (cases tag; cases v) (simp_all add: register_bytes_def)
  then show ?thesis
    by (auto simp: encode_write_value_def encode_register_data_def res_map_def result_simps reorder_words4_in reorder_words8_in
        split: register_kind.splits raw_value.splits if_splits)
qed

text \<open>C17: a value delivered to the driver for an ABI tag and written to holding registers is read back
  unchanged, at every word order and wherever its registers stand in a response, when it is read at the
  type of its tag; a value under a carrier tag is written at its smallest lossless width and read back at
  the type of that width. The write covers exactly the registers of that type.\<close>

theorem register_write_read:
  assumes "decode_value_bytes (tag_num tag) src = Inr v"
    and "encode_write_value HoldingRegister (tag_num tag) v wo = Inr w"
    and "length pre = 2 * off"
  shows "\<exists>d. w = WRegisters d \<and> register_width (written_type tag v) = Some (units w) \<and>
    length d = 2 * units w \<and>
    decode_register_value HoldingRegister (pre @ d @ post) off (Some (written_type tag v)) wo =
      Inr (tag_canonical tag v)"
proof -
  obtain d where w: "w = WRegisters d" and d: "encode_register_data (tag_num tag) v wo = Inr d"
    using assms(2) by (auto simp: encode_write_value_def res_map_def result_simps simp del: tag_num.simps)
  have "decode_scalar tag src = Inr v"
    using assms(1) by (simp add: decode_value_bytes_def del: tag_num.simps)
  with encode_register_data_shape[OF d] register_bytes_of_slice
  have *: "written_type tag v \<noteq> DT_Bool" "register_width (written_type tag v) = Some (length d div 2)"
    "length d \<in> {2, 4, 8}" "of_slice (written_type tag v) d wo = Inr (tag_canonical tag v)"
    by blast+
  then have "units w = length d div 2" "length d = 2 * (length d div 2)"
    by (auto simp: w)
  with * assms(3) w show ?thesis
    by (auto simp: decode_register_value_def is_bit_segment_def)
qed

theorem register_write_read_witness:
  "\<exists>d. WRegisters [0x00, 0x01, 0x00, 0x02] = WRegisters d \<and> register_width DT_U32 = Some 2 \<and> length d = 2 * 2 \<and>
    decode_register_value HoldingRegister ([0xAA, 0xBB] @ d @ [0xCC]) 1 (Some DT_U32) Cdab =
      Inr (RV_U64 0x20001)"
proof -
  have "decode_value_bytes (tag_num Tag_U64) [1, 0, 2, 0, 0, 0, 0, 0] = Inr (RV_U64 0x20001)"
    by code_simp
  moreover have "encode_write_value HoldingRegister (tag_num Tag_U64) (RV_U64 0x20001) Cdab =
      Inr (WRegisters [0x00, 0x01, 0x00, 0x02])"
    by code_simp
  ultimately show ?thesis
    using register_write_read[of Tag_U64 "[1, 0, 2, 0, 0, 0, 0, 0]" "RV_U64 0x20001" Cdab
        "WRegisters [0x00, 0x01, 0x00, 0x02]" "[0xAA, 0xBB]" 1 "[0xCC]"]
    by (simp add: written_type_def tag_canonical_def)
qed

text \<open>The bit stream of a multiple-coil write, read with the decoder of bit segments, gives back
  every bit at its position, in exactly the number of bytes the protocol requires.\<close>

lemma packed_coils_read_back:
  "\<exists>out. pack_bits bits = Some out \<and> length out = (length bits + 7) div 8 \<and>
   (\<forall>i < length bits. decode_register_value Coil out i (Some DT_Bool) wo = Inr (RV_Bool (bits ! i)))"
proof (rule pack_bits_total[of bits])
  fix out assume "pack_bits bits = Some out" "length out = (length bits + 7) div 8"
  then show ?thesis
    by (simp add: decode_register_value_def is_bit_segment_def res_map_def decode_bit_pack_bits)
qed

text \<open>C22: a 32-bit property whose write arrives under the carrier tag \<^verbatim>\<open>U64\<close> with a non-zero value
  below 65536 is written to its first register only; in the default word order, reading the property back
  at its own type then never gives the value that was written, whatever its second register holds.\<close>

theorem narrowed_carrier_write_misread:
  assumes "unat x < 65536" and "x \<noteq> 0"
  shows "\<exists>d. encode_write_value HoldingRegister (tag_num Tag_U64) (RV_U64 x) Abcd = Inr (WRegisters d) \<and>
    length d = 2 \<and>
    decode_register_value HoldingRegister (d @ [hi, lo]) 0 (Some DT_U32) Abcd \<noteq> Inr (RV_U64 x)"
proof -
  let ?d = "be_bytes 2 (ucast x :: u16)"
  let ?r = "of_be_bytes (swap4 (?d @ [hi, lo]) Abcd) :: u32"
  have "encode_write_value HoldingRegister (tag_num Tag_U64) (RV_U64 x) Abcd = Inr (WRegisters ?d)"
    using assms(1) by (simp add: encode_write_value_def encode_register_data_def register_bytes_def res_map_def
        unsigned_be_def minimal_unsigned_words_alt del: tag_num.simps)
  moreover have "x \<noteq> ucast ?r"
  proof
    assume eq: "x = ucast ?r"
    have small: "\<not> bit x i" if "16 \<le> i" for i
      using assms(1) that bit_take_bit_iff[of 16 "unat x" i]
      by (simp add: take_bit_nat_eq_self flip: bit_unsigned_iff[where ?'a = nat]) (simp add: bit_simps)
    obtain i where i: "bit x i"
      using assms(2) by (metis bit_eq_iff bit_0_eq bot_apply bot_bool_def)
    then have "i < 16" using small leI by blast
    let ?u = "ucast x :: u16"
    have "?d = [ucast (drop_bit 8 ?u), ucast ?u]"
      by (simp add: be_bytes_def numeral_2_eq_2)
    then have r: "?r = of_le_bytes [lo, hi, ucast ?u, ucast (drop_bit 8 ?u)]"
      by (simp add: of_be_bytes_def swap4_def)
    have "bit ?r (16 + i) = bit x i"
    proof (cases "i < 8")
      case True
      then have "(16 + i) div 8 = 2" and "(16 + i) mod 8 = i" by presburger+
      with True show ?thesis
        unfolding r bit_of_le_bytes by (simp add: bit_simps)
    next
      case False
      with \<open>i < 16\<close> have "(16 + i) div 8 = 3" and "(16 + i) mod 8 = i - 8" "i - 8 < 8" by presburger+
      with False \<open>i < 16\<close> show ?thesis
        unfolding r bit_of_le_bytes by (simp add: bit_simps)
    qed
    then have "bit (ucast ?r :: u64) (16 + i) = bit x i"
      using \<open>i < 16\<close> by (simp add: bit_unsigned_iff)
    with small[of "16 + i"] eq i show False by simp
  qed
  ultimately show ?thesis
    by (simp add: decode_register_value_def is_bit_segment_def of_slice_def reorder_words4_in)
qed

theorem narrowed_carrier_write_misread_witness:
  "\<exists>d. encode_write_value HoldingRegister (tag_num Tag_U64) (RV_U64 5) Abcd = Inr (WRegisters d) \<and>
    length d = 2 \<and>
    decode_register_value HoldingRegister (d @ [0, 5]) 0 (Some DT_U32) Abcd \<noteq> Inr (RV_U64 5)"
  by (rule narrowed_carrier_write_misread) simp_all

end
