(* ===== verification/Modbus_Error.thy ===== *)
theory Modbus_Error
  imports Modbus_Codec
begin

text \<open>
  The error type of the Modbus driver (\<^verbatim>\<open>drivers/modbus/src/error.rs\<close>): stable codes, the protocol code
  of an exception response, the retry flag, and the split between errors of the transport (the session is
  lost) and errors of one request. Message texts are not modelled.
\<close>

record modbus_error =
  me_code :: string
  me_protocol_code :: "int option"
  me_retryable :: bool

definition new_error :: "string \<Rightarrow> bool \<Rightarrow> modbus_error" where
  "new_error code retryable = \<lparr>me_code = code, me_protocol_code = None, me_retryable = retryable\<rparr>"

definition connection_failed :: modbus_error where "connection_failed = new_error ''connection_failed'' True"
definition connection_lost :: modbus_error where "connection_lost = new_error ''connection_lost'' True"
definition timeout_error :: modbus_error where "timeout_error = new_error ''timeout'' True"
definition invalid_response :: modbus_error where "invalid_response = new_error ''invalid_response'' False"
definition invalid_address :: modbus_error where "invalid_address = new_error ''invalid_address'' False"
definition config_error :: modbus_error where "config_error = new_error ''config_error'' False"
definition decode_failed :: modbus_error where "decode_failed = new_error ''decode_error'' False"
definition invalid_type :: modbus_error where "invalid_type = new_error ''invalid_type'' False"
definition driver_panic :: modbus_error where "driver_panic = new_error ''DRIVER_PANIC'' False"
definition unsupported :: modbus_error where "unsupported = new_error ''unsupported'' False"

definition modbus_exception :: "u8 \<Rightarrow> modbus_error" where
  "modbus_exception code =
     \<lparr>me_code = ''modbus_exception'', me_protocol_code = Some (uint code),
      me_retryable = (\<not> (1 \<le> code \<and> code \<le> 3))\<rparr>"

definition into_info :: "modbus_error \<Rightarrow> driver_error_info" where
  "into_info e = \<lparr>ei_code = me_code e, ei_protocol_code = me_protocol_code e, ei_retryable = me_retryable e\<rparr>"

definition is_transport_level :: "modbus_error \<Rightarrow> bool" where
  "is_transport_level e \<longleftrightarrow>
     me_code e = ''connection_lost'' \<or> me_code e = ''connection_failed'' \<or>
     me_code e = ''timeout'' \<or> me_code e = ''invalid_response''"

lemmas error_defs = new_error_def connection_failed_def connection_lost_def timeout_error_def
  invalid_response_def invalid_address_def config_error_def decode_failed_def invalid_type_def
  driver_panic_def unsupported_def modbus_exception_def

lemma transport_level_simps [simp]:
  "is_transport_level connection_failed" "is_transport_level connection_lost"
  "is_transport_level timeout_error" "is_transport_level invalid_response"
  "\<not> is_transport_level invalid_address" "\<not> is_transport_level config_error"
  "\<not> is_transport_level decode_failed" "\<not> is_transport_level invalid_type"
  "\<not> is_transport_level driver_panic" "\<not> is_transport_level unsupported"
  "\<not> is_transport_level (modbus_exception c)"
  by (simp_all add: is_transport_level_def error_defs)

lemma invalid_address_no_panic [simp]: "invalid_address \<noteq> driver_panic"
  by (simp add: error_defs)

text \<open>The two places that decide whether an exception may be retried agree.\<close>

lemma exception_retryable_agrees: "me_retryable (modbus_exception c) = snd (exception_code_name c)"
proof -
  have "1 \<le> c \<and> c \<le> 3 \<longleftrightarrow> c = 1 \<or> c = 2 \<or> c = 3"
    by (auto simp: word_le_nat_alt word_unat_eq_iff)
  then show ?thesis
    by (simp add: modbus_exception_def exception_code_name_def)
qed

end
