(* ===== verification/Modbus_Batch.thy ===== *)
theory Modbus_Batch
  imports Modbus_Error "HOL-Library.Product_Lexorder"
begin

text \<open>
  Planning of batches (\<^verbatim>\<open>drivers/modbus/src/batch.rs\<close>): items are grouped by unit and segment, sorted by
  address, cut into runs of neighbouring items and the runs into requests within the protocol limits.
  A \<^verbatim>\<open>BTreeMap\<close> of vectors is an association list sorted by key (\<open>bt_push\<close> is
  \<^verbatim>\<open>entry(k).or_default().push(v)\<close>); the stable \<^verbatim>\<open>sort_by_key\<close> is \<^const>\<open>sort_key\<close>. A panic of the code
  (\<^verbatim>\<open>expect\<close>, \<^verbatim>\<open>unreachable!\<close>, an index out of bounds) is the value \<^const>\<open>None\<close>. Offsets and quantities are \<^verbatim>\<open>u16\<close>, with the
  reduction modulo 65536 written out where the code adds or subtracts at that width; this is the arithmetic of
  the release profile, in which the workspace does not enable overflow checks.
\<close>

section \<open>Groups and runs\<close>

fun bt_push :: "'k::linorder \<Rightarrow> 'v \<Rightarrow> ('k \<times> 'v list) list \<Rightarrow> ('k \<times> 'v list) list" where
  "bt_push k v [] = [(k, [v])]"
| "bt_push k v ((k', vs) # m) =
     (if k = k' then (k', vs @ [v]) # m
      else if k < k' then (k, [v]) # (k', vs) # m
      else (k', vs) # bt_push k v m)"

text \<open>The loop that collects a run until the next entry is not adjacent to its last one; the run that is
  left at the end is emitted too.\<close>

fun split_runs :: "('a \<Rightarrow> 'a \<Rightarrow> bool) \<Rightarrow> 'a list \<Rightarrow> 'a list \<Rightarrow> 'a list list" where
  "split_runs adj run [] = [run]"
| "split_runs adj run (e # es) =
     (if run \<noteq> [] \<and> \<not> adj (last run) e then run # split_runs adj [e] es
      else split_runs adj (run @ [e]) es)"

text \<open>The inner loop of both emitters: entries are taken while the sum of their widths stays within the
  limit.\<close>

fun take_chunk :: "('a \<Rightarrow> nat) \<Rightarrow> nat \<Rightarrow> nat \<Rightarrow> 'a list \<Rightarrow> 'a list \<times> 'a list" where
  "take_chunk width limit used [] = ([], [])"
| "take_chunk width limit used (e # es) =
     (if used + width e > limit then ([], e # es)
      else (let (c, rest) = take_chunk width limit (used + width e) es in (e # c, rest)))"

lemma take_chunk_append: "take_chunk w l u es = (c, rest) \<Longrightarrow> es = c @ rest"
  by (induction es arbitrary: u c rest) (auto simp: Let_def split: if_splits prod.splits)

section \<open>Reading\<close>

type_synonym group_entry = "nat \<times> modbus_address \<times> data_type option"
type_synonym group_key = "nat \<times> register_kind"

record planned_item =
  pi_item_id :: nat
  pi_offset_in_frame :: nat
  pi_expected_type :: "data_type option"
  pi_width :: nat

record read_plan =
  rp_unit_id :: nat
  rp_kind :: register_kind
  rp_start_offset :: nat
  rp_quantity :: nat
  rp_items :: "planned_item list"

definition item_width :: "register_kind \<Rightarrow> data_type option \<Rightarrow> nat" where
  "item_width kind expected_type =
     (if is_bit_segment kind then 1
      else (case expected_type of
          Some dt \<Rightarrow> (case register_width dt of Some w \<Rightarrow> w | None \<Rightarrow> 1)
        | None \<Rightarrow> 1))"

definition plan_item :: "register_kind \<Rightarrow> nat \<Rightarrow> group_entry \<Rightarrow> planned_item" where
  "plan_item kind chunk_start = (\<lambda>(item_id, addr, expected_type).
     \<lparr>pi_item_id = item_id,
      pi_offset_in_frame = (offset addr + 65536 - chunk_start) mod 65536,
      pi_expected_type = expected_type,
      pi_width = item_width kind expected_type\<rparr>)"

function emit_plan :: "nat \<Rightarrow> register_kind \<Rightarrow> nat \<Rightarrow> group_entry list \<Rightarrow> read_plan list option" where
  "emit_plan unit_id kind limit run =
     (if run = [] then Some []
      else
        (let chunk_start = offset (fst (snd (hd run)));
             (chunk, rest) = take_chunk (\<lambda>(_, _, ty). item_width kind ty) limit 0 run;
             items = map (plan_item kind chunk_start) chunk
         in if chunk = [] then None
            else
              (let l = last items;
                   plan = \<lparr>rp_unit_id = unit_id, rp_kind = kind, rp_start_offset = chunk_start,
                           rp_quantity = (pi_offset_in_frame l + pi_width l) mod 65536,
                           rp_items = items\<rparr>
               in map_option (\<lambda>plans. plan # plans) (emit_plan unit_id kind limit rest))))"
  by pat_completeness auto
termination
  by (relation "measure (\<lambda>(_, _, _, run). length run)") (auto dest!: sym[THEN take_chunk_append])

declare emit_plan.simps [simp del]

definition read_limit :: "register_kind \<Rightarrow> nat" where
  "read_limit kind = (if is_bit_segment kind then MAX_BITS_PER_REQUEST else MAX_REGISTERS_PER_REQUEST)"

definition read_adjacent :: "group_entry \<Rightarrow> group_entry \<Rightarrow> bool" where
  "read_adjacent prev e \<longleftrightarrow> ma_address (fst (snd e)) = ma_address (fst (snd prev)) + 1"

fun group_reads ::
  "driver_read_item list \<Rightarrow> nat \<Rightarrow> (group_key \<times> group_entry list) list \<Rightarrow>
   modbus_error + (group_key \<times> group_entry list) list" where
  "group_reads [] default_unit_id groups = Inr groups"
| "group_reads (item # items) default_unit_id groups =
     res_bind (res_map_err (\<lambda>_. invalid_address) (parse_address (ri_address item) default_unit_id))
       (\<lambda>address.
          if offset address + item_width (ma_kind address) (ri_expected_type item) > 65536
          then Inl invalid_address
          else group_reads items default_unit_id
                 (bt_push (ma_unit_id address, ma_kind address)
                    (ri_id item, address, ri_expected_type item) groups))"

text \<open>\<open>collect\<close> appends what the groups and runs emit; a panic in one of them is a panic of the whole.\<close>

fun collect :: "('a \<Rightarrow> 'b list option) \<Rightarrow> 'a list \<Rightarrow> 'b list option" where
  "collect f [] = Some []"
| "collect f (x # xs) =
     (case f x of None \<Rightarrow> None | Some ys \<Rightarrow> map_option (\<lambda>zs. ys @ zs) (collect f xs))"

definition plan_group :: "group_key \<times> group_entry list \<Rightarrow> read_plan list option" where
  "plan_group = (\<lambda>((unit_id, kind), group).
     collect (emit_plan unit_id kind (read_limit kind))
       (split_runs read_adjacent [] (sort_key (\<lambda>(_, addr, _). ma_address addr) group)))"

definition plan_batch :: "driver_read_item list \<Rightarrow> nat \<Rightarrow> (modbus_error + read_plan list) option" where
  "plan_batch items default_unit_id =
     (case group_reads items default_unit_id [] of
        Inl e \<Rightarrow> Some (Inl e)
      | Inr groups \<Rightarrow> map_option Inr (collect plan_group groups))"

section \<open>Writing\<close>

record write_request =
  wq_id :: nat
  wq_address :: string
  wq_value_type :: nat
  wq_value :: raw_value

type_synonym write_group_entry = "nat \<times> modbus_address \<times> encoded_write"

record write_plan =
  wp_unit_id :: nat
  wp_kind :: register_kind
  wp_function :: u8
  wp_start_offset :: nat
  wp_quantity :: nat
  wp_payload :: bytes
  wp_item_ids :: "nat list"

fun coil_of :: "encoded_write \<Rightarrow> bool option" where
  "coil_of (WCoil b) = Some b"
| "coil_of (WRegisters _) = None"

fun registers_of :: "encoded_write \<Rightarrow> bytes option" where
  "registers_of (WRegisters d) = Some d"
| "registers_of (WCoil _) = None"

definition multi_payload :: "nat \<Rightarrow> bytes \<Rightarrow> bytes" where
  "multi_payload quantity d = be_bytes 2 (word_of_nat quantity :: u16) @ [word_of_nat (length d)] @ d"

definition build_write_payload ::
  "register_kind \<Rightarrow> write_group_entry list \<Rightarrow> nat \<Rightarrow> (u8 \<times> bytes) option" where
  "build_write_payload kind chunk quantity =
     (case kind of
        Coil \<Rightarrow>
          Option.bind (collect (\<lambda>(_, _, w). map_option (\<lambda>b. [b]) (coil_of w)) chunk) (\<lambda>bits.
            if length chunk = 1 then at_index None bits 0 (\<lambda>b. Some (FC_WRITE_SINGLE_COIL, coil_payload b))
            else map_option (\<lambda>d. (FC_WRITE_MULTIPLE_COILS, multi_payload quantity d)) (pack_bits bits))
      | HoldingRegister \<Rightarrow>
          (let multiple = map_option (\<lambda>d. (FC_WRITE_MULTIPLE_REGISTERS, multi_payload quantity d))
                 (collect (\<lambda>(_, _, w). registers_of w) chunk) in
           if length chunk = 1 then
             at_index None chunk 0 (\<lambda>(_, _, w).
               if units w = 1 then map_option (Pair FC_WRITE_SINGLE_REGISTER) (registers_of w) else multiple)
           else multiple)
      | _ \<Rightarrow> None)"

text \<open>An empty chunk would make the outer loop of \<^verbatim>\<open>emit_write_plan\<close> run forever (its only guard is a
  \<^verbatim>\<open>debug_assert!\<close>); it is the value \<^const>\<open>None\<close> here.\<close>

function emit_write_plan ::
  "nat \<Rightarrow> register_kind \<Rightarrow> nat \<Rightarrow> write_group_entry list \<Rightarrow> write_plan list option" where
  "emit_write_plan unit_id kind limit run =
     (if run = [] then Some []
      else
        (let chunk_start = offset (fst (snd (hd run)));
             (chunk, rest) = take_chunk (\<lambda>(_, _, w). units w) limit 0 run;
             quantity = sum_list (map (\<lambda>(_, _, w). units w) chunk) mod 65536
         in if chunk = [] then None
            else
              (case build_write_payload kind chunk quantity of
                 None \<Rightarrow> None
               | Some (f, payload) \<Rightarrow>
                   map_option (\<lambda>plans.
                     \<lparr>wp_unit_id = unit_id, wp_kind = kind, wp_function = f, wp_start_offset = chunk_start,
                      wp_quantity = quantity, wp_payload = payload, wp_item_ids = map fst chunk\<rparr> # plans)
                     (emit_write_plan unit_id kind limit rest))))"
  by pat_completeness auto
termination
  by (relation "measure (\<lambda>(_, _, _, run). length run)") (auto dest!: sym[THEN take_chunk_append])

declare emit_write_plan.simps [simp del]

definition write_limit :: "register_kind \<Rightarrow> nat option" where
  "write_limit kind =
     (case kind of
        Coil \<Rightarrow> Some MAX_WRITE_BITS_PER_REQUEST
      | HoldingRegister \<Rightarrow> Some MAX_WRITE_REGISTERS_PER_REQUEST
      | _ \<Rightarrow> None)"

text \<open>\<^verbatim>\<open>prev.offset() + prev_encoded.units()\<close> is a \<^verbatim>\<open>u16\<close> addition: it wraps in a release build.\<close>

definition write_adjacent :: "write_group_entry \<Rightarrow> write_group_entry \<Rightarrow> bool" where
  "write_adjacent = (\<lambda>(_, prev, w) (_, a, _). offset a = (offset prev + units w) mod 65536)"

definition encode_error_result :: "nat \<Rightarrow> raw_write_result" where
  "encode_error_result item_id =
     \<lparr>rw_item_id = item_id, rw_success = False, rw_protocol_code = None,
      rw_error = Some (into_info invalid_type)\<rparr>"

text \<open>A panic of the encoder is the error \<^const>\<open>driver_panic\<close>, which the planner itself never builds.\<close>

fun group_writes ::
  "write_request list \<Rightarrow> nat \<Rightarrow> word_order \<Rightarrow>
   (group_key \<times> write_group_entry list) list \<Rightarrow> raw_write_result list \<Rightarrow>
   modbus_error + (group_key \<times> write_group_entry list) list \<times> raw_write_result list" where
  "group_writes [] default_unit_id wo groups errs = Inr (groups, errs)"
| "group_writes (item # items) default_unit_id wo groups errs =
     res_bind (res_map_err (\<lambda>_. invalid_address) (parse_address (wq_address item) default_unit_id))
       (\<lambda>address.
          if \<not> kind_writable (ma_kind address) then Inl invalid_address
          else (case encode_write_value (ma_kind address) (wq_value_type item) (wq_value item) wo of
              Inl EncodePanic \<Rightarrow> Inl driver_panic
            | Inl _ \<Rightarrow>
                group_writes items default_unit_id wo groups (errs @ [encode_error_result (wq_id item)])
            | Inr w \<Rightarrow>
                if offset address + units w > 65536 then Inl invalid_address
                else group_writes items default_unit_id wo
                       (bt_push (ma_unit_id address, ma_kind address) (wq_id item, address, w) groups)
                       errs))"

definition plan_write_group :: "group_key \<times> write_group_entry list \<Rightarrow> write_plan list option" where
  "plan_write_group = (\<lambda>((unit_id, kind), group).
     (case write_limit kind of
        None \<Rightarrow> Some []
      | Some limit \<Rightarrow>
          collect (emit_write_plan unit_id kind limit)
            (split_runs write_adjacent [] (sort_key (\<lambda>(_, addr, _). ma_address addr) group))))"

definition plan_write_batch ::
  "write_request list \<Rightarrow> nat \<Rightarrow> word_order \<Rightarrow>
   (modbus_error + write_plan list \<times> raw_write_result list) option" where
  "plan_write_batch items default_unit_id wo =
     (case group_writes items default_unit_id wo [] [] of
        Inl e \<Rightarrow> if e = driver_panic then None else Some (Inl e)
      | Inr (groups, errs) \<Rightarrow> map_option (\<lambda>plans. Inr (plans, errs)) (collect plan_write_group groups))"

section \<open>Groups, runs and chunks\<close>

lemma bt_push_mset: "mset (concat (map snd (bt_push k v m))) = add_mset v (mset (concat (map snd m)))"
  by (induction k v m rule: bt_push.induct) auto

lemma bt_push_Ball:
  "(\<forall>(k', vs)\<in>set (bt_push k v m). \<forall>x\<in>set vs. P k' x) \<longleftrightarrow>
     P k v \<and> (\<forall>(k', vs)\<in>set m. \<forall>x\<in>set vs. P k' x)"
  by (induction k v m rule: bt_push.induct) auto

lemma split_runs_concat: "concat (split_runs adj run es) = run @ es"
  by (induction adj run es rule: split_runs.induct) auto

lemma split_runs_successively:
  "successively adj run \<Longrightarrow> r \<in> set (split_runs adj run es) \<Longrightarrow> successively adj r"
  by (induction adj run es rule: split_runs.induct)
    (auto simp: successively_append_iff split: if_splits)

lemma take_chunk_sum:
  "take_chunk w l u es = (c, rest) \<Longrightarrow> u \<le> l \<Longrightarrow> u + sum_list (map w c) \<le> l"
proof (induction es arbitrary: u c rest)
  case (Cons e es)
  show ?case
    using Cons.prems Cons.IH[of "u + w e"]
    by (fastforce simp: Let_def split: if_splits prod.splits)
qed simp

lemma take_chunk_nonempty:
  "take_chunk w l 0 es = (c, rest) \<Longrightarrow> es \<noteq> [] \<Longrightarrow> w (hd es) \<le> l \<Longrightarrow> c \<noteq> []"
  by (cases es) (auto simp: Let_def split: if_splits prod.splits)

lemma collect_Some_iff:
  "collect f xs = Some ys \<longleftrightarrow> (\<exists>yss. map f xs = map Some yss \<and> ys = concat yss)"
proof (induction xs arbitrary: ys)
  case (Cons x xs)
  show ?case
    by (cases "f x") (auto simp: Cons.IH map_eq_Cons_conv Cons_eq_map_conv)
qed auto

lemma collect_total: "(\<And>x. x \<in> set xs \<Longrightarrow> \<exists>ys. f x = Some ys) \<Longrightarrow> \<exists>ys. collect f xs = Some ys"
  by (induction xs) fastforce+

text \<open>The shape of every emitter: what holds of each emitted piece holds of the collection, and a view of
  the pieces that reproduces the input piece by piece reproduces the whole input.\<close>

lemma collect_view:
  assumes "\<And>x. x \<in> set xs \<Longrightarrow> \<exists>ys. f x = Some ys \<and> concat (map v ys) = w x \<and> (\<forall>y\<in>set ys. P y)"
  shows "\<exists>ys. collect f xs = Some ys \<and> concat (map v ys) = concat (map w xs) \<and> (\<forall>y\<in>set ys. P y)"
  using assms
proof (induction xs)
  case (Cons x xs)
  obtain ys where "f x = Some ys" "concat (map v ys) = w x" "\<forall>y\<in>set ys. P y"
    using Cons.prems[of x] by auto
  moreover obtain zs where "collect f xs = Some zs" "concat (map v zs) = concat (map w xs)"
    "\<forall>y\<in>set zs. P y"
    using Cons.IH Cons.prems by auto
  ultimately show ?case by auto
qed simp

lemma concat_map_concat: "concat (map (\<lambda>r. concat (map f r)) rs) = concat (map f (concat rs))"
  by (induction rs) simp_all

section \<open>Read plans\<close>

lemma item_width_bounds: "1 \<le> item_width k ty" "item_width k ty \<le> 4"
proof -
  have "register_width dt = Some w \<Longrightarrow> 1 \<le> w \<and> w \<le> 4" for dt w
    by (cases dt) auto
  then show "1 \<le> item_width k ty" "item_width k ty \<le> 4"
    by (auto simp: item_width_def split: option.splits)
qed

lemma read_limit_bounds: "4 \<le> read_limit k" "read_limit k \<le> 2000"
  by (simp_all add: read_limit_def limit_defs)

text \<open>What a read item asks for, once its address is parsed, and what a plan reads for an item.\<close>

type_synonym read_view = "nat \<times> nat \<times> register_kind \<times> nat \<times> data_type option"

definition entry_view :: "group_entry \<Rightarrow> read_view" where
  "entry_view = (\<lambda>(item_id, a, ty). (item_id, ma_unit_id a, ma_kind a, offset a, ty))"

definition plan_view :: "read_plan \<Rightarrow> read_view list" where
  "plan_view p = map (\<lambda>it. (pi_item_id it, rp_unit_id p, rp_kind p,
     rp_start_offset p + pi_offset_in_frame it, pi_expected_type it)) (rp_items p)"

text \<open>An entry accepted by \<^const>\<open>group_reads\<close> into the group of its key.\<close>

definition entry_ok :: "group_key \<Rightarrow> group_entry \<Rightarrow> bool" where
  "entry_ok key = (\<lambda>(_, a, ty). wf_address a \<and> (ma_unit_id a, ma_kind a) = key \<and>
     offset a + item_width (ma_kind a) ty \<le> 65536)"

text \<open>A plan is within the protocol, and reads every item entirely unless another item of the same plan
  starts inside it.\<close>

definition read_plan_ok :: "read_plan \<Rightarrow> bool" where
  "read_plan_ok p \<longleftrightarrow>
     1 \<le> rp_quantity p \<and> rp_quantity p \<le> read_limit (rp_kind p) \<and>
     rp_start_offset p + rp_quantity p \<le> 65536 \<and> rp_items p \<noteq> [] \<and>
     (\<forall>it\<in>set (rp_items p).
        pi_width it = item_width (rp_kind p) (pi_expected_type it) \<and>
        (pi_offset_in_frame it + pi_width it \<le> rp_quantity p \<or>
         (\<exists>it'\<in>set (rp_items p). pi_offset_in_frame it < pi_offset_in_frame it' \<and>
            pi_offset_in_frame it' < pi_offset_in_frame it + pi_width it)))"

lemma offset_run:
  assumes "successively read_adjacent c" and "\<forall>e\<in>set c. entry_ok key e" and "i < length c"
  shows "offset (fst (snd (c ! i))) = offset (fst (snd (hd c))) + i"
  using assms(3)
proof (induction i)
  case 0
  then show ?case by (simp add: hd_conv_nth)
next
  case (Suc i)
  have adj: "read_adjacent (c ! i) (c ! Suc i)"
    using assms(1) Suc.prems successively_nth[of read_adjacent c i] by simp
  have mem: "c ! i \<in> set c" "c ! Suc i \<in> set c"
    using Suc.prems by simp_all
  have "offset (fst (snd (c ! Suc i))) = Suc (offset (fst (snd (c ! i))))"
    using adj offset_eq(1)[of "fst (snd (c ! i))"] offset_eq(1)[of "fst (snd (c ! Suc i))"]
      assms(2)[rule_format, OF mem(1)] assms(2)[rule_format, OF mem(2)]
    by (auto simp: read_adjacent_def entry_ok_def wf_address_def)
  then show ?case using Suc by simp
qed

definition chunk_plan :: "group_key \<Rightarrow> group_entry list \<Rightarrow> read_plan" where
  "chunk_plan key c =
     (let start = offset (fst (snd (hd c))); items = map (plan_item (snd key) start) c; l = last items
      in \<lparr>rp_unit_id = fst key, rp_kind = snd key, rp_start_offset = start,
          rp_quantity = (pi_offset_in_frame l + pi_width l) mod 65536, rp_items = items\<rparr>)"

lemma plan_item_run:
  assumes "successively read_adjacent c" and "\<forall>e\<in>set c. entry_ok key e" and "i < length c"
  shows "plan_item (snd key) (offset (fst (snd (hd c)))) (c ! i) =
    \<lparr>pi_item_id = fst (c ! i), pi_offset_in_frame = i, pi_expected_type = snd (snd (c ! i)),
     pi_width = item_width (snd key) (snd (snd (c ! i)))\<rparr>"
proof -
  have "offset (fst (snd (c ! i))) \<le> 65535"
    using assms(2,3) offset_eq(2) nth_mem[OF assms(3)] by (fastforce simp: entry_ok_def wf_address_def)
  then show ?thesis
    using offset_run[OF assms] by (cases "c ! i") (simp add: plan_item_def)
qed

lemma mem_set_map_nth: "x \<in> set (map f c) \<longleftrightarrow> (\<exists>i < length c. x = f (c ! i))"
  by (metis in_set_conv_nth length_map nth_map)

lemma sum_list_ge_length: "(\<forall>x\<in>set xs. (1::nat) \<le> f x) \<Longrightarrow> length xs \<le> sum_list (map f xs)"
  by (induction xs) auto

lemma chunk_widths:
  assumes "c \<noteq> []"
  shows "length c - 1 + item_width k (snd (snd (last c))) \<le> sum_list (map (\<lambda>(_, _, ty). item_width k ty) c)"
proof -
  obtain b l where c: "c = b @ [l]" using assms by (metis append_butlast_last_id)
  have "length b \<le> sum_list (map (\<lambda>(_, _, ty). item_width k ty) b)"
    by (rule sum_list_ge_length) (auto simp: item_width_bounds(1)[simplified])
  then show ?thesis by (cases l) (simp add: c)
qed

lemma chunk_plan_ok:
  assumes c: "c \<noteq> []" "successively read_adjacent c" "\<forall>e\<in>set c. entry_ok key e"
    and sum: "sum_list (map (\<lambda>(_, _, ty). item_width (snd key) ty) c) \<le> read_limit (snd key)"
  shows "read_plan_ok (chunk_plan key c) \<and> plan_view (chunk_plan key c) = map entry_view c"
proof
  let ?k = "snd key" and ?s = "offset (fst (snd (hd c)))" and ?p = "chunk_plan key c"
  have nth: "plan_item ?k ?s (c ! i) =
    \<lparr>pi_item_id = fst (c ! i), pi_offset_in_frame = i, pi_expected_type = snd (snd (c ! i)),
     pi_width = item_width ?k (snd (snd (c ! i)))\<rparr>" if "i < length c" for i
    using plan_item_run[OF c(2,3) that] .
  let ?n = "length c - 1"
  have n: "?n < length c" and last: "last c = c ! ?n"
    using c(1) by (simp_all add: last_conv_nth)
  let ?w = "item_width ?k (snd (snd (c ! ?n)))"
  have "?n + ?w \<le> read_limit ?k"
    using chunk_widths[OF c(1), of ?k] sum by (simp add: last)
  moreover have "rp_quantity ?p = (?n + ?w) mod 65536"
    using c(1) nth[OF n] by (simp add: chunk_plan_def Let_def last_map last)
  ultimately have q: "rp_quantity ?p = ?n + ?w" "?n + ?w \<le> read_limit ?k"
    using read_limit_bounds(2)[of ?k] by simp_all
  have items: "rp_items ?p = map (plan_item ?k ?s) c" "rp_kind ?p = ?k" "rp_start_offset ?p = ?s" "rp_unit_id ?p = fst key"
    by (simp_all add: chunk_plan_def Let_def)
  have "offset (fst (snd (c ! ?n))) + ?w \<le> 65536"
    using c(3) nth_mem[OF n] by (fastforce simp: entry_ok_def)
  then have "?s + (?n + ?w) \<le> 65536"
    using offset_run[OF c(2,3) n] by simp
  moreover have "pi_width it = item_width ?k (pi_expected_type it) \<and>
      (pi_offset_in_frame it + pi_width it \<le> ?n + ?w \<or>
       (\<exists>it'\<in>set (rp_items ?p). pi_offset_in_frame it < pi_offset_in_frame it' \<and>
          pi_offset_in_frame it' < pi_offset_in_frame it + pi_width it))"
    if it: "it \<in> set (rp_items ?p)" for it
  proof -
    obtain i where i: "i < length c" "it = plan_item ?k ?s (c ! i)"
      using it by (auto simp only: items mem_set_map_nth)
    show ?thesis
    proof (cases "i = ?n")
      case True
      then show ?thesis using i nth[OF i(1)] by simp
    next
      case False
      with i have i': "Suc i < length c" "Suc i \<le> ?n" by simp_all
      have "plan_item ?k ?s (c ! Suc i) \<in> set (rp_items ?p)"
        using i'(1) by (auto simp only: items mem_set_map_nth)
      moreover have "?w \<ge> 1" using item_width_bounds(1) .
      ultimately show ?thesis
        using i(2) nth[OF i(1)] nth[OF i'(1)] i'(2)
        by (cases "pi_width it \<le> 1") (auto intro!: bexI[of _ "plan_item ?k ?s (c ! Suc i)"])
    qed
  qed
  moreover have "rp_items ?p \<noteq> []" "1 \<le> ?n + ?w"
    using c(1) item_width_bounds(1)[of ?k "snd (snd (c ! ?n))"] by (simp_all add: items(1))
  ultimately show "read_plan_ok ?p"
    using q(2) unfolding read_plan_ok_def items(2,3) q(1) by blast
  have "plan_view ?p ! i = entry_view (c ! i)" if "i < length c" for i
  proof -
    have "entry_ok key (c ! i)" using c(3) that by simp
    then show ?thesis
      using that offset_run[OF c(2,3) that] nth[OF that]
      by (cases "c ! i") (auto simp: plan_view_def items entry_view_def entry_ok_def)
  qed
  then show "plan_view ?p = map entry_view c"
    by (simp add: list_eq_iff_nth_eq plan_view_def items)
qed

lemma emit_plan_ok:
  assumes "successively read_adjacent run" and "\<forall>e\<in>set run. entry_ok (unit_id, kind) e"
  shows "\<exists>plans. emit_plan unit_id kind (read_limit kind) run = Some plans \<and>
    concat (map plan_view plans) = map entry_view run \<and> (\<forall>p\<in>set plans. read_plan_ok p)"
  using assms
proof (induction "length run" arbitrary: run rule: less_induct)
  case less
  show ?case
  proof (cases "run = []")
    case True
    then show ?thesis by (simp add: emit_plan.simps)
  next
    case False
    let ?w = "\<lambda>(_ :: nat, _ :: modbus_address, ty). item_width kind ty"
    obtain c rest where tc: "take_chunk ?w (read_limit kind) 0 run = (c, rest)"
      by (cases "take_chunk ?w (read_limit kind) 0 run")
    have run: "run = c @ rest" using take_chunk_append[OF tc] .
    have "?w (hd run) \<le> read_limit kind"
      using order_trans[OF item_width_bounds(2) read_limit_bounds(1)] by (simp split: prod.splits)
    then have c: "c \<noteq> []" using take_chunk_nonempty[OF tc False] by simp
    have "sum_list (map ?w c) \<le> read_limit kind" using take_chunk_sum[OF tc] by simp
    then have ok: "read_plan_ok (chunk_plan (unit_id, kind) c) \<and>
        plan_view (chunk_plan (unit_id, kind) c) = map entry_view c"
      using less.prems c by (intro chunk_plan_ok) (auto simp: run successively_append_iff)
    obtain plans where "emit_plan unit_id kind (read_limit kind) rest = Some plans"
      "concat (map plan_view plans) = map entry_view rest" "\<forall>p\<in>set plans. read_plan_ok p"
      using less.hyps[of rest] less.prems c by (auto simp: run successively_append_iff)
    moreover have "emit_plan unit_id kind (read_limit kind) run =
        map_option (\<lambda>ps. chunk_plan (unit_id, kind) c # ps) (emit_plan unit_id kind (read_limit kind) rest)"
      using False c tc run by (subst emit_plan.simps) (simp add: chunk_plan_def Let_def)
    ultimately show ?thesis using ok by (simp add: run)
  qed
qed

lemma plan_group_ok:
  assumes "\<forall>e\<in>set grp. entry_ok key e"
  shows "\<exists>plans. plan_group (key, grp) = Some plans \<and>
    concat (map plan_view plans) = map entry_view (sort_key (\<lambda>(_, addr, _). ma_address addr) grp) \<and>
    (\<forall>p\<in>set plans. read_plan_ok p)"
proof -
  let ?g = "sort_key (\<lambda>(_, addr, _). ma_address addr) grp"
  let ?runs = "split_runs read_adjacent [] ?g"
  have conc: "concat ?runs = ?g" by (simp add: split_runs_concat)
  have "\<exists>plans. emit_plan (fst key) (snd key) (read_limit (snd key)) r = Some plans \<and>
      concat (map plan_view plans) = map entry_view r \<and> (\<forall>p\<in>set plans. read_plan_ok p)"
    if "r \<in> set ?runs" for r
  proof (rule emit_plan_ok)
    show "successively read_adjacent r"
      using that by (rule split_runs_successively[rotated]) simp
    have "set r \<subseteq> set (concat ?runs)" using that by auto
    then have "set r \<subseteq> set grp" by (simp only: conc set_sort)
    then show "\<forall>e\<in>set r. entry_ok (fst key, snd key) e" using assms by auto
  qed
  from collect_view[where v = plan_view and w = "map entry_view" and P = read_plan_ok, OF this]
  obtain plans where
    "collect (emit_plan (fst key) (snd key) (read_limit (snd key))) ?runs = Some plans"
    "concat (map plan_view plans) = concat (map (map entry_view) ?runs)" "\<forall>p\<in>set plans. read_plan_ok p"
    by blast
  moreover have "concat (map (map entry_view) ?runs) = map entry_view ?g"
    by (metis conc map_concat)
  ultimately show ?thesis
    by (cases key) (simp add: plan_group_def)
qed

text \<open>The items that \<^const>\<open>plan_batch\<close> accepts, and the entry of an accepted item.\<close>

definition read_entry :: "nat \<Rightarrow> driver_read_item \<Rightarrow> group_entry option" where
  "read_entry default_unit_id item =
     (case parse_address (ri_address item) default_unit_id of
        Inl _ \<Rightarrow> None
      | Inr a \<Rightarrow> (if offset a + item_width (ma_kind a) (ri_expected_type item) > 65536 then None
                 else Some (ri_id item, a, ri_expected_type item)))"

lemma group_reads_Cons:
  "group_reads (item # items) d groups =
     (case read_entry d item of
        None \<Rightarrow> Inl invalid_address
      | Some e \<Rightarrow> group_reads items d (bt_push (ma_unit_id (fst (snd e)), ma_kind (fst (snd e))) e groups))"
  by (simp add: read_entry_def split: sum.splits)

lemma group_reads_alt:
  "group_reads items d groups =
     (if \<forall>it\<in>set items. read_entry d it \<noteq> None
      then Inr (fold (\<lambda>e. bt_push (ma_unit_id (fst (snd e)), ma_kind (fst (snd e))) e)
                  (map (\<lambda>it. the (read_entry d it)) items) groups)
      else Inl invalid_address)"
proof (induction items arbitrary: groups)
  case (Cons item items)
  then show ?case
    unfolding group_reads_Cons by (cases "read_entry d item") auto
qed simp

lemma read_entry_ok:
  "read_entry d it = Some e \<Longrightarrow> entry_ok (ma_unit_id (fst (snd e)), ma_kind (fst (snd e))) e"
  by (auto simp: read_entry_def entry_ok_def parse_address_wf split: sum.splits if_splits)

lemma fold_bt_push:
  fixes key :: "'v \<Rightarrow> 'k::linorder"
  assumes "\<forall>e\<in>set es. P (key e) e" and "\<forall>(k, vs)\<in>set m. \<forall>x\<in>set vs. P k x"
  defines "m' \<equiv> fold (\<lambda>e. bt_push (key e) e) es m"
  shows "(\<forall>(k, vs)\<in>set m'. \<forall>x\<in>set vs. P k x) \<and>
    mset (concat (map snd m')) = mset es + mset (concat (map snd m))"
  unfolding m'_def using assms(1,2)
proof (induction es arbitrary: m)
  case (Cons e es)
  have "\<forall>(k, vs)\<in>set (bt_push (key e) e m). \<forall>x\<in>set vs. P k x"
    using Cons.prems unfolding bt_push_Ball by simp
  from Cons.IH[OF _ this] Cons.prems(1) show ?case
    by (simp add: bt_push_mset)
qed simp

lemma mset_concat_sort_key:
  "mset (concat (map (\<lambda>x. map f (sort_key g (h x))) xs)) = image_mset f (mset (concat (map h xs)))"
  by (induction xs) simp_all

lemma plan_batch_cases:
  "(\<exists>it\<in>set items. read_entry d it = None) \<and> plan_batch items d = Some (Inl invalid_address) \<or>
   (\<exists>plans. plan_batch items d = Some (Inr plans) \<and>
      (\<forall>it\<in>set items. read_entry d it \<noteq> None) \<and>
      mset (concat (map plan_view plans)) = mset (map (\<lambda>it. entry_view (the (read_entry d it))) items) \<and>
      (\<forall>p\<in>set plans. read_plan_ok p))"
proof (cases "\<forall>it\<in>set items. read_entry d it \<noteq> None")
  case True
  define es where "es = map (\<lambda>it. the (read_entry d it)) items"
  define key :: "group_entry \<Rightarrow> group_key" where "key e = (ma_unit_id (fst (snd e)), ma_kind (fst (snd e)))" for e
  define groups where "groups = fold (\<lambda>e. bt_push (key e) e) es []"
  have "\<forall>e\<in>set es. entry_ok (key e) e"
    using True read_entry_ok by (fastforce simp: es_def key_def)
  then have groups: "\<forall>(k, vs)\<in>set groups. \<forall>x\<in>set vs. entry_ok k x"
      "mset (concat (map snd groups)) = mset es"
    using fold_bt_push[of es entry_ok key "[]"] by (simp_all add: groups_def)
  let ?sorted = "\<lambda>g. sort_key (\<lambda>(_, addr, _). ma_address addr) (snd (g :: group_key \<times> group_entry list))"
  have "\<exists>plans. plan_group g = Some plans \<and> concat (map plan_view plans) = map entry_view (?sorted g) \<and>
      (\<forall>p\<in>set plans. read_plan_ok p)" if "g \<in> set groups" for g
    using plan_group_ok[of "snd g" "fst g"] groups(1) that by (cases g) auto
  from collect_view[where v = plan_view and P = read_plan_ok and xs = groups and f = plan_group, OF this]
  obtain plans where plans: "collect plan_group groups = Some plans"
    "concat (map plan_view plans) = concat (map (\<lambda>g. map entry_view (?sorted g)) groups)"
    "\<forall>p\<in>set plans. read_plan_ok p" by blast
  have "mset (concat (map plan_view plans)) = mset (map entry_view es)"
    unfolding plans(2) mset_concat_sort_key groups(2) by simp
  moreover have "plan_batch items d = Some (Inr plans)"
    using True plans(1) by (simp add: plan_batch_def group_reads_alt groups_def es_def key_def)
  ultimately show ?thesis
    using True plans(3) by (auto simp: es_def o_def)
next
  case False
  then show ?thesis by (auto simp: plan_batch_def group_reads_alt simp del: not_None_eq)
qed

text \<open>C10: planning of a read batch. An invalid address, or a span past offset 65535, fails the whole batch
  as \<^verbatim>\<open>invalid_address\<close>. Otherwise planning succeeds (no panic is reachable) and the plans ask for
  exactly the requested items: each item once, at its unit, its segment, its absolute offset and its type.
  Every plan stays within the protocol limit and the address space, and reads each of its items entirely
  unless another item of the plan starts inside it.\<close>

theorem plan_batch_correct:
  "(\<exists>it\<in>set items. read_entry d it = None) \<and> plan_batch items d = Some (Inl invalid_address) \<or>
   (\<exists>plans. plan_batch items d = Some (Inr plans) \<and>
      (\<forall>it\<in>set items. read_entry d it \<noteq> None) \<and>
      mset (concat (map plan_view plans)) = mset (map (\<lambda>it. entry_view (the (read_entry d it))) items) \<and>
      (\<forall>p\<in>set plans. read_plan_ok p))"
  by (rule plan_batch_cases)

lemma parse_address_examples:
  "parse_address ''40001'' 1 = Inr \<lparr>ma_unit_id = 1, ma_kind = HoldingRegister, ma_address = 40001\<rparr>"
  "parse_address ''40002'' 1 = Inr \<lparr>ma_unit_id = 1, ma_kind = HoldingRegister, ma_address = 40002\<rparr>"
  using trim_graphic[of "''40001''"] trim_graphic[of "''40002''"]
  by (simp_all add: parse_address_def graphic_def parse_u32_def digit_val_def validate_def explicit_max_def
      infer_kind_from_numeric_def matches_numeric_def)

lemma offset_examples [simp]:
  "offset \<lparr>ma_unit_id = 1, ma_kind = HoldingRegister, ma_address = 40001\<rparr> = 0"
  "offset \<lparr>ma_unit_id = 1, ma_kind = HoldingRegister, ma_address = 40002\<rparr> = 1"
  by (simp_all add: offset_def)

theorem plan_batch_correct_witness:
  "\<exists>plans. plan_batch [\<lparr>ri_id = 7, ri_address = ''40002'', ri_expected_type = Some DT_U16\<rparr>,
      \<lparr>ri_id = 8, ri_address = ''40001'', ri_expected_type = None\<rparr>] 1 = Some (Inr plans) \<and>
    mset (concat (map plan_view plans)) =
      {#(7, 1, HoldingRegister, 1, Some DT_U16), (8, 1, HoldingRegister, 0, None)#} \<and>
    (\<forall>p\<in>set plans. read_plan_ok p)"
  using plan_batch_correct[of "[\<lparr>ri_id = 7, ri_address = ''40002'', ri_expected_type = Some DT_U16\<rparr>,
      \<lparr>ri_id = 8, ri_address = ''40001'', ri_expected_type = None\<rparr>]" 1]
  by (simp add: read_entry_def parse_address_examples item_width_def is_bit_segment_def entry_view_def
      add_mset_commute del: One_nat_def)

text \<open>C21: two items whose registers overlap. A 64-bit item and an item of one or two registers that starts
  at the next register are put in one frame, in whatever order they are requested; the frame asks for the
  registers up to the end of the second item, so whatever the device answers, the 64-bit item fails to
  decode, although each of the two items is valid alone.\<close>

theorem overlapping_read_starves_item:
  assumes "read_entry u x = Some (i, a, Some ty)" "register_width ty = Some 4"
    and "read_entry u y = Some (j, b, ty')" "item_width (ma_kind b) ty' \<le> 2"
    and "ma_unit_id b = ma_unit_id a" "ma_kind b = ma_kind a" "\<not> is_bit_segment (ma_kind a)"
    and "ma_address b = ma_address a + 1" "items = [x, y] \<or> items = [y, x]"
  shows "\<exists>p. plan_batch items u = Some (Inr [p]) \<and>
    rp_items p = [\<lparr>pi_item_id = i, pi_offset_in_frame = 0, pi_expected_type = Some ty, pi_width = 4\<rparr>,
      \<lparr>pi_item_id = j, pi_offset_in_frame = 1, pi_expected_type = ty', pi_width = item_width (ma_kind b) ty'\<rparr>] \<and>
    (\<forall>data wo. length data = 2 * rp_quantity p \<longrightarrow>
       decode_register_value (rp_kind p) data 0 (Some ty) wo = Inl (DataTooShort 4 0 (length data)))"
proof -
  let ?ex = "(i, a, Some ty)" and ?ey = "(j, b, ty')" and ?key = "(ma_unit_id a, ma_kind a)"
  let ?p = "chunk_plan ?key [?ex, ?ey]"
  have w: "item_width (ma_kind a) (Some ty) = 4" "ty \<noteq> DT_Bool" using assms(2,7) by (auto simp: item_width_def)
  have run: "successively read_adjacent [?ex, ?ey]" "\<forall>e\<in>set [?ex, ?ey]. entry_ok ?key e"
    using assms(8) read_entry_ok[OF assms(1)] read_entry_ok[OF assms(3)] assms(5,6) by (simp_all add: read_adjacent_def)
  have items: "rp_items ?p = [\<lparr>pi_item_id = i, pi_offset_in_frame = 0, pi_expected_type = Some ty, pi_width = 4\<rparr>,
      \<lparr>pi_item_id = j, pi_offset_in_frame = 1, pi_expected_type = ty', pi_width = item_width (ma_kind b) ty'\<rparr>]"
    using plan_item_run[OF run, of 0] plan_item_run[OF run, of 1] w(1) assms(6) by (simp add: chunk_plan_def Let_def)
  then have q: "rp_quantity ?p = 1 + item_width (ma_kind b) ty'"
    using assms(4) by (simp add: chunk_plan_def Let_def)
  have "group_reads items u [] = Inr [(?key, [?ex, ?ey])] \<or> group_reads items u [] = Inr [(?key, [?ey, ?ex])]"
    using assms(1,3,5,6,9) by (auto simp: group_reads_Cons simp del: group_reads.simps(2))
  moreover have "emit_plan (ma_unit_id a) (ma_kind a) (read_limit (ma_kind a)) [?ex, ?ey] = Some [?p]"
    using assms(4,6,7) w(1) by (simp add: emit_plan.simps read_limit_def limit_defs chunk_plan_def Let_def)
  then have "plan_group (?key, g) = Some [?p]" if "g = [?ex, ?ey] \<or> g = [?ey, ?ex]" for g
    using that assms(8) by (auto simp: plan_group_def read_adjacent_def)
  ultimately have "plan_batch items u = Some (Inr [?p])" by (auto simp: plan_batch_def)
  moreover have "decode_register_value (rp_kind ?p) data 0 (Some ty) wo = Inl (DataTooShort 4 0 (length data))"
    if "length data = 2 * rp_quantity ?p" for data wo
    using that assms(2,4,7) w(2) unfolding q by (simp add: decode_register_value_def chunk_plan_def Let_def)
  ultimately show ?thesis using items by blast
qed

theorem overlapping_read_starves_item_witness:
  "\<exists>p. plan_batch [\<lparr>ri_id = 2, ri_address = ''40002'', ri_expected_type = Some DT_U16\<rparr>,
      \<lparr>ri_id = 1, ri_address = ''40001'', ri_expected_type = Some DT_F64\<rparr>] 1 = Some (Inr [p]) \<and>
    (\<forall>data wo. length data = 2 * rp_quantity p \<longrightarrow>
       decode_register_value (rp_kind p) data 0 (Some DT_F64) wo = Inl (DataTooShort 4 0 (length data)))"
proof -
  let ?x = "\<lparr>ri_id = 1, ri_address = ''40001'', ri_expected_type = Some DT_F64\<rparr>"
  let ?y = "\<lparr>ri_id = 2, ri_address = ''40002'', ri_expected_type = Some DT_U16\<rparr>"
  let ?a = "\<lparr>ma_unit_id = 1, ma_kind = HoldingRegister, ma_address = 40001\<rparr>"
  let ?b = "\<lparr>ma_unit_id = 1, ma_kind = HoldingRegister, ma_address = 40002\<rparr>"
  have "read_entry 1 ?x = Some (1, ?a, Some DT_F64)" "read_entry 1 ?y = Some (2, ?b, Some DT_U16)"
    by (simp_all add: read_entry_def parse_address_examples item_width_def is_bit_segment_def del: One_nat_def)
  from overlapping_read_starves_item[OF this(1) _ this(2), of "[?y, ?x]"] show ?thesis
    by (auto simp: item_width_def is_bit_segment_def)
qed

section \<open>Write plans\<close>

text \<open>The effect of a write as the protocol defines it: the ordered list of cells (unit, segment, offset,
  content) a device sets. \<open>payload_cells\<close> reads the payload the way a device does.\<close>

datatype cell = Bit bool | Reg u8 u8

type_synonym cell_write = "nat \<times> register_kind \<times> nat \<times> cell"

fun reg_cells :: "bytes \<Rightarrow> cell list" where
  "reg_cells (a # b # r) = Reg a b # reg_cells r"
| "reg_cells _ = []"

definition payload_cells :: "u8 \<Rightarrow> bytes \<Rightarrow> cell list" where
  "payload_cells f payload =
     (let quantity = unat (of_be_bytes (take 2 payload) :: u16); d = drop 3 payload in
      if f = FC_WRITE_SINGLE_COIL then [Bit (payload = [0xFF, 0x00])]
      else if f = FC_WRITE_SINGLE_REGISTER then reg_cells payload
      else if f = FC_WRITE_MULTIPLE_COILS
        then map (\<lambda>i. Bit (bit (d ! (i div 8)) (i mod 8))) [0..<quantity]
      else if f = FC_WRITE_MULTIPLE_REGISTERS then take quantity (reg_cells d)
      else [])"

definition cells_at :: "group_key \<Rightarrow> nat \<Rightarrow> cell list \<Rightarrow> cell_write list" where
  "cells_at key start cs = map (\<lambda>(i, c). (fst key, snd key, i, c)) (enumerate start cs)"

definition write_plan_cells :: "write_plan \<Rightarrow> cell_write list" where
  "write_plan_cells p =
     cells_at (wp_unit_id p, wp_kind p) (wp_start_offset p) (payload_cells (wp_function p) (wp_payload p))"

fun cells_of :: "encoded_write \<Rightarrow> cell list" where
  "cells_of (WCoil b) = [Bit b]"
| "cells_of (WRegisters d) = reg_cells d"

definition write_entry_cells :: "write_group_entry \<Rightarrow> cell_write list" where
  "write_entry_cells = (\<lambda>(_, a, w). cells_at (ma_unit_id a, ma_kind a) (offset a) (cells_of w))"

definition write_entry_ok :: "group_key \<Rightarrow> write_group_entry \<Rightarrow> bool" where
  "write_entry_ok key = (\<lambda>(_, a, w). wf_address a \<and> (ma_unit_id a, ma_kind a) = key \<and>
     offset a + units w \<le> 65536 \<and>
     (case w of WCoil _ \<Rightarrow> snd key = Coil
      | WRegisters d \<Rightarrow> snd key = HoldingRegister \<and> length d \<in> {2, 4, 8}))"

text \<open>A write request is well-formed: within the limit of its function, inside the address space, with
  the payload the function code requires.\<close>

definition write_plan_ok :: "write_plan \<Rightarrow> bool" where
  "write_plan_ok p \<longleftrightarrow>
     (\<exists>limit. write_limit (wp_kind p) = Some limit \<and> 1 \<le> wp_quantity p \<and> wp_quantity p \<le> limit) \<and>
     wp_start_offset p + wp_quantity p \<le> 65536 \<and> wp_item_ids p \<noteq> [] \<and>
     (if wp_function p = FC_WRITE_SINGLE_COIL \<or> wp_function p = FC_WRITE_SINGLE_REGISTER
      then wp_quantity p = 1 \<and> length (wp_payload p) = 2
      else (wp_function p = FC_WRITE_MULTIPLE_COILS \<or> wp_function p = FC_WRITE_MULTIPLE_REGISTERS) \<and>
        (\<exists>d. wp_payload p = be_bytes 2 (word_of_nat (wp_quantity p) :: u16) @ [word_of_nat (length d)] @ d \<and>
             length d < 256 \<and>
             length d = (if wp_function p = FC_WRITE_MULTIPLE_COILS then (wp_quantity p + 7) div 8
                         else 2 * wp_quantity p)))"

lemma reg_cells_append: "even (length d) \<Longrightarrow> reg_cells (d @ e) = reg_cells d @ reg_cells e"
  by (induction d rule: reg_cells.induct) auto

lemma length_reg_cells: "length (reg_cells d) = length d div 2"
  by (induction d rule: reg_cells.induct) auto

lemma write_entry_units:
  assumes "write_entry_ok key (i, a, w)"
  shows "length (cells_of w) = units w" "1 \<le> units w" "units w \<le> 4"
  using assms by (auto simp: write_entry_ok_def length_reg_cells split: encoded_write.splits)

lemma cells_at_append: "cells_at key n (xs @ ys) = cells_at key n xs @ cells_at key (n + length xs) ys"
  by (simp add: cells_at_def enumerate_append_eq)

text \<open>Adjacency in an ascending group is exact: the wrap-around of the 16-bit sum cannot make two entries
  adjacent.\<close>

lemma write_adjacent_exact:
  assumes "write_entry_ok key (i, a, w)" "write_entry_ok key (j, b, v)"
    and "ma_address a \<le> ma_address b" and "write_adjacent (i, a, w) (j, b, v)"
  shows "offset b = offset a + units w"
proof -
  have "offset a \<le> offset b"
    using assms(1-3) offset_eq(1)[of a] offset_eq(1)[of b]
    by (auto simp: write_entry_ok_def wf_address_def)
  moreover have "offset b = (offset a + units w) mod 65536" "offset a + units w \<le> 65536"
    using assms(1,4) by (auto simp: write_adjacent_def write_entry_ok_def)
  moreover have "1 \<le> units w" "units w \<le> 4"
    using write_entry_units[OF assms(1)] by simp_all
  ultimately show ?thesis
    by (cases "offset a + units w = 65536") auto
qed

lemma write_run_cells:
  assumes "c \<noteq> []" "successively write_adjacent c" "\<forall>e\<in>set c. write_entry_ok key e"
    and "sorted (map (\<lambda>(_, a, _). ma_address a) c)"
  shows "concat (map write_entry_cells c) =
    cells_at key (offset (fst (snd (hd c)))) (concat (map (\<lambda>(_, _, w). cells_of w) c))"
  using assms
proof (induction c rule: induct_list012)
  case (2 e)
  then show ?case by (cases e) (auto simp: write_entry_cells_def write_entry_ok_def)
next
  case (3 e f c)
  obtain i a w where e: "e = (i, a, w)" by (cases e)
  obtain j b v where f: "f = (j, b, v)" by (cases f)
  have "offset b = offset a + units w"
    using 3(4-6) by (intro write_adjacent_exact[of key i a w j b v]) (auto simp: e f)
  moreover have "concat (map write_entry_cells (f # c)) =
      cells_at key (offset b) (concat (map (\<lambda>(_, _, w). cells_of w) (f # c)))"
    using 3(2,4-6) by (simp add: f)
  ultimately show ?case
    using 3(5) write_entry_units(1)[of key i a w]
    by (auto simp: e f write_entry_cells_def cells_at_append write_entry_ok_def)
qed simp

lemma collect_single: "(\<And>x. x \<in> set xs \<Longrightarrow> f x = Some (g x)) \<Longrightarrow> collect f xs = Some (concat (map g xs))"
  by (induction xs) simp_all

lemma multi_payload_parts:
  "q < 65536 \<Longrightarrow> unat (of_be_bytes (take 2 (multi_payload q d)) :: u16) = q"
  "drop 3 (multi_payload q d) = d"
  by (simp_all add: multi_payload_def of_be_bytes_be_bytes take_bit_full_word unat_of_nat)

lemma sum_list_eq_length: "\<forall>x\<in>set xs. f x = (1::nat) \<Longrightarrow> sum_list (map f xs) = length xs"
  by (induction xs) simp_all

lemma payload_cells_coils:
  assumes "length bits < 65536"
  obtains d where "pack_bits bits = Some d" "length d = (length bits + 7) div 8"
    "payload_cells FC_WRITE_MULTIPLE_COILS (multi_payload (length bits) d) = map Bit bits"
proof (rule pack_bits_total[of bits])
  fix d assume d: "pack_bits bits = Some d" "length d = (length bits + 7) div 8"
    and bit_at: "\<And>j. j < length bits \<Longrightarrow> bit (d ! (j div 8)) (j mod 8) = bits ! j"
  have "map (\<lambda>i. Bit (bit (d ! (i div 8)) (i mod 8))) [0..<length bits] = map Bit bits"
    using bit_at by (intro nth_equalityI) simp_all
  moreover have "payload_cells FC_WRITE_MULTIPLE_COILS p =
      map (\<lambda>i. Bit (bit (drop 3 p ! (i div 8)) (i mod 8))) [0..<unat (of_be_bytes (take 2 p) :: u16)]" for p
    by (simp add: payload_cells_def Let_def fc_defs)
  ultimately show ?thesis
    using assms d that by (simp only: multi_payload_parts)
qed

lemma write_entry_ok_shape:
  "write_entry_ok (u, Coil) e \<Longrightarrow> \<exists>b. snd (snd e) = WCoil b"
  "write_entry_ok (u, HoldingRegister) e \<Longrightarrow>
     \<exists>d. snd (snd e) = WRegisters d \<and> even (length d) \<and> length d = 2 * units (snd (snd e))"
  by (cases "snd (snd e)"; auto simp: write_entry_ok_def split: prod.splits)+

lemma build_coils:
  assumes c: "c \<noteq> []" "\<forall>e\<in>set c. write_entry_ok (u, Coil) e" and "length c \<le> 1968"
  shows "sum_list (map (\<lambda>(_, _, w). units w) c) = length c \<and>
    (\<exists>f payload. build_write_payload Coil c (length c) = Some (f, payload) \<and>
      payload_cells f payload = concat (map (\<lambda>(_, _, w). cells_of w) c) \<and>
      (if length c = 1 then f = FC_WRITE_SINGLE_COIL \<and> length payload = 2
       else f = FC_WRITE_MULTIPLE_COILS \<and>
         (\<exists>d. payload = multi_payload (length c) d \<and> length d = (length c + 7) div 8)))"
proof -
  define bit_of :: "write_group_entry \<Rightarrow> bool" where "bit_of e = the (coil_of (snd (snd e)))" for e
  have shape: "snd (snd e) = WCoil (bit_of e)" if "e \<in> set c" for e
    using write_entry_ok_shape(1)[OF c(2)[rule_format, OF that]] by (auto simp: bit_of_def)
  have "collect (\<lambda>(_, _, w). map_option (\<lambda>b. [b]) (coil_of w)) c = Some (concat (map (\<lambda>e. [bit_of e]) c))"
    by (rule collect_single) (simp add: case_prod_beta shape)
  then have bits: "collect (\<lambda>(_, _, w). map_option (\<lambda>b. [b]) (coil_of w)) c = Some (map bit_of c)"
    by simp
  have "map (\<lambda>(_, _, w). cells_of w) c = map (\<lambda>e. [Bit (bit_of e)]) c"
    by (rule map_cong) (simp_all add: case_prod_beta shape)
  then have "concat (map (\<lambda>(_, _, w). cells_of w) c) = concat (map (\<lambda>e. [Bit (bit_of e)]) c)"
    by (rule arg_cong)
  then have cells: "concat (map (\<lambda>(_, _, w). cells_of w) c) = map Bit (map bit_of c)"
    by (simp only: concat_map_singleton map_map o_def)
  have "\<forall>e\<in>set c. (\<lambda>(_, _, w). units w) e = 1"
    by (simp add: case_prod_beta shape)
  then have "sum_list (map (\<lambda>(_, _, w). units w) c) = length c"
    by (rule sum_list_eq_length)
  moreover have "payload_cells FC_WRITE_SINGLE_COIL (coil_payload b) = [Bit b]" for b
    by (simp add: payload_cells_def coil_payload_def)
  moreover obtain d where "pack_bits (map bit_of c) = Some d" "length d = (length c + 7) div 8"
    "payload_cells FC_WRITE_MULTIPLE_COILS (multi_payload (length c) d) = map Bit (map bit_of c)"
    using payload_cells_coils[of "map bit_of c"] assms(3) by auto
  ultimately show ?thesis
    unfolding build_write_payload_def bits cells
    by (auto simp: coil_payload_def length_Suc_conv)
qed

lemma build_registers:
  assumes c: "c \<noteq> []" "\<forall>e\<in>set c. write_entry_ok (u, HoldingRegister) e"
    and q: "q = sum_list (map (\<lambda>(_, _, w). units w) c)" "q \<le> 123"
  shows "\<exists>f payload. build_write_payload HoldingRegister c q = Some (f, payload) \<and>
      payload_cells f payload = concat (map (\<lambda>(_, _, w). cells_of w) c) \<and>
      (f = FC_WRITE_SINGLE_REGISTER \<and> q = 1 \<and> length payload = 2 \<or>
       f = FC_WRITE_MULTIPLE_REGISTERS \<and> (\<exists>d. payload = multi_payload q d \<and> length d = 2 * q))"
proof -
  define data :: "write_group_entry \<Rightarrow> bytes" where "data e = the (registers_of (snd (snd e)))" for e
  have shape: "snd (snd e) = WRegisters (data e)" "even (length (data e))" "length (data e) = 2 * units (snd (snd e))"
    if "e \<in> set c" for e
  proof -
    have "write_entry_ok (u, HoldingRegister) e" using c(2) that by blast
    then obtain d where d: "snd (snd e) = WRegisters d" "even (length d)" "length d = 2 * units (snd (snd e))"
      using write_entry_ok_shape(2) by blast
    have "data e = d" by (simp add: data_def d(1))
    with d show "snd (snd e) = WRegisters (data e)" "even (length (data e))"
      "length (data e) = 2 * units (snd (snd e))" by (simp_all only:)
  qed
  have data: "collect (\<lambda>(_, _, w). registers_of w) c = Some (concat (map data c))"
    by (rule collect_single) (simp add: case_prod_beta shape(1))
  have "reg_cells (concat (map data xs)) = concat (map (reg_cells \<circ> data) xs)" if "set xs \<subseteq> set c" for xs
    using that by (induction xs) (auto simp: reg_cells_append shape(2))
  moreover have "map (\<lambda>(_, _, w). cells_of w) c = map (reg_cells \<circ> data) c"
    by (rule map_cong) (simp_all add: case_prod_beta shape(1))
  ultimately have cells: "concat (map (\<lambda>(_, _, w). cells_of w) c) = reg_cells (concat (map data c))"
    by (simp only: subset_refl)
  have "length (concat (map data xs)) = 2 * sum_list (map (\<lambda>(_, _, w). units w) xs)" if "set xs \<subseteq> set c" for xs
    using that by (induction xs) (auto simp: shape(3) case_prod_beta simp del: units.simps)
  then have len: "length (concat (map data c)) = 2 * q"
    using q(1) by simp
  show ?thesis
  proof (cases "length c = 1 \<and> units (snd (snd (hd c))) = 1")
    case True
    then obtain e where e: "c = [e]" by (auto simp: length_Suc_conv)
    have u: "units (snd (snd e)) = 1" and mem: "e \<in> set c" using True e by simp_all
    have "length (data e) = 2" and "registers_of (snd (snd e)) = Some (data e)"
      by (simp_all only: shape(3)[OF mem] u) (simp only: shape(1)[OF mem] registers_of.simps)
    moreover have "q = 1" using q(1) u by (simp add: e case_prod_beta del: units.simps)
    moreover have "build_write_payload HoldingRegister c q =
        map_option (Pair FC_WRITE_SINGLE_REGISTER) (registers_of (snd (snd e)))"
      using u by (simp add: build_write_payload_def e case_prod_beta Let_def del: units.simps)
    moreover have "payload_cells FC_WRITE_SINGLE_REGISTER (data e) = concat (map (\<lambda>(_, _, w). cells_of w) c)"
      unfolding cells by (simp add: e payload_cells_def fc_defs Let_def)
    ultimately show ?thesis by auto
  next
    case False
    then have "build_write_payload HoldingRegister c q = Some (FC_WRITE_MULTIPLE_REGISTERS, multi_payload q (concat (map data c)))"
      using c(1) data by (simp add: build_write_payload_def Let_def case_prod_beta hd_conv_nth del: units.simps)
    then show ?thesis
      using len q(2) cells
      by (auto simp: payload_cells_def fc_defs Let_def multi_payload_parts length_reg_cells)
  qed
qed

definition write_chunk_plan :: "group_key \<Rightarrow> write_group_entry list \<Rightarrow> u8 \<Rightarrow> bytes \<Rightarrow> write_plan" where
  "write_chunk_plan key c f payload =
     \<lparr>wp_unit_id = fst key, wp_kind = snd key, wp_function = f,
      wp_start_offset = offset (fst (snd (hd c))),
      wp_quantity = sum_list (map (\<lambda>(_, _, w). units w) c) mod 65536,
      wp_payload = payload, wp_item_ids = map fst c\<rparr>"

lemma write_limit_bounds: "write_limit k = Some l \<Longrightarrow> 4 \<le> l \<and> l \<le> 1968"
  by (cases k) (auto simp: write_limit_def limit_defs)

lemma run_end:
  assumes "c \<noteq> []" "successively write_adjacent c" "\<forall>e\<in>set c. write_entry_ok key e"
    and "sorted (map (\<lambda>(_, a, _). ma_address a) c)"
  shows "offset (fst (snd (hd c))) + sum_list (map (\<lambda>(_, _, w). units w) c) \<le> 65536"
  using assms
proof (induction c rule: induct_list012)
  case (2 e)
  then show ?case by (cases e) (auto simp: write_entry_ok_def)
next
  case (3 e f c)
  obtain i a w where e: "e = (i, a, w)" by (cases e)
  obtain j b v where f: "f = (j, b, v)" by (cases f)
  have "offset b = offset a + units w"
    using 3(4-6) by (intro write_adjacent_exact[of key i a w j b v]) (auto simp: e f)
  then show ?case using 3(2,4-6) by (simp add: e f)
qed simp

lemma write_chunk_ok:
  assumes c: "c \<noteq> []" "successively write_adjacent c" "\<forall>e\<in>set c. write_entry_ok key e"
      "sorted (map (\<lambda>(_, a, _). ma_address a) c)"
    and l: "write_limit (snd key) = Some l" "sum_list (map (\<lambda>(_, _, w). units w) c) \<le> l"
  shows "\<exists>f payload.
    build_write_payload (snd key) c (sum_list (map (\<lambda>(_, _, w). units w) c) mod 65536) = Some (f, payload) \<and>
    write_plan_ok (write_chunk_plan key c f payload) \<and>
    write_plan_cells (write_chunk_plan key c f payload) = concat (map write_entry_cells c)"
proof -
  let ?q = "sum_list (map (\<lambda>(_, _, w). units w) c)"
  have q: "?q mod 65536 = ?q" using l write_limit_bounds[OF l(1)] by simp
  have fits: "offset (fst (snd (hd c))) + ?q \<le> 65536" using run_end[OF c] .
  have len: "length c \<le> ?q"
    using c(3) write_entry_units(2) by (intro sum_list_ge_length) (fastforce split: prod.splits)
  note cells = write_run_cells[OF c]
  have "\<exists>f payload. build_write_payload (snd key) c ?q = Some (f, payload) \<and>
    payload_cells f payload = concat (map (\<lambda>(_, _, w). cells_of w) c) \<and>
    write_plan_ok (write_chunk_plan key c f payload)"
  proof (cases "snd key")
    case Coil
    then have key: "key = (fst key, Coil)" by (metis prod.collapse)
    have "\<forall>e\<in>set c. write_entry_ok (fst key, Coil) e" using c(3) key by simp
    from build_coils[OF c(1) this] l len obtain f payload where b:
      "?q = length c" "build_write_payload Coil c (length c) = Some (f, payload)"
      "payload_cells f payload = concat (map (\<lambda>(_, _, w). cells_of w) c)"
      "if length c = 1 then f = FC_WRITE_SINGLE_COIL \<and> length payload = 2
       else f = FC_WRITE_MULTIPLE_COILS \<and>
         (\<exists>d. payload = multi_payload (length c) d \<and> length d = (length c + 7) div 8)"
      by (auto simp: Coil write_limit_def limit_defs)
    then have "write_plan_ok (write_chunk_plan key c f payload)"
      using fits l c(1) q
      by (auto simp: write_plan_ok_def write_chunk_plan_def Coil fc_defs multi_payload_def write_limit_def
          limit_defs Suc_le_eq split: if_splits)
    with b Coil show ?thesis by auto
  next
    case HoldingRegister
    then have key: "key = (fst key, HoldingRegister)" by (metis prod.collapse)
    have "\<forall>e\<in>set c. write_entry_ok (fst key, HoldingRegister) e" using c(3) key by simp
    from build_registers[OF c(1) this refl] l obtain f payload where b:
      "build_write_payload HoldingRegister c ?q = Some (f, payload)"
      "payload_cells f payload = concat (map (\<lambda>(_, _, w). cells_of w) c)"
      "f = FC_WRITE_SINGLE_REGISTER \<and> ?q = 1 \<and> length payload = 2 \<or>
       f = FC_WRITE_MULTIPLE_REGISTERS \<and> (\<exists>d. payload = multi_payload ?q d \<and> length d = 2 * ?q)"
      by (auto simp: HoldingRegister write_limit_def limit_defs)
    have "1 \<le> ?q" using len c(1) by (metis One_nat_def Suc_leI length_greater_0_conv order_trans)
    with b have "write_plan_ok (write_chunk_plan key c f payload)"
      using fits l c(1) q
      by (auto simp: write_plan_ok_def write_chunk_plan_def HoldingRegister fc_defs multi_payload_def
          write_limit_def limit_defs)
    with b HoldingRegister show ?thesis by auto
  qed (use l(1) in \<open>simp_all add: write_limit_def\<close>)
  then show ?thesis
    using cells q by (auto simp: write_plan_cells_def write_chunk_plan_def)
qed

lemma emit_write_plan_ok:
  assumes "successively write_adjacent run" "\<forall>e\<in>set run. write_entry_ok (unit_id, kind) e"
    and "sorted (map (\<lambda>(_, a, _). ma_address a) run)" and l: "write_limit kind = Some l"
  shows "\<exists>plans. emit_write_plan unit_id kind l run = Some plans \<and>
    concat (map write_plan_cells plans) = concat (map write_entry_cells run) \<and>
    concat (map wp_item_ids plans) = map fst run \<and> (\<forall>p\<in>set plans. write_plan_ok p)"
  using assms(1-3)
proof (induction "length run" arbitrary: run rule: less_induct)
  case less
  show ?case
  proof (cases "run = []")
    case True
    then show ?thesis by (simp add: emit_write_plan.simps)
  next
    case False
    let ?w = "\<lambda>(_ :: nat, _ :: modbus_address, w). units w" and ?key = "(unit_id, kind)"
    obtain c rest where tc: "take_chunk ?w l 0 run = (c, rest)"
      by (cases "take_chunk ?w l 0 run")
    have run: "run = c @ rest" using take_chunk_append[OF tc] .
    have "?w (hd run) \<le> l"
      using less.prems(2) False write_entry_units(3) write_limit_bounds[OF l]
      by (cases run) (fastforce split: prod.splits)+
    then have c: "c \<noteq> []" using take_chunk_nonempty[OF tc False] by simp
    have "sum_list (map ?w c) \<le> l" using take_chunk_sum[OF tc] by simp
    then obtain f payload where ok:
      "build_write_payload kind c (sum_list (map ?w c) mod 65536) = Some (f, payload)"
      "write_plan_ok (write_chunk_plan ?key c f payload)"
      "write_plan_cells (write_chunk_plan ?key c f payload) = concat (map write_entry_cells c)"
      using write_chunk_ok[of c ?key l] less.prems c l
      by (auto simp: run successively_append_iff sorted_append)
    obtain plans where rest: "emit_write_plan unit_id kind l rest = Some plans"
      "concat (map write_plan_cells plans) = concat (map write_entry_cells rest)"
      "concat (map wp_item_ids plans) = map fst rest" "\<forall>p\<in>set plans. write_plan_ok p"
      using less.hyps[of rest] less.prems c by (auto simp: run successively_append_iff sorted_append)
    have "emit_write_plan unit_id kind l run = Some (write_chunk_plan ?key c f payload # plans)"
      using False c tc ok(1) rest(1) run
      by (subst emit_write_plan.simps) (simp add: write_chunk_plan_def Let_def)
    then show ?thesis using ok rest by (simp add: run write_chunk_plan_def)
  qed
qed

lemma plan_write_group_ok:
  assumes "\<forall>e\<in>set grp. write_entry_ok key e"
  defines "srt \<equiv> sort_key (\<lambda>(_, addr, _). ma_address addr) grp"
  shows "\<exists>plans. plan_write_group (key, grp) = Some plans \<and>
    concat (map write_plan_cells plans) = concat (map write_entry_cells srt) \<and>
    concat (map wp_item_ids plans) = map fst srt \<and> (\<forall>p\<in>set plans. write_plan_ok p)"
proof (cases "write_limit (snd key)")
  case None
  have "grp = []"
  proof (rule ccontr)
    assume "grp \<noteq> []"
    then have "write_entry_ok key (hd grp)" using assms(1) by simp
    then show False
      using None by (cases "snd (snd (hd grp))") (auto simp: write_entry_ok_def write_limit_def split: prod.splits)
  qed
  with None show ?thesis by (cases key) (simp add: plan_write_group_def srt_def)
next
  case (Some l)
  let ?runs = "split_runs write_adjacent [] srt"
  have conc: "concat ?runs = srt" by (simp add: split_runs_concat)
  have emit: "\<exists>plans. emit_write_plan (fst key) (snd key) l r = Some plans \<and>
      concat (map write_plan_cells plans) = concat (map write_entry_cells r) \<and>
      concat (map wp_item_ids plans) = map fst r \<and> (\<forall>p\<in>set plans. write_plan_ok p)"
    if "r \<in> set ?runs" for r
  proof (rule emit_write_plan_ok[OF _ _ _ Some])
    show "successively write_adjacent r"
      using that by (rule split_runs_successively[rotated]) simp
    have "set r \<subseteq> set (concat ?runs)" using that by auto
    then have "set r \<subseteq> set srt" by (simp only: conc)
    then have "set r \<subseteq> set grp" by (simp add: srt_def)
    then show "\<forall>e\<in>set r. write_entry_ok (fst key, snd key) e" using assms(1) by auto
    have "sorted (map (\<lambda>(_, a, _). ma_address a) srt)"
      unfolding srt_def by (rule sorted_sort_key)
    then have "sorted (map (\<lambda>(_, a, _). ma_address a) (concat ?runs))"
      by (simp only: conc)
    then show "sorted (map (\<lambda>(_, a, _). ma_address a) r)"
      using that by (auto simp: in_set_conv_decomp sorted_append)
  qed
  obtain plans where plans:
    "collect (emit_write_plan (fst key) (snd key) l) ?runs = Some plans"
    "concat (map write_plan_cells plans) = concat (map (\<lambda>r. concat (map write_entry_cells r)) ?runs)"
    "\<forall>p\<in>set plans. write_plan_ok p"
    using collect_view[where v = write_plan_cells and w = "\<lambda>r. concat (map write_entry_cells r)"
        and P = write_plan_ok and xs = ?runs and f = "emit_write_plan (fst key) (snd key) l"] emit
    by blast
  moreover have "concat (map wp_item_ids plans) = concat (map (map fst) ?runs)"
    using collect_view[where v = wp_item_ids and w = "map fst"
        and P = write_plan_ok and xs = ?runs and f = "emit_write_plan (fst key) (snd key) l"] emit plans(1)
    by fastforce
  moreover have "concat (map (map fst) ?runs) = map fst srt"
    by (metis conc map_concat)
  moreover have "concat (map (\<lambda>r. concat (map write_entry_cells r)) ?runs) = concat (map write_entry_cells srt)"
    by (simp only: concat_map_concat conc)
  ultimately show ?thesis
    using Some by (cases key) (simp add: plan_write_group_def srt_def)
qed

lemma bt_push_keys: "fst ` set (bt_push k v m) = insert k (fst ` set m)"
  by (induction k v m rule: bt_push.induct) auto

lemma bt_push_sorted: "sorted_wrt (<) (map fst m) \<Longrightarrow> sorted_wrt (<) (map fst (bt_push k v m))"
proof (induction k v m rule: bt_push.induct)
  case (2 k v k' vs m)
  have "k' < x" if "k' < k" "x \<in> fst ` set (bt_push k v m)" for x
    using 2(2) that by (auto simp: bt_push_keys)
  then show ?case using 2 by (auto simp: not_less_iff_gr_or_eq intro: less_trans)
qed simp

lemma bt_push_filter:
  "sorted_wrt (<) (map fst m) \<Longrightarrow>
   concat (map snd (filter (\<lambda>g. fst g = k0) (bt_push k v m))) =
     concat (map snd (filter (\<lambda>g. fst g = k0) m)) @ (if k = k0 then [v] else [])"
proof (induction k v m rule: bt_push.induct)
  case (2 k v k' vs m)
  have "filter (\<lambda>g. fst g = k0) m = []" if "k0 \<le> k'"
    using 2(2) that by (fastforce simp: filter_empty_conv)
  then show ?case using 2 by auto
qed simp

lemma bt_push_nonempty: "\<forall>g\<in>set m. snd g \<noteq> [] \<Longrightarrow> \<forall>g\<in>set (bt_push k v m). snd g \<noteq> []"
  by (induction k v m rule: bt_push.induct) auto

lemma fold_bt_push_filter:
  fixes key :: "'v \<Rightarrow> 'k::linorder" and es :: "'v list"
  assumes "sorted_wrt (<) (map fst m)"
  defines "m' \<equiv> fold (\<lambda>e. bt_push (key e) e) es m"
  shows "sorted_wrt (<) (map fst m') \<and>
    concat (map snd (filter (\<lambda>g. fst g = k0) m')) =
      concat (map snd (filter (\<lambda>g. fst g = k0) m)) @ filter (\<lambda>e. key e = k0) es"
  unfolding m'_def using assms(1)
  by (induction es arbitrary: m) (simp_all add: bt_push_sorted bt_push_filter)

text \<open>The outcome of one write item in the planner: \<^const>\<open>None\<close> fails the batch, \<^term>\<open>Some None\<close> is an
  item whose value cannot be encoded, otherwise the entry of the item.\<close>

definition write_entry :: "nat \<Rightarrow> word_order \<Rightarrow> write_request \<Rightarrow> write_group_entry option option" where
  "write_entry default_unit_id wo item =
     (case parse_address (wq_address item) default_unit_id of
        Inl _ \<Rightarrow> None
      | Inr a \<Rightarrow>
          if \<not> kind_writable (ma_kind a) then None
          else (case encode_write_value (ma_kind a) (wq_value_type item) (wq_value item) wo of
              Inl _ \<Rightarrow> Some None
            | Inr w \<Rightarrow> if offset a + units w > 65536 then None else Some (Some (wq_id item, a, w))))"

definition accepted_writes :: "nat \<Rightarrow> word_order \<Rightarrow> write_request list \<Rightarrow> write_group_entry list" where
  "accepted_writes d wo items = List.map_filter (\<lambda>it. Option.bind (write_entry d wo it) id) items"

definition write_key :: "write_group_entry \<Rightarrow> group_key" where
  "write_key e = (ma_unit_id (fst (snd e)), ma_kind (fst (snd e)))"

lemma group_writes_Cons:
  "group_writes (item # items) d wo groups errs =
     (case write_entry d wo item of
        None \<Rightarrow> Inl invalid_address
      | Some None \<Rightarrow> group_writes items d wo groups (errs @ [encode_error_result (wq_id item)])
      | Some (Some e) \<Rightarrow> group_writes items d wo (bt_push (write_key e) e groups) errs)"
  using encode_no_panic by (simp add: write_entry_def write_key_def split: sum.splits encode_error.splits)

lemma group_writes_alt:
  "group_writes items d wo groups errs =
     (if \<forall>it\<in>set items. write_entry d wo it \<noteq> None
      then Inr (fold (\<lambda>e. bt_push (write_key e) e) (accepted_writes d wo items) groups,
             errs @ map (\<lambda>it. encode_error_result (wq_id it))
                      (filter (\<lambda>it. write_entry d wo it = Some None) items))
      else Inl invalid_address)"
proof (induction items arbitrary: groups errs)
  case (Cons item items)
  consider "write_entry d wo item = None" | "write_entry d wo item = Some None"
    | e where "write_entry d wo item = Some (Some e)"
    by (metis option.exhaust)
  then show ?case
    unfolding group_writes_Cons
    by cases (simp_all add: Cons accepted_writes_def map_filter_simps del: not_None_eq)
qed (simp add: accepted_writes_def map_filter_simps)

lemma encode_write_value_shape:
  "encode_write_value k t v wo = Inr w \<Longrightarrow>
     (case w of WCoil _ \<Rightarrow> k = Coil | WRegisters d \<Rightarrow> k = HoldingRegister \<and> length d \<in> {2, 4, 8})"
  by (cases k) (auto simp: encode_write_value_def encode_register_data_def res_map_def result_simps reorder_words4_in
      reorder_words8_in split: raw_value.splits if_splits)

lemma accepted_writes_ok: "e \<in> set (accepted_writes d wo items) \<Longrightarrow> write_entry_ok (write_key e) e"
proof -
  assume "e \<in> set (accepted_writes d wo items)"
  then obtain it where "write_entry d wo it = Some (Some e)"
    by (auto simp: accepted_writes_def List.map_filter_def bind_eq_Some_conv)
  then obtain a w where e: "e = (wq_id it, a, w)" "parse_address (wq_address it) d = Inr a"
    "encode_write_value (ma_kind a) (wq_value_type it) (wq_value it) wo = Inr w" "offset a + units w \<le> 65536"
    by (auto simp: write_entry_def split: sum.splits if_splits)
  then show ?thesis
    using parse_address_wf[OF e(2)] encode_write_value_shape[OF e(3)]
    by (simp add: write_entry_ok_def write_key_def split: encoded_write.splits)
qed

lemma filter_concat_groups:
  assumes "\<And>g x. g \<in> set groups \<Longrightarrow> x \<in> set (w g) \<Longrightarrow> key x = fst g"
  shows "filter (\<lambda>x. key x = k) (concat (map w groups)) = concat (map w (filter (\<lambda>g. fst g = k) groups))"
  using assms
proof (induction groups)
  case (Cons g groups)
  have "filter (\<lambda>x. key x = k) (w g) = (if fst g = k then w g else [])"
    using Cons.prems[of g] by (simp add: filter_empty_conv)
  with Cons show ?case by simp
qed simp

text \<open>In a map with increasing keys, at most one group has a given key.\<close>

lemma filter_key_single:
  "sorted_wrt (<) (map fst (groups :: ('k::linorder \<times> 'v list) list)) \<Longrightarrow>
   filter (\<lambda>g. fst g = k) groups = [] \<or> (\<exists>vs. filter (\<lambda>g. fst g = k) groups = [(k, vs)])"
proof (induction groups)
  case (Cons g groups)
  have "filter (\<lambda>g. fst g = k) groups = []" if "fst g = k"
    using Cons.prems that by (fastforce simp: filter_empty_conv)
  with Cons show ?case by (cases g) auto
qed simp

lemma write_entry_cells_key:
  "write_entry_ok key e \<Longrightarrow> c \<in> set (write_entry_cells e) \<Longrightarrow> (fst c, fst (snd c)) = key"
  by (auto simp: write_entry_cells_def cells_at_def write_entry_ok_def split: prod.splits)

lemma group_cells_at_key:
  assumes ok: "\<forall>(k, vs)\<in>set groups. \<forall>x\<in>set vs. write_entry_ok k x"
    and sorted: "sorted_wrt (<) (map fst groups)"
  defines "srt \<equiv> \<lambda>g :: group_key \<times> write_group_entry list. sort_key (\<lambda>(_, addr, _). ma_address addr) (snd g)"
  shows "filter (\<lambda>c. (fst c, fst (snd c)) = key) (concat (map (\<lambda>g. concat (map write_entry_cells (srt g))) groups)) =
    concat (map write_entry_cells (srt (key, concat (map snd (filter (\<lambda>g. fst g = key) groups)))))"
proof -
  have "(fst c, fst (snd c)) = fst g"
    if g: "g \<in> set groups" and c: "c \<in> set (concat (map write_entry_cells (srt g)))" for g c
  proof -
    obtain e where e: "e \<in> set (snd g)" "c \<in> set (write_entry_cells e)"
      using c unfolding srt_def set_concat set_map set_sort by blast
    moreover have "write_entry_ok (fst g) e" using ok g e(1) by (cases g) auto
    ultimately show ?thesis using write_entry_cells_key by blast
  qed
  then have "filter (\<lambda>c. (fst c, fst (snd c)) = key) (concat (map (\<lambda>g. concat (map write_entry_cells (srt g))) groups)) =
      concat (map (\<lambda>g. concat (map write_entry_cells (srt g))) (filter (\<lambda>g. fst g = key) groups))"
    by (rule filter_concat_groups)
  then show ?thesis
    using filter_key_single[OF sorted, of key] by (auto simp: srt_def)
qed

lemma plan_write_batch_cases:
  "(\<exists>it\<in>set items. write_entry d wo it = None) \<and> plan_write_batch items d wo = Some (Inl invalid_address) \<or>
   (\<exists>plans. plan_write_batch items d wo = Some (Inr (plans,
        map (\<lambda>it. encode_error_result (wq_id it)) (filter (\<lambda>it. write_entry d wo it = Some None) items))) \<and>
      (\<forall>it\<in>set items. write_entry d wo it \<noteq> None) \<and>
      mset (concat (map wp_item_ids plans)) = mset (map fst (accepted_writes d wo items)) \<and>
      (\<forall>key. filter (\<lambda>c. (fst c, fst (snd c)) = key) (concat (map write_plan_cells plans)) =
         concat (map write_entry_cells (sort_key (\<lambda>(_, addr, _). ma_address addr)
           (filter (\<lambda>e. write_key e = key) (accepted_writes d wo items))))) \<and>
      (\<forall>p\<in>set plans. write_plan_ok p))"
proof (cases "\<forall>it\<in>set items. write_entry d wo it \<noteq> None")
  case True
  define es where "es = accepted_writes d wo items"
  define groups where "groups = fold (\<lambda>e. bt_push (write_key e) e) es []"
  let ?srt = "\<lambda>g. sort_key (\<lambda>(_, addr, _). ma_address addr) (snd (g :: group_key \<times> write_group_entry list))"
  have ok: "\<forall>(k, vs)\<in>set groups. \<forall>x\<in>set vs. write_entry_ok k x"
    and all: "mset (concat (map snd groups)) = mset es"
    using fold_bt_push[of es write_entry_ok write_key "[]"] accepted_writes_ok
    by (simp_all add: groups_def es_def)
  have sorted: "sorted_wrt (<) (map fst groups)"
    and at_key: "concat (map snd (filter (\<lambda>g. fst g = k) groups)) = filter (\<lambda>e. write_key e = k) es" for k
    using fold_bt_push_filter[of "[]" write_key es] by (simp_all add: groups_def)
  have grp: "\<exists>plans. plan_write_group g = Some plans \<and>
      concat (map write_plan_cells plans) = concat (map write_entry_cells (?srt g)) \<and>
      concat (map wp_item_ids plans) = map fst (?srt g) \<and> (\<forall>p\<in>set plans. write_plan_ok p)"
    if "g \<in> set groups" for g
    using plan_write_group_ok[of "snd g" "fst g"] ok that by (cases g) auto
  obtain plans where plans: "collect plan_write_group groups = Some plans"
    "concat (map write_plan_cells plans) = concat (map (\<lambda>g. concat (map write_entry_cells (?srt g))) groups)"
    "\<forall>p\<in>set plans. write_plan_ok p"
    using collect_view[where v = write_plan_cells and P = write_plan_ok and xs = groups and f = plan_write_group
        and w = "\<lambda>g. concat (map write_entry_cells (?srt g))"] grp by blast
  have "concat (map wp_item_ids plans) = concat (map (\<lambda>g. map fst (?srt g)) groups)"
    using collect_view[where v = wp_item_ids and P = write_plan_ok and xs = groups and f = plan_write_group
        and w = "\<lambda>g. map fst (?srt g)"] grp plans(1) by fastforce
  then have ids: "mset (concat (map wp_item_ids plans)) = mset (map fst es)"
    by (simp add: mset_concat_sort_key all del: mset_concat)
  have "filter (\<lambda>c. (fst c, fst (snd c)) = key) (concat (map write_plan_cells plans)) =
      concat (map write_entry_cells (?srt (key, filter (\<lambda>e. write_key e = key) es)))" for key
    unfolding plans(2) group_cells_at_key[OF ok sorted] at_key ..
  moreover have "plan_write_batch items d wo = Some (Inr (plans,
      map (\<lambda>it. encode_error_result (wq_id it)) (filter (\<lambda>it. write_entry d wo it = Some None) items)))"
    using True plans(1) by (simp add: plan_write_batch_def group_writes_alt groups_def es_def)
  ultimately show ?thesis
    using True plans(3) ids unfolding es_def snd_conv by blast
next
  case False
  then show ?thesis by (auto simp: plan_write_batch_def group_writes_alt simp del: not_None_eq)
qed

text \<open>C8: planning of a write batch. An invalid or read-only address, or a span past offset 65535, fails
  the whole batch. Otherwise planning succeeds; every item whose value cannot be encoded gets its own
  \<^verbatim>\<open>invalid_type\<close> result, every other item is written by exactly one plan; and at each unit and segment
  the plans set, in this order, exactly the cells of the items sorted by address (items at one address in
  the order of the request): no other cell is touched. Every plan is a well-formed request.\<close>

theorem plan_write_batch_correct:
  "(\<exists>it\<in>set items. write_entry d wo it = None) \<and> plan_write_batch items d wo = Some (Inl invalid_address) \<or>
   (\<exists>plans. plan_write_batch items d wo = Some (Inr (plans,
        map (\<lambda>it. encode_error_result (wq_id it)) (filter (\<lambda>it. write_entry d wo it = Some None) items))) \<and>
      (\<forall>it\<in>set items. write_entry d wo it \<noteq> None) \<and>
      mset (concat (map wp_item_ids plans)) = mset (map fst (accepted_writes d wo items)) \<and>
      (\<forall>key. filter (\<lambda>c. (fst c, fst (snd c)) = key) (concat (map write_plan_cells plans)) =
         concat (map write_entry_cells (sort_key (\<lambda>(_, addr, _). ma_address addr)
           (filter (\<lambda>e. write_key e = key) (accepted_writes d wo items))))) \<and>
      (\<forall>p\<in>set plans. write_plan_ok p))"
  by (rule plan_write_batch_cases)

theorem plan_write_batch_correct_witness:
  "\<exists>plans. plan_write_batch [\<lparr>wq_id = 3, wq_address = ''40002'', wq_value_type = tag_num Tag_U16, wq_value = RV_U64 5\<rparr>,
      \<lparr>wq_id = 4, wq_address = ''40001'', wq_value_type = tag_num Tag_Bool, wq_value = RV_Bool True\<rparr>] 1 Abcd =
      Some (Inr (plans, [encode_error_result 4])) \<and>
    mset (concat (map wp_item_ids plans)) = {#3#} \<and>
    filter (\<lambda>c. (fst c, fst (snd c)) = (1, HoldingRegister)) (concat (map write_plan_cells plans)) =
      [(1, HoldingRegister, 1, Reg 0 5)]"
proof -
  let ?a = "\<lparr>wq_id = 3, wq_address = ''40002'', wq_value_type = tag_num Tag_U16, wq_value = RV_U64 5\<rparr>"
    and ?b = "\<lparr>wq_id = 4, wq_address = ''40001'', wq_value_type = tag_num Tag_Bool, wq_value = RV_Bool True\<rparr>"
  let ?addr = "\<lparr>ma_unit_id = 1, ma_kind = HoldingRegister, ma_address = 40002\<rparr>"
  have "encode_write_value HoldingRegister (tag_num Tag_U16) (RV_U64 5) Abcd = Inr (WRegisters [0, 5])"
    "encode_write_value HoldingRegister (tag_num Tag_Bool) (RV_Bool True) Abcd = Inl RegisterRejectsBool"
    by code_simp+
  then have "write_entry 1 Abcd ?a = Some (Some (3, ?addr, WRegisters [0, 5]))" "write_entry 1 Abcd ?b = Some None"
    by (simp_all add: write_entry_def parse_address_examples del: One_nat_def tag_num.simps)
  then show ?thesis
    using plan_write_batch_correct[of "[?a, ?b]" 1 Abcd]
    by (auto simp: accepted_writes_def map_filter_simps write_key_def write_entry_cells_def cells_at_def
        simp del: One_nat_def tag_num.simps)
qed

end
