(* ===== verification/Modbus_Session.thy ===== *)
theory Modbus_Session
  imports Modbus_Error
begin

text \<open>
  Transport sessions (\<^verbatim>\<open>drivers/modbus/src/session.rs\<close>). The operating system is a script: a stream holds
  the bytes and errors its peer will deliver and the outcome of each coming \<^verbatim>\<open>write_all\<close>, and a transport
  holds the outcome of each coming attempt to connect. Every run of the code against a device is a run
  against some script, so a theorem for all scripts holds for all devices. The frames that were sent are
  recorded in a log, which the code never reads. An index or a slice out of bounds is the error
  \<^const>\<open>driver_panic\<close>, which no function of the sessions builds; that it never occurs is part of the contract
  of a transport below (\<open>transaction_error\<close>).
\<close>

section \<open>Streams\<close>

datatype io_error = TimedOut | WouldBlock | OtherIo

record stream =
  st_rx :: "(io_error + u8) list"
  st_writes :: "bool list"

text \<open>\<^verbatim>\<open>read_exact\<close>: all bytes or an error; a peer that sends nothing more makes the read time out.\<close>

fun read_bytes :: "nat \<Rightarrow> (io_error + u8) list \<Rightarrow> (io_error + bytes) \<times> (io_error + u8) list" where
  "read_bytes 0 rx = (Inr [], rx)"
| "read_bytes (Suc n) [] = (Inl TimedOut, [])"
| "read_bytes (Suc n) (Inl e # rx) = (Inl e, rx)"
| "read_bytes (Suc n) (Inr b # rx) =
     (case read_bytes n rx of (Inl e, rx') \<Rightarrow> (Inl e, rx') | (Inr bs, rx') \<Rightarrow> (Inr (b # bs), rx'))"

definition map_io_error :: "io_error \<Rightarrow> modbus_error" where
  "map_io_error e = (case e of TimedOut \<Rightarrow> timeout_error | WouldBlock \<Rightarrow> timeout_error | OtherIo \<Rightarrow> connection_lost)"

definition stream_read :: "nat \<Rightarrow> (stream, modbus_error, bytes) st" where
  "stream_read n st = (case read_bytes n (st_rx st) of (r, rx) \<Rightarrow> (res_map_err map_io_error r, st\<lparr>st_rx := rx\<rparr>))"

definition stream_write :: "bytes \<Rightarrow> (stream, modbus_error, unit) st" where
  "stream_write frame st =
     (case st_writes st of
        True # ws \<Rightarrow> (Inr (), st\<lparr>st_writes := ws\<rparr>)
      | False # ws \<Rightarrow> (Inl connection_lost, st\<lparr>st_writes := ws\<rparr>)
      | [] \<Rightarrow> (Inl connection_lost, st))"

section \<open>Write responses\<close>

definition frame_failure :: "frame_error \<Rightarrow> modbus_error" where
  "frame_failure e = (case e of FramePanic \<Rightarrow> driver_panic | _ \<Rightarrow> invalid_response)"

definition validate_write_body :: "u8 \<Rightarrow> u16 \<Rightarrow> bytes \<Rightarrow> bytes \<Rightarrow> modbus_error + unit" where
  "validate_write_body f start_offset payload body =
     (if body = [] then Inl invalid_response
      else at_index (Inl driver_panic) body 0 (\<lambda>raw.
        if raw AND 0x7F \<noteq> f then Inl invalid_response
        else if raw AND 0x80 \<noteq> 0 then
          (if length body \<noteq> 2 then Inl invalid_response
           else at_index (Inl driver_panic) body 1 (\<lambda>code. Inl (modbus_exception code)))
        else if \<not> is_write_function f then Inl invalid_response
        else in_slice (Inl driver_panic) body 1 (length body) (\<lambda>echo.
          res_map_err frame_failure (validate_write_echo echo start_offset payload))))"

section \<open>TCP\<close>

text \<open>\<open>AddrsFail\<close>: the host does not resolve. \<open>Addrs\<close>: the outcome of connecting to each address in turn;
  the flag tells whether both socket timeouts can be set.\<close>

datatype connect_outcome = AddrsFail | Addrs "(stream \<times> bool) option list"

record tcp_transport =
  tt_stream :: "stream option"
  tt_transaction_id :: u16
  tt_connects :: "connect_outcome list"
  tt_log :: "bytes list"

definition tcp_connect :: "(tcp_transport, modbus_error, unit) st" where
  "tcp_connect t =
     (if tt_stream t \<noteq> None then (Inr (), t)
      else (case tt_connects t of
          [] \<Rightarrow> (Inl connection_failed, t)
        | AddrsFail # cs \<Rightarrow> (Inl connection_failed, t\<lparr>tt_connects := cs\<rparr>)
        | Addrs os # cs \<Rightarrow>
            (let t = t\<lparr>tt_connects := cs\<rparr> in
             case find (\<lambda>x. x \<noteq> None) os of
               Some (Some (st, timeouts_set)) \<Rightarrow>
                 if timeouts_set then (Inr (), t\<lparr>tt_stream := Some st\<rparr>) else (Inl connection_failed, t)
             | _ \<Rightarrow> (Inl connection_failed, t))))"

definition tcp_is_connected :: "tcp_transport \<Rightarrow> bool" where
  "tcp_is_connected t \<longleftrightarrow> tt_stream t \<noteq> None"

definition tcp_disconnect :: "tcp_transport \<Rightarrow> tcp_transport" where
  "tcp_disconnect t = t\<lparr>tt_stream := None\<rparr>"

text \<open>A call on \<^verbatim>\<open>self.stream()?\<close>.\<close>

definition on_tcp_stream :: "(stream, modbus_error, 'a) st \<Rightarrow> (tcp_transport, modbus_error, 'a) st" where
  "on_tcp_stream m t =
     (case tt_stream t of
        None \<Rightarrow> (Inl connection_lost, t)
      | Some st \<Rightarrow> (case m st of (r, st') \<Rightarrow> (r, t\<lparr>tt_stream := Some st'\<rparr>)))"

definition tcp_read_exact :: "nat \<Rightarrow> (tcp_transport, modbus_error, bytes) st" where
  "tcp_read_exact n = on_tcp_stream (stream_read n)"

definition tcp_send :: "bytes \<Rightarrow> (tcp_transport, modbus_error, unit) st" where
  "tcp_send frame t = on_tcp_stream (stream_write frame) (t\<lparr>tt_log := tt_log t @ [frame]\<rparr>)"

definition tcp_next_id :: "tcp_transport \<Rightarrow> tcp_transport" where
  "tcp_next_id t = t\<lparr>tt_transaction_id := tt_transaction_id t + 1\<rparr>"

text \<open>Both transactions read the header, check it against the request and read the body.\<close>

definition tcp_response_body :: "u8 \<Rightarrow> (tcp_transport, modbus_error, bytes) st" where
  "tcp_response_body unit_id =
     st_bind (tcp_read_exact 7) (\<lambda>header.
     st_bind (st_lift (res_map_err frame_failure (parse_tcp_response_header header))) (\<lambda>meta t.
       if th_transaction_id meta \<noteq> tt_transaction_id t then (Inl invalid_response, t)
       else if th_unit_id meta \<noteq> unit_id then (Inl invalid_response, t)
       else tcp_read_exact (th_data_len meta) t))"

definition tcp_check_read_body :: "u8 \<Rightarrow> u16 \<Rightarrow> bytes \<Rightarrow> modbus_error + bytes" where
  "tcp_check_read_body f quantity body =
     (if body = [] then Inl invalid_response
      else at_index (Inl driver_panic) body 0 (\<lambda>raw.
        if raw AND 0x7F \<noteq> f then Inl invalid_response
        else if raw AND 0x80 \<noteq> 0 then
          (if length body \<noteq> 2 then Inl invalid_response
           else at_index (Inl driver_panic) body 1 (\<lambda>code. Inl (modbus_exception code)))
        else
          (let expected = expected_data_len f quantity in
           if length body \<noteq> expected + 2 then Inl invalid_response
           else at_index (Inl driver_panic) body 1 (\<lambda>count.
             if unat count \<noteq> expected then Inl invalid_response
             else in_slice (Inl driver_panic) body 2 (length body) Inr))))"

definition tcp_read_transaction :: "u8 \<Rightarrow> u8 \<Rightarrow> u16 \<Rightarrow> u16 \<Rightarrow> (tcp_transport, modbus_error, bytes) st" where
  "tcp_read_transaction unit_id f start_offset quantity t0 =
     (let t = tcp_next_id t0 in
      st_bind (tcp_send (build_tcp_read_request (tt_transaction_id t) unit_id f start_offset quantity)) (\<lambda>_.
      st_bind (tcp_response_body unit_id) (\<lambda>body.
      st_lift (tcp_check_read_body f quantity body))) t)"

definition tcp_write_transaction :: "u8 \<Rightarrow> u8 \<Rightarrow> u16 \<Rightarrow> bytes \<Rightarrow> (tcp_transport, modbus_error, unit) st" where
  "tcp_write_transaction unit_id f start_offset payload t0 =
     (let t = tcp_next_id t0 in
      st_bind (tcp_send (build_tcp_write_request (tt_transaction_id t) unit_id f start_offset payload)) (\<lambda>_.
      st_bind (tcp_response_body unit_id) (\<lambda>body.
      st_lift (validate_write_body f start_offset payload body))) t)"

section \<open>RTU\<close>

text \<open>A coming attempt to open the port gives a stream or fails.\<close>

record rtu_transport =
  rt_port :: "stream option"
  rt_opens :: "stream option list"
  rt_log :: "bytes list"

definition rtu_connect :: "(rtu_transport, modbus_error, unit) st" where
  "rtu_connect t =
     (if rt_port t \<noteq> None then (Inr (), t)
      else (case rt_opens t of
          [] \<Rightarrow> (Inl connection_failed, t)
        | None # os \<Rightarrow> (Inl connection_failed, t\<lparr>rt_opens := os\<rparr>)
        | Some st # os \<Rightarrow> (Inr (), t\<lparr>rt_opens := os, rt_port := Some st\<rparr>)))"

definition rtu_is_connected :: "rtu_transport \<Rightarrow> bool" where
  "rtu_is_connected t \<longleftrightarrow> rt_port t \<noteq> None"

definition rtu_disconnect :: "rtu_transport \<Rightarrow> rtu_transport" where
  "rtu_disconnect t = t\<lparr>rt_port := None\<rparr>"

definition on_rtu_port :: "(stream, modbus_error, 'a) st \<Rightarrow> (rtu_transport, modbus_error, 'a) st" where
  "on_rtu_port m t =
     (case rt_port t of
        None \<Rightarrow> (Inl connection_lost, t)
      | Some st \<Rightarrow> (case m st of (r, st') \<Rightarrow> (r, t\<lparr>rt_port := Some st'\<rparr>)))"

definition rtu_send :: "bytes \<Rightarrow> (rtu_transport, modbus_error, unit) st" where
  "rtu_send frame t = on_rtu_port (stream_write frame) (t\<lparr>rt_log := rt_log t @ [frame]\<rparr>)"

text \<open>Both transactions read two bytes, compute the length of the frame, read the rest, verify the check
  sum and the function, and turn an exception response into an error.\<close>

definition rtu_check_frame :: "u8 \<Rightarrow> bytes \<Rightarrow> modbus_error + bytes" where
  "rtu_check_frame f frame =
     (case verify frame of
        None \<Rightarrow> Inl driver_panic
      | Some ok \<Rightarrow>
          if \<not> ok then Inl invalid_response
          else
            res_bind (res_map_err frame_failure (parse_rtu_response_meta frame)) (\<lambda>meta.
              if rm_function meta \<noteq> f then Inl invalid_response
              else if rm_is_exception meta then at_index (Inl driver_panic) frame 2 (\<lambda>code. Inl (modbus_exception code))
              else Inr frame))"

definition rtu_response_frame :: "u8 \<Rightarrow> u8 \<Rightarrow> u16 \<Rightarrow> (rtu_transport, modbus_error, bytes) st" where
  "rtu_response_frame unit_id f quantity =
     st_bind (on_rtu_port (stream_read 2)) (\<lambda>head t.
       at_index (Inl driver_panic, t) head 0 (\<lambda>unit.
         if unit \<noteq> unit_id then (Inl invalid_response, t)
         else
           st_bind (st_lift (res_map_err frame_failure (rtu_response_total_len head f quantity))) (\<lambda>total.
           st_bind (on_rtu_port (stream_read (total - 2))) (\<lambda>rest.
           st_lift (rtu_check_frame f (head @ rest)))) t))"

definition rtu_read_transaction :: "u8 \<Rightarrow> u8 \<Rightarrow> u16 \<Rightarrow> u16 \<Rightarrow> (rtu_transport, modbus_error, bytes) st" where
  "rtu_read_transaction unit_id f start_offset quantity =
     st_bind (rtu_send (build_rtu_read_request unit_id f start_offset quantity)) (\<lambda>_.
     st_bind (rtu_response_frame unit_id f quantity) (\<lambda>frame t.
       at_index (Inl driver_panic, t) frame 2 (\<lambda>count.
         if unat count \<noteq> expected_data_len f quantity then (Inl invalid_response, t)
         else in_slice (Inl driver_panic, t) frame 3 (length frame - 2) (\<lambda>d. (Inr d, t)))))"

definition rtu_write_transaction :: "u8 \<Rightarrow> u8 \<Rightarrow> u16 \<Rightarrow> bytes \<Rightarrow> (rtu_transport, modbus_error, unit) st" where
  "rtu_write_transaction unit_id f start_offset payload =
     st_bind (rtu_send (build_rtu_write_request unit_id f start_offset payload)) (\<lambda>_.
     st_bind (rtu_response_frame unit_id f 0) (\<lambda>frame t.
       in_slice (Inl driver_panic, t) frame 1 (length frame - 2) (\<lambda>body.
         st_lift (validate_write_body f start_offset payload body) t)))"

section \<open>The contract of a transport\<close>

definition transaction_error :: "modbus_error \<Rightarrow> bool" where
  "transaction_error e \<longleftrightarrow>
     e = connection_lost \<or> e = timeout_error \<or> e = invalid_response \<or> (\<exists>c. e = modbus_exception c)"

text \<open>What the driver relies on from every implementation of the trait \<^verbatim>\<open>Transport\<close>.\<close>

locale transport =
  fixes connect :: "('s, modbus_error, unit) st"
    and is_connected :: "'s \<Rightarrow> bool"
    and disconnect :: "'s \<Rightarrow> 's"
    and read_transaction :: "u8 \<Rightarrow> u8 \<Rightarrow> u16 \<Rightarrow> u16 \<Rightarrow> ('s, modbus_error, bytes) st"
    and write_transaction :: "u8 \<Rightarrow> u8 \<Rightarrow> u16 \<Rightarrow> bytes \<Rightarrow> ('s, modbus_error, unit) st"
  assumes connect_Inr: "connect s = (Inr (), s') \<Longrightarrow> is_connected s'"
    and connect_Inl: "connect s = (Inl e, s') \<Longrightarrow> e = connection_failed \<and> \<not> is_connected s'"
    and connect_idem: "is_connected s \<Longrightarrow> connect s = (Inr (), s)"
    and disconnect: "\<not> is_connected (disconnect s)"
    and read_length: "read_transaction u f off q s = (Inr d, s') \<Longrightarrow> \<not> is_write_function f \<Longrightarrow> length d = expected_data_len f q"
    and read_error: "read_transaction u f off q s = (Inl e, s') \<Longrightarrow> transaction_error e"
    and write_error: "write_transaction u f off p s = (Inl e, s') \<Longrightarrow> transaction_error e"
    and read_connected: "is_connected (snd (read_transaction u f off q s)) = is_connected s"
    and write_connected: "is_connected (snd (write_transaction u f off p s)) = is_connected s"
    and read_disconnected: "\<not> is_connected s \<Longrightarrow> fst (read_transaction u f off q s) = Inl connection_lost"
    and write_disconnected: "\<not> is_connected s \<Longrightarrow> fst (write_transaction u f off p s) = Inl connection_lost"
begin

lemma read_exception_or_transport:
  "read_transaction u f off q s = (Inl e, s') \<Longrightarrow> \<not> is_transport_level e \<Longrightarrow> \<exists>c. e = modbus_exception c"
  using read_error[of u f off q s e s'] by (auto simp: transaction_error_def)

lemma write_exception_or_transport:
  "write_transaction u f off p s = (Inl e, s') \<Longrightarrow> \<not> is_transport_level e \<Longrightarrow> \<exists>c. e = modbus_exception c"
  using write_error[of u f off p s e s'] by (auto simp: transaction_error_def)

lemma read_success_connected: "read_transaction u f off q s = (Inr d, s') \<Longrightarrow> is_connected s \<and> is_connected s'"
  using read_connected[of u f off q s] read_disconnected[of s u f off q] by auto

lemma write_success_connected: "write_transaction u f off p s = (Inr x, s') \<Longrightarrow> is_connected s \<and> is_connected s'"
  using write_connected[of u f off p s] write_disconnected[of s u f off p] by auto

end

section \<open>Facts on streams\<close>

lemma read_bytes_map [simp]: "read_bytes (length bs) (map Inr bs @ rx) = (Inr bs, rx)"
  by (induction bs) simp_all

lemma read_bytes_InrD:
  "read_bytes n rx = (Inr bs, rx') \<Longrightarrow> rx = map Inr bs @ rx' \<and> length bs = n"
  by (induction n rx arbitrary: bs rx' rule: read_bytes.induct) (auto split: prod.splits sum.splits)

lemma stream_read_Inr:
  "stream_read n st = (Inr bs, st') \<longleftrightarrow>
     (\<exists>rx. st_rx st = map Inr bs @ rx \<and> length bs = n \<and> st' = st\<lparr>st_rx := rx\<rparr>)"
  by (auto simp: stream_read_def res_map_err_eq_Inr split: prod.splits dest: read_bytes_InrD)

lemma stream_read_Inl: "stream_read n st = (Inl e, st') \<Longrightarrow> e = timeout_error \<or> e = connection_lost"
  by (auto simp: stream_read_def res_map_err_eq_Inl split: prod.splits)
     (metis io_error.exhaust io_error.simps(7-9) map_io_error_def)

lemma stream_write_Inr:
  "stream_write fr st = (Inr (), st') \<longleftrightarrow> (\<exists>ws. st_writes st = True # ws \<and> st' = st\<lparr>st_writes := ws\<rparr>)"
  by (auto simp: stream_write_def split: list.splits bool.splits)

lemma stream_write_Inl: "stream_write fr st = (Inl e, st') \<Longrightarrow> e = connection_lost"
  by (auto simp: stream_write_def split: list.splits bool.splits)

section \<open>No access is out of bounds\<close>

lemma frame_failure_map: "r \<noteq> Inl FramePanic \<Longrightarrow> res_map_err frame_failure r = res_map_err (\<lambda>_. invalid_response) r"
  by (cases r) (auto simp: frame_failure_def split: frame_error.splits)

lemma frame_failure_simps [simp]:
  "res_map_err frame_failure (validate_write_echo d off p) = res_map_err (\<lambda>_. invalid_response) (validate_write_echo d off p)"
  "res_map_err frame_failure (parse_tcp_response_header h) = res_map_err (\<lambda>_. invalid_response) (parse_tcp_response_header h)"
  "res_map_err frame_failure (rtu_response_total_len h f q) = res_map_err (\<lambda>_. invalid_response) (rtu_response_total_len h f q)"
  "res_map_err frame_failure (parse_rtu_response_meta h) = res_map_err (\<lambda>_. invalid_response) (parse_rtu_response_meta h)"
  by (rule frame_failure_map, rule frame_no_panic)+

lemma validate_write_body_alt:
  "validate_write_body f start_offset payload body =
     (if body = [] then Inl invalid_response
      else
        (let raw = body ! 0 in
         if raw AND 0x7F \<noteq> f then Inl invalid_response
         else if raw AND 0x80 \<noteq> 0 then
           (if length body \<noteq> 2 then Inl invalid_response else Inl (modbus_exception (body ! 1)))
         else if \<not> is_write_function f then Inl invalid_response
         else res_map_err (\<lambda>_. invalid_response) (validate_write_echo (drop 1 body) start_offset payload)))"
  by (cases body) (simp_all add: validate_write_body_def Let_def)

lemma tcp_check_read_body_alt:
  "tcp_check_read_body f quantity body =
     (if body = [] then Inl invalid_response
      else
        (let raw = body ! 0; expected = expected_data_len f quantity in
         if raw AND 0x7F \<noteq> f then Inl invalid_response
         else if raw AND 0x80 \<noteq> 0 then
           (if length body \<noteq> 2 then Inl invalid_response else Inl (modbus_exception (body ! 1)))
         else if length body \<noteq> expected + 2 \<or> unat (body ! 1) \<noteq> expected then Inl invalid_response
         else Inr (drop 2 body)))"
  by (cases body) (simp_all add: tcp_check_read_body_def Let_def)

section \<open>The TCP transport\<close>

lemma on_tcp_stream_Inr [result_simps]:
  "on_tcp_stream m t = (Inr x, t') \<longleftrightarrow>
     (\<exists>st st'. tt_stream t = Some st \<and> m st = (Inr x, st') \<and> t' = t\<lparr>tt_stream := Some st'\<rparr>)"
  by (auto simp: on_tcp_stream_def split: option.splits prod.splits)

lemma on_tcp_stream_Inl [result_simps]:
  "on_tcp_stream m t = (Inl e, t') \<longleftrightarrow>
     tt_stream t = None \<and> e = connection_lost \<and> t' = t \<or>
     (\<exists>st st'. tt_stream t = Some st \<and> m st = (Inl e, st') \<and> t' = t\<lparr>tt_stream := Some st'\<rparr>)"
  by (auto simp: on_tcp_stream_def split: option.splits prod.splits)

lemma on_tcp_stream_connected [simp]: "tt_stream (snd (on_tcp_stream m t)) = None \<longleftrightarrow> tt_stream t = None"
  by (auto simp: on_tcp_stream_def split: option.splits prod.splits)

text \<open>A predicate kept by every step is kept by a sequence of steps.\<close>

lemma st_bind_snd:
  "snd (st_bind m f s) = (case m s of (Inl e, s') \<Rightarrow> s' | (Inr x, s') \<Rightarrow> snd (f x s'))"
  by (simp add: st_bind_def split: prod.splits sum.splits)

lemma tcp_read_exact_connected [simp]: "tt_stream (snd (tcp_read_exact n t)) = None \<longleftrightarrow> tt_stream t = None"
  by (simp add: tcp_read_exact_def)

lemma tcp_send_connected [simp]: "tt_stream (snd (tcp_send fr t)) = None \<longleftrightarrow> tt_stream t = None"
  by (simp add: tcp_send_def)

lemma st_bind_connected:
  assumes "\<And>s. C (snd (m s)) \<longleftrightarrow> C s" and "\<And>x s. C (snd (f x s)) \<longleftrightarrow> C s"
  shows "C (snd (st_bind m f s)) \<longleftrightarrow> C s"
  using assms(1)[of s] assms(2) by (auto simp: st_bind_def split: prod.splits sum.splits)

lemma tcp_response_body_connected: "tt_stream (snd (tcp_response_body u t)) = None \<longleftrightarrow> tt_stream t = None"
  unfolding tcp_response_body_def by (intro st_bind_connected) auto

lemma tcp_exchange_connected:
  "tt_stream (snd (st_bind (tcp_send fr) (\<lambda>_. st_bind (tcp_response_body u) (\<lambda>b. st_lift (g b))) s)) = None
     \<longleftrightarrow> tt_stream s = None"
  by (intro st_bind_connected) (simp_all add: tcp_response_body_connected)

lemma tcp_transaction_connected:
  "tt_stream (snd (tcp_read_transaction u f off q t)) = None \<longleftrightarrow> tt_stream t = None"
  "tt_stream (snd (tcp_write_transaction u f off p t)) = None \<longleftrightarrow> tt_stream t = None"
  by (simp_all add: tcp_read_transaction_def tcp_write_transaction_def Let_def tcp_next_id_def
      tcp_exchange_connected)

lemma function_byte_split: "raw AND 0x7F = f \<and> raw AND 0x80 = 0 \<longleftrightarrow> raw = f \<and> f AND 0x80 = (0 :: u8)"
proof -
  have "raw = (raw AND 0x7F) OR (raw AND 0x80)" for raw :: u8
  proof -
    have "(0x7F :: u8) OR 0x80 = - 1" by simp
    then show ?thesis by (metis and.right_neutral bit.conj_disj_distrib)
  qed
  then show ?thesis by (metis or.right_neutral)
qed

lemma be_bytes_2_of: "be_bytes 2 (of_be_bytes [a, b] :: u16) = [a, b]"
  using be_bytes_of_be_bytes[of "[a, b]", where 'a = 16] by (simp add: numeral_2_eq_2)

lemma of_be_bytes_2: "be_bytes 2 w = [a, b] \<Longrightarrow> of_be_bytes [a, b] = (w :: u16)"
  by (drule sym) (simp add: of_be_bytes_be_bytes take_bit_full_word)

lemma be_bytes_2_cases:
  obtains a b where "be_bytes 2 (w :: u16) = [a, b]"
  using length_be_bytes[of 2 w] by (metis (no_types) length_0_conv length_Suc_conv numeral_2_eq_2)

definition mbap :: "u16 \<Rightarrow> nat \<Rightarrow> u8 \<Rightarrow> bytes" where
  "mbap tid len u = be_bytes 2 tid @ [0, 0] @ be_bytes 2 (word_of_nat len :: u16) @ [u]"

lemma length_mbap [simp]: "length (mbap tid len u) = 7"
  by (simp add: mbap_def)

lemma parse_header_mbap:
  assumes "2 \<le> len" "len < 65536"
  shows "parse_tcp_response_header (mbap tid len u) =
    Inr \<lparr>th_transaction_id = tid, th_unit_id = u, th_data_len = len - 1\<rparr>"
proof -
  obtain a b where ab: "be_bytes 2 tid = [a, b]" by (rule be_bytes_2_cases)
  obtain c d where cd: "be_bytes 2 (word_of_nat len :: u16) = [c, d]" by (rule be_bytes_2_cases)
  have "(of_be_bytes [0, 0] :: u16) = 0" by (simp add: of_be_bytes_def)
  then show ?thesis
    using assms of_be_bytes_2[OF ab] of_be_bytes_2[OF cd]
    by (simp add: parse_tcp_response_header_alt mbap_def ab cd Let_def unat_of_nat)
qed

lemma parse_header_Inr:
  assumes "parse_tcp_response_header h = Inr m" and "length h = 7"
  shows "\<exists>len. 2 \<le> len \<and> len < 65536 \<and> h = mbap (th_transaction_id m) len (th_unit_id m) \<and> th_data_len m = len - 1"
proof -
  obtain a b c d e f g where h: "h = [a, b, c, d, e, f, g]"
    using assms(2) by (auto simp: length_Suc_conv numeral_eq_Suc)
  let ?len = "unat (of_be_bytes [e, f] :: u16)"
  have z: "(of_be_bytes [c, d] :: u16) = 0" "2 \<le> ?len"
    and m: "m = \<lparr>th_transaction_id = of_be_bytes [a, b], th_unit_id = g, th_data_len = ?len - 1\<rparr>"
    using assms(1) by (auto simp: parse_tcp_response_header_alt h Let_def split: if_splits)
  have "[c, d] = be_bytes 2 (0 :: u16)" using be_bytes_2_of[of c d] z(1) by simp
  also have "\<dots> = [0, 0]" by (simp add: be_bytes_def numeral_2_eq_2)
  finally have "h = mbap (th_transaction_id m) ?len (th_unit_id m)"
    by (simp add: mbap_def h m be_bytes_2_of)
  then show ?thesis
    using z(2) unat_u16_less[of "of_be_bytes [e, f]"] m by (intro exI[of _ ?len]) simp
qed

text \<open>The body of a response is read exactly when the stream delivers a header with the identifier of the
  request, protocol 0, the unit of the request and the length of the body, followed by that body.\<close>

lemma tcp_response_body_Inr:
  "tcp_response_body u t = (Inr body, t') \<longleftrightarrow>
     (\<exists>st rx. tt_stream t = Some st \<and> 1 \<le> length body \<and> length body < 65535 \<and>
        st_rx st = map Inr (mbap (tt_transaction_id t) (length body + 1) u @ body) @ rx \<and>
        t' = t\<lparr>tt_stream := Some (st\<lparr>st_rx := rx\<rparr>)\<rparr>)"
  (is "?L \<longleftrightarrow> ?R")
proof
  assume ?L
  then obtain h m st rx1 rx where *: "tt_stream t = Some st" "st_rx st = map Inr h @ rx1" "length h = 7"
    "parse_tcp_response_header h = Inr m" "th_transaction_id m = tt_transaction_id t" "th_unit_id m = u"
    "rx1 = map Inr body @ rx" "length body = th_data_len m" "t' = t\<lparr>tt_stream := Some (st\<lparr>st_rx := rx\<rparr>)\<rparr>"
    by (auto simp: tcp_response_body_def tcp_read_exact_def result_simps stream_read_Inr
        simp del: st_bind_lift split: if_splits)
  from parse_header_Inr[OF *(4,3)] obtain len where "2 \<le> len" "len < 65536"
    "h = mbap (th_transaction_id m) len (th_unit_id m)" "th_data_len m = len - 1" by blast
  then show ?R using * by (intro exI[of _ st] exI[of _ rx]) auto
next
  assume ?R
  then obtain st rx where *: "tt_stream t = Some st" "1 \<le> length body" "length body < 65535"
    "st_rx st = map Inr (mbap (tt_transaction_id t) (length body + 1) u @ body) @ rx"
    "t' = t\<lparr>tt_stream := Some (st\<lparr>st_rx := rx\<rparr>)\<rparr>" by blast
  let ?h = "mbap (tt_transaction_id t) (length body + 1) u"
  have "tcp_read_exact 7 t = (Inr ?h, t\<lparr>tt_stream := Some (st\<lparr>st_rx := map Inr body @ rx\<rparr>)\<rparr>)"
    using * by (simp add: tcp_read_exact_def on_tcp_stream_Inr stream_read_Inr)
  moreover have "parse_tcp_response_header ?h =
      Inr \<lparr>th_transaction_id = tt_transaction_id t, th_unit_id = u, th_data_len = length body\<rparr>"
    using * parse_header_mbap[of "length body + 1"] by simp
  moreover have "tcp_read_exact (length body) (t\<lparr>tt_stream := Some (st\<lparr>st_rx := map Inr body @ rx\<rparr>)\<rparr>) = (Inr body, t')"
    using * by (simp add: tcp_read_exact_def on_tcp_stream_Inr stream_read_Inr)
  ultimately show ?L
    unfolding tcp_response_body_def by simp
qed

text \<open>The response frames the protocol prescribes.\<close>

definition tcp_read_response :: "u16 \<Rightarrow> u8 \<Rightarrow> u8 \<Rightarrow> bytes \<Rightarrow> bytes" where
  "tcp_read_response tid u f d = mbap tid (length d + 3) u @ [f, word_of_nat (length d)] @ d"

lemma tcp_check_read_body_Inr:
  "tcp_check_read_body f q body = Inr d \<longleftrightarrow>
     f AND 0x80 = 0 \<and> length d = expected_data_len f q \<and> length d < 256 \<and>
     body = [f, word_of_nat (length d)] @ d"
proof
  assume L: "tcp_check_read_body f q body = Inr d"
  then have "length body = expected_data_len f q + 2" and "body \<noteq> []"
    and *: "unat (body ! 1) = expected_data_len f q" "d = drop 2 body" "body ! 0 AND 0x7F = f \<and> body ! 0 AND 0x80 = 0"
    by (auto simp: tcp_check_read_body_alt Let_def split: if_splits)
  then obtain a b where body: "body = [a, b] @ d"
    by (cases body; cases "tl body") auto
  have len: "length d = expected_data_len f q" using \<open>length body = _\<close> by (simp add: body)
  have "a = f \<and> f AND 0x80 = 0" using *(3) function_byte_split[of a f] by (simp add: body)
  moreover have "unat b = length d" using *(1) by (simp add: body len)
  then have "b = word_of_nat (length d)" "length d < 256"
    using unat_u8_less[of b] word_of_nat_unat[of b] by (simp_all only:)
  ultimately show "f AND 0x80 = 0 \<and> length d = expected_data_len f q \<and> length d < 256 \<and>
      body = [f, word_of_nat (length d)] @ d" using len body by simp
next
  assume R: "f AND 0x80 = 0 \<and> length d = expected_data_len f q \<and> length d < 256 \<and>
      body = [f, word_of_nat (length d)] @ d"
  then have "f AND 0x7F = f" using function_byte_split[of f f] by simp
  with R show "tcp_check_read_body f q body = Inr d"
    by (auto simp: tcp_check_read_body_alt Let_def unat_of_nat)
qed

text \<open>C13: a TCP read is accepted exactly when the connection delivers, as its next bytes, the response
  the protocol prescribes for this very request: the transaction identifier that was just sent, protocol
  0, the unit and the function of the request, a byte count and a length that agree with the requested
  quantity. Then precisely this frame is consumed, so that nothing is left to be taken for the response
  of the next request.\<close>

theorem tcp_read_exact_response:
  "tcp_read_transaction u f off q t = (Inr d, t') \<longleftrightarrow>
     (\<exists>ws rx. tt_stream t =
         Some \<lparr>st_rx = map Inr (tcp_read_response (tt_transaction_id t + 1) u f d) @ rx, st_writes = True # ws\<rparr> \<and>
       f AND 0x80 = 0 \<and> length d = expected_data_len f q \<and> length d < 256 \<and>
       t' = t\<lparr>tt_stream := Some \<lparr>st_rx = rx, st_writes = ws\<rparr>, tt_transaction_id := tt_transaction_id t + 1,
         tt_log := tt_log t @ [build_tcp_read_request (tt_transaction_id t + 1) u f off q]\<rparr>)"
  (is "?L \<longleftrightarrow> ?R")
proof
  assume ?L
  then obtain st ws body rx where "tt_stream t = Some st" "st_writes st = True # ws"
    "tcp_check_read_body f q body = Inr d"
    "st_rx st = map Inr (mbap (tt_transaction_id t + 1) (length body + 1) u @ body) @ rx"
    "t' = t\<lparr>tt_stream := Some (st\<lparr>st_writes := ws, st_rx := rx\<rparr>), tt_transaction_id := tt_transaction_id t + 1,
         tt_log := tt_log t @ [build_tcp_read_request (tt_transaction_id t + 1) u f off q]\<rparr>"
    by (auto simp: tcp_read_transaction_def Let_def tcp_next_id_def tcp_send_def result_simps stream_write_Inr
        tcp_response_body_Inr simp del: st_bind_lift)
  then show ?R
    by (cases st) (auto simp: tcp_check_read_body_Inr tcp_read_response_def numeral_3_eq_3)
next
  assume ?R
  then show ?L
    by (auto simp: tcp_read_transaction_def Let_def tcp_next_id_def tcp_send_def result_simps stream_write_Inr
        tcp_response_body_Inr tcp_check_read_body_Inr tcp_read_response_def numeral_3_eq_3 simp del: st_bind_lift)
qed

lemma write_function_low: "is_write_function f \<Longrightarrow> f AND 0x80 = 0 \<and> f AND 0x7F = f"
  by (auto simp: is_write_function_def fc_defs)

lemma validate_write_echo_Inr:
  "validate_write_echo d off p = Inr () \<longleftrightarrow> 2 \<le> length p \<and> d = be_bytes 2 off @ take 2 p"
proof
  assume "validate_write_echo d off p = Inr ()"
  then have "length d = 4" "take 2 d = be_bytes 2 off" "2 \<le> length p" "take 2 (drop 2 d) = take 2 p"
    by (auto simp: validate_write_echo_alt split: if_splits)
  moreover from this have "d = take 2 d @ take 2 (drop 2 d)"
    by (metis append_take_drop_id length_drop numeral_Bit0 add_diff_cancel_left' take_all_iff order_refl)
  ultimately show "2 \<le> length p \<and> d = be_bytes 2 off @ take 2 p" by simp
qed (auto simp: validate_write_echo_alt)

lemma validate_write_body_Inr:
  "validate_write_body f off p body = Inr () \<longleftrightarrow>
     is_write_function f \<and> 2 \<le> length p \<and> body = f # be_bytes 2 off @ take 2 p"
proof
  assume L: "validate_write_body f off p body = Inr ()"
  then obtain a r where body: "body = a # r" by (cases body) (auto simp: validate_write_body_alt)
  from L have "a AND 0x7F = f \<and> a AND 0x80 = 0" "is_write_function f" "validate_write_echo r off p = Inr ()"
    by (auto simp: validate_write_body_alt body Let_def result_simps split: if_splits)
  then show "is_write_function f \<and> 2 \<le> length p \<and> body = f # be_bytes 2 off @ take 2 p"
    using function_byte_split[of a f] by (auto simp: body validate_write_echo_Inr)
next
  assume "is_write_function f \<and> 2 \<le> length p \<and> body = f # be_bytes 2 off @ take 2 p"
  then show "validate_write_body f off p body = Inr ()"
    using write_function_low[of f] validate_write_echo_Inr[of "be_bytes 2 off @ take 2 p" off p]
    by (auto simp: validate_write_body_alt Let_def result_simps)
qed

text \<open>A TCP write is confirmed exactly when the device echoes this request: identifier, unit, function,
  start offset and the first two bytes of the payload (the value of a single write, the quantity of a
  multiple one). An answer of any other form is an error, never a success.\<close>

theorem tcp_write_exact_echo:
  "tcp_write_transaction u f off p t = (Inr (), t') \<longleftrightarrow>
     (\<exists>ws rx. tt_stream t =
         Some \<lparr>st_rx = map Inr (mbap (tt_transaction_id t + 1) 6 u @ [f] @ be_bytes 2 off @ take 2 p) @ rx,
               st_writes = True # ws\<rparr> \<and>
       is_write_function f \<and> 2 \<le> length p \<and>
       t' = t\<lparr>tt_stream := Some \<lparr>st_rx = rx, st_writes = ws\<rparr>, tt_transaction_id := tt_transaction_id t + 1,
         tt_log := tt_log t @ [build_tcp_write_request (tt_transaction_id t + 1) u f off p]\<rparr>)"
  (is "?L \<longleftrightarrow> ?R")
proof
  assume ?L
  then obtain st ws body rx where "tt_stream t = Some st" "st_writes st = True # ws"
    "validate_write_body f off p body = Inr ()"
    "st_rx st = map Inr (mbap (tt_transaction_id t + 1) (length body + 1) u @ body) @ rx"
    "t' = t\<lparr>tt_stream := Some (st\<lparr>st_writes := ws, st_rx := rx\<rparr>), tt_transaction_id := tt_transaction_id t + 1,
         tt_log := tt_log t @ [build_tcp_write_request (tt_transaction_id t + 1) u f off p]\<rparr>"
    by (auto simp: tcp_write_transaction_def Let_def tcp_next_id_def tcp_send_def result_simps stream_write_Inr
        tcp_response_body_Inr simp del: st_bind_lift)
  then show ?R
    by (cases st) (auto simp: validate_write_body_Inr)
next
  assume ?R
  then show ?L
    by (auto simp: tcp_write_transaction_def Let_def tcp_next_id_def tcp_send_def result_simps stream_write_Inr
        tcp_response_body_Inr validate_write_body_Inr simp del: st_bind_lift)
qed

section \<open>Errors of the transports\<close>

lemma transaction_error_simps [simp]:
  "transaction_error connection_lost" "transaction_error timeout_error" "transaction_error invalid_response"
  "transaction_error (modbus_exception c)"
  by (auto simp: transaction_error_def)

lemma stream_errors:
  "stream_read n st = (Inl e, st') \<Longrightarrow> transaction_error e"
  "stream_write fr st = (Inl e, st') \<Longrightarrow> transaction_error e"
  using stream_read_Inl stream_write_Inl transaction_error_simps by metis+

text \<open>All errors of a computation are errors of a transaction.\<close>

definition only_transaction_errors :: "('s, modbus_error, 'a) st \<Rightarrow> bool" where
  "only_transaction_errors m \<longleftrightarrow> (\<forall>s e s'. m s = (Inl e, s') \<longrightarrow> transaction_error e)"

lemma errors_bind [intro]:
  "only_transaction_errors m \<Longrightarrow> (\<And>x. only_transaction_errors (f x)) \<Longrightarrow> only_transaction_errors (st_bind m f)"
  by (simp add: only_transaction_errors_def st_bind_eq_Inl) blast

lemma errorsD: "only_transaction_errors m \<Longrightarrow> m s = (Inl e, s') \<Longrightarrow> transaction_error e"
  by (auto simp: only_transaction_errors_def)

lemma errors_lift: "(\<And>e. r = Inl e \<Longrightarrow> transaction_error e) \<Longrightarrow> only_transaction_errors (st_lift r)"
  by (simp add: only_transaction_errors_def)

lemma errors_tcp_stream: "only_transaction_errors (on_tcp_stream (stream_read n))" "only_transaction_errors (tcp_send fr)"
  by (auto simp: only_transaction_errors_def on_tcp_stream_Inl tcp_send_def dest: stream_errors)

lemma errors_map_invalid: "res_map_err (\<lambda>_. invalid_response) r = Inl e \<Longrightarrow> transaction_error e"
  by (auto simp: res_map_err_eq_Inl)

lemma errors_bodies:
  "tcp_check_read_body f q body = Inl e \<Longrightarrow> transaction_error e"
  "validate_write_body f off p body = Inl e \<Longrightarrow> transaction_error e"
  by (auto simp: tcp_check_read_body_alt validate_write_body_alt Let_def res_map_err_eq_Inl split: if_splits)

lemma errors_tcp_response_body: "only_transaction_errors (tcp_response_body u)"
  unfolding tcp_response_body_def tcp_read_exact_def
proof (intro errors_bind errors_tcp_stream errors_lift)
  fix header e assume "res_map_err frame_failure (parse_tcp_response_header header) = Inl e"
  then show "transaction_error e" unfolding frame_failure_simps by (rule errors_map_invalid)
next
  fix meta
  show "only_transaction_errors (\<lambda>t. if th_transaction_id meta \<noteq> tt_transaction_id t then (Inl invalid_response, t)
      else if th_unit_id meta \<noteq> u then (Inl invalid_response, t)
      else on_tcp_stream (stream_read (th_data_len meta)) t)"
    using errors_tcp_stream(1) by (auto simp: only_transaction_errors_def)
qed

lemma errors_tcp_transactions:
  "tcp_read_transaction u f off q t = (Inl e, t') \<Longrightarrow> transaction_error e"
  "tcp_write_transaction u f off p t = (Inl e, t') \<Longrightarrow> transaction_error e"
proof -
  have "only_transaction_errors (st_bind (tcp_send fr) (\<lambda>_. st_bind (tcp_response_body u) (\<lambda>b. st_lift (tcp_check_read_body f q b))))"
    "only_transaction_errors (st_bind (tcp_send fr) (\<lambda>_. st_bind (tcp_response_body u) (\<lambda>b. st_lift (validate_write_body f off p b))))"
    for fr
    by (intro errors_bind errors_tcp_stream errors_tcp_response_body errors_lift; erule errors_bodies)+
  then show "tcp_read_transaction u f off q t = (Inl e, t') \<Longrightarrow> transaction_error e"
    "tcp_write_transaction u f off p t = (Inl e, t') \<Longrightarrow> transaction_error e"
    unfolding tcp_read_transaction_def tcp_write_transaction_def Let_def by (blast dest: errorsD)+
qed

interpretation tcp: transport tcp_connect tcp_is_connected tcp_disconnect tcp_read_transaction tcp_write_transaction
proof unfold_locales
  show "tcp_connect s = (Inr (), s') \<Longrightarrow> tcp_is_connected s'" for s s'
    by (auto simp: tcp_connect_def tcp_is_connected_def Let_def
        split: if_splits list.splits connect_outcome.splits option.splits)
  show "tcp_connect s = (Inl e, s') \<Longrightarrow> e = connection_failed \<and> \<not> tcp_is_connected s'" for s e s'
    by (auto simp: tcp_connect_def tcp_is_connected_def Let_def
        split: if_splits list.splits connect_outcome.splits option.splits)
  show "tcp_read_transaction u f off q s = (Inr d, s') \<Longrightarrow> \<not> is_write_function f \<Longrightarrow>
      length d = expected_data_len f q" for u f off q s d s'
    unfolding tcp_read_transaction_def Let_def
    by (auto simp: result_simps tcp_check_read_body_Inr simp del: st_bind_lift)
  show "\<not> tcp_is_connected s \<Longrightarrow> fst (tcp_read_transaction u f off q s) = Inl connection_lost" for u f off q s
    by (simp add: tcp_is_connected_def tcp_read_transaction_def Let_def tcp_next_id_def st_bind_def tcp_send_def
        on_tcp_stream_def)
  show "\<not> tcp_is_connected s \<Longrightarrow> fst (tcp_write_transaction u f off p s) = Inl connection_lost" for u f off p s
    by (simp add: tcp_is_connected_def tcp_write_transaction_def Let_def tcp_next_id_def st_bind_def tcp_send_def
        on_tcp_stream_def)
qed (simp_all add: tcp_connect_def tcp_is_connected_def tcp_disconnect_def tcp_transaction_connected
    errors_tcp_transactions)

section \<open>The RTU transport\<close>

lemma on_rtu_port_Inr [result_simps]:
  "on_rtu_port m t = (Inr x, t') \<longleftrightarrow>
     (\<exists>st st'. rt_port t = Some st \<and> m st = (Inr x, st') \<and> t' = t\<lparr>rt_port := Some st'\<rparr>)"
  by (auto simp: on_rtu_port_def split: option.splits prod.splits)

lemma on_rtu_port_Inl [result_simps]:
  "on_rtu_port m t = (Inl e, t') \<longleftrightarrow>
     rt_port t = None \<and> e = connection_lost \<and> t' = t \<or>
     (\<exists>st st'. rt_port t = Some st \<and> m st = (Inl e, st') \<and> t' = t\<lparr>rt_port := Some st'\<rparr>)"
  by (auto simp: on_rtu_port_def split: option.splits prod.splits)

lemma on_rtu_port_connected [simp]: "rt_port (snd (on_rtu_port m t)) = None \<longleftrightarrow> rt_port t = None"
  by (auto simp: on_rtu_port_def split: option.splits prod.splits)

lemma rtu_send_connected [simp]: "rt_port (snd (rtu_send fr t)) = None \<longleftrightarrow> rt_port t = None"
  by (simp add: rtu_send_def)

lemma errors_rtu_port: "only_transaction_errors (on_rtu_port (stream_read n))" "only_transaction_errors (rtu_send fr)"
  by (auto simp: only_transaction_errors_def on_rtu_port_Inl rtu_send_def dest: stream_errors)

text \<open>A normal frame: the two leading bytes fix its length, the check sum closes it.\<close>

definition rtu_total :: "u8 \<Rightarrow> u16 \<Rightarrow> nat" where
  "rtu_total f quantity =
     4 + (if is_write_function f then expected_data_len f quantity else 1 + expected_data_len f quantity)"

lemma rtu_total_len_Inr:
  "rtu_response_total_len [a, b] f q = Inr n \<longleftrightarrow>
     b AND 0x7F = f \<and> n = (if b AND 0x80 \<noteq> 0 then 5 else rtu_total f q)"
  by (auto simp: rtu_response_total_len_alt Let_def rtu_total_def)

lemma rtu_meta_Inr:
  "4 \<le> length (a # b # r) \<Longrightarrow> \<exists>m. parse_rtu_response_meta (a # b # r) = Inr m \<and>
     rm_function m = b AND 0x7F \<and> rm_is_exception m = (b AND 0x80 \<noteq> 0)"
  by (simp add: parse_rtu_response_meta_alt Let_def)

lemma length_2_cases: "length xs = 2 \<Longrightarrow> \<exists>a b. xs = [a, b]"
  by (auto simp: length_Suc_conv numeral_2_eq_2)

lemma rtu_total_len_ge: "rtu_response_total_len head f q = Inr n \<Longrightarrow> 5 \<le> n"
  by (auto simp: rtu_response_total_len_alt Let_def expected_data_len_def is_write_function_def fc_defs split: if_splits)

lemma st_bind_cong_result:
  "(\<And>x s'. m s = (Inr x, s') \<Longrightarrow> f x s' = g x s') \<Longrightarrow> st_bind m f s = st_bind m g s"
  by (simp add: st_bind_def split: prod.splits sum.splits)

lemma rtu_check_frame_Inr:
  "rtu_check_frame f frame = Inr x \<longleftrightarrow>
     x = frame \<and> crc_verify frame \<and> (\<exists>m. parse_rtu_response_meta frame = Inr m \<and> rm_function m = f \<and> \<not> rm_is_exception m)"
  by (auto simp: rtu_check_frame_def verify_total result_simps at_index_def split: if_splits)

lemma rtu_check_frame_Inl: "rtu_check_frame f frame = Inl e \<Longrightarrow> 2 < length frame \<Longrightarrow> transaction_error e"
  by (auto simp: rtu_check_frame_def verify_total result_simps res_map_err_eq_Inl split: if_splits)

lemma rtu_response_frame_Inr:
  "rtu_response_frame u f q t = (Inr frame, t') \<longleftrightarrow>
     (\<exists>st rx r. rt_port t = Some st \<and> st_rx st = map Inr frame @ rx \<and> frame = [u, f] @ r \<and>
        length frame = rtu_total f q \<and> f AND 0x80 = 0 \<and> crc_verify frame \<and>
        t' = t\<lparr>rt_port := Some (st\<lparr>st_rx := rx\<rparr>)\<rparr>)"
  (is "?L \<longleftrightarrow> ?R")
proof
  assume ?L
  then obtain head st rx1 total r rx m where *: "rt_port t = Some st" "st_rx st = map Inr head @ rx1" "length head = 2"
    "head ! 0 = u" "rtu_response_total_len head f q = Inr total" "rx1 = map Inr r @ rx" "length r = total - 2"
    "crc_verify (head @ r)" "parse_rtu_response_meta (head @ r) = Inr m" "rm_function m = f" "\<not> rm_is_exception m"
    "frame = head @ r" "t' = t\<lparr>rt_port := Some (st\<lparr>st_rx := rx\<rparr>)\<rparr>"
    by (auto simp: rtu_response_frame_def rtu_check_frame_Inr result_simps stream_read_Inr simp del: st_bind_lift
        split: if_splits)
  obtain a b where head: "head = [a, b]" using length_2_cases[OF *(3)] by blast
  have total: "b AND 0x7F = f" "total = (if b AND 0x80 \<noteq> 0 then 5 else rtu_total f q)"
    using *(5) by (simp_all add: head rtu_total_len_Inr)
  then have "4 \<le> length (a # b # r)" using *(7) by (auto simp: rtu_total_def)
  from rtu_meta_Inr[OF this] *(9,11) have "b AND 0x80 = 0" by (auto simp: head)
  moreover from this total have "b = f" using function_byte_split[of b f] by blast
  ultimately show ?R
    using * total by (intro exI[of _ st] exI[of _ rx] exI[of _ r]) (auto simp: head rtu_total_def)
next
  assume ?R
  then obtain st rx r where *: "rt_port t = Some st" "st_rx st = map Inr ([u, f] @ r) @ rx" "frame = [u, f] @ r"
    "length frame = rtu_total f q" "f AND 0x80 = 0" "crc_verify frame" "t' = t\<lparr>rt_port := Some (st\<lparr>st_rx := rx\<rparr>)\<rparr>"
    by blast
  have low: "f AND 0x7F = f" using *(5) function_byte_split[of f f] by simp
  let ?t = "t\<lparr>rt_port := Some (st\<lparr>st_rx := map Inr r @ rx\<rparr>)\<rparr>"
  have "on_rtu_port (stream_read 2) t = (Inr [u, f], ?t)"
    using * by (simp add: on_rtu_port_Inr stream_read_Inr)
  moreover have "rtu_response_total_len [u, f] f q = Inr (length r + 2)"
    using * low by (simp add: rtu_total_len_Inr)
  moreover have "on_rtu_port (stream_read (length r)) ?t = (Inr r, t')"
    using * by (simp add: on_rtu_port_Inr stream_read_Inr)
  moreover obtain m where "parse_rtu_response_meta (u # f # r) = Inr m" "rm_function m = f" "\<not> rm_is_exception m"
    using rtu_meta_Inr[of u f r] *(3-5) low by (auto simp: rtu_total_def)
  ultimately show ?L
    using *(3,6) unfolding rtu_response_frame_def by (simp add: rtu_check_frame_Inr)
qed

text \<open>A frame that was accepted has its byte count and its data.\<close>

lemma rtu_frame_bounds: "rtu_response_frame u f q t = (Inr frame, t') \<Longrightarrow> 5 \<le> length frame"
  by (auto simp: rtu_response_frame_Inr rtu_total_def expected_data_len_def is_write_function_def fc_defs split: if_splits)

lemma drop_take_tail: "drop 3 (take (n - 2) xs) = take (n - 5) (drop 3 xs)" "drop 1 (take (n - 2) xs) = take (n - 3) (drop 1 xs)"
  by (simp_all only: drop_take diff_diff_left) simp_all

lemma rtu_read_transaction_alt:
  "rtu_read_transaction u f off q t =
     st_bind (rtu_send (build_rtu_read_request u f off q)) (\<lambda>_.
     st_bind (rtu_response_frame u f q) (\<lambda>frame t.
       if unat (frame ! 2) \<noteq> expected_data_len f q then (Inl invalid_response, t)
       else (Inr (drop 3 (take (length frame - 2) frame)), t))) t"
  unfolding rtu_read_transaction_def
  by (intro st_bind_cong_result; drule rtu_frame_bounds) (auto simp: at_index_def in_slice_def drop_take_tail[simplified])

lemma rtu_write_transaction_alt:
  "rtu_write_transaction u f off p t =
     st_bind (rtu_send (build_rtu_write_request u f off p)) (\<lambda>_.
     st_bind (rtu_response_frame u f 0) (\<lambda>frame.
       st_lift (validate_write_body f off p (drop 1 (take (length frame - 2) frame))))) t"
  unfolding rtu_write_transaction_def
  by (intro st_bind_cong_result; drule rtu_frame_bounds) (auto simp: at_index_def in_slice_def drop_take_tail[simplified])

definition rtu_frame :: "bytes \<Rightarrow> bytes" where
  "rtu_frame payload = payload @ le_bytes 2 (crc16 payload)"

lemma rtu_frame_take [simp]: "take (length p) (rtu_frame p) = p" "length (rtu_frame p) = length p + 2"
  by (simp_all add: rtu_frame_def)

lemma crc_verify_rtu_frame: "crc_verify (rtu_frame p)"
  by (auto simp: crc_verify_iff rtu_frame_def)

text \<open>C16: an RTU read is accepted exactly when the port delivers, as its next bytes, the unit, the function,
  the byte count of the requested quantity, that many data bytes, and the check sum of all of these;
  precisely this frame is consumed.\<close>

theorem rtu_read_exact_response:
  assumes "\<not> is_write_function f"
  shows "rtu_read_transaction u f off q t = (Inr d, t') \<longleftrightarrow>
     (\<exists>ws rx. rt_port t =
         Some \<lparr>st_rx = map Inr (rtu_frame ([u, f, word_of_nat (length d)] @ d)) @ rx, st_writes = True # ws\<rparr> \<and>
       f AND 0x80 = 0 \<and> length d = expected_data_len f q \<and> length d < 256 \<and>
       t' = t\<lparr>rt_port := Some \<lparr>st_rx = rx, st_writes = ws\<rparr>,
         rt_log := rt_log t @ [build_rtu_read_request u f off q]\<rparr>)"
  (is "?L \<longleftrightarrow> ?R")
proof
  assume ?L
  then obtain t1 frame where sent: "rtu_send (build_rtu_read_request u f off q) t = (Inr (), t1)"
    and got: "rtu_response_frame u f q t1 = (Inr frame, t')"
    and d: "unat (frame ! 2) = expected_data_len f q" "d = drop 3 (take (length frame - 2) frame)"
    unfolding rtu_read_transaction_alt st_bind_eq_Inr by (auto split: if_splits)
  obtain st ws r rx where *: "rt_port t = Some st" "st_writes st = True # ws"
    "st_rx st = map Inr frame @ rx" "frame = [u, f] @ r" "length frame = rtu_total f q" "f AND 0x80 = 0"
    "crc_verify frame"
    "t' = t\<lparr>rt_log := rt_log t @ [build_rtu_read_request u f off q],
         rt_port := Some (st\<lparr>st_writes := ws, st_rx := rx\<rparr>)\<rparr>"
    using sent got by (auto simp: rtu_send_def on_rtu_port_Inr stream_write_Inr rtu_response_frame_Inr)
  obtain p where p: "frame = rtu_frame p" using *(7) by (auto simp: crc_verify_iff rtu_frame_def)
  have "length p = 3 + expected_data_len f q" using *(5) assms by (simp add: p rtu_total_def)
  then obtain a b c d' where p': "p = [a, b, c] @ d'" "length d' = expected_data_len f q"
    by (cases p; cases "tl p"; cases "tl (tl p)") auto
  have "d = drop 3 p" using d(2) by (simp add: p)
  then have "d' = d" by (simp add: p')
  moreover have "a = u" "b = f" using *(4) by (simp_all add: p p' rtu_frame_def)
  moreover have "unat c = length d'" using d(1) p'(2) by (simp add: p p' rtu_frame_def)
  then have "c = word_of_nat (length d')" "length d' < 256"
    using unat_u8_less[of c] word_of_nat_unat[of c] by (simp_all only:)
  ultimately show ?R
    using * p' by (cases st) (auto simp: p)
next
  assume ?R
  then obtain ws rx where *: "rt_port t =
      Some \<lparr>st_rx = map Inr (rtu_frame ([u, f, word_of_nat (length d)] @ d)) @ rx, st_writes = True # ws\<rparr>"
    "f AND 0x80 = 0" "length d = expected_data_len f q" "length d < 256"
    "t' = t\<lparr>rt_port := Some \<lparr>st_rx = rx, st_writes = ws\<rparr>, rt_log := rt_log t @ [build_rtu_read_request u f off q]\<rparr>"
    by blast
  let ?p = "[u, f, word_of_nat (length d)] @ d" and ?log = "rt_log t @ [build_rtu_read_request u f off q]"
  have "rtu_send (build_rtu_read_request u f off q) t =
      (Inr (), t\<lparr>rt_log := ?log, rt_port := Some \<lparr>st_rx = map Inr (rtu_frame ?p) @ rx, st_writes = ws\<rparr>\<rparr>)"
    using * by (simp add: rtu_send_def on_rtu_port_Inr stream_write_Inr)
  moreover have "rtu_response_frame u f q
      (t\<lparr>rt_log := ?log, rt_port := Some \<lparr>st_rx = map Inr (rtu_frame ?p) @ rx, st_writes = ws\<rparr>\<rparr>) = (Inr (rtu_frame ?p), t')"
    using * assms crc_verify_rtu_frame[of ?p]
    by (auto simp: rtu_response_frame_Inr rtu_frame_def rtu_total_def)
  moreover have "unat (rtu_frame ?p ! 2) = expected_data_len f q"
    using *(3,4) by (simp add: rtu_frame_def unat_of_nat)
  ultimately show ?L
    using rtu_frame_take(1)[of ?p] unfolding rtu_read_transaction_alt by simp
qed

theorem rtu_read_exact_response_witness:
  "fst (rtu_read_transaction 1 3 0 1
     \<lparr>rt_port = Some \<lparr>st_rx = map Inr (rtu_frame [1, 3, 2, 0, 42]), st_writes = [True]\<rparr>, rt_opens = [], rt_log = []\<rparr>) =
   Inr [0, 42]"
proof -
  let ?t = "\<lparr>rt_port = Some \<lparr>st_rx = map Inr (rtu_frame [1, 3, 2, 0, 42]), st_writes = [True]\<rparr>, rt_opens = [], rt_log = []\<rparr>"
  have "\<not> is_write_function 3" by (simp add: is_write_function_def fc_defs)
  from rtu_read_exact_response[OF this, of 1 0 1 ?t "[0, 42]"]
  have "rtu_read_transaction 1 3 0 1 ?t = (Inr [0, 42], \<lparr>rt_port = Some \<lparr>st_rx = [], st_writes = []\<rparr>, rt_opens = [],
      rt_log = [build_rtu_read_request 1 3 0 1]\<rparr>)"
    by (simp add: expected_data_len_def fc_defs)
  then show ?thesis by simp
qed

text \<open>An RTU write is confirmed exactly when the device echoes unit, function, start offset and the
  first two bytes of the payload, closed by the check sum.\<close>

theorem rtu_write_exact_echo:
  "rtu_write_transaction u f off p t = (Inr (), t') \<longleftrightarrow>
     (\<exists>ws rx. rt_port t =
         Some \<lparr>st_rx = map Inr (rtu_frame ([u, f] @ be_bytes 2 off @ take 2 p)) @ rx, st_writes = True # ws\<rparr> \<and>
       is_write_function f \<and> 2 \<le> length p \<and>
       t' = t\<lparr>rt_port := Some \<lparr>st_rx = rx, st_writes = ws\<rparr>,
         rt_log := rt_log t @ [build_rtu_write_request u f off p]\<rparr>)"
  (is "?L \<longleftrightarrow> ?R")
proof
  assume ?L
  then obtain t1 frame where sent: "rtu_send (build_rtu_write_request u f off p) t = (Inr (), t1)"
    and got: "rtu_response_frame u f 0 t1 = (Inr frame, t')"
    and v: "validate_write_body f off p (drop 1 (take (length frame - 2) frame)) = Inr ()"
    unfolding rtu_write_transaction_alt st_bind_eq_Inr by auto
  obtain st ws r rx where *: "rt_port t = Some st" "st_writes st = True # ws"
    "st_rx st = map Inr frame @ rx" "frame = [u, f] @ r" "crc_verify frame"
    "t' = t\<lparr>rt_log := rt_log t @ [build_rtu_write_request u f off p],
         rt_port := Some (st\<lparr>st_writes := ws, st_rx := rx\<rparr>)\<rparr>"
    using sent got by (auto simp: rtu_send_def on_rtu_port_Inr stream_write_Inr rtu_response_frame_Inr)
  obtain pl where pl: "frame = rtu_frame pl" using *(5) by (auto simp: crc_verify_iff rtu_frame_def)
  have body: "is_write_function f" "2 \<le> length p" "drop 1 pl = f # be_bytes 2 off @ take 2 p"
    using v unfolding validate_write_body_Inr pl by simp_all
  then obtain a where pl': "pl = a # f # be_bytes 2 off @ take 2 p" by (cases pl) auto
  with *(4) have "a = u" by (simp add: pl rtu_frame_def)
  with pl' pl body(1,2) * show ?R by (cases st) auto
next
  assume ?R
  then obtain ws rx where *: "rt_port t =
      Some \<lparr>st_rx = map Inr (rtu_frame ([u, f] @ be_bytes 2 off @ take 2 p)) @ rx, st_writes = True # ws\<rparr>"
    "is_write_function f" "2 \<le> length p"
    "t' = t\<lparr>rt_port := Some \<lparr>st_rx = rx, st_writes = ws\<rparr>, rt_log := rt_log t @ [build_rtu_write_request u f off p]\<rparr>"
    by blast
  let ?p = "[u, f] @ be_bytes 2 off @ take 2 p" and ?log = "rt_log t @ [build_rtu_write_request u f off p]"
  let ?t1 = "t\<lparr>rt_log := ?log, rt_port := Some \<lparr>st_rx = map Inr (rtu_frame ?p) @ rx, st_writes = ws\<rparr>\<rparr>"
  have "rtu_send (build_rtu_write_request u f off p) t = (Inr (), ?t1)"
    using * by (simp add: rtu_send_def on_rtu_port_Inr stream_write_Inr)
  moreover have "expected_data_len f 0 = 4" "f AND 0x80 = 0"
    using *(2) by (auto simp: expected_data_len_def is_write_function_def fc_defs)
  then have "rtu_response_frame u f 0 ?t1 = (Inr (rtu_frame ?p), t')"
    using * crc_verify_rtu_frame[of ?p] by (auto simp: rtu_response_frame_Inr rtu_frame_def rtu_total_def)
  moreover have "validate_write_body f off p (drop 1 (take (length (rtu_frame ?p) - 2) (rtu_frame ?p))) = Inr ()"
    unfolding validate_write_body_Inr using * rtu_frame_take(1)[of ?p] by simp
  ultimately show ?L
    unfolding rtu_write_transaction_alt by simp
qed

lemma errors_rtu_response_frame: "only_transaction_errors (rtu_response_frame u f q)"
  unfolding only_transaction_errors_def rtu_response_frame_def frame_failure_simps
proof (intro allI impI, unfold st_bind_eq_Inl, elim disjE exE conjE)
  fix t e t' head t1
  assume head: "on_rtu_port (stream_read 2) t = (Inr head, t1)"
    and run: "at_index (Inl driver_panic, t1) head 0 (\<lambda>unit.
       if unit \<noteq> u then (Inl invalid_response, t1)
       else st_bind (st_lift (res_map_err (\<lambda>_. invalid_response) (rtu_response_total_len head f q))) (\<lambda>total.
            st_bind (on_rtu_port (stream_read (total - 2))) (\<lambda>rest. st_lift (rtu_check_frame f (head @ rest)))) t1) = (Inl e, t')"
  have len: "length head = 2" "head \<noteq> []" using head by (auto simp: on_rtu_port_Inr stream_read_Inr)
  have "transaction_error e" if "rtu_check_frame f (head @ rest) = Inl e" "rtu_response_total_len head f q = Inr n"
      "on_rtu_port (stream_read (n - 2)) t1 = (Inr rest, t2)" for rest n t2
    using that rtu_total_len_ge[OF that(2)] len by (intro rtu_check_frame_Inl[OF that(1)]) (auto simp: on_rtu_port_Inr stream_read_Inr)
  then show "transaction_error e"
    using run len errorsD[OF errors_rtu_port(1)]
    by (auto simp: st_bind_eq_Inl res_map_err_eq_Inl res_map_err_eq_Inr simp del: st_bind_lift split: if_splits)
qed (rule errorsD[OF errors_rtu_port(1)])

lemma st_if_connected: "(C (snd (m s)) \<longleftrightarrow> C s) \<Longrightarrow> (C (snd (m' s)) \<longleftrightarrow> C s) \<Longrightarrow> C (snd (if b then m s else m' s)) \<longleftrightarrow> C s"
  by simp

lemma at_index_connected:
  "(C (snd p) \<longleftrightarrow> c) \<Longrightarrow> (\<And>x. C (snd (k x)) \<longleftrightarrow> c) \<Longrightarrow> C (snd (at_index p xs i k)) \<longleftrightarrow> c"
  by (simp add: at_index_def)

lemma rtu_response_frame_connected: "rt_port (snd (rtu_response_frame u f q t)) = None \<longleftrightarrow> rt_port t = None"
  unfolding rtu_response_frame_def
  by (intro st_bind_connected at_index_connected[where C = "\<lambda>t. rt_port t = None"] st_if_connected; simp del: st_bind_lift)

lemma rtu_transaction_connected:
  "rt_port (snd (rtu_read_transaction u f off q t)) = None \<longleftrightarrow> rt_port t = None"
  "rt_port (snd (rtu_write_transaction u f off p t)) = None \<longleftrightarrow> rt_port t = None"
  unfolding rtu_read_transaction_alt rtu_write_transaction_alt
  by (intro st_bind_connected; simp add: rtu_response_frame_connected del: st_bind_lift)+

lemma errors_rtu_transactions:
  "rtu_read_transaction u f off q t = (Inl e, t') \<Longrightarrow> transaction_error e"
  "rtu_write_transaction u f off p t = (Inl e, t') \<Longrightarrow> transaction_error e"
  using errorsD[OF errors_rtu_port(2)] errorsD[OF errors_rtu_response_frame] errors_bodies(2)
  by (auto simp: rtu_read_transaction_alt rtu_write_transaction_alt st_bind_eq_Inl split: if_splits)

lemma rtu_read_length:
  assumes "rtu_read_transaction u f off q s = (Inr d, s')" and "\<not> is_write_function f"
  shows "length d = expected_data_len f q"
  using assms by (auto simp: rtu_read_transaction_alt st_bind_eq_Inr rtu_response_frame_Inr rtu_total_def split: if_splits)

interpretation rtu: transport rtu_connect rtu_is_connected rtu_disconnect rtu_read_transaction rtu_write_transaction
proof unfold_locales
  show "rtu_connect s = (Inr (), s') \<Longrightarrow> rtu_is_connected s'" for s s'
    by (auto simp: rtu_connect_def rtu_is_connected_def split: if_splits list.splits option.splits)
  show "rtu_connect s = (Inl e, s') \<Longrightarrow> e = connection_failed \<and> \<not> rtu_is_connected s'" for s e s'
    by (auto simp: rtu_connect_def rtu_is_connected_def split: if_splits list.splits option.splits)
  show "\<not> rtu_is_connected s \<Longrightarrow> fst (rtu_read_transaction u f off q s) = Inl connection_lost" for u f off q s
    by (simp add: rtu_is_connected_def rtu_read_transaction_alt st_bind_def rtu_send_def on_rtu_port_def)
  show "\<not> rtu_is_connected s \<Longrightarrow> fst (rtu_write_transaction u f off p s) = Inl connection_lost" for u f off p s
    by (simp add: rtu_is_connected_def rtu_write_transaction_alt st_bind_def rtu_send_def on_rtu_port_def)
qed (simp_all add: rtu_connect_def rtu_is_connected_def rtu_disconnect_def rtu_transaction_connected
    errors_rtu_transactions rtu_read_length)

end
