(* ===== verification/Modbus_Config.thy ===== *)
theory Modbus_Config
  imports Modbus_Codec
begin

text \<open>
  The connection configuration of the Modbus driver (\<^verbatim>\<open>drivers/modbus/src/config.rs\<close>). Reading JSON is
  the work of \<^verbatim>\<open>serde_json\<close>: it is a parameter of \<open>from_json\<close>, a function from the text to a configuration
  (missing fields filled with their defaults) or to nothing.
\<close>

datatype transport_mode = ModeTcp | ModeRtu

record serial_config =
  sc_port :: string
  sc_baud_rate :: nat
  sc_data_bits :: nat
  sc_stop_bits :: nat
  sc_parity :: string

record modbus_config =
  mc_mode :: transport_mode
  mc_host :: "string option"
  mc_port :: nat
  mc_serial :: "serial_config option"
  mc_timeout_ms :: nat
  mc_unit_id :: nat
  mc_word_order :: word_order
  mc_reconnect :: bool
  mc_reconnect_max_attempts :: nat
  mc_reconnect_delay_ms :: nat

definition default_config :: modbus_config where
  "default_config =
     \<lparr>mc_mode = ModeTcp, mc_host = None, mc_port = 502, mc_serial = None, mc_timeout_ms = 3000, mc_unit_id = 1,
      mc_word_order = Abcd, mc_reconnect = True, mc_reconnect_max_attempts = 3, mc_reconnect_delay_ms = 1000\<rparr>"

datatype config_error_kind =
    EmptyConfig | JsonInvalid | ZeroTimeout | UnitOutOfRange nat | MissingHost
  | MissingSerialPort | ZeroBaudRate | BadDataBits nat | BadStopBits nat | BadParity string | MissingSerial

definition config_validate :: "modbus_config \<Rightarrow> config_error_kind + unit" where
  "config_validate c =
     (if mc_timeout_ms c = 0 then Inl ZeroTimeout
      else if mc_unit_id c = 0 \<or> mc_unit_id c > 247 then Inl (UnitOutOfRange (mc_unit_id c))
      else (case mc_mode c of
          ModeTcp \<Rightarrow>
            if trim (case mc_host c of None \<Rightarrow> '''' | Some h \<Rightarrow> h) = '''' then Inl MissingHost else Inr ()
        | ModeRtu \<Rightarrow>
            (case mc_serial c of
               None \<Rightarrow> Inl MissingSerial
             | Some s \<Rightarrow>
                 if trim (sc_port s) = '''' then Inl MissingSerialPort
                 else if sc_baud_rate s = 0 then Inl ZeroBaudRate
                 else if \<not> (5 \<le> sc_data_bits s \<and> sc_data_bits s \<le> 8) then Inl (BadDataBits (sc_data_bits s))
                 else if \<not> (sc_stop_bits s = 1 \<or> sc_stop_bits s = 2) then Inl (BadStopBits (sc_stop_bits s))
                 else if \<not> (sc_parity s = ''none'' \<or> sc_parity s = ''even'' \<or> sc_parity s = ''odd'')
                   then Inl (BadParity (sc_parity s))
                 else Inr ())))"

definition from_json :: "(string \<Rightarrow> modbus_config option) \<Rightarrow> string \<Rightarrow> config_error_kind + modbus_config" where
  "from_json parse_json json =
     (if trim json = '''' then Inl EmptyConfig
      else (case parse_json json of
          None \<Rightarrow> Inl JsonInvalid
        | Some c \<Rightarrow> res_bind (config_validate c) (\<lambda>_. Inr c)))"

lemma config_validate_unit: "config_validate c = Inr () \<Longrightarrow> 1 \<le> mc_unit_id c \<and> mc_unit_id c \<le> 247"
  by (auto simp: config_validate_def split: if_splits)

lemma config_validate_serial: "config_validate c = Inr () \<Longrightarrow> mc_mode c = ModeRtu \<Longrightarrow> mc_serial c \<noteq> None"
  by (auto simp: config_validate_def split: if_splits option.splits)

end
