(* ===== verification/Modbus_Driver.thy ===== *)
theory Modbus_Driver
  imports Modbus_Batch Modbus_Session Modbus_Config
begin

text \<open>
  The Modbus driver and its C interface (\<^verbatim>\<open>drivers/modbus/src/lib.rs\<close>): lazy connection with a bounded
  number of attempts, batch reads and writes over the plans, and the ABI entry points, which turn a panic
  into the error \<^verbatim>\<open>DRIVER_PANIC\<close>. The clock is a parameter: its \<open>n\<close>-th reading in a call stamps the
  \<open>n\<close>-th result. Sleeping between attempts and the JSON form of the envelopes are not modelled.
\<close>

section \<open>Transports behind \<^verbatim>\<open>dyn Transport\<close>\<close>

datatype any_transport = TcpT tcp_transport | RtuT rtu_transport

fun any_connect :: "(any_transport, modbus_error, unit) st" where
  "any_connect (TcpT t) = map_prod id TcpT (tcp_connect t)"
| "any_connect (RtuT t) = map_prod id RtuT (rtu_connect t)"

fun any_is_connected :: "any_transport \<Rightarrow> bool" where
  "any_is_connected (TcpT t) = tcp_is_connected t"
| "any_is_connected (RtuT t) = rtu_is_connected t"

fun any_disconnect :: "any_transport \<Rightarrow> any_transport" where
  "any_disconnect (TcpT t) = TcpT (tcp_disconnect t)"
| "any_disconnect (RtuT t) = RtuT (rtu_disconnect t)"

fun any_read_transaction :: "u8 \<Rightarrow> u8 \<Rightarrow> u16 \<Rightarrow> u16 \<Rightarrow> (any_transport, modbus_error, bytes) st" where
  "any_read_transaction u f off q (TcpT t) = map_prod id TcpT (tcp_read_transaction u f off q t)"
| "any_read_transaction u f off q (RtuT t) = map_prod id RtuT (rtu_read_transaction u f off q t)"

fun any_write_transaction :: "u8 \<Rightarrow> u8 \<Rightarrow> u16 \<Rightarrow> bytes \<Rightarrow> (any_transport, modbus_error, unit) st" where
  "any_write_transaction u f off p (TcpT t) = map_prod id TcpT (tcp_write_transaction u f off p t)"
| "any_write_transaction u f off p (RtuT t) = map_prod id RtuT (rtu_write_transaction u f off p t)"

lemma map_prod_id_eq: "map_prod id f p = (r, s) \<longleftrightarrow> (\<exists>x. p = (r, x) \<and> s = f x)"
  by (cases p) auto

interpretation any: transport any_connect any_is_connected any_disconnect any_read_transaction any_write_transaction
proof unfold_locales
  fix s s' :: any_transport and e u f off q d p
  show "any_connect s = (Inr (), s') \<Longrightarrow> any_is_connected s'"
    by (cases s) (auto simp: map_prod_id_eq dest: tcp.connect_Inr rtu.connect_Inr)
  show "any_connect s = (Inl e, s') \<Longrightarrow> e = connection_failed \<and> \<not> any_is_connected s'"
    by (cases s) (auto simp: map_prod_id_eq dest: tcp.connect_Inl rtu.connect_Inl)
  show "any_is_connected s \<Longrightarrow> any_connect s = (Inr (), s)"
    by (cases s) (auto simp: tcp.connect_idem rtu.connect_idem)
  show "\<not> any_is_connected (any_disconnect s)"
    by (cases s) (auto simp: tcp.disconnect rtu.disconnect)
  show "any_read_transaction u f off q s = (Inr d, s') \<Longrightarrow> \<not> is_write_function f \<Longrightarrow> length d = expected_data_len f q"
    by (cases s) (auto simp: map_prod_id_eq dest: tcp.read_length rtu.read_length)
  show "any_read_transaction u f off q s = (Inl e, s') \<Longrightarrow> transaction_error e"
    by (cases s) (auto simp: map_prod_id_eq dest: tcp.read_error rtu.read_error)
  show "any_write_transaction u f off p s = (Inl e, s') \<Longrightarrow> transaction_error e"
    by (cases s) (auto simp: map_prod_id_eq dest: tcp.write_error rtu.write_error)
  show "any_is_connected (snd (any_read_transaction u f off q s)) = any_is_connected s"
    by (cases s) (auto simp: tcp.read_connected rtu.read_connected snd_map_prod)
  show "any_is_connected (snd (any_write_transaction u f off p s)) = any_is_connected s"
    by (cases s) (auto simp: tcp.write_connected rtu.write_connected snd_map_prod)
  show "\<not> any_is_connected s \<Longrightarrow> fst (any_read_transaction u f off q s) = Inl connection_lost"
    by (cases s) (auto simp: tcp.read_disconnected rtu.read_disconnected fst_map_prod)
  show "\<not> any_is_connected s \<Longrightarrow> fst (any_write_transaction u f off p s) = Inl connection_lost"
    by (cases s) (auto simp: tcp.write_disconnected rtu.write_disconnected fst_map_prod)
qed

section \<open>The driver\<close>

record modbus_driver =
  md_config :: modbus_config
  md_transport :: "any_transport option"
  md_last_error :: "driver_error_info option"

datatype driver_failure = Failed modbus_error | Panicked

text \<open>The script of the operating system (see \<^verbatim>\<open>Modbus_Session\<close>) is given to a new transport.\<close>

definition create_transport ::
  "modbus_config \<Rightarrow> connect_outcome list \<Rightarrow> stream option list \<Rightarrow> modbus_error + any_transport" where
  "create_transport c connects opens =
     (case mc_mode c of
        ModeTcp \<Rightarrow> Inr (TcpT \<lparr>tt_stream = None, tt_transaction_id = 0, tt_connects = connects, tt_log = []\<rparr>)
      | ModeRtu \<Rightarrow>
          (case mc_serial c of
             None \<Rightarrow> Inl config_error
           | Some _ \<Rightarrow> Inr (RtuT \<lparr>rt_port = None, rt_opens = opens, rt_log = []\<rparr>)))"

definition driver_create ::
  "(string \<Rightarrow> modbus_config option) \<Rightarrow> connect_outcome list \<Rightarrow> stream option list \<Rightarrow> string \<Rightarrow>
   modbus_error + modbus_driver" where
  "driver_create parse_json connects opens json =
     res_bind (res_map_err (\<lambda>_. config_error) (from_json parse_json json)) (\<lambda>c.
     res_bind (create_transport c connects opens) (\<lambda>t.
       Inr \<lparr>md_config = c, md_transport = Some t, md_last_error = None\<rparr>))"

text \<open>\<^verbatim>\<open>self.transport.as_deref_mut().expect(..)\<close>: a panic without a transport. A panic inside of the call,
  which is the error \<^const>\<open>driver_panic\<close> there, unwinds through the caller.\<close>

definition call_failure :: "modbus_error \<Rightarrow> driver_failure" where
  "call_failure e = (if e = driver_panic then Panicked else Failed e)"

definition on_transport :: "(any_transport, modbus_error, 'a) st \<Rightarrow> (modbus_driver, driver_failure, 'a) st" where
  "on_transport m d =
     (case md_transport d of
        None \<Rightarrow> (Inl Panicked, d)
      | Some t \<Rightarrow> (case m t of (r, t') \<Rightarrow> (res_map_err call_failure r, d\<lparr>md_transport := Some t'\<rparr>)))"

fun connect_loop :: "nat \<Rightarrow> modbus_error \<Rightarrow> (any_transport, modbus_error, unit) st" where
  "connect_loop 0 last_error t = (Inl last_error, t)"
| "connect_loop (Suc n) last_error t =
     (case any_connect t of (Inr _, t') \<Rightarrow> (Inr (), t') | (Inl e, t') \<Rightarrow> connect_loop n e t')"

definition connect_attempts :: "modbus_config \<Rightarrow> nat" where
  "connect_attempts c = (if mc_reconnect c then max (mc_reconnect_max_attempts c) 1 else 1)"

text \<open>\<^verbatim>\<open>last_error.expect(..)\<close>: without an attempt the loop panics.\<close>

definition driver_connect :: "(modbus_driver, driver_failure, unit) st" where
  "driver_connect d =
     on_transport (\<lambda>t. if any_is_connected t then (Inr (), t)
                      else connect_loop (connect_attempts (md_config d)) driver_panic t) d"

definition driver_disconnect :: "modbus_driver \<Rightarrow> modbus_driver" where
  "driver_disconnect d = d\<lparr>md_transport := map_option any_disconnect (md_transport d)\<rparr>"

definition ensure_connected_before_plan :: "(modbus_driver, driver_failure, unit) st" where
  "ensure_connected_before_plan d =
     (case md_transport d of
        None \<Rightarrow> (Inl Panicked, d)
      | Some t \<Rightarrow> if any_is_connected t then (Inr (), d) else driver_connect d)"

definition drop_session :: "(any_transport, modbus_error, 'a) st \<Rightarrow> (any_transport, modbus_error, 'a) st" where
  "drop_session m t =
     (case m t of
        (Inr x, t') \<Rightarrow> (Inr x, t')
      | (Inl e, t') \<Rightarrow> (Inl e, if is_transport_level e then any_disconnect t' else t'))"

definition request_plan :: "read_plan \<Rightarrow> (modbus_driver, driver_failure, bytes) st" where
  "request_plan p = on_transport (drop_session
     (any_read_transaction (word_of_nat (rp_unit_id p)) (function_code (rp_kind p))
        (word_of_nat (rp_start_offset p)) (word_of_nat (rp_quantity p))))"

definition request_write_plan :: "write_plan \<Rightarrow> (modbus_driver, driver_failure, unit) st" where
  "request_write_plan p = on_transport (drop_session
     (any_write_transaction (word_of_nat (wp_unit_id p)) (wp_function p)
        (word_of_nat (wp_start_offset p)) (wp_payload p)))"

definition error_result_with_ts :: "nat \<Rightarrow> modbus_error \<Rightarrow> timestamp_ns \<Rightarrow> raw_read_result" where
  "error_result_with_ts item_id e now =
     \<lparr>rr_item_id = item_id, rr_value = None, rr_source_timestamp_ns = None, rr_received_timestamp_ns = now,
      rr_protocol_quality_code = me_protocol_code e, rr_error = Some (into_info e)\<rparr>"

definition decode_item ::
  "register_kind \<Rightarrow> bytes \<Rightarrow> word_order \<Rightarrow> planned_item \<Rightarrow> timestamp_ns \<Rightarrow> raw_read_result option" where
  "decode_item kind d wo planned now =
     (case decode_register_value kind d (pi_offset_in_frame planned) (pi_expected_type planned) wo of
        Inr v \<Rightarrow> Some
          \<lparr>rr_item_id = pi_item_id planned, rr_value = Some v, rr_source_timestamp_ns = None,
           rr_received_timestamp_ns = now, rr_protocol_quality_code = Some 0, rr_error = None\<rparr>
      | Inl DecodePanic \<Rightarrow> None
      | Inl _ \<Rightarrow> Some (error_result_with_ts (pi_item_id planned) decode_failed now))"

text \<open>Results of one plan; \<open>n\<close> results were stamped before.\<close>

definition stamp_results ::
  "(nat \<Rightarrow> timestamp_ns) \<Rightarrow> nat \<Rightarrow> (planned_item \<Rightarrow> timestamp_ns \<Rightarrow> 'a) \<Rightarrow> planned_item list \<Rightarrow> 'a list" where
  "stamp_results clock n f items = map (\<lambda>(i, it). f it (clock i)) (enumerate n items)"

fun read_plans ::
  "(nat \<Rightarrow> timestamp_ns) \<Rightarrow> read_plan list \<Rightarrow> raw_read_result list \<Rightarrow>
   (modbus_driver, driver_failure, raw_read_result list) st" where
  "read_plans clock [] results d = (Inr results, d)"
| "read_plans clock (p # plans) results d =
     (case ensure_connected_before_plan d of
        (Inl e, d') \<Rightarrow> (Inl e, d')
      | (Inr _, d') \<Rightarrow>
          (case request_plan p d' of
             (Inr bs, d'') \<Rightarrow>
               (case those (stamp_results clock (length results)
                    (\<lambda>it now. decode_item (rp_kind p) bs (mc_word_order (md_config d)) it now) (rp_items p)) of
                  None \<Rightarrow> (Inl Panicked, d'')
                | Some decoded \<Rightarrow> read_plans clock plans (results @ decoded) d'')
           | (Inl Panicked, d'') \<Rightarrow> (Inl Panicked, d'')
           | (Inl (Failed e), d'') \<Rightarrow>
               if is_transport_level e then (Inl (Failed e), d'')
               else read_plans clock plans
                 (results @ stamp_results clock (length results)
                    (\<lambda>it now. error_result_with_ts (pi_item_id it) e now) (rp_items p)) d''))"

definition read_batch ::
  "(nat \<Rightarrow> timestamp_ns) \<Rightarrow> driver_read_item list \<Rightarrow> (modbus_driver, driver_failure, raw_read_result list) st" where
  "read_batch clock items d =
     (case plan_batch items (mc_unit_id (md_config d)) of
        None \<Rightarrow> (Inl Panicked, d)
      | Some (Inl e) \<Rightarrow> (Inl (Failed e), d)
      | Some (Inr plans) \<Rightarrow>
          (case read_plans clock plans [] d of
             (Inl e, d') \<Rightarrow> (Inl e, d')
           | (Inr results, d') \<Rightarrow> (Inr (sort_key rr_item_id results), d')))"

definition write_ok_result :: "nat \<Rightarrow> raw_write_result" where
  "write_ok_result item_id =
     \<lparr>rw_item_id = item_id, rw_success = True, rw_protocol_code = Some 0, rw_error = None\<rparr>"

definition write_error_result :: "modbus_error \<Rightarrow> nat \<Rightarrow> raw_write_result" where
  "write_error_result e item_id =
     \<lparr>rw_item_id = item_id, rw_success = False, rw_protocol_code = me_protocol_code e,
      rw_error = Some (into_info e)\<rparr>"

fun write_plans ::
  "write_plan list \<Rightarrow> raw_write_result list \<Rightarrow> (modbus_driver, driver_failure, raw_write_result list) st" where
  "write_plans [] results d = (Inr results, d)"
| "write_plans (p # plans) results d =
     (case ensure_connected_before_plan d of
        (Inl e, d') \<Rightarrow> (Inl e, d')
      | (Inr _, d') \<Rightarrow>
          (case request_write_plan p d' of
             (Inr _, d'') \<Rightarrow> write_plans plans (results @ map write_ok_result (wp_item_ids p)) d''
           | (Inl Panicked, d'') \<Rightarrow> (Inl Panicked, d'')
           | (Inl (Failed e), d'') \<Rightarrow>
               if is_transport_level e then (Inl (Failed e), d'')
               else write_plans plans (results @ map (write_error_result e) (wp_item_ids p)) d''))"

definition write_batch :: "write_request list \<Rightarrow> (modbus_driver, driver_failure, raw_write_result list) st" where
  "write_batch items d =
     (case plan_write_batch items (mc_unit_id (md_config d)) (mc_word_order (md_config d)) of
        None \<Rightarrow> (Inl Panicked, d)
      | Some (Inl e) \<Rightarrow> (Inl (Failed e), d)
      | Some (Inr (plans, errs)) \<Rightarrow>
          (case write_plans plans errs d of
             (Inl e, d') \<Rightarrow> (Inl e, d')
           | (Inr results, d') \<Rightarrow> (Inr (sort_key rw_item_id results), d')))"

definition validate_address :: "string \<Rightarrow> modbus_driver \<Rightarrow> modbus_error + address_metadata" where
  "validate_address address d =
     res_bind (res_map_err (\<lambda>_. invalid_address) (parse_address address (mc_unit_id (md_config d)))) (\<lambda>a.
       Inr \<lparr>am_canonical_address = canonical a, am_raw_type = None, am_readable = True,
            am_writable = kind_writable (ma_kind a)\<rparr>)"

section \<open>The C interface\<close>

record ffi_str =
  fs_null :: bool
  fs_bytes :: bytes

definition ffi_str_to_str :: "ffi_str \<Rightarrow> string option" where
  "ffi_str_to_str s =
     (if fs_bytes s = [] then Some ''''
      else if fs_null s then None
      else if utf8_valid (fs_bytes s) then Some (bytes_string (fs_bytes s)) else None)"

definition unwrap_or_default :: "string option \<Rightarrow> string" where
  "unwrap_or_default s = (case s of Some x \<Rightarrow> x | None \<Rightarrow> '''')"

record ffi_read_item =
  fr_id :: nat
  fr_address :: ffi_str
  fr_expected_type :: nat

record ffi_write_item =
  fw_id :: nat
  fw_address :: ffi_str
  fw_value_type :: nat
  fw_value_bytes :: bytes

text \<open>An entry point gives a status and, on success, what it writes to \<^verbatim>\<open>out\<close>. \<open>abi_result\<close> is the common
  tail: a result is delivered with status 0, an error is recorded in the handle, and so is a panic
  (\<^verbatim>\<open>catch_abi_panic\<close>). \<^verbatim>\<open>serde_json::to_vec\<close> of an envelope is taken to succeed: the envelopes are plain
  structures with string keys, for which it has no error; the branch that would return \<open>-1\<close> is not modelled.\<close>

definition abi_fail :: "modbus_error \<Rightarrow> modbus_driver \<Rightarrow> (int \<times> 'a option) \<times> modbus_driver" where
  "abi_fail e d = ((- 1, None), d\<lparr>md_last_error := Some (into_info e)\<rparr>)"

fun abi_result :: "(driver_failure + 'a) \<times> modbus_driver \<Rightarrow> (int \<times> 'a option) \<times> modbus_driver" where
  "abi_result (Inr x, d) = ((0, Some x), d)"
| "abi_result (Inl (Failed e), d) = abi_fail e d"
| "abi_result (Inl Panicked, d) = abi_fail driver_panic d"

text \<open>A null handle gives status \<open>-1\<close> and nothing else.\<close>

definition on_handle ::
  "(modbus_driver \<Rightarrow> (int \<times> 'a option) \<times> modbus_driver) \<Rightarrow> modbus_driver option \<Rightarrow>
   (int \<times> 'a option) \<times> modbus_driver option" where
  "on_handle f h = (case h of None \<Rightarrow> ((- 1, None), None) | Some d \<Rightarrow> map_prod id Some (f d))"

definition api_create ::
  "(string \<Rightarrow> modbus_config option) \<Rightarrow> connect_outcome list \<Rightarrow> stream option list \<Rightarrow> ffi_str \<Rightarrow> int \<times> modbus_driver" where
  "api_create parse_json connects opens config =
     (case (case ffi_str_to_str config of
              Some json \<Rightarrow> driver_create parse_json connects opens json
            | None \<Rightarrow> Inl config_error) of
        Inr d \<Rightarrow> (0, d)
      | Inl e \<Rightarrow> (- 1, \<lparr>md_config = default_config, md_transport = None, md_last_error = Some (into_info e)\<rparr>))"

definition api_destroy :: "modbus_driver option \<Rightarrow> int \<times> modbus_driver option" where
  "api_destroy h = (0, None)"

definition api_connect :: "modbus_driver option \<Rightarrow> (int \<times> unit option) \<times> modbus_driver option" where
  "api_connect = on_handle (\<lambda>d. abi_result (driver_connect d))"

definition api_disconnect :: "modbus_driver option \<Rightarrow> int \<times> modbus_driver option" where
  "api_disconnect h = (0, map_option driver_disconnect h)"

definition api_validate_address ::
  "ffi_str \<Rightarrow> modbus_driver option \<Rightarrow> (int \<times> address_metadata option) \<times> modbus_driver option" where
  "api_validate_address address = on_handle (\<lambda>d.
     case ffi_str_to_str address of
       None \<Rightarrow> abi_fail invalid_address d
     | Some a \<Rightarrow> abi_result (res_map_err Failed (validate_address a d), d))"

text \<open>The loop that converts the items; an illegal tag fails the call before anything is sent.\<close>

fun ffi_read_items :: "ffi_read_item list \<Rightarrow> modbus_error + driver_read_item list" where
  "ffi_read_items [] = Inr []"
| "ffi_read_items (item # items) =
     (case tag_to_data_type (fr_expected_type item) of
        Inl _ \<Rightarrow> Inl invalid_type
      | Inr ty \<Rightarrow> res_bind (ffi_read_items items) (\<lambda>rest. Inr
          (\<lparr>ri_id = fr_id item, ri_address = unwrap_or_default (ffi_str_to_str (fr_address item)),
            ri_expected_type = ty\<rparr> # rest)))"

definition api_read ::
  "(nat \<Rightarrow> timestamp_ns) \<Rightarrow> ffi_read_item list option \<Rightarrow> modbus_driver option \<Rightarrow>
   (int \<times> raw_read_result list option) \<times> modbus_driver option" where
  "api_read clock items = on_handle (\<lambda>d.
     case items of
       None \<Rightarrow> abi_fail invalid_address d
     | Some its \<Rightarrow>
         (case ffi_read_items its of
            Inl e \<Rightarrow> abi_fail e d
          | Inr read_items \<Rightarrow> abi_result (read_batch clock read_items d)))"

fun ffi_write_items :: "ffi_write_item list \<Rightarrow> modbus_error + write_request list" where
  "ffi_write_items [] = Inr []"
| "ffi_write_items (item # items) =
     (case decode_value_bytes (fw_value_type item) (fw_value_bytes item) of
        Inl _ \<Rightarrow> Inl invalid_type
      | Inr v \<Rightarrow> res_bind (ffi_write_items items) (\<lambda>rest. Inr
          (\<lparr>wq_id = fw_id item, wq_address = unwrap_or_default (ffi_str_to_str (fw_address item)),
            wq_value_type = fw_value_type item, wq_value = v\<rparr> # rest)))"

definition api_write ::
  "ffi_write_item list option \<Rightarrow> modbus_driver option \<Rightarrow> (int \<times> raw_write_result list option) \<times> modbus_driver option" where
  "api_write items = on_handle (\<lambda>d.
     case items of
       None \<Rightarrow> abi_fail invalid_address d
     | Some its \<Rightarrow>
         (case ffi_write_items its of
            Inl e \<Rightarrow> abi_fail e d
          | Inr write_items \<Rightarrow> abi_result (write_batch write_items d)))"

text \<open>\<^verbatim>\<open>execute\<close>, \<^verbatim>\<open>browse\<close>, \<^verbatim>\<open>subscribe\<close>, \<^verbatim>\<open>unsubscribe\<close> and \<^verbatim>\<open>query_history\<close> are not supported.\<close>

definition api_unsupported :: "modbus_driver option \<Rightarrow> (int \<times> unit option) \<times> modbus_driver option" where
  "api_unsupported = on_handle (abi_fail unsupported)"

text \<open>The declaration of the capabilities is a constant; its text is not modelled.\<close>

definition api_get_capabilities :: "modbus_driver option \<Rightarrow> (int \<times> unit option) \<times> modbus_driver option" where
  "api_get_capabilities = on_handle (\<lambda>d. ((0, Some ()), d))"

definition api_get_last_error ::
  "modbus_driver option \<Rightarrow> (int \<times> driver_error_info option option) \<times> modbus_driver option" where
  "api_get_last_error = on_handle (\<lambda>d. ((0, Some (md_last_error d)), d))"

section \<open>Connecting\<close>

lemma on_transport_Inr:
  "on_transport m d = (Inr x, d') \<longleftrightarrow>
     (\<exists>t t'. md_transport d = Some t \<and> m t = (Inr x, t') \<and> d' = d\<lparr>md_transport := Some t'\<rparr>)"
  by (auto simp: on_transport_def res_map_err_eq_Inr split: option.splits prod.splits)

lemma on_transport_Inl:
  "on_transport m d = (Inl e, d') \<longleftrightarrow>
     md_transport d = None \<and> e = Panicked \<and> d' = d \<or>
     (\<exists>t t' me. md_transport d = Some t \<and> m t = (Inl me, t') \<and> e = call_failure me \<and> d' = d\<lparr>md_transport := Some t'\<rparr>)"
  by (auto simp: on_transport_def res_map_err_eq_Inl split: option.splits prod.splits)

text \<open>The state of the session after a call: connected or not.\<close>

definition session :: "modbus_driver \<Rightarrow> bool \<Rightarrow> bool" where
  "session d c \<longleftrightarrow> (\<exists>t. md_transport d = Some t \<and> any_is_connected t = c)"

lemma call_failure_Failed: "call_failure e = Failed e' \<longleftrightarrow> e = e' \<and> e \<noteq> driver_panic"
  by (simp add: call_failure_def)

text \<open>The errors of a connect and of a transaction are not panics.\<close>

lemma call_failure_simps [simp]:
  "call_failure connection_failed = Failed connection_failed" "transaction_error e \<Longrightarrow> call_failure e = Failed e"
  by (auto simp: call_failure_def transaction_error_def error_defs)

lemma connect_loop_outcome:
  assumes "\<not> any_is_connected t" and "connect_loop (Suc n) e t = (r, t')"
  shows "(r = Inr () \<and> any_is_connected t') \<or> (r = Inl connection_failed \<and> \<not> any_is_connected t')"
  using assms
proof (induction n arbitrary: t e)
  case 0
  obtain s u where c: "any_connect t = (s, u)" by (cases "any_connect t")
  then show ?case using 0 any.connect_Inl[of t _ u] any.connect_Inr[of t u] by (cases s) auto
next
  case (Suc n)
  obtain s u where c: "any_connect t = (s, u)" by (cases "any_connect t")
  show ?case
  proof (cases s)
    case (Inl e')
    then have "\<not> any_is_connected u" using c any.connect_Inl by simp
    then show ?thesis using Suc.IH[of u e'] Suc.prems c Inl by simp
  next
    case (Inr x)
    then show ?thesis using Suc.prems c any.connect_Inr[of t u] by simp
  qed
qed

text \<open>There is at least one attempt.\<close>

lemma connect_attempts_pos: "\<exists>n. connect_attempts c = Suc n"
proof -
  have "1 \<le> connect_attempts c" by (simp add: connect_attempts_def)
  then show ?thesis by (metis Suc_le_D One_nat_def)
qed

lemma driver_connect_outcome:
  assumes "session d b" and "driver_connect d = (r, d')"
  shows "md_config d' = md_config d \<and>
    (r = Inr () \<and> session d' True \<or> r = Inl (Failed connection_failed) \<and> session d' False)"
proof -
  obtain n where n: "connect_attempts (md_config d) = Suc n" using connect_attempts_pos by blast
  obtain t where t: "md_transport d = Some t" using assms(1) by (auto simp: session_def)
  obtain s t' where run: "(if any_is_connected t then (Inr (), t) else connect_loop (Suc n) driver_panic t) = (s, t')" by force
  have "s = Inr () \<and> any_is_connected t' \<or> s = Inl connection_failed \<and> \<not> any_is_connected t'"
    using run connect_loop_outcome[of t n driver_panic s t'] by (auto split: if_splits simp del: connect_loop.simps)
  moreover have "r = res_map_err call_failure s" "d' = d\<lparr>md_transport := Some t'\<rparr>"
    using assms(2) run unfolding driver_connect_def on_transport_def t n by (simp_all del: connect_loop.simps)
  ultimately show ?thesis by (auto simp: session_def)
qed

lemma ensure_connected_outcome:
  assumes "session d b" and "ensure_connected_before_plan d = (r, d')"
  shows "md_config d' = md_config d \<and>
    (r = Inr () \<and> session d' True \<or> r = Inl (Failed connection_failed) \<and> session d' False)"
  using assms driver_connect_outcome[OF assms(1)]
  by (auto simp: ensure_connected_before_plan_def session_def split: if_splits)

section \<open>Batches\<close>

lemma drop_session_connected:
  assumes "\<And>t. any_is_connected (snd (m t)) = any_is_connected t" and "any_is_connected t"
  shows "drop_session m t = (Inr x, t') \<Longrightarrow> m t = (Inr x, t') \<and> any_is_connected t'"
    and "drop_session m t = (Inl e, t') \<Longrightarrow> any_is_connected t' = (\<not> is_transport_level e) \<and> (\<exists>t''. m t = (Inl e, t''))"
  using assms(1)[of t] assms(2)
  by (auto simp: drop_session_def any.disconnect split: prod.splits sum.splits if_splits)

text \<open>One request over a connected session: a transport error drops the session, any other error is an
  exception of the device and keeps it.\<close>

lemma request_outcome:
  assumes "\<And>t. any_is_connected (snd (m t)) = any_is_connected t"
    and "\<forall>t e t'. m t = (Inl e, t') \<longrightarrow> transaction_error e"
    and "session d True" and "on_transport (drop_session m) d = (r, d')"
  shows "md_config d' = md_config d \<and>
    (case r of
       Inr x \<Rightarrow> session d' True \<and> (\<exists>t t'. m t = (Inr x, t'))
     | Inl Panicked \<Rightarrow> False
     | Inl (Failed e) \<Rightarrow>
         if is_transport_level e then session d' False else session d' True \<and> (\<exists>c. e = modbus_exception c))"
proof -
  obtain t where t: "md_transport d = Some t" "any_is_connected t"
    using assms(3) by (auto simp: session_def)
  obtain s t' where s: "drop_session m t = (s, t')" by (cases "drop_session m t")
  have d': "d' = d\<lparr>md_transport := Some t'\<rparr>" "r = res_map_err call_failure s"
    using assms(4) by (simp_all add: on_transport_def t s)
  show ?thesis
  proof (cases s)
    case (Inr x)
    then show ?thesis
      using drop_session_connected(1)[of m, OF assms(1) t(2)] s d' by (auto simp: session_def)
  next
    case (Inl e)
    then have e: "any_is_connected t' = (\<not> is_transport_level e)" "\<exists>t''. m t = (Inl e, t'')"
      using drop_session_connected(2)[of m, OF assms(1) t(2)] s by auto
    then have "transaction_error e" using assms(2) by blast
    moreover from this have "is_transport_level e \<or> (\<exists>c. e = modbus_exception c)" by (auto simp: transaction_error_def)
    ultimately show ?thesis
      using e(1) Inl d' by (auto simp: session_def)
  qed
qed

lemma request_plan_outcome:
  assumes "session d True" and "request_plan p d = (r, d')"
  shows "md_config d' = md_config d \<and>
    (case r of
       Inr bs \<Rightarrow> session d' True \<and> length bs = expected_data_len (function_code (rp_kind p)) (word_of_nat (rp_quantity p))
     | Inl Panicked \<Rightarrow> False
     | Inl (Failed e) \<Rightarrow>
         if is_transport_level e then session d' False else session d' True \<and> (\<exists>c. e = modbus_exception c))"
proof -
  let ?m = "any_read_transaction (word_of_nat (rp_unit_id p)) (function_code (rp_kind p))
     (word_of_nat (rp_start_offset p)) (word_of_nat (rp_quantity p))"
  have "\<not> is_write_function (function_code (rp_kind p))"
    by (cases "rp_kind p") (simp_all add: is_write_function_def fc_defs)
  then have "length bs = expected_data_len (function_code (rp_kind p)) (word_of_nat (rp_quantity p))"
    if "?m t = (Inr bs, t')" for bs t t'
    using any.read_length that by blast
  then show ?thesis
    using request_outcome[OF any.read_connected _ assms(1) assms(2)[unfolded request_plan_def]] any.read_error
    by (auto split: sum.splits driver_failure.splits)
qed

lemma request_write_plan_outcome:
  assumes "session d True" and "request_write_plan p d = (r, d')"
  shows "md_config d' = md_config d \<and>
    (case r of
       Inr _ \<Rightarrow> session d' True
     | Inl Panicked \<Rightarrow> False
     | Inl (Failed e) \<Rightarrow>
         if is_transport_level e then session d' False else session d' True \<and> (\<exists>c. e = modbus_exception c))"
  using request_outcome[OF any.write_connected _ assms(1) assms(2)[unfolded request_write_plan_def]] any.write_error
  by (auto split: sum.splits driver_failure.splits)

text \<open>A read result carries a value or an error, never both.\<close>

definition read_result_ok :: "raw_read_result \<Rightarrow> bool" where
  "read_result_ok r \<longleftrightarrow>
     (rr_value r = None) = (rr_error r \<noteq> None) \<and>
     (case rr_error r of
        None \<Rightarrow> rr_protocol_quality_code r = Some 0
      | Some e \<Rightarrow> e = into_info decode_failed \<or> (\<exists>c. e = into_info (modbus_exception c)))"

lemma stamp_results_facts:
  assumes "\<And>it now. rr_item_id (f it now) = pi_item_id it" and "\<And>it now. read_result_ok (f it now)"
  shows "map rr_item_id (stamp_results clock n f items) = map pi_item_id items \<and>
    (\<forall>r\<in>set (stamp_results clock n f items). read_result_ok r)"
proof -
  have "map (\<lambda>x. pi_item_id (snd x)) (enumerate n items) = map pi_item_id items"
    by (induction items arbitrary: n) simp_all
  then show ?thesis
    using assms by (auto simp: stamp_results_def o_def case_prod_beta)
qed

text \<open>A decoder that does not panic gives one result for each item.\<close>

lemma those_map_Some: "(\<And>x. x \<in> set xs \<Longrightarrow> f x = Some (g x)) \<Longrightarrow> those (map f xs) = Some (map g xs)"
  by (induction xs) simp_all

lemma decode_item_ok: "\<exists>r. decode_item k bs wo it now = Some r \<and> rr_item_id r = pi_item_id it \<and> read_result_ok r"
  using decode_no_panic
  by (auto simp: decode_item_def error_result_with_ts_def read_result_ok_def split: sum.splits decode_error.splits)

lemma decoded_results:
  obtains g where
    "those (stamp_results clock n (\<lambda>it now. decode_item k bs wo it now) items) = Some (stamp_results clock n g items)"
    "\<And>it now. rr_item_id (g it now) = pi_item_id it" "\<And>it now. read_result_ok (g it now)"
proof -
  define g where "g = (\<lambda>it now. the (decode_item k bs wo it now))"
  have g: "decode_item k bs wo it now = Some (g it now)" "rr_item_id (g it now) = pi_item_id it" "read_result_ok (g it now)" for it now
    using decode_item_ok[of k bs wo it now] by (auto simp: g_def)
  have "those (stamp_results clock n (\<lambda>it now. decode_item k bs wo it now) items) = Some (stamp_results clock n g items)"
    unfolding stamp_results_def by (rule those_map_Some) (simp add: g(1) case_prod_beta)
  with g(2,3) that show ?thesis by blast
qed

lemma error_result_ok [simp]:
  "rr_item_id (error_result_with_ts i e now) = i"
  "e = modbus_exception c \<Longrightarrow> read_result_ok (error_result_with_ts i e now)"
  by (auto simp: error_result_with_ts_def read_result_ok_def)

lemma read_plans_outcome:
  assumes "session d b" and "\<forall>r\<in>set results. read_result_ok r"
    and "read_plans clock plans results d = (r, d')"
  shows "md_config d' = md_config d \<and>
    (case r of
       Inr rs \<Rightarrow> (\<exists>b'. session d' b') \<and> (\<forall>x\<in>set rs. read_result_ok x) \<and>
         map rr_item_id rs = map rr_item_id results @ concat (map (\<lambda>p. map pi_item_id (rp_items p)) plans)
     | Inl Panicked \<Rightarrow> False
     | Inl (Failed e) \<Rightarrow> is_transport_level e \<and> session d' False)"
  using assms
proof (induction plans arbitrary: d b results)
  case (Cons p plans)
  obtain r1 d1 where e1: "ensure_connected_before_plan d = (r1, d1)" by (cases "ensure_connected_before_plan d")
  note en = ensure_connected_outcome[OF Cons.prems(1) e1]
  show ?case
  proof (cases "r1 = Inr ()")
    case False
    with en e1 Cons.prems(3) show ?thesis by auto
  next
    case True
    obtain r2 d2 where e2: "request_plan p d1 = (r2, d2)" by (cases "request_plan p d1")
    have s1: "session d1 True" using en True by simp
    note rq = request_plan_outcome[OF s1 e2]
    show ?thesis
    proof (cases "\<exists>e. r2 = Inl (Failed e) \<and> is_transport_level e")
      case fail: True
      then show ?thesis using Cons.prems(3) e1 e2 True rq en by auto
    next
      case False
      obtain new where new: "map rr_item_id new = map pi_item_id (rp_items p)" "\<forall>x\<in>set new. read_result_ok x"
        and d2: "session d2 True" "md_config d2 = md_config d1"
        and run: "read_plans clock plans (results @ new) d2 = (r, d')"
      proof -
        consider bs where "r2 = Inr bs" | c where "r2 = Inl (Failed (modbus_exception c))"
          using rq False by (auto split: sum.splits driver_failure.splits if_splits)
        then show ?thesis
        proof cases
          case (1 bs)
          obtain g where g: "those (stamp_results clock (length results)
              (\<lambda>it now. decode_item (rp_kind p) bs (mc_word_order (md_config d)) it now) (rp_items p)) =
              Some (stamp_results clock (length results) g (rp_items p))"
            "\<And>it now. rr_item_id (g it now) = pi_item_id it" "\<And>it now. read_result_ok (g it now)"
            by (rule decoded_results[of clock "length results" "rp_kind p" bs "mc_word_order (md_config d)" "rp_items p"]) blast
          show ?thesis
            by (rule that[of "stamp_results clock (length results) g (rp_items p)"])
              (use stamp_results_facts[of g] g rq 1 Cons.prems(3) e1 e2 True in auto)
        next
          case (2 c)
          let ?f = "\<lambda>it now. error_result_with_ts (pi_item_id it) (modbus_exception c) now"
          show ?thesis
            by (rule that[of "stamp_results clock (length results) ?f (rp_items p)"])
              (use stamp_results_facts[of ?f] rq 2 Cons.prems(3) e1 e2 True in auto)
        qed
      qed
      have "\<forall>x\<in>set (results @ new). read_result_ok x" using Cons.prems(2) new(2) by auto
      from Cons.IH[OF d2(1) this run] show ?thesis
        using new(1) d2(2) en by (auto split: sum.splits driver_failure.splits)
    qed
  qed
qed auto

definition write_result_ok :: "raw_write_result \<Rightarrow> bool" where
  "write_result_ok r \<longleftrightarrow>
     rw_success r = (rw_error r = None) \<and>
     (case rw_error r of
        None \<Rightarrow> rw_protocol_code r = Some 0
      | Some e \<Rightarrow> e = into_info invalid_type \<or> (\<exists>c. e = into_info (modbus_exception c)))"

lemma write_results_ok [simp]:
  "write_result_ok (write_ok_result i)" "write_result_ok (write_error_result (modbus_exception c) i)"
  "write_result_ok (encode_error_result i)"
  by (auto simp: write_result_ok_def write_ok_result_def write_error_result_def encode_error_result_def)

lemma write_result_ids [simp]:
  "rw_item_id (write_ok_result i) = i" "rw_item_id (write_error_result e i) = i" "rw_item_id (encode_error_result i) = i"
  by (simp_all add: write_ok_result_def write_error_result_def encode_error_result_def)

lemma write_plans_outcome:
  assumes "session d b" and "\<forall>r\<in>set results. write_result_ok r"
    and "write_plans plans results d = (r, d')"
  shows "md_config d' = md_config d \<and>
    (case r of
       Inr rs \<Rightarrow> (\<exists>b'. session d' b') \<and> (\<forall>x\<in>set rs. write_result_ok x) \<and>
         map rw_item_id rs = map rw_item_id results @ concat (map wp_item_ids plans)
     | Inl Panicked \<Rightarrow> False
     | Inl (Failed e) \<Rightarrow> is_transport_level e \<and> session d' False)"
  using assms
proof (induction plans arbitrary: d b results)
  case (Cons p plans)
  obtain r1 d1 where e1: "ensure_connected_before_plan d = (r1, d1)" by (cases "ensure_connected_before_plan d")
  note en = ensure_connected_outcome[OF Cons.prems(1) e1]
  show ?case
  proof (cases "r1 = Inr ()")
    case False
    with en e1 Cons.prems(3) show ?thesis by auto
  next
    case True
    obtain r2 d2 where e2: "request_write_plan p d1 = (r2, d2)" by (cases "request_write_plan p d1")
    have s1: "session d1 True" using en True by simp
    note rq = request_write_plan_outcome[OF s1 e2]
    show ?thesis
    proof (cases "\<exists>e. r2 = Inl (Failed e) \<and> is_transport_level e")
      case fail: True
      then show ?thesis using Cons.prems(3) e1 e2 True rq en by auto
    next
      case False
      consider x where "r2 = Inr x" | c where "r2 = Inl (Failed (modbus_exception c))"
        using rq False by (auto split: sum.splits driver_failure.splits if_splits)
      then obtain f where f: "\<And>i. rw_item_id (f i) = i" "\<And>i. write_result_ok (f i)"
        and d2: "session d2 True" "md_config d2 = md_config d1"
        and run: "write_plans plans (results @ map f (wp_item_ids p)) d2 = (r, d')"
        using rq Cons.prems(3) e1 e2 True that[of write_ok_result] that[of "write_error_result (modbus_exception c)" for c]
        by cases auto
      have "\<forall>x\<in>set (results @ map f (wp_item_ids p)). write_result_ok x" using Cons.prems(2) f(2) by auto
      from Cons.IH[OF d2(1) this run] show ?thesis
        using f(1) d2(2) en by (auto simp: o_def split: sum.splits driver_failure.splits)
    qed
  qed
qed auto

lemma read_plan_ids: "map fst (plan_view p) = map pi_item_id (rp_items p)"
  by (simp add: plan_view_def)

lemma mset_ids_of_views:
  assumes "mset (concat (map plan_view plans)) = mset (map (\<lambda>it. entry_view (the (read_entry u it))) items)"
    and "\<forall>it\<in>set items. read_entry u it \<noteq> None"
  shows "mset (concat (map (\<lambda>p. map pi_item_id (rp_items p)) plans)) = mset (map ri_id items)"
proof -
  have "fst (entry_view (the (read_entry u it))) = ri_id it" if "it \<in> set items" for it
    using assms(2) that by (auto simp: read_entry_def entry_view_def split: sum.splits if_splits)
  then have "map (\<lambda>it. fst (entry_view (the (read_entry u it)))) items = map ri_id items" by simp
  then have "image_mset fst (mset (map (\<lambda>it. entry_view (the (read_entry u it))) items)) = mset (map ri_id items)"
    by (simp only: mset_map[symmetric] map_map o_def)
  moreover have "image_mset fst (mset (concat (map plan_view plans))) =
      mset (concat (map (\<lambda>p. map pi_item_id (rp_items p)) plans))"
    by (simp only: mset_map[symmetric] map_concat map_map o_def read_plan_ids)
  ultimately show ?thesis using assms(1) by simp
qed

lemma read_batch_outcome:
  assumes "session d b" and "read_batch clock items d = (r, d')"
  shows "md_config d' = md_config d \<and>
    (case r of
       Inr rs \<Rightarrow> (\<exists>b'. session d' b') \<and> mset (map rr_item_id rs) = mset (map ri_id items) \<and>
         sorted (map rr_item_id rs) \<and> (\<forall>x\<in>set rs. read_result_ok x)
     | Inl Panicked \<Rightarrow> False
     | Inl (Failed e) \<Rightarrow> e = invalid_address \<and> d' = d \<or> is_transport_level e \<and> session d' False)"
proof -
  let ?u = "mc_unit_id (md_config d)"
  consider "plan_batch items ?u = Some (Inl invalid_address)"
    | plans where "plan_batch items ?u = Some (Inr plans)"
      "mset (concat (map (\<lambda>p. map pi_item_id (rp_items p)) plans)) = mset (map ri_id items)"
    using plan_batch_cases[of items ?u] mset_ids_of_views[of _ ?u items] by blast
  then show ?thesis
  proof cases
    case 1
    then show ?thesis using assms(2) by (auto simp: read_batch_def)
  next
    case (2 plans)
    obtain s d1 where run: "read_plans clock plans [] d = (s, d1)" by (cases "read_plans clock plans [] d")
    from read_plans_outcome[OF assms(1) _ this] have out: "md_config d1 = md_config d \<and>
      (case s of
         Inr rs \<Rightarrow> (\<exists>b'. session d1 b') \<and> (\<forall>x\<in>set rs. read_result_ok x) \<and>
           map rr_item_id rs = concat (map (\<lambda>p. map pi_item_id (rp_items p)) plans)
       | Inl Panicked \<Rightarrow> False
       | Inl (Failed e) \<Rightarrow> is_transport_level e \<and> session d1 False)"
      by (auto split: sum.splits driver_failure.splits)
    show ?thesis
    proof (cases s)
      case (Inl e)
      then show ?thesis
        using out assms(2) run 2 by (auto simp: read_batch_def split: driver_failure.splits)
    next
      case (Inr rs)
      then have "r = Inr (sort_key rr_item_id rs)" "d' = d1" using assms(2) run 2 by (simp_all add: read_batch_def)
      moreover have "mset (map rr_item_id (sort_key rr_item_id rs)) = mset (map rr_item_id rs)" by simp
      ultimately show ?thesis
        using out Inr 2(2) by (simp del: mset_map)
    qed
  qed
qed

lemma mset_partition_map:
  "mset (map fst (accepted_writes u wo items)) +
   mset (map wq_id (filter (\<lambda>it. write_entry u wo it = Some None) items)) = mset (map wq_id items)"
  if "\<forall>it\<in>set items. write_entry u wo it \<noteq> None"
  using that
proof (induction items)
  case (Cons it items)
  have "fst e = wq_id it" if "write_entry u wo it = Some (Some e)" for e
    using that by (auto simp: write_entry_def split: sum.splits if_splits)
  then show ?case
    using Cons by (cases "write_entry u wo it"; cases "the (write_entry u wo it)")
      (auto simp: accepted_writes_def map_filter_simps)
qed (simp add: accepted_writes_def map_filter_simps)

lemma write_batch_outcome:
  assumes "session d b" and "write_batch items d = (r, d')"
  shows "md_config d' = md_config d \<and>
    (case r of
       Inr rs \<Rightarrow> (\<exists>b'. session d' b') \<and> mset (map rw_item_id rs) = mset (map wq_id items) \<and>
         sorted (map rw_item_id rs) \<and> (\<forall>x\<in>set rs. write_result_ok x)
     | Inl Panicked \<Rightarrow> False
     | Inl (Failed e) \<Rightarrow> e = invalid_address \<and> d' = d \<or> is_transport_level e \<and> session d' False)"
proof -
  let ?u = "mc_unit_id (md_config d)" and ?wo = "mc_word_order (md_config d)"
  let ?bad = "filter (\<lambda>it. write_entry ?u ?wo it = Some None) items"
  let ?errs = "map (\<lambda>it. encode_error_result (wq_id it)) ?bad"
  consider "plan_write_batch items ?u ?wo = Some (Inl invalid_address)"
    | plans where "plan_write_batch items ?u ?wo = Some (Inr (plans, ?errs))"
      "\<forall>it\<in>set items. write_entry ?u ?wo it \<noteq> None"
      "mset (concat (map wp_item_ids plans)) = mset (map fst (accepted_writes ?u ?wo items))"
    using plan_write_batch_cases[of items ?u ?wo] by blast
  then show ?thesis
  proof cases
    case 1
    then show ?thesis using assms(2) by (auto simp: write_batch_def)
  next
    case (2 plans)
    obtain s d1 where run: "write_plans plans ?errs d = (s, d1)" by (cases "write_plans plans ?errs d")
    have "\<forall>r\<in>set ?errs. write_result_ok r" by auto
    note out = write_plans_outcome[OF assms(1) this run]
    show ?thesis
    proof (cases s)
      case (Inl e)
      then show ?thesis
        using out assms(2) run 2 by (auto simp: write_batch_def split: driver_failure.splits)
    next
      case (Inr rs)
      then have r: "r = Inr (sort_key rw_item_id rs)" "d' = d1" using assms(2) run 2(1) by (simp_all add: write_batch_def)
      have "map rw_item_id rs = map wq_id ?bad @ concat (map wp_item_ids plans)"
        using out Inr by (simp add: o_def)
      then have "mset (map rw_item_id rs) = mset (map wq_id items)"
        using mset_partition_map[OF 2(2)] 2(3) by (simp add: union_commute del: mset_map mset_concat)
      then show ?thesis
        using out Inr r by simp
    qed
  qed
qed

text \<open>C14: a batch read. With a transport in place the call never panics. It answers every item exactly
  once, in the order of the identifiers, each with a value and quality code 0 or with a decoding error or
  an exception of the device; or it fails as a whole: before any request, on an invalid address, leaving
  the driver as it was; or on an error of the transport, and then the session is closed, so that the next
  call starts on a new connection.\<close>

theorem read_batch_correct:
  assumes "md_transport d = Some t" and "read_batch clock items d = (r, d')"
  shows "md_config d' = md_config d \<and>
    (case r of
       Inr rs \<Rightarrow> (\<exists>b'. session d' b') \<and> mset (map rr_item_id rs) = mset (map ri_id items) \<and>
         sorted (map rr_item_id rs) \<and> (\<forall>x\<in>set rs. read_result_ok x)
     | Inl Panicked \<Rightarrow> False
     | Inl (Failed e) \<Rightarrow> e = invalid_address \<and> d' = d \<or> is_transport_level e \<and> session d' False)"
  using assms by (intro read_batch_outcome[of d "any_is_connected t"]) (simp_all add: session_def)

text \<open>C15: a batch write has the same contract: every item is answered exactly once (success, an
  \<^verbatim>\<open>invalid_type\<close> of its own, or the exception of its request), or the whole call fails, and a failure of the
  transport closes the session.\<close>

theorem write_batch_correct:
  assumes "md_transport d = Some t" and "write_batch items d = (r, d')"
  shows "md_config d' = md_config d \<and>
    (case r of
       Inr rs \<Rightarrow> (\<exists>b'. session d' b') \<and> mset (map rw_item_id rs) = mset (map wq_id items) \<and>
         sorted (map rw_item_id rs) \<and> (\<forall>x\<in>set rs. write_result_ok x)
     | Inl Panicked \<Rightarrow> False
     | Inl (Failed e) \<Rightarrow> e = invalid_address \<and> d' = d \<or> is_transport_level e \<and> session d' False)"
  using assms by (intro write_batch_outcome[of d "any_is_connected t"]) (simp_all add: session_def)

text \<open>A driver with one TCP connection that answers one read of holding register 40001.\<close>

definition example_driver :: modbus_driver where
  "example_driver =
     \<lparr>md_config = default_config,
      md_transport = Some (TcpT \<lparr>tt_stream = None, tt_transaction_id = 0,
        tt_connects = [AddrsFail, Addrs [None, Some (\<lparr>st_rx = map Inr [0, 1, 0, 0, 0, 5, 1, 3, 2, 0, 42], st_writes = [True]\<rparr>, True)]],
        tt_log = []\<rparr>),
      md_last_error = None\<rparr>"

definition example_item :: driver_read_item where
  "example_item = \<lparr>ri_id = 9, ri_address = ''40001'', ri_expected_type = Some DT_U16\<rparr>"

definition example_plan :: read_plan where
  "example_plan = \<lparr>rp_unit_id = 1, rp_kind = HoldingRegister, rp_start_offset = 0, rp_quantity = 1,
     rp_items = [\<lparr>pi_item_id = 9, pi_offset_in_frame = 0, pi_expected_type = Some DT_U16, pi_width = 1\<rparr>]\<rparr>"

definition example_result :: raw_read_result where
  "example_result = \<lparr>rr_item_id = 9, rr_value = Some (RV_U64 42), rr_source_timestamp_ns = None,
     rr_received_timestamp_ns = 7, rr_protocol_quality_code = Some 0, rr_error = None\<rparr>"

lemma example_plan_batch: "plan_batch [example_item] 1 = Some (Inr [example_plan])"
  by (simp add: example_item_def example_plan_def plan_batch_def parse_address_examples item_width_def is_bit_segment_def plan_group_def
      emit_plan.simps read_limit_def limit_defs plan_item_def del: One_nat_def)

lemma example_read_plans: "fst (read_plans (\<lambda>_. 7) [example_plan] [] example_driver) = Inr [example_result]"
  by code_simp

lemma read_batch_fst:
  assumes "plan_batch items (mc_unit_id (md_config d)) = Some (Inr plans)" and "fst (read_plans clock plans [] d) = Inr rs"
  shows "fst (read_batch clock items d) = Inr (sort_key rr_item_id rs)"
  using assms by (cases "read_plans clock plans [] d") (simp add: read_batch_def)

lemma example_driver_simps [simp]:
  "md_config example_driver = default_config" "\<exists>t. md_transport example_driver = Some t"
  "mc_unit_id default_config = 1"
  by (simp_all add: example_driver_def default_config_def)

lemma example_read_batch: "fst (read_batch (\<lambda>_. 7) [example_item] example_driver) = Inr [example_result]"
proof -
  have "plan_batch [example_item] (mc_unit_id (md_config example_driver)) = Some (Inr [example_plan])"
    using example_plan_batch by simp
  from read_batch_fst[OF this example_read_plans] show ?thesis by (simp only: sort_key_simps insort_key.simps)
qed

theorem read_batch_correct_witness:
  "\<exists>d'. read_batch (\<lambda>_. 7) [example_item] example_driver = (Inr [example_result], d') \<and>
     md_config d' = default_config \<and> (\<exists>b. session d' b)"
proof -
  obtain d' where run: "read_batch (\<lambda>_. 7) [example_item] example_driver = (Inr [example_result], d')"
    using example_read_batch by (cases "read_batch (\<lambda>_. 7) [example_item] example_driver") simp
  obtain t where "md_transport example_driver = Some t" using example_driver_simps(2) by blast
  from read_batch_correct[OF this run] run show ?thesis by simp
qed

definition example_write :: write_request where
  "example_write = \<lparr>wq_id = 3, wq_address = ''30001'', wq_value_type = 6, wq_value = RV_U64 5\<rparr>"

theorem write_batch_correct_witness:
  "write_batch [example_write] example_driver = (Inl (Failed invalid_address), example_driver)"
proof -
  have "parse_address ''30001'' 1 = Inr \<lparr>ma_unit_id = 1, ma_kind = InputRegister, ma_address = 30001\<rparr>"
    using trim_graphic[of "''30001''"]
    by (simp add: parse_address_def graphic_def parse_u32_def digit_val_def validate_def explicit_max_def
        infer_kind_from_numeric_def matches_numeric_def)
  then have "fst (write_batch [example_write] example_driver) = Inl (Failed invalid_address)"
    by (simp add: write_batch_def plan_write_batch_def example_write_def del: One_nat_def)
  then obtain d' where run: "write_batch [example_write] example_driver = (Inl (Failed invalid_address), d')"
    by (cases "write_batch [example_write] example_driver") simp
  obtain t where "md_transport example_driver = Some t" using example_driver_simps(2) by blast
  from write_batch_correct[OF this run] run show ?thesis by simp
qed

section \<open>Handles over time\<close>

text \<open>The handles a loader can hold: created successfully, then passed to entry points in any order. \<^verbatim>\<open>destroy\<close> ends the
  life of a handle, and \<^verbatim>\<open>free_buffer\<close> does not take one.\<close>

inductive abi_reach ::
  "(string \<Rightarrow> modbus_config option) \<Rightarrow> connect_outcome list \<Rightarrow> stream option list \<Rightarrow> modbus_driver \<Rightarrow> bool"
  for parse_json connects opens where
  create: "api_create parse_json connects opens config = (0, d) \<Longrightarrow> abi_reach parse_json connects opens d"
| connect: "abi_reach parse_json connects opens d \<Longrightarrow> api_connect (Some d) = (r, Some d') \<Longrightarrow>
    abi_reach parse_json connects opens d'"
| disconnect: "abi_reach parse_json connects opens d \<Longrightarrow> api_disconnect (Some d) = (s, Some d') \<Longrightarrow>
    abi_reach parse_json connects opens d'"
| validate: "abi_reach parse_json connects opens d \<Longrightarrow> api_validate_address a (Some d) = (v, Some d') \<Longrightarrow>
    abi_reach parse_json connects opens d'"
| read: "abi_reach parse_json connects opens d \<Longrightarrow> api_read clock items (Some d) = (rs, Some d') \<Longrightarrow>
    abi_reach parse_json connects opens d'"
| write_items: "abi_reach parse_json connects opens d \<Longrightarrow> api_write witems (Some d) = (ws, Some d') \<Longrightarrow>
    abi_reach parse_json connects opens d'"
| capabilities: "abi_reach parse_json connects opens d \<Longrightarrow> api_get_capabilities (Some d) = (c, Some d') \<Longrightarrow>
    abi_reach parse_json connects opens d'"
| last_error: "abi_reach parse_json connects opens d \<Longrightarrow> api_get_last_error (Some d) = (e, Some d') \<Longrightarrow>
    abi_reach parse_json connects opens d'"
| other: "abi_reach parse_json connects opens d \<Longrightarrow> api_unsupported (Some d) = (r, Some d') \<Longrightarrow>
    abi_reach parse_json connects opens d'"

definition handle_ok :: "modbus_driver \<Rightarrow> bool" where
  "handle_ok d \<longleftrightarrow> (\<exists>b. session d b) \<and> 1 \<le> mc_unit_id (md_config d) \<and> mc_unit_id (md_config d) \<le> 247 \<and>
     md_last_error d \<noteq> Some (into_info driver_panic)"

lemma abi_fail_ok: "handle_ok d \<Longrightarrow> me_code e \<noteq> ''DRIVER_PANIC'' \<Longrightarrow> handle_ok (snd (abi_fail e d))"
  by (auto simp: handle_ok_def abi_fail_def session_def into_info_def error_defs)

lemma error_codes [simp]:
  "me_code invalid_address \<noteq> ''DRIVER_PANIC''" "me_code invalid_type \<noteq> ''DRIVER_PANIC''"
  "me_code connection_failed \<noteq> ''DRIVER_PANIC''" "me_code unsupported \<noteq> ''DRIVER_PANIC''"
  "is_transport_level e \<Longrightarrow> me_code e \<noteq> ''DRIVER_PANIC''"
  by (auto simp: error_defs is_transport_level_def)

lemma abi_result_ok:
  assumes "handle_ok d" and "md_config d' = md_config d" and "md_last_error d' = md_last_error d"
    and "case r of Inr x \<Rightarrow> (\<exists>b. session d' b)
      | Inl Panicked \<Rightarrow> False | Inl (Failed e) \<Rightarrow> (\<exists>b. session d' b) \<and> me_code e \<noteq> ''DRIVER_PANIC''"
  shows "handle_ok (snd (abi_result (r, d')))"
proof -
  have *: "handle_ok d'" if "\<exists>b. session d' b" using that assms(1-3) by (simp add: handle_ok_def)
  show ?thesis
  proof (cases r)
    case (Inl f)
    with assms(4) obtain e where "f = Failed e" "\<exists>b. session d' b" "me_code e \<noteq> ''DRIVER_PANIC''"
      by (cases f) auto
    with Inl * show ?thesis by (simp add: abi_fail_ok)
  qed (use assms(4) * in auto)
qed

text \<open>No call of the driver itself writes the recorded error.\<close>

lemma on_transport_last_error [simp]: "md_last_error (snd (on_transport m d)) = md_last_error d"
  by (simp add: on_transport_def split: option.splits prod.splits)

lemma ensure_connected_last_error [simp]: "md_last_error (snd (ensure_connected_before_plan d)) = md_last_error d"
  by (simp add: ensure_connected_before_plan_def driver_connect_def split: option.splits)

lemma request_last_error [simp]:
  "md_last_error (snd (request_plan p d)) = md_last_error d"
  "md_last_error (snd (request_write_plan w d)) = md_last_error d"
  by (simp_all add: request_plan_def request_write_plan_def)

lemma last_error_of_pair: "f d = (r, d') \<Longrightarrow> md_last_error (snd (f d)) = md_last_error d \<Longrightarrow> md_last_error d' = md_last_error d"
  by simp

lemmas step_last_error =
  last_error_of_pair[OF _ ensure_connected_last_error]
  last_error_of_pair[OF _ request_last_error(1)] last_error_of_pair[OF _ request_last_error(2)]

lemma read_plans_last_error: "md_last_error (snd (read_plans clock plans results d)) = md_last_error d"
  by (induction clock plans results d rule: read_plans.induct)
    (simp, auto dest!: step_last_error split: prod.splits sum.splits driver_failure.splits option.splits)

lemma write_plans_last_error: "md_last_error (snd (write_plans plans results d)) = md_last_error d"
  by (induction plans results d rule: write_plans.induct)
    (simp, auto dest!: step_last_error split: prod.splits sum.splits driver_failure.splits)

lemma batch_last_error:
  "read_batch clock items d = (r, d') \<Longrightarrow> md_last_error d' = md_last_error d"
  "write_batch witems d = (w, d') \<Longrightarrow> md_last_error d' = md_last_error d"
  using read_plans_last_error[of clock _ "[]" d] write_plans_last_error[of _ _ d]
  by (auto simp: read_batch_def write_batch_def split: option.splits sum.splits prod.splits) (metis snd_conv)+

lemma handle_ok_read: "handle_ok d \<Longrightarrow> handle_ok (snd (abi_result (read_batch clock items d)))"
proof -
  assume h: "handle_ok d"
  obtain r d' where run: "read_batch clock items d = (r, d')" by (cases "read_batch clock items d")
  obtain b where b: "session d b" using h by (auto simp: handle_ok_def)
  show ?thesis
    unfolding run using read_batch_outcome[OF b run] h b
    by (intro abi_result_ok[OF h]) (auto simp: batch_last_error(1)[OF run] split: sum.splits driver_failure.splits)
qed

lemma handle_ok_write: "handle_ok d \<Longrightarrow> handle_ok (snd (abi_result (write_batch items d)))"
proof -
  assume h: "handle_ok d"
  obtain r d' where run: "write_batch items d = (r, d')" by (cases "write_batch items d")
  obtain b where b: "session d b" using h by (auto simp: handle_ok_def)
  show ?thesis
    unfolding run using write_batch_outcome[OF b run] h b
    by (intro abi_result_ok[OF h]) (auto simp: batch_last_error(2)[OF run] split: sum.splits driver_failure.splits)
qed

lemma handle_ok_connect: "handle_ok d \<Longrightarrow> handle_ok (snd (abi_result (driver_connect d)))"
proof -
  assume h: "handle_ok d"
  obtain r d' where run: "driver_connect d = (r, d')" by (cases "driver_connect d")
  obtain b where b: "session d b" using h by (auto simp: handle_ok_def)
  have "md_last_error d' = md_last_error d"
    using on_transport_last_error run unfolding driver_connect_def by (metis snd_conv)
  then show ?thesis
    unfolding run using driver_connect_outcome[OF b run]
    by (intro abi_result_ok[OF h]) auto
qed

lemma driver_create_ok: "driver_create parse_json connects opens json = Inr d \<Longrightarrow> handle_ok d"
  by (auto simp: driver_create_def from_json_def create_transport_def result_simps handle_ok_def session_def
      split: if_splits option.splits transport_mode.splits dest: config_validate_unit)

lemma ffi_items_error:
  "ffi_read_items its = Inl e \<Longrightarrow> e = invalid_type" "ffi_write_items wits = Inl e' \<Longrightarrow> e' = invalid_type"
  by (induction its) (auto split: sum.splits simp: result_simps, induction wits, auto split: sum.splits simp: result_simps)

lemma abi_fail_okD: "abi_fail e d = (x, d') \<Longrightarrow> handle_ok d \<Longrightarrow> me_code e \<noteq> ''DRIVER_PANIC'' \<Longrightarrow> handle_ok d'"
  using abi_fail_ok[of d e] by (metis snd_conv)

lemma abi_result_okD:
  "abi_result (read_batch clock items d) = (x, d') \<Longrightarrow> handle_ok d \<Longrightarrow> handle_ok d'"
  "abi_result (write_batch witems d) = (y, d') \<Longrightarrow> handle_ok d \<Longrightarrow> handle_ok d'"
  "abi_result (driver_connect d) = (z, d') \<Longrightarrow> handle_ok d \<Longrightarrow> handle_ok d'"
  using handle_ok_read[of d clock items] handle_ok_write[of d witems] handle_ok_connect[of d] by (metis snd_conv)+

lemma validate_address_error: "validate_address a d = Inl e \<Longrightarrow> e = invalid_address"
  by (auto simp: validate_address_def result_simps)

lemma handle_ok_step:
  assumes h: "handle_ok d"
  shows "api_connect (Some d) = (r1, Some d') \<Longrightarrow> handle_ok d'"
    and "api_disconnect (Some d) = (r2, Some d') \<Longrightarrow> handle_ok d'"
    and "api_validate_address a (Some d) = (r3, Some d') \<Longrightarrow> handle_ok d'"
    and "api_read clock items (Some d) = (r4, Some d') \<Longrightarrow> handle_ok d'"
    and "api_write witems (Some d) = (r5, Some d') \<Longrightarrow> handle_ok d'"
    and "api_unsupported (Some d) = (r6, Some d') \<Longrightarrow> handle_ok d'"
    and "api_get_capabilities (Some d) = (r7, Some d') \<Longrightarrow> handle_ok d'"
    and "api_get_last_error (Some d) = (r8, Some d') \<Longrightarrow> handle_ok d'"
proof -
  show "api_get_capabilities (Some d) = (r7, Some d') \<Longrightarrow> handle_ok d'" "api_get_last_error (Some d) = (r8, Some d') \<Longrightarrow> handle_ok d'"
    using h by (auto simp: api_get_capabilities_def api_get_last_error_def on_handle_def)
  show "api_connect (Some d) = (r1, Some d') \<Longrightarrow> handle_ok d'"
    using h by (auto simp: api_connect_def on_handle_def map_prod_id_eq dest: abi_result_okD)
  show "api_disconnect (Some d) = (r2, Some d') \<Longrightarrow> handle_ok d'"
    using h by (auto simp: api_disconnect_def driver_disconnect_def handle_ok_def session_def)
  show "api_validate_address a (Some d) = (r3, Some d') \<Longrightarrow> handle_ok d'"
    using h by (cases "ffi_str_to_str a"; cases "validate_address (the (ffi_str_to_str a)) d")
      (auto simp: api_validate_address_def on_handle_def map_prod_id_eq dest!: abi_fail_okD
        dest: validate_address_error)
  show "api_read clock items (Some d) = (r4, Some d') \<Longrightarrow> handle_ok d'"
    using h by (cases items; cases "ffi_read_items (the items)")
      (auto simp: api_read_def on_handle_def map_prod_id_eq dest: ffi_items_error(1) abi_result_okD dest!: abi_fail_okD)
  show "api_write witems (Some d) = (r5, Some d') \<Longrightarrow> handle_ok d'"
    using h by (cases witems; cases "ffi_write_items (the witems)")
      (auto simp: api_write_def on_handle_def map_prod_id_eq dest: ffi_items_error(2) abi_result_okD dest!: abi_fail_okD)
  show "api_unsupported (Some d) = (r6, Some d') \<Longrightarrow> handle_ok d'"
    using h by (auto simp: api_unsupported_def on_handle_def map_prod_id_eq dest!: abi_fail_okD)
qed



end
