(* ===== verification/Control_Types.thy ===== *)
theory Control_Types
  imports Observation
begin

text \<open>
  The control part of \<^verbatim>\<open>crates/observation-model\<close> (\<^verbatim>\<open>value.rs\<close>, \<^verbatim>\<open>control.rs\<close>, \<^verbatim>\<open>command.rs\<close>,
  \<^verbatim>\<open>property.rs\<close>): semantic values, the request envelope with its two operations, statuses and
  results, and the two items at the driver boundary that a validated request becomes. An error keeps its
  stable \<^verbatim>\<open>code\<close> and its \<^verbatim>\<open>details\<close>; the human-readable \<^verbatim>\<open>message\<close> is dropped, as no code branches on it.
\<close>

type_synonym device_id = string
type_synonym property_path = string

section \<open>Semantic values\<close>

text \<open>Integers hold their two's complement pattern, floats their bits.\<close>

datatype sem_value =
    V_Bool bool
  | V_I8 "8 word" | V_I16 "16 word" | V_I32 "32 word" | V_I64 "64 word"
  | V_U8 "8 word" | V_U16 "16 word" | V_U32 "32 word" | V_U64 "64 word"
  | V_F32 "32 word" | V_F64 "64 word"
  | V_String string
  | V_Bytes bytes
  | V_Array "sem_value list"
  | V_Struct "(string \<times> sem_value) list"

section \<open>Commands and property writes\<close>

record command_parameter =
  cp_name :: string
  cp_value :: sem_value

record command_request =
  cr_command :: string
  cr_parameters :: "command_parameter list"

record command_result =
  cres_device_code :: "int option"
  cres_payload :: "json option"

record command_parameter_descriptor =
  pd_name :: string
  pd_data_type :: data_type
  pd_required :: bool
  pd_min :: "sem_value option"
  pd_max :: "sem_value option"

datatype risk_level = Risk_Low | Risk_Medium | Risk_High | Risk_Critical

datatype comparison = Op_Eq | Op_Ne | Op_Gt | Op_Ge | Op_Lt | Op_Le

record command_precondition =
  pc_property :: string
  pc_operator :: comparison
  pc_value :: sem_value

record property_write_item =
  pwi_path :: property_path
  pwi_value :: sem_value

record driver_write_item =
  dwi_id :: nat
  dwi_address :: string
  dwi_value :: raw_value

record driver_command =
  dc_command_id :: string
  dc_payload :: json

section \<open>The control envelope\<close>

record control_error =
  ce_code :: string
  ce_details :: "json option"

record property_write_item_result =
  pwr_path :: property_path
  pwr_success :: bool
  pwr_protocol_code :: "int option"
  pwr_error :: "control_error option"

datatype control_operation =
    PropertyWrite "property_write_item list"
  | CommandExecute command_request

record control_request =
  rq_request_id :: string
  rq_namespace :: string
  rq_device_id :: device_id
  rq_requested_at_ns :: timestamp_ns
  rq_timeout_ms :: nat
  rq_operation :: control_operation

datatype control_status =
    CS_Accepted | CS_Running | CS_Succeeded | CS_Failed | CS_Rejected
  | CS_Timeout | CS_Cancelled | CS_Indeterminate

datatype control_payload =
    PL_PropertyWrite "property_write_item_result list"
  | PL_Command command_result

record control_result =
  res_request_id :: string
  res_namespace :: string
  res_device_id :: device_id
  res_status :: control_status
  res_started_at_ns :: "timestamp_ns option"
  res_completed_at_ns :: "timestamp_ns option"
  res_result :: "control_payload option"
  res_error :: "control_error option"

text \<open>\<^verbatim>\<open>ControlError { code, message, details: None }\<close>.\<close>

definition coded_error :: "string \<Rightarrow> control_error" where
  "coded_error code = \<lparr>ce_code = code, ce_details = None\<rparr>"

section \<open>Saturating 64-bit arithmetic\<close>

text \<open>\<^verbatim>\<open>i64::saturating_add\<close> and \<^verbatim>\<open>i64::saturating_sub\<close>.\<close>

definition sat_i64 :: "int \<Rightarrow> int" where
  "sat_i64 x = max (- (2 ^ 63)) (min (2 ^ 63 - 1) x)"

definition sat_add :: "int \<Rightarrow> int \<Rightarrow> int" where
  "sat_add x y = sat_i64 (x + y)"

definition sat_sub :: "int \<Rightarrow> int \<Rightarrow> int" where
  "sat_sub x y = sat_i64 (x - y)"

lemma sat_i64_bounds: "- (2 ^ 63) \<le> sat_i64 x" "sat_i64 x < 2 ^ 63"
  by (simp_all add: sat_i64_def max_def min_def)

lemma sat_i64_id: "- (2 ^ 63) \<le> x \<Longrightarrow> x < 2 ^ 63 \<Longrightarrow> sat_i64 x = x"
  by (simp add: sat_i64_def)

lemma sat_i64_mono: "x \<le> y \<Longrightarrow> sat_i64 x \<le> sat_i64 y"
  by (auto simp: sat_i64_def)

end
