(* ===== verification/Control_Policy.thy ===== *)
theory Control_Policy
  imports Control_Types
begin

text \<open>
  \<^verbatim>\<open>crates/control-engine/src/role.rs\<close>, \<^verbatim>\<open>policy.rs\<close> and \<^verbatim>\<open>auth.rs\<close>: roles and priorities as linear orders,
  the control policy with its defaults and its validation, and the two authorizers. The trait
  \<^verbatim>\<open>Authorizer\<close> is the locale \<open>authorizer\<close>; \<^verbatim>\<open>MemoryAuthorizer\<close> and \<^verbatim>\<open>StaticTokenAuthorizer\<close> are its two
  interpretations. A lock around a map is not modelled here: every method holds it for its whole body.
\<close>

section \<open>Roles\<close>

datatype role = Viewer | Operator | Engineer | Administrator

fun role_rank :: "role \<Rightarrow> nat" where
  "role_rank Viewer = 0"
| "role_rank Operator = 1"
| "role_rank Engineer = 2"
| "role_rank Administrator = 3"

lemma role_rank_inj: "role_rank r = role_rank s \<longleftrightarrow> r = s"
  by (cases r; cases s) auto

instantiation role :: linorder
begin

definition less_eq_role :: "role \<Rightarrow> role \<Rightarrow> bool" where
  "less_eq_role r s \<longleftrightarrow> role_rank r \<le> role_rank s"

definition less_role :: "role \<Rightarrow> role \<Rightarrow> bool" where
  "less_role r s \<longleftrightarrow> role_rank r < role_rank s"

instance
  by standard (auto simp: less_eq_role_def less_role_def role_rank_inj)

end

definition role_ordering :: "role \<Rightarrow> role \<Rightarrow> bool" where
  "role_ordering granted required \<longleftrightarrow> required \<le> granted"

datatype authorization_error = AuthorizationError string

abbreviation insufficient_role :: authorization_error where
  "insufficient_role \<equiv> AuthorizationError ''INSUFFICIENT_ROLE''"

section \<open>The authorizer interface\<close>

text \<open>What a client of \<^verbatim>\<open>dyn Authorizer\<close> relies on: a subject that may act in a role may act in every
  weaker one, and a refusal has one code, which does not tell an unknown subject from a weak one.\<close>

locale authorizer =
  fixes authorize :: "'a \<Rightarrow> string \<Rightarrow> role \<Rightarrow> device_id \<Rightarrow> authorization_error + unit"
  assumes authorize_mono:
      "authorize a s r d = Inr () \<Longrightarrow> r' \<le> r \<Longrightarrow> authorize a s r' d = Inr ()"
    and authorize_code: "authorize a s r d = Inl e \<Longrightarrow> e = insufficient_role"
begin

lemma authorize_denied_mono:
  "authorize a s r d = Inl e \<Longrightarrow> r \<le> r' \<Longrightarrow> authorize a s r' d = Inl insufficient_role"
  using authorize_mono[of a s r' d r] authorize_code[of a s r' d]
  by (cases "authorize a s r' d") auto

end

section \<open>The in-memory authorizer\<close>

record memory_authorizer =
  ma_roles :: "string \<rightharpoonup> role"
  ma_denied :: "string list"

definition memory_authorizer_new :: memory_authorizer where
  "memory_authorizer_new = \<lparr>ma_roles = Map.empty, ma_denied = []\<rparr>"

definition set_role :: "string \<Rightarrow> role \<Rightarrow> memory_authorizer \<Rightarrow> memory_authorizer" where
  "set_role subject r a = a\<lparr>ma_roles := (ma_roles a)(subject \<mapsto> r)\<rparr>"

definition remove_role :: "string \<Rightarrow> memory_authorizer \<Rightarrow> memory_authorizer" where
  "remove_role subject a = a\<lparr>ma_roles := (ma_roles a)(subject := None)\<rparr>"

text \<open>Subject and device, separated by an at sign.\<close>

definition deny_key :: "string \<Rightarrow> device_id \<Rightarrow> string" where
  "deny_key subject device = subject @ CHR ''@'' # device"

definition deny :: "string \<Rightarrow> device_id \<Rightarrow> memory_authorizer \<Rightarrow> memory_authorizer" where
  "deny subject device a = a\<lparr>ma_denied := ma_denied a @ [deny_key subject device]\<rparr>"

definition memory_role_of :: "memory_authorizer \<Rightarrow> string \<Rightarrow> role option" where
  "memory_role_of a subject = ma_roles a subject"

definition unwrap_role :: "role option \<Rightarrow> role" where
  "unwrap_role r = (case r of None \<Rightarrow> Viewer | Some r \<Rightarrow> r)"

definition memory_authorize ::
  "memory_authorizer \<Rightarrow> string \<Rightarrow> role \<Rightarrow> device_id \<Rightarrow> authorization_error + unit" where
  "memory_authorize a subject required device =
     (if list_ex (\<lambda>entry. entry = deny_key subject device) (ma_denied a)
      then Inl insufficient_role
      else if role_ordering (unwrap_role (memory_role_of a subject)) required
      then Inr ()
      else Inl insufficient_role)"

lemma memory_authorize_iff:
  "memory_authorize a s r d = Inr () \<longleftrightarrow>
     deny_key s d \<notin> set (ma_denied a) \<and> r \<le> unwrap_role (ma_roles a s)"
  by (auto simp: memory_authorize_def role_ordering_def memory_role_of_def list_ex_iff)

interpretation mem_auth: authorizer memory_authorize
proof
  fix a s r r' d
  show "memory_authorize a s r d = Inr () \<Longrightarrow> r' \<le> r \<Longrightarrow> memory_authorize a s r' d = Inr ()"
    unfolding memory_authorize_iff by (meson order_trans)
next
  fix a s r d e
  show "memory_authorize a s r d = Inl e \<Longrightarrow> e = insufficient_role"
    by (auto simp: memory_authorize_def split: if_splits)
qed

lemma deny_key_inj:
  assumes "CHR ''@'' \<notin> set s" and "CHR ''@'' \<notin> set s'"
  shows "deny_key s d = deny_key s' d' \<longleftrightarrow> s = s' \<and> d = d'"
proof
  assume "deny_key s d = deny_key s' d'"
  then have "split_once (CHR ''@'') (deny_key s d) = split_once (CHR ''@'') (deny_key s' d')"
    by (rule arg_cong)
  then show "s = s' \<and> d = d'"
    by (simp add: deny_key_def split_once_append assms)
qed simp

section \<open>Static tokens\<close>

record credential_entry =
  cd_token :: string
  cd_subject :: string
  cd_role :: role

datatype credentials_error =
    CredParse
  | CredSchemaMismatch string
  | CredDuplicateToken
  | CredDuplicateSubject
  | CredEmptySubject

definition CREDENTIALS_SCHEMA :: string where
  "CREDENTIALS_SCHEMA = ''forgelink.control.credentials.v1''"

record static_token_authorizer =
  sa_entries :: "credential_entry list"
  sa_roles :: "string \<rightharpoonup> role"

text \<open>The loop of \<^verbatim>\<open>parse\<close> over the raw entries: \<open>seen\<close> and \<open>subjects\<close> are the two hash sets.\<close>

fun load_credentials ::
  "credential_entry list \<Rightarrow> string set \<Rightarrow> string set \<Rightarrow> static_token_authorizer
     \<Rightarrow> credentials_error + static_token_authorizer" where
  "load_credentials [] seen subjects a = Inr a"
| "load_credentials (raw # rest) seen subjects a =
     (if cd_token raw = [] then Inl CredDuplicateToken
      else if cd_subject raw = [] then Inl CredEmptySubject
      else if cd_token raw \<in> seen then Inl CredDuplicateToken
      else if cd_subject raw \<in> subjects then Inl CredDuplicateSubject
      else load_credentials rest (insert (cd_token raw) seen) (insert (cd_subject raw) subjects)
             \<lparr>sa_entries = sa_entries a @ [raw],
              sa_roles = (sa_roles a)(cd_subject raw \<mapsto> cd_role raw)\<rparr>)"

text \<open>\<^verbatim>\<open>StaticTokenAuthorizer::parse\<close>; \<open>from_str\<close> is \<^verbatim>\<open>serde_json::from_str\<close> at the type of the file: the
  schema string and the raw entries.\<close>

definition parse_credentials ::
  "(string \<Rightarrow> (string \<times> credential_entry list) option) \<Rightarrow> string
     \<Rightarrow> credentials_error + static_token_authorizer" where
  "parse_credentials from_str content =
     (case from_str content of
        None \<Rightarrow> Inl CredParse
      | Some (schema, raws) \<Rightarrow>
          if schema \<noteq> CREDENTIALS_SCHEMA then Inl (CredSchemaMismatch schema)
          else load_credentials raws {} {} \<lparr>sa_entries = [], sa_roles = Map.empty\<rparr>)"

fun fold_diff :: "u8 \<Rightarrow> bytes \<Rightarrow> bytes \<Rightarrow> u8" where
  "fold_diff diff (x # xs) (y # ys) = fold_diff (diff OR (x XOR y)) xs ys"
| "fold_diff diff _ _ = diff"

definition constant_time_eq :: "bytes \<Rightarrow> bytes \<Rightarrow> bool" where
  "constant_time_eq a b \<longleftrightarrow> length a = length b \<and> fold_diff 0 a b = 0"

text \<open>The full scan of \<^verbatim>\<open>authenticate\<close>: the last match wins, no early exit.\<close>

definition authenticate :: "static_token_authorizer \<Rightarrow> string \<Rightarrow> (string \<times> role) option" where
  "authenticate a token =
     fold (\<lambda>e matched. if constant_time_eq (string_bytes token) (string_bytes (cd_token e))
                       then Some (cd_subject e, cd_role e) else matched)
       (sa_entries a) None"

definition static_role_of :: "static_token_authorizer \<Rightarrow> string \<Rightarrow> role option" where
  "static_role_of a subject = sa_roles a subject"

definition static_authorize ::
  "static_token_authorizer \<Rightarrow> string \<Rightarrow> role \<Rightarrow> device_id \<Rightarrow> authorization_error + unit" where
  "static_authorize a subject required device =
     (if role_ordering (unwrap_role (static_role_of a subject)) required
      then Inr () else Inl insufficient_role)"

interpretation static_auth: authorizer static_authorize
  by unfold_locales (auto simp: static_authorize_def role_ordering_def split: if_splits)

subsection \<open>Constant-time comparison\<close>

lemma word_xor_eq_0_iff: "(a :: 'a::len word) XOR b = 0 \<longleftrightarrow> a = b"
proof
  assume "a XOR b = 0"
  moreover have "a = (a XOR b) XOR b"
    by (simp add: xor.assoc)
  ultimately show "a = b"
    by simp
qed simp

lemma fold_diff_zero:
  "length xs = length ys \<Longrightarrow> fold_diff d xs ys = 0 \<longleftrightarrow> d = 0 \<and> xs = ys"
  by (induction d xs ys rule: fold_diff.induct) (auto simp: or_eq_0_iff word_xor_eq_0_iff)

lemma constant_time_eq_iff: "constant_time_eq a b \<longleftrightarrow> a = b"
  by (auto simp: constant_time_eq_def fold_diff_zero)

lemma string_bytes_inj: "string_bytes s = string_bytes t \<longleftrightarrow> s = t"
  by (metis bytes_string_string_bytes)

subsection \<open>Loading credentials\<close>

text \<open>What the loop has built so far: it agrees with the sets it checks against.\<close>

definition credentials_ok :: "string set \<Rightarrow> string set \<Rightarrow> static_token_authorizer \<Rightarrow> bool" where
  "credentials_ok seen subjects a \<longleftrightarrow>
     cd_token ` set (sa_entries a) = seen \<and> cd_subject ` set (sa_entries a) = subjects \<and>
     dom (sa_roles a) = subjects \<and>
     distinct (map cd_token (sa_entries a)) \<and> distinct (map cd_subject (sa_entries a)) \<and>
     (\<forall>e\<in>set (sa_entries a). cd_token e \<noteq> [] \<and> sa_roles a (cd_subject e) = Some (cd_role e))"

lemma credentials_ok_step:
  assumes "credentials_ok seen subjects a" and "cd_token raw \<noteq> []"
    and "cd_token raw \<notin> seen" and "cd_subject raw \<notin> subjects"
  shows "credentials_ok (insert (cd_token raw) seen) (insert (cd_subject raw) subjects)
           \<lparr>sa_entries = sa_entries a @ [raw], sa_roles = (sa_roles a)(cd_subject raw \<mapsto> cd_role raw)\<rparr>"
  using assms by (auto simp: credentials_ok_def rev_image_eqI)

lemma load_credentials_ok:
  "load_credentials raws seen subjects a = Inr b \<Longrightarrow> credentials_ok seen subjects a \<Longrightarrow>
     sa_entries b = sa_entries a @ raws \<and> (\<exists>seen' subjects'. credentials_ok seen' subjects' b)"
proof (induction raws seen subjects a rule: load_credentials.induct)
  case (2 raw rest seen subjects a)
  then show ?case
    by (fastforce split: if_splits intro: credentials_ok_step)
qed auto

lemma authenticate_fold:
  "fold (\<lambda>e m. if P e then Some (f e) else m) es None = map_option f (find P (rev es))"
proof -
  have "fold (\<lambda>e m. if P e then Some (f e) else m) es m0 =
      (case find P (rev es) of None \<Rightarrow> m0 | Some e \<Rightarrow> Some (f e))" for m0
    by (induction es rule: rev_induct) auto
  then show ?thesis
    by (simp add: option.case_eq_if map_option_case)
qed

lemma authenticate_find:
  "authenticate a token =
     map_option (\<lambda>e. (cd_subject e, cd_role e)) (find (\<lambda>e. token = cd_token e) (rev (sa_entries a)))"
  by (simp add: authenticate_def constant_time_eq_iff string_bytes_inj authenticate_fold)

lemma find_distinct:
  assumes "distinct (map f es)" and "e \<in> set es"
  shows "find (\<lambda>x. f e = f x) es = Some e"
  using assms by (induction es) (auto simp: rev_image_eqI)

lemma find_SomeD: "find P es = Some e \<Longrightarrow> e \<in> set es \<and> P e"
  by (auto simp: find_Some_iff)

lemma parse_credentials_entries:
  assumes "parse_credentials from_str content = Inr a"
  obtains raws where "from_str content = Some (CREDENTIALS_SCHEMA, raws)" and "sa_entries a = raws"
    and "distinct (map cd_token raws)" and "distinct (map cd_subject raws)"
    and "\<And>e. e \<in> set raws \<Longrightarrow> sa_roles a (cd_subject e) = Some (cd_role e)"
    and "\<And>e. e \<in> set raws \<Longrightarrow> cd_token e \<noteq> []"
proof -
  obtain raws where raws: "from_str content = Some (CREDENTIALS_SCHEMA, raws)"
      and load: "load_credentials raws {} {} \<lparr>sa_entries = [], sa_roles = Map.empty\<rparr> = Inr a"
    using assms by (auto simp: parse_credentials_def split: option.splits if_splits)
  have "credentials_ok {} {} \<lparr>sa_entries = [], sa_roles = Map.empty\<rparr>"
    by (simp add: credentials_ok_def)
  from load_credentials_ok[OF load this] have "sa_entries a = raws"
      and "\<exists>seen subjects. credentials_ok seen subjects a"
    by auto
  with raws that show thesis
    by (auto simp: credentials_ok_def)
qed

lemma authenticate_iff:
  assumes "parse_credentials from_str content = Inr a"
  shows "authenticate a t = Some (s, r) \<longleftrightarrow>
    (\<exists>e\<in>set (sa_entries a). cd_token e = t \<and> cd_subject e = s \<and> cd_role e = r)"
proof -
  obtain raws where d: "distinct (map cd_token (rev (sa_entries a)))"
    using parse_credentials_entries[OF assms] by (metis distinct_rev rev_map)
  have "find (\<lambda>x. t = cd_token x) (rev (sa_entries a)) = Some e \<longleftrightarrow> e \<in> set (sa_entries a) \<and> cd_token e = t" for e
    using find_distinct[OF d, of e] by (auto dest: find_SomeD)
  then show ?thesis
    by (auto simp: authenticate_find)
qed

lemma authenticated_role:
  assumes "parse_credentials from_str content = Inr a" and "authenticate a t = Some (s, r)"
  shows "static_role_of a s = Some r"
  using parse_credentials_entries[OF assms(1)] assms(2)
  unfolding authenticate_iff[OF assms(1)] static_role_of_def by metis

section \<open>The control policy\<close>

datatype priority = Prio_Low | Prio_Medium | Prio_High | Prio_Critical

text \<open>\<^verbatim>\<open>*prio as i64\<close>: the discriminant.\<close>

fun priority_rank :: "priority \<Rightarrow> int" where
  "priority_rank Prio_Low = 0"
| "priority_rank Prio_Medium = 1"
| "priority_rank Prio_High = 2"
| "priority_rank Prio_Critical = 3"

lemma priority_rank_inj: "priority_rank p = priority_rank q \<longleftrightarrow> p = q"
  by (cases p; cases q) auto

lemma priority_rank_bounds: "0 \<le> priority_rank p" "priority_rank p \<le> 3"
  by (cases p; simp)+

instantiation priority :: linorder
begin

definition less_eq_priority :: "priority \<Rightarrow> priority \<Rightarrow> bool" where
  "less_eq_priority p q \<longleftrightarrow> priority_rank p \<le> priority_rank q"

definition less_priority :: "priority \<Rightarrow> priority \<Rightarrow> bool" where
  "less_priority p q \<longleftrightarrow> priority_rank p < priority_rank q"

instance
  by standard (auto simp: less_eq_priority_def less_priority_def priority_rank_inj)

end

datatype operation_kind = OK_PropertyWrite | OK_Command risk_level

text \<open>A \<^verbatim>\<open>Duration\<close> is its number of nanoseconds. The optional precondition checker is a function to the
  outcome of one bounded check (see the engine); only its presence is part of the policy here.\<close>

record control_policy =
  queue_capacity :: nat
  idempotency_retention :: nat
  property_write_required_role :: role
  property_write_priority :: priority
  property_write_timeout_ms :: nat
  command_required_role :: "risk_level \<rightharpoonup> role"
  command_priority :: "risk_level \<rightharpoonup> priority"
  command_timeout_ms :: "risk_level \<rightharpoonup> nat"
  precondition_checker :: bool
  precondition_timeout_ms :: nat
  max_request_age_ms :: nat
  control_status_required_role :: role
  audit_timeout_ms :: nat
  priority_aging_ms :: nat
  indeterminate_cooldown_ms :: nat

definition ns_per_day :: nat where
  "ns_per_day = 24 * 3600 * 1000000000"

definition default_policy :: control_policy where
  "default_policy =
     \<lparr>queue_capacity = 64,
      idempotency_retention = ns_per_day,
      property_write_required_role = Operator,
      property_write_priority = Prio_Medium,
      property_write_timeout_ms = 5000,
      command_required_role =
        [Risk_Low \<mapsto> Operator, Risk_Medium \<mapsto> Operator, Risk_High \<mapsto> Engineer, Risk_Critical \<mapsto> Administrator],
      command_priority =
        [Risk_Low \<mapsto> Prio_Low, Risk_Medium \<mapsto> Prio_Medium, Risk_High \<mapsto> Prio_High, Risk_Critical \<mapsto> Prio_Critical],
      command_timeout_ms =
        [Risk_Low \<mapsto> 5000, Risk_Medium \<mapsto> 10000, Risk_High \<mapsto> 15000, Risk_Critical \<mapsto> 20000],
      precondition_checker = False,
      precondition_timeout_ms = 1000,
      max_request_age_ms = 60000,
      control_status_required_role = Operator,
      audit_timeout_ms = 1000,
      priority_aging_ms = 10000,
      indeterminate_cooldown_ms = 5000\<rparr>"

definition ALL_RISK_LEVELS :: "risk_level list" where
  "ALL_RISK_LEVELS = [Risk_Low, Risk_Medium, Risk_High, Risk_Critical]"

datatype policy_error =
    RetentionTooShort | ZeroQueueCapacity | ZeroWriteTimeout | ZeroCommandTimeout
  | ZeroPreconditionTimeout | ZeroRequestAge | ZeroAuditTimeout

definition policy_validate :: "control_policy \<Rightarrow> policy_error + unit" where
  "policy_validate p =
     (if idempotency_retention p < ns_per_day then Inl RetentionTooShort
      else if queue_capacity p = 0 then Inl ZeroQueueCapacity
      else if property_write_timeout_ms p = 0 then Inl ZeroWriteTimeout
      else if list_ex (\<lambda>r. command_timeout_ms p r = Some 0) ALL_RISK_LEVELS then Inl ZeroCommandTimeout
      else if precondition_timeout_ms p = 0 then Inl ZeroPreconditionTimeout
      else if max_request_age_ms p = 0 then Inl ZeroRequestAge
      else if audit_timeout_ms p = 0 then Inl ZeroAuditTimeout
      else Inr ())"

fun required_role :: "control_policy \<Rightarrow> operation_kind \<Rightarrow> role" where
  "required_role p OK_PropertyWrite = property_write_required_role p"
| "required_role p (OK_Command risk) =
     (case command_required_role p risk of None \<Rightarrow> Administrator | Some r \<Rightarrow> r)"

fun policy_priority :: "control_policy \<Rightarrow> operation_kind \<Rightarrow> priority" where
  "policy_priority p OK_PropertyWrite = property_write_priority p"
| "policy_priority p (OK_Command risk) =
     (case command_priority p risk of None \<Rightarrow> Prio_Medium | Some r \<Rightarrow> r)"

fun policy_timeout_ms :: "control_policy \<Rightarrow> operation_kind \<Rightarrow> nat" where
  "policy_timeout_ms p OK_PropertyWrite = property_write_timeout_ms p"
| "policy_timeout_ms p (OK_Command risk) =
     (case command_timeout_ms p risk of None \<Rightarrow> 5000 | Some t \<Rightarrow> t)"

definition effective_timeout_ms :: "control_policy \<Rightarrow> operation_kind \<Rightarrow> nat \<Rightarrow> nat" where
  "effective_timeout_ms p kind request_ms = min request_ms (policy_timeout_ms p kind)"

fun risk_default_role :: "risk_level \<Rightarrow> role" where
  "risk_default_role Risk_Low = Operator"
| "risk_default_role Risk_Medium = Operator"
| "risk_default_role Risk_High = Engineer"
| "risk_default_role Risk_Critical = Administrator"

lemma all_risk_levels: "list_ex P ALL_RISK_LEVELS \<longleftrightarrow> (\<exists>r. P r)"
proof -
  have "r \<in> set ALL_RISK_LEVELS" for r
    by (cases r) (simp_all add: ALL_RISK_LEVELS_def)
  then show ?thesis
    by (auto simp: list_ex_iff)
qed

lemma policy_validate_ok:
  "policy_validate p = Inr () \<longleftrightarrow>
     ns_per_day \<le> idempotency_retention p \<and> 0 < queue_capacity p \<and> 0 < property_write_timeout_ms p \<and>
     (\<forall>r. command_timeout_ms p r \<noteq> Some 0) \<and> 0 < precondition_timeout_ms p \<and>
     0 < max_request_age_ms p \<and> 0 < audit_timeout_ms p"
  by (auto simp: policy_validate_def all_risk_levels)

lemma effective_timeout_pos:
  assumes "policy_validate p = Inr ()" and "0 < ms"
  shows "0 < effective_timeout_ms p kind ms"
  using assms
  by (cases kind) (auto simp: effective_timeout_ms_def policy_validate_ok intro!: gr0I split: option.splits)

lemma default_policy_valid: "policy_validate default_policy = Inr ()"
  by (simp add: policy_validate_ok default_policy_def)

lemma default_required_role: "required_role default_policy (OK_Command r) = risk_default_role r"
  by (cases r) (simp_all add: default_policy_def)

end
