(* ===== verification/Control_Operation.thy ===== *)
theory Control_Operation
  imports Control_Policy
begin

text \<open>
  The operation that passes from validation to the queue (\<^verbatim>\<open>ValidatedOperation\<close> of \<^verbatim>\<open>validate.rs\<close>), the
  outcomes of the executor (\<^verbatim>\<open>executor.rs\<close>), the mapping of driver errors to stable codes, and
  \<^verbatim>\<open>run_operation\<close> of \<^verbatim>\<open>queue.rs\<close>: the executor's answer as a \<^verbatim>\<open>ControlResult\<close>.
\<close>

datatype validated_operation =
    VO_Write "driver_write_item list" "property_path list"
  | VO_Execute driver_command risk_level "command_precondition list"

fun op_risk_level :: "validated_operation \<Rightarrow> risk_level option" where
  "op_risk_level (VO_Write _ _) = None"
| "op_risk_level (VO_Execute _ risk _) = Some risk"

fun op_kind :: "validated_operation \<Rightarrow> operation_kind" where
  "op_kind (VO_Write _ _) = OK_PropertyWrite"
| "op_kind (VO_Execute _ risk _) = OK_Command risk"

section \<open>Driver errors\<close>

definition DRIVER_CODE_WHITELIST :: "string list" where
  "DRIVER_CODE_WHITELIST =
     [''driver_load_failed'', ''driver_entry_not_found'', ''driver_manifest_entry_invalid'', ''driver_entry_null'',
      ''driver_struct_too_small'', ''driver_abi_incompatible'', ''driver_manifest_abi_mismatch'',
      ''driver_missing_function'', ''driver_create_failed'', ''driver_call_failed'', ''driver_empty_response'',
      ''driver_invalid_response'', ''driver_invalid_handle'', ''driver_encoding_error'', ''driver_request_timeout'',
      ''driver_read_panicked'', ''connection_failed'', ''connection_lost'', ''timeout'', ''modbus_exception'',
      ''invalid_response'', ''invalid_address'', ''config_error'', ''decode_error'']"

definition whitelist_driver_code :: "string \<Rightarrow> string" where
  "whitelist_driver_code code =
     (case find (\<lambda>known. known = code) DRIVER_CODE_WHITELIST of Some known \<Rightarrow> known | None \<Rightarrow> ''driver_error'')"

definition map_driver_error :: "driver_error_info \<Rightarrow> control_error" where
  "map_driver_error info =
     \<lparr>ce_code = whitelist_driver_code (ei_code info),
      ce_details = map_option (\<lambda>code. J_Object [(''protocol_code'', J_Int code)]) (ei_protocol_code info)\<rparr>"

lemma whitelist_driver_code_stable:
  "whitelist_driver_code code \<in> insert ''driver_error'' (set DRIVER_CODE_WHITELIST)"
  by (auto simp: whitelist_driver_code_def find_Some_iff split: option.splits)

section \<open>Executor outcomes\<close>

datatype exec_write_outcome =
    WO_Succeeded "raw_write_result list"
  | WO_Failed driver_error_info
  | WO_Indeterminate driver_error_info

datatype execute_outcome =
    EO_Succeeded raw_command_result
  | EO_Failed driver_error_info
  | EO_Indeterminate driver_error_info

text \<open>One bounded call of the precondition checker: it is missing, it ran out of time, it refused, or it agreed.\<close>

datatype precondition_outcome = PO_Unconfigured | PO_Timeout | PO_Failed | PO_Passed

fun precondition_failure :: "precondition_outcome \<Rightarrow> control_error option" where
  "precondition_failure PO_Unconfigured = Some (coded_error ''PRECONDITION_UNCONFIGURED'')"
| "precondition_failure PO_Timeout = Some (coded_error ''PRECONDITION_TIMEOUT'')"
| "precondition_failure PO_Failed = Some (coded_error ''PRECONDITION_FAILED'')"
| "precondition_failure PO_Passed = None"

section \<open>Results of an operation\<close>

definition base_result :: "device_id \<Rightarrow> timestamp_ns \<Rightarrow> control_result" where
  "base_result device now =
     \<lparr>res_request_id = [], res_namespace = [], res_device_id = device, res_status = CS_Running,
      res_started_at_ns = Some now, res_completed_at_ns = None, res_result = None, res_error = None\<rparr>"

definition failed_with :: "control_status \<Rightarrow> control_error \<Rightarrow> control_result \<Rightarrow> control_result" where
  "failed_with status err base = base\<lparr>res_status := status, res_error := Some err\<rparr>"

definition write_item_result :: "property_path \<Rightarrow> nat \<Rightarrow> raw_write_result list \<Rightarrow> property_write_item_result" where
  "write_item_result path item_id raws =
     (case find (\<lambda>r. rw_item_id r = item_id) raws of
        Some raw \<Rightarrow>
          \<lparr>pwr_path = path, pwr_success = rw_success raw, pwr_protocol_code = rw_protocol_code raw,
           pwr_error = map_option map_driver_error (rw_error raw)\<rparr>
      | None \<Rightarrow>
          \<lparr>pwr_path = path, pwr_success = False, pwr_protocol_code = None,
           pwr_error = Some (coded_error ''DRIVER_NO_ITEM_RESULT'')\<rparr>)"

text \<open>\<^verbatim>\<open>paths.iter().enumerate()\<close> with \<^verbatim>\<open>items[index]\<close>, which panics past the end of \<^verbatim>\<open>items\<close>: \<open>None\<close>.\<close>

fun write_item_results ::
  "driver_write_item list \<Rightarrow> property_path list \<Rightarrow> raw_write_result list \<Rightarrow> property_write_item_result list option" where
  "write_item_results items [] raws = Some []"
| "write_item_results [] (p # ps) raws = None"
| "write_item_results (i # is) (p # ps) raws =
     map_option (Cons (write_item_result p (dwi_id i) raws)) (write_item_results is ps raws)"

fun write_outcome_result ::
  "control_result \<Rightarrow> driver_write_item list \<Rightarrow> property_path list \<Rightarrow> exec_write_outcome \<Rightarrow> control_result option" where
  "write_outcome_result base items paths (WO_Succeeded raws) =
     map_option (\<lambda>rs.
         let any_failed = list_ex (\<lambda>r. \<not> pwr_success r) rs in
         base\<lparr>res_status := (if any_failed then CS_Failed else CS_Succeeded),
              res_error := (if any_failed then Some (coded_error ''PARTIAL_WRITE_FAILURE'') else None),
              res_result := Some (PL_PropertyWrite rs)\<rparr>)
       (write_item_results items paths raws)"
| "write_outcome_result base items paths (WO_Failed info) = Some (failed_with CS_Failed (map_driver_error info) base)"
| "write_outcome_result base items paths (WO_Indeterminate info) =
     Some (failed_with CS_Indeterminate (map_driver_error info) base)"

fun execute_outcome_result :: "control_result \<Rightarrow> execute_outcome \<Rightarrow> control_result" where
  "execute_outcome_result base (EO_Succeeded raw) =
     (if rc_success raw then
        base\<lparr>res_status := CS_Succeeded,
             res_result := Some (PL_Command \<lparr>cres_device_code = rc_protocol_code raw, cres_payload = rc_payload raw\<rparr>)\<rparr>
      else failed_with CS_Failed
             (case rc_error raw of Some e \<Rightarrow> map_driver_error e | None \<Rightarrow> coded_error ''driver_error'') base)"
| "execute_outcome_result base (EO_Failed info) = failed_with CS_Failed (map_driver_error info) base"
| "execute_outcome_result base (EO_Indeterminate info) = failed_with CS_Indeterminate (map_driver_error info) base"

text \<open>The last part of \<^verbatim>\<open>run_operation\<close>: the executor has answered.\<close>

fun outcome_result ::
  "control_result \<Rightarrow> validated_operation \<Rightarrow> exec_write_outcome \<Rightarrow> execute_outcome \<Rightarrow> control_result option" where
  "outcome_result base (VO_Write items paths) wo eo = write_outcome_result base items paths wo"
| "outcome_result base (VO_Execute _ _ _) wo eo = Some (execute_outcome_result base eo)"

section \<open>Lemmas\<close>

lemma write_item_results_eq:
  assumes "length items = length paths"
  shows "write_item_results items paths raws =
    Some (map (\<lambda>(i, p). write_item_result p (dwi_id i) raws) (zip items paths))"
  using assms by (induction items paths raws rule: write_item_results.induct) auto

text \<open>A write succeeds as a whole exactly when the driver reported success for every item.\<close>

lemma write_item_result_success:
  "pwr_success (write_item_result p n raws) \<longleftrightarrow> (\<exists>r. find (\<lambda>r. rw_item_id r = n) raws = Some r \<and> rw_success r)"
  by (auto simp: write_item_result_def split: option.splits)

lemma write_outcome_status:
  assumes "length items = length paths"
    and "write_outcome_result base items paths (WO_Succeeded raws) = Some res"
  shows "res_status res = CS_Succeeded \<longleftrightarrow>
    (\<forall>i\<in>set items. \<exists>r. find (\<lambda>r. rw_item_id r = dwi_id i) raws = Some r \<and> rw_success r)"
proof -
  let ?rs = "map (\<lambda>(i, p). write_item_result p (dwi_id i) raws) (zip items paths)"
  have "res_status res = CS_Succeeded \<longleftrightarrow> (\<forall>q\<in>set ?rs. pwr_success q)"
    using assms by (auto simp: write_item_results_eq Let_def list_ex_iff case_prod_unfold split: if_splits)
  also have "\<dots> \<longleftrightarrow> (\<forall>q\<in>set (zip items paths). pwr_success (write_item_result (snd q) (dwi_id (fst q)) raws))"
    by (simp add: case_prod_unfold)
  also have "\<dots> \<longleftrightarrow> (\<forall>i\<in>set items. \<exists>r. find (\<lambda>r. rw_item_id r = dwi_id i) raws = Some r \<and> rw_success r)"
    unfolding write_item_result_success
    using assms(1) by (metis fst_conv in_set_impl_in_set_zip1 in_set_zipE prod.collapse)
  finally show ?thesis .
qed

text \<open>No outcome of the executor is reported as a status that denies the execution.\<close>

definition denies_execution :: "control_status \<Rightarrow> bool" where
  "denies_execution s \<longleftrightarrow> s \<in> {CS_Timeout, CS_Cancelled, CS_Rejected}"

lemma outcome_result_status:
  assumes "outcome_result base op wo eo = Some res"
  shows "res_status res \<in> {CS_Succeeded, CS_Failed, CS_Indeterminate}"
  using assms
  by (cases op; cases wo; cases eo)
    (auto simp: failed_with_def Let_def split: if_splits)

end
