(* ===== verification/Control_Journal.thy ===== *)
theory Control_Journal
  imports Control_Types "HOL-Library.AList"
begin

text \<open>
  \<^verbatim>\<open>crates/control-engine/src/journal.rs\<close>: the idempotency journal. The trait \<^verbatim>\<open>ControlJournal\<close> is the record
  \<open>journal_api\<close> of its four methods with the laws of the locale \<open>control_journal\<close>; the in-memory and the
  file journal are its two interpretations. The file is a list of lines whose last line may lack its
  newline; every disk operation takes the outcome the operating system gives it, so that a failed
  write can leave nothing, a torn line, a line without newline or a whole unsynchronised line behind.
\<close>

section \<open>Records\<close>

record idempotency_key =
  ik_namespace :: string
  ik_device_id :: device_id
  ik_request_id :: string

record journal_entry =
  je_key :: idempotency_key
  je_payload_hash :: string
  je_status :: control_status
  je_created_at_ns :: timestamp_ns
  je_expires_at_ns :: timestamp_ns
  je_result :: "control_result option"

datatype journal_decision = Inserted | Duplicate journal_entry | Conflict journal_entry

datatype journal_error = JE_Io | JE_Corrupt nat

datatype journal_record =
    Rec_Insert idempotency_key string control_status timestamp_ns timestamp_ns
  | Rec_Settle idempotency_key control_result

type_synonym journal_entries = "(idempotency_key \<times> journal_entry) list"

definition fresh_entry ::
  "idempotency_key \<Rightarrow> string \<Rightarrow> control_status \<Rightarrow> timestamp_ns \<Rightarrow> timestamp_ns \<Rightarrow> journal_entry" where
  "fresh_entry key hash status created expires =
     \<lparr>je_key = key, je_payload_hash = hash, je_status = status, je_created_at_ns = created,
      je_expires_at_ns = expires, je_result = None\<rparr>"

definition settle_journal_entry :: "control_result \<Rightarrow> journal_entry \<Rightarrow> journal_entry" where
  "settle_journal_entry result e = e\<lparr>je_status := res_status result, je_result := Some result\<rparr>"

text \<open>\<^verbatim>\<open>entries.retain(|_, e| e.expires_at_ns >= now_ns)\<close>.\<close>

definition retain_live :: "timestamp_ns \<Rightarrow> journal_entries \<Rightarrow> journal_entries" where
  "retain_live now es = filter (\<lambda>(k, e). now \<le> je_expires_at_ns e) es"

section \<open>Disk operations\<close>

datatype write_outcome = W_Done | W_Nothing | W_Torn | W_Unterminated | W_Unsynced

datatype compact_outcome = C_Done | C_Failed | C_ReopenFailed

datatype disk_line = DL_Record journal_record | DL_Blank | DL_Garbage

record disk_file =
  df_lines :: "disk_line list"
  df_open :: bool

text \<open>Text appended to an unterminated line joins it; a prefix of a record, or a whole one, followed by a
  record is not a JSON document.\<close>

definition append_line :: "disk_line \<Rightarrow> bool \<Rightarrow> disk_file \<Rightarrow> disk_file" where
  "append_line l unterminated d =
     \<lparr>df_lines = (if df_open d then butlast (df_lines d) @ [DL_Garbage] else df_lines d @ [l]),
      df_open = unterminated\<rparr>"

definition write_disk :: "write_outcome \<Rightarrow> journal_record \<Rightarrow> disk_file \<Rightarrow> (journal_error + unit) \<times> disk_file" where
  "write_disk w r d =
     (case w of
        W_Done \<Rightarrow> (Inr (), append_line (DL_Record r) False d)
      | W_Nothing \<Rightarrow> (Inl JE_Io, d)
      | W_Torn \<Rightarrow> (Inl JE_Io, append_line DL_Garbage True d)
      | W_Unterminated \<Rightarrow> (Inl JE_Io, append_line (DL_Record r) True d)
      | W_Unsynced \<Rightarrow> (Inl JE_Io, append_line (DL_Record r) False d))"

section \<open>The file journal\<close>

text \<open>\<open>fj_disk\<close> is the file at the path. \<open>fj_detached\<close> is the file the handle writes to when that is not the
  file at the path: after a rename whose reopening failed, the handle refers to the replaced file.\<close>

record file_journal =
  fj_disk :: disk_file
  fj_detached :: "disk_file option"
  fj_entries :: journal_entries

definition write_record ::
  "write_outcome \<Rightarrow> journal_record \<Rightarrow> file_journal \<Rightarrow> (journal_error + unit) \<times> file_journal" where
  "write_record w r j =
     (case fj_detached j of
        None \<Rightarrow> (let (res, d) = write_disk w r (fj_disk j) in (res, j\<lparr>fj_disk := d\<rparr>))
      | Some old \<Rightarrow> (let (res, d) = write_disk w r old in (res, j\<lparr>fj_detached := Some d\<rparr>)))"

definition entry_lines :: "timestamp_ns \<Rightarrow> journal_entry \<Rightarrow> disk_line list" where
  "entry_lines now e =
     (if je_expires_at_ns e < now then []
      else DL_Record (Rec_Insert (je_key e) (je_payload_hash e) (je_status e) (je_created_at_ns e) (je_expires_at_ns e))
           # (case je_result e of None \<Rightarrow> [] | Some r \<Rightarrow> [DL_Record (Rec_Settle (je_key e) r)]))"

definition compact :: "compact_outcome \<Rightarrow> timestamp_ns \<Rightarrow> file_journal \<Rightarrow> (journal_error + unit) \<times> file_journal" where
  "compact c now j =
     (let d = \<lparr>df_lines = concat (map (entry_lines now \<circ> snd) (fj_entries j)), df_open = False\<rparr>;
          handle = (case fj_detached j of None \<Rightarrow> fj_disk j | Some old \<Rightarrow> old) in
      case c of
        C_Failed \<Rightarrow> (Inl JE_Io, j)
      | C_ReopenFailed \<Rightarrow> (Inl JE_Io, j\<lparr>fj_disk := d, fj_detached := Some handle\<rparr>)
      | C_Done \<Rightarrow> (Inr (), j\<lparr>fj_disk := d, fj_detached := None\<rparr>))"

definition file_try_insert ::
  "write_outcome \<Rightarrow> idempotency_key \<Rightarrow> string \<Rightarrow> timestamp_ns \<Rightarrow> timestamp_ns \<Rightarrow> file_journal
     \<Rightarrow> (journal_error + journal_decision) \<times> file_journal" where
  "file_try_insert w key hash created expires j =
     (let insert_new =
        (case write_record w (Rec_Insert key hash CS_Running created expires) j of
           (Inl err, j') \<Rightarrow> (Inl err, j')
         | (Inr _, j') \<Rightarrow>
             (Inr Inserted,
              j'\<lparr>fj_entries := AList.update key (fresh_entry key hash CS_Running created expires) (fj_entries j')\<rparr>))
      in case map_of (fj_entries j) key of
           None \<Rightarrow> insert_new
         | Some existing \<Rightarrow>
             if created \<le> je_expires_at_ns existing then
               (Inr (if je_payload_hash existing = hash then Duplicate existing else Conflict existing), j)
             else insert_new)"

definition file_settle ::
  "write_outcome \<Rightarrow> idempotency_key \<Rightarrow> control_result \<Rightarrow> file_journal \<Rightarrow> (journal_error + unit) \<times> file_journal" where
  "file_settle w key result j =
     (case map_of (fj_entries j) key of
        None \<Rightarrow> (Inr (), j)
      | Some entry \<Rightarrow>
          (case write_record w (Rec_Settle key result) j of
             (Inl err, j') \<Rightarrow> (Inl err, j')
           | (Inr _, j') \<Rightarrow>
               (Inr (), j'\<lparr>fj_entries := AList.update key (settle_journal_entry result entry) (fj_entries j')\<rparr>)))"

definition file_get :: "idempotency_key \<Rightarrow> file_journal \<Rightarrow> journal_entry option" where
  "file_get key j = map_of (fj_entries j) key"

definition file_purge_expired :: "compact_outcome \<Rightarrow> timestamp_ns \<Rightarrow> file_journal \<Rightarrow> nat \<times> file_journal" where
  "file_purge_expired c now j =
     (let live = retain_live now (fj_entries j);
          removed = length (fj_entries j) - length live;
          j' = j\<lparr>fj_entries := live\<rparr>
      in (removed, if removed > 0 then snd (compact c now j') else j'))"

subsection \<open>Opening\<close>

definition interrupted_entry :: "timestamp_ns \<Rightarrow> journal_entry \<Rightarrow> journal_entry" where
  "interrupted_entry now e =
     (if je_status e = CS_Accepted \<or> je_status e = CS_Running
      then e\<lparr>je_status := CS_Indeterminate,
             je_result := Some
               \<lparr>res_request_id = ik_request_id (je_key e), res_namespace = ik_namespace (je_key e),
                res_device_id = ik_device_id (je_key e), res_status = CS_Indeterminate,
                res_started_at_ns = None, res_completed_at_ns = Some now, res_result = None,
                res_error = Some (coded_error ''EXECUTION_INTERRUPTED'')\<rparr>\<rparr>
      else e)"

text \<open>The loop over the lines. \<open>fails\<close> is the line at which reading fails, if any; the flag says that an
  expired record was skipped.\<close>

fun replay ::
  "nat option \<Rightarrow> timestamp_ns \<Rightarrow> nat \<Rightarrow> disk_line list \<Rightarrow> journal_entries \<Rightarrow> idempotency_key set \<Rightarrow> bool
     \<Rightarrow> journal_error + journal_entries \<times> bool" where
  "replay fails now n [] es expired need_compact = Inr (es, need_compact)"
| "replay fails now n (l # ls) es expired need_compact =
     (if fails = Some n then Inl JE_Io
      else case l of
        DL_Blank \<Rightarrow> replay fails now (Suc n) ls es expired need_compact
      | DL_Garbage \<Rightarrow> Inl (JE_Corrupt n)
      | DL_Record (Rec_Insert key hash status created expires) \<Rightarrow>
          if expires < now then replay fails now (Suc n) ls es (insert key expired) True
          else replay fails now (Suc n) ls
                 (AList.update key (fresh_entry key hash status created expires) es) expired need_compact
      | DL_Record (Rec_Settle key result) \<Rightarrow>
          (case map_of es key of
             None \<Rightarrow> if key \<in> expired then replay fails now (Suc n) ls es (expired - {key}) need_compact
                     else Inl (JE_Corrupt n)
           | Some entry \<Rightarrow>
               replay fails now (Suc n) ls (AList.update key (settle_journal_entry result entry) es) expired need_compact))"

record open_io =
  oi_read_fails :: "nat option"
  oi_append :: bool
  oi_compact :: compact_outcome

definition file_open :: "open_io \<Rightarrow> timestamp_ns \<Rightarrow> disk_file \<Rightarrow> journal_error + file_journal" where
  "file_open io now d =
     res_bind (replay (oi_read_fails io) now 1 (df_lines d) [] {} False) (\<lambda>(es, need_compact).
       let j = \<lparr>fj_disk = d, fj_detached = None, fj_entries = map (\<lambda>(k, e). (k, interrupted_entry now e)) es\<rparr> in
       if \<not> oi_append io then Inl JE_Io
       else if need_compact then
         (case compact (oi_compact io) now j of (Inl err, _) \<Rightarrow> Inl err | (Inr _, j') \<Rightarrow> Inr j')
       else Inr j)"

section \<open>The in-memory journal\<close>

definition mem_try_insert ::
  "write_outcome \<Rightarrow> idempotency_key \<Rightarrow> string \<Rightarrow> timestamp_ns \<Rightarrow> timestamp_ns \<Rightarrow> journal_entries
     \<Rightarrow> (journal_error + journal_decision) \<times> journal_entries" where
  "mem_try_insert w key hash created expires es =
     (let insert_new = (Inr Inserted, AList.update key (fresh_entry key hash CS_Running created expires) es) in
      case map_of es key of
        None \<Rightarrow> insert_new
      | Some existing \<Rightarrow>
          if created \<le> je_expires_at_ns existing then
            (Inr (if je_payload_hash existing = hash then Duplicate existing else Conflict existing), es)
          else insert_new)"

definition mem_settle ::
  "write_outcome \<Rightarrow> idempotency_key \<Rightarrow> control_result \<Rightarrow> journal_entries \<Rightarrow> (journal_error + unit) \<times> journal_entries" where
  "mem_settle w key result es =
     (case map_of es key of
        None \<Rightarrow> (Inr (), es)
      | Some entry \<Rightarrow> (Inr (), AList.update key (settle_journal_entry result entry) es))"

definition mem_get :: "idempotency_key \<Rightarrow> journal_entries \<Rightarrow> journal_entry option" where
  "mem_get key es = map_of es key"

definition mem_purge_expired :: "compact_outcome \<Rightarrow> timestamp_ns \<Rightarrow> journal_entries \<Rightarrow> nat \<times> journal_entries" where
  "mem_purge_expired c now es =
     (length es - length (retain_live now es), retain_live now es)"

section \<open>The journal interface\<close>

record 'j journal_api =
  ja_try_insert :: "write_outcome \<Rightarrow> idempotency_key \<Rightarrow> string \<Rightarrow> timestamp_ns \<Rightarrow> timestamp_ns \<Rightarrow> 'j
    \<Rightarrow> (journal_error + journal_decision) \<times> 'j"
  ja_settle :: "write_outcome \<Rightarrow> idempotency_key \<Rightarrow> control_result \<Rightarrow> 'j \<Rightarrow> (journal_error + unit) \<times> 'j"
  ja_get :: "idempotency_key \<Rightarrow> 'j \<Rightarrow> journal_entry option"
  ja_purge_expired :: "compact_outcome \<Rightarrow> timestamp_ns \<Rightarrow> 'j \<Rightarrow> nat \<times> 'j"

definition mem_api :: "journal_entries journal_api" where
  "mem_api = \<lparr>ja_try_insert = mem_try_insert, ja_settle = mem_settle, ja_get = mem_get,
              ja_purge_expired = mem_purge_expired\<rparr>"

definition file_api :: "file_journal journal_api" where
  "file_api = \<lparr>ja_try_insert = file_try_insert, ja_settle = file_settle, ja_get = file_get,
               ja_purge_expired = file_purge_expired\<rparr>"

text \<open>An entry that blocks a new registration of its key at time \<open>created\<close>.\<close>

definition live_at :: "timestamp_ns \<Rightarrow> journal_entry option \<Rightarrow> bool" where
  "live_at t e \<longleftrightarrow> (case e of None \<Rightarrow> False | Some e \<Rightarrow> t \<le> je_expires_at_ns e)"

text \<open>What settling never changes: the identity of the registration.\<close>

definition entry_core :: "journal_entry \<Rightarrow> idempotency_key \<times> string \<times> timestamp_ns \<times> timestamp_ns" where
  "entry_core e = (je_key e, je_payload_hash e, je_created_at_ns e, je_expires_at_ns e)"

lemma entry_core_settle [simp]: "entry_core (settle_journal_entry r e) = entry_core e"
  by (simp add: entry_core_def settle_journal_entry_def)

lemma entry_core_interrupted [simp]: "entry_core (interrupted_entry now e) = entry_core e"
  by (simp add: entry_core_def interrupted_entry_def)

lemma entry_core_eqD:
  assumes "entry_core e = entry_core e'"
  shows "je_expires_at_ns e = je_expires_at_ns e'" "je_payload_hash e = je_payload_hash e'"
    "je_key e = je_key e'" "je_created_at_ns e = je_created_at_ns e'"
  using assms by (simp_all add: entry_core_def)

datatype journal_call =
    JC_Insert write_outcome idempotency_key string timestamp_ns timestamp_ns
  | JC_Settle write_outcome idempotency_key control_result
  | JC_Purge compact_outcome timestamp_ns

datatype journal_answer =
    JA_Insert idempotency_key "journal_error + journal_decision"
  | JA_Settle "journal_error + unit"
  | JA_Purge nat

fun journal_step :: "'j journal_api \<Rightarrow> journal_call \<Rightarrow> 'j \<Rightarrow> journal_answer \<times> 'j" where
  "journal_step api (JC_Insert w k h c x) j = apfst (JA_Insert k) (ja_try_insert api w k h c x j)"
| "journal_step api (JC_Settle w k r) j = apfst JA_Settle (ja_settle api w k r j)"
| "journal_step api (JC_Purge c now) j = apfst JA_Purge (ja_purge_expired api c now j)"

fun journal_run :: "'j journal_api \<Rightarrow> journal_call list \<Rightarrow> 'j \<Rightarrow> journal_answer list \<times> 'j" where
  "journal_run api [] j = ([], j)"
| "journal_run api (c # cs) j =
     (let (a, j') = journal_step api c j; (as, j'') = journal_run api cs j' in (a # as, j''))"

fun call_before :: "timestamp_ns \<Rightarrow> journal_call \<Rightarrow> bool" where
  "call_before t (JC_Insert w k h c x) \<longleftrightarrow> c \<le> t"
| "call_before t (JC_Settle w k r) \<longleftrightarrow> True"
| "call_before t (JC_Purge c now) \<longleftrightarrow> now \<le> t"

locale control_journal =
  fixes api :: "'j journal_api" and wf :: "'j \<Rightarrow> bool"
  assumes insert_live:
      "wf j \<Longrightarrow> ja_get api k j = Some e \<Longrightarrow> c \<le> je_expires_at_ns e \<Longrightarrow>
       ja_try_insert api w k h c x j = (Inr (if je_payload_hash e = h then Duplicate e else Conflict e), j)"
    and insert_absent:
      "wf j \<Longrightarrow> \<not> live_at c (ja_get api k j) \<Longrightarrow> ja_try_insert api w k h c x j = (d, j') \<Longrightarrow>
       (d = Inr Inserted \<and> ja_get api k' j' = (if k' = k then Some (fresh_entry k h CS_Running c x) else ja_get api k' j)) \<or>
       (\<exists>err. d = Inl err \<and> ja_get api k' j' = ja_get api k' j)"
    and settle_get:
      "wf j \<Longrightarrow> ja_settle api w k r j = (res, j') \<Longrightarrow>
       ja_get api k' j' = (if k' = k \<and> res = Inr () then map_option (settle_journal_entry r) (ja_get api k j)
                           else ja_get api k' j)"
    and purge_get:
      "wf j \<Longrightarrow> ja_purge_expired api co now j = (n, j') \<Longrightarrow>
       ja_get api k j' = (if live_at now (ja_get api k j) then ja_get api k j else None)"
    and wf_insert: "wf j \<Longrightarrow> wf (snd (ja_try_insert api w k h c x j))"
    and wf_settle: "wf j \<Longrightarrow> wf (snd (ja_settle api w k r j))"
    and wf_purge: "wf j \<Longrightarrow> wf (snd (ja_purge_expired api co now j))"
begin

lemma insert_decides:
  assumes "wf j" and "ja_try_insert api w k h c x j = (Inr d, j')"
  shows "(d = Inserted) = (\<not> live_at c (ja_get api k j))"
proof (cases "live_at c (ja_get api k j)")
  case True
  then obtain e where "ja_get api k j = Some e" and "c \<le> je_expires_at_ns e"
    by (auto simp: live_at_def split: option.splits)
  from insert_live[OF assms(1) this, of w h x] assms(2) True show ?thesis
    by (auto split: if_splits)
next
  case False
  from insert_absent[OF assms(1) False assms(2)] False show ?thesis
    by auto
qed

lemma step_keeps_live:
  assumes "wf j" and "ja_get api k j = Some e" and "call_before (je_expires_at_ns e) c"
    and "journal_step api c j = (a, j')"
  shows "wf j'" and "a \<noteq> JA_Insert k (Inr Inserted)"
    and "\<exists>e'. ja_get api k j' = Some e' \<and> entry_core e' = entry_core e"
proof -
  have "wf j' \<and> a \<noteq> JA_Insert k (Inr Inserted) \<and> (\<exists>e'. ja_get api k j' = Some e' \<and> entry_core e' = entry_core e)"
  proof (cases c)
    case (JC_Insert w k0 h t x)
    obtain r where r: "ja_try_insert api w k0 h t x j = (r, j')" and a: "a = JA_Insert k0 r"
      using assms(4) JC_Insert by (cases "ja_try_insert api w k0 h t x j") auto
    have "wf j'"
      using wf_insert[OF assms(1), of w k0 h t x] r by simp
    moreover have "ja_get api k j' = ja_get api k j \<and> a \<noteq> JA_Insert k (Inr Inserted)"
    proof (cases "live_at t (ja_get api k0 j)")
      case True
      then obtain e0 where e0: "ja_get api k0 j = Some e0" "t \<le> je_expires_at_ns e0"
        by (auto simp: live_at_def split: option.splits)
      from insert_live[OF assms(1) this, of w h x] r a show ?thesis
        by (auto split: if_splits)
    next
      case False
      then have "k0 \<noteq> k"
        using assms(2,3) JC_Insert by (auto simp: live_at_def)
      with insert_absent[OF assms(1) False r, of k] a show ?thesis
        by auto
    qed
    ultimately show ?thesis
      using assms(2) by auto
  next
    case (JC_Settle w k0 r)
    obtain res where res: "ja_settle api w k0 r j = (res, j')" and a: "a = JA_Settle res"
      using assms(4) JC_Settle by (cases "ja_settle api w k0 r j") auto
    show ?thesis
      using settle_get[OF assms(1) res, of k] wf_settle[OF assms(1), of w k0 r] res a assms(2)
      by (auto split: if_splits)
  next
    case (JC_Purge co now)
    obtain n where n: "ja_purge_expired api co now j = (n, j')" and a: "a = JA_Purge n"
      using assms(4) JC_Purge by (cases "ja_purge_expired api co now j") auto
    show ?thesis
      using purge_get[OF assms(1) n, of k] wf_purge[OF assms(1), of co now] n a assms(2,3) JC_Purge
      by (auto simp: live_at_def)
  qed
  then show "wf j'" and "a \<noteq> JA_Insert k (Inr Inserted)"
    and "\<exists>e'. ja_get api k j' = Some e' \<and> entry_core e' = entry_core e"
    by auto
qed

theorem run_keeps_live:
  assumes "wf j" and "ja_get api k j = Some e" and "\<forall>c\<in>set cs. call_before (je_expires_at_ns e) c"
    and "journal_run api cs j = (as, j')"
  shows "JA_Insert k (Inr Inserted) \<notin> set as \<and> wf j' \<and> (\<exists>e'. ja_get api k j' = Some e' \<and> entry_core e' = entry_core e)"
  using assms
proof (induction cs arbitrary: j e as)
  case (Cons c cs)
  obtain a j1 where s: "journal_step api c j = (a, j1)" by (cases "journal_step api c j")
  obtain as1 where r: "journal_run api cs j1 = (as1, j')" and as: "as = a # as1"
    using Cons.prems(4) s by (cases "journal_run api cs j1") auto
  from Cons.prems(3) have cb: "call_before (je_expires_at_ns e) c" by simp
  note step = step_keeps_live[OF Cons.prems(1,2) cb s]
  then obtain e1 where e1: "ja_get api k j1 = Some e1" "entry_core e1 = entry_core e" by auto
  have "\<forall>c\<in>set cs. call_before (je_expires_at_ns e1) c"
    using Cons.prems(3) entry_core_eqD(1)[OF e1(2)] by simp
  from Cons.IH[OF step(1) e1(1) this r] step(2) as e1(2) show ?case by simp
qed simp

end

section \<open>Both journals implement the interface\<close>

text \<open>A settled entry has the status of its result.\<close>

definition entry_consistent :: "journal_entry \<Rightarrow> bool" where
  "entry_consistent e \<longleftrightarrow> (case je_result e of None \<Rightarrow> True | Some r \<Rightarrow> je_status e = res_status r)"

definition entries_wf :: "journal_entries \<Rightarrow> bool" where
  "entries_wf es \<longleftrightarrow> distinct (map fst es) \<and> (\<forall>(k, e)\<in>set es. je_key e = k \<and> entry_consistent e)"

lemma entry_consistent_simps [simp]:
  "entry_consistent (fresh_entry k h s c x)"
  "entry_consistent (settle_journal_entry r e)"
  "entry_consistent e \<Longrightarrow> entry_consistent (interrupted_entry now e)"
  by (simp_all add: entry_consistent_def fresh_entry_def settle_journal_entry_def interrupted_entry_def)

lemma entries_wf_Nil [simp]: "entries_wf []"
  by (simp add: entries_wf_def)

lemma entries_wf_key: "entries_wf es \<Longrightarrow> map_of es k = Some e \<Longrightarrow> je_key e = k"
  by (auto simp: entries_wf_def dest!: map_of_SomeD)

lemma entries_wf_update [simp]:
  assumes "entries_wf es" and "je_key e = k" and "entry_consistent e"
  shows "entries_wf (AList.update k e es)"
proof -
  have "set (AList.update k e es) \<subseteq> insert (k, e) (set es)"
    by (induction es) auto
  then show ?thesis
    using assms distinct_update[of es k e] by (auto simp: entries_wf_def)
qed

lemma map_of_filter_distinct:
  assumes "distinct (map fst es)"
  shows "map_of (filter (\<lambda>(k, e). P e) es) k =
    (case map_of es k of None \<Rightarrow> None | Some e \<Rightarrow> if P e then Some e else None)"
  using assms
proof (induction es)
  case (Cons p es)
  then show ?case
    by (cases p) (auto split: option.splits simp: map_of_eq_None_iff weak_map_of_SomeI)
qed simp

lemma map_of_retain_live:
  "entries_wf es \<Longrightarrow> map_of (retain_live now es) k = (if live_at now (map_of es k) then map_of es k else None)"
  by (auto simp: retain_live_def entries_wf_def map_of_filter_distinct live_at_def split: option.splits)

lemma entries_wf_retain_live: "entries_wf es \<Longrightarrow> entries_wf (retain_live now es)"
  by (auto simp: entries_wf_def retain_live_def distinct_map_filter)

lemma je_key_simps [simp]:
  "je_key (fresh_entry k h s c x) = k"
  "je_key (settle_journal_entry r e) = je_key e"
  "je_key (interrupted_entry now e) = je_key e"
  by (simp_all add: fresh_entry_def settle_journal_entry_def interrupted_entry_def)

lemma entries_wf_settle [simp]:
  "entries_wf es \<Longrightarrow> map_of es k = Some e \<Longrightarrow> entries_wf (AList.update k (settle_journal_entry r e) es)"
  by (simp add: entries_wf_key)

lemma map_of_update: "map_of (AList.update k v es) k' = (if k' = k then Some v else map_of es k')"
  by (simp add: update_conv')

lemmas mem_defs = mem_try_insert_def mem_settle_def mem_get_def mem_purge_expired_def

interpretation mem: control_journal mem_api entries_wf
proof
  fix j k e c w h x
  assume "ja_get mem_api k j = Some e" and "c \<le> je_expires_at_ns e"
  then show "ja_try_insert mem_api w k h c x j = (Inr (if je_payload_hash e = h then Duplicate e else Conflict e), j)"
    by (simp add: mem_api_def mem_defs)
next
  fix j c k w h x d j' k'
  assume "\<not> live_at c (ja_get mem_api k j)" and "ja_try_insert mem_api w k h c x j = (d, j')"
  then show "(d = Inr Inserted \<and>
        ja_get mem_api k' j' = (if k' = k then Some (fresh_entry k h CS_Running c x) else ja_get mem_api k' j)) \<or>
       (\<exists>err. d = Inl err \<and> ja_get mem_api k' j' = ja_get mem_api k' j)"
    by (auto simp: mem_api_def mem_defs live_at_def map_of_update split: option.splits if_splits)
next
  fix j w k r res j' k'
  assume "ja_settle mem_api w k r j = (res, j')"
  then show "ja_get mem_api k' j' = (if k' = k \<and> res = Inr () then map_option (settle_journal_entry r) (ja_get mem_api k j)
                           else ja_get mem_api k' j)"
    by (auto simp: mem_api_def mem_defs map_of_update split: option.splits)
next
  fix j :: journal_entries and co now n j' k
  assume "entries_wf j" and "ja_purge_expired mem_api co now j = (n, j')"
  then show "ja_get mem_api k j' = (if live_at now (ja_get mem_api k j) then ja_get mem_api k j else None)"
    by (auto simp: mem_api_def mem_defs map_of_retain_live)
qed (auto simp: mem_api_def mem_defs Let_def entries_wf_retain_live dest: entries_wf_key split: option.splits)

subsection \<open>The file journal\<close>

abbreviation file_wf :: "file_journal \<Rightarrow> bool" where
  "file_wf j \<equiv> entries_wf (fj_entries j)"

lemma write_record_entries:
  "write_record w r j = (res, j') \<Longrightarrow> fj_entries j' = fj_entries j"
  by (auto simp: write_record_def Let_def split: option.splits prod.splits)

lemma compact_entries: "compact c now j = (res, j') \<Longrightarrow> fj_entries j' = fj_entries j"
  by (auto simp: compact_def Let_def split: compact_outcome.splits)

lemma file_try_insert_absent:
  assumes "\<not> live_at c (map_of (fj_entries j) k)" and "file_try_insert w k h c x j = (d, j')"
  shows "(\<exists>err. d = Inl err \<and> write_record w (Rec_Insert k h CS_Running c x) j = (Inl err, j')) \<or>
    (\<exists>j1. d = Inr Inserted \<and> write_record w (Rec_Insert k h CS_Running c x) j = (Inr (), j1) \<and>
       j' = j1\<lparr>fj_entries := AList.update k (fresh_entry k h CS_Running c x) (fj_entries j)\<rparr>)"
proof (cases "write_record w (Rec_Insert k h CS_Running c x) j")
  case (Pair res j1)
  then show ?thesis
    using assms write_record_entries[OF Pair]
    by (cases res) (auto simp: file_try_insert_def Let_def live_at_def split: option.splits)
qed

lemma file_settle_cases:
  assumes "file_settle w k r j = (res, j')"
  shows "(map_of (fj_entries j) k = None \<and> res = Inr () \<and> j' = j) \<or>
    (\<exists>e err. map_of (fj_entries j) k = Some e \<and> res = Inl err \<and> write_record w (Rec_Settle k r) j = (Inl err, j')) \<or>
    (\<exists>e j1. map_of (fj_entries j) k = Some e \<and> res = Inr () \<and> write_record w (Rec_Settle k r) j = (Inr (), j1) \<and>
       j' = j1\<lparr>fj_entries := AList.update k (settle_journal_entry r e) (fj_entries j)\<rparr>)"
proof (cases "write_record w (Rec_Settle k r) j")
  case (Pair res0 j1)
  then show ?thesis
    using assms write_record_entries[OF Pair]
    by (cases res0) (auto simp: file_settle_def split: option.splits)
qed

lemma file_purge_entries: "fj_entries (snd (file_purge_expired c now j)) = retain_live now (fj_entries j)"
  using compact_entries[OF surjective_pairing, of c now "j\<lparr>fj_entries := retain_live now (fj_entries j)\<rparr>"]
  by (simp add: file_purge_expired_def Let_def)

lemma file_insert_get:
  assumes "\<not> live_at c (map_of (fj_entries j) k)" and "file_try_insert w k h c x j = (d, j')"
  shows "(d = Inr Inserted \<and>
      fj_entries j' = AList.update k (fresh_entry k h CS_Running c x) (fj_entries j)) \<or>
    (\<exists>err. d = Inl err \<and> fj_entries j' = fj_entries j)"
  using file_try_insert_absent[OF assms] by (auto dest: write_record_entries)

lemma file_insert_live:
  assumes "map_of (fj_entries j) k = Some e" and "c \<le> je_expires_at_ns e"
  shows "file_try_insert w k h c x j = (Inr (if je_payload_hash e = h then Duplicate e else Conflict e), j)"
  using assms by (simp add: file_try_insert_def Let_def)

lemma file_settle_entries:
  assumes "file_settle w k r j = (res, j')"
  shows "fj_entries j' = (if res = Inr () then
      (case map_of (fj_entries j) k of None \<Rightarrow> fj_entries j | Some e \<Rightarrow> AList.update k (settle_journal_entry r e) (fj_entries j))
    else fj_entries j)"
  using file_settle_cases[OF assms] by (auto dest: write_record_entries)

lemma file_wf_insert: "file_wf j \<Longrightarrow> file_wf (snd (file_try_insert w k h c x j))"
proof -
  assume wf: "file_wf j"
  obtain d j' where ins: "file_try_insert w k h c x j = (d, j')" by (cases "file_try_insert w k h c x j")
  show ?thesis
  proof (cases "live_at c (map_of (fj_entries j) k)")
    case True
    then show ?thesis
      using wf by (auto simp: live_at_def file_insert_live split: option.splits)
  next
    case False
    from file_insert_get[OF this ins] wf ins show ?thesis by auto
  qed
qed

interpretation filej: control_journal file_api file_wf
proof
  fix j k e c w h x
  assume "ja_get file_api k j = Some e" and "c \<le> je_expires_at_ns e"
  then show "ja_try_insert file_api w k h c x j = (Inr (if je_payload_hash e = h then Duplicate e else Conflict e), j)"
    by (simp add: file_api_def file_get_def file_insert_live)
next
  fix j c k w h x d j' k'
  assume "\<not> live_at c (ja_get file_api k j)" and "ja_try_insert file_api w k h c x j = (d, j')"
  then show "(d = Inr Inserted \<and>
        ja_get file_api k' j' = (if k' = k then Some (fresh_entry k h CS_Running c x) else ja_get file_api k' j)) \<or>
       (\<exists>err. d = Inl err \<and> ja_get file_api k' j' = ja_get file_api k' j)"
    using file_insert_get[of c j k w h x d j'] by (auto simp: file_api_def file_get_def map_of_update)
next
  fix j w k r res j' k'
  assume "ja_settle file_api w k r j = (res, j')"
  then show "ja_get file_api k' j' = (if k' = k \<and> res = Inr () then map_option (settle_journal_entry r) (ja_get file_api k j)
                           else ja_get file_api k' j)"
    using file_settle_entries[of w k r j res j']
    by (auto simp: file_api_def file_get_def map_of_update split: option.splits)
next
  fix j co now n j' k
  assume "file_wf j" and "ja_purge_expired file_api co now j = (n, j')"
  then show "ja_get file_api k j' = (if live_at now (ja_get file_api k j) then ja_get file_api k j else None)"
    using file_purge_entries[of co now j] by (simp add: file_api_def file_get_def map_of_retain_live)
next
  fix j w k h c x
  assume "file_wf j"
  then show "file_wf (snd (ja_try_insert file_api w k h c x j))"
    by (simp add: file_api_def file_wf_insert)
next
  fix j w k r
  assume "file_wf j"
  then show "file_wf (snd (ja_settle file_api w k r j))"
    using file_settle_entries[OF surjective_pairing, of w k r j]
    by (auto simp: file_api_def dest: entries_wf_key split: option.splits)
next
  fix j co now
  assume "file_wf j"
  then show "file_wf (snd (ja_purge_expired file_api co now j))"
    by (simp add: file_api_def file_purge_entries entries_wf_retain_live)
qed

section \<open>Registrations across restarts\<close>

text \<open>A history of one journal file: calls on the open journal, and restarts, which lose the memory and
  open the file that is at the path. A restart whose opening fails ends the history.\<close>

datatype journal_event = Ev_Call journal_call | Ev_Restart open_io timestamp_ns

fun file_history :: "journal_event list \<Rightarrow> file_journal \<Rightarrow> (journal_answer list \<times> file_journal) option" where
  "file_history [] j = Some ([], j)"
| "file_history (Ev_Call c # evs) j =
     (let (a, j') = journal_step file_api c j in map_option (apfst (Cons a)) (file_history evs j'))"
| "file_history (Ev_Restart io now # evs) j =
     (case file_open io now (fj_disk j) of Inl _ \<Rightarrow> None | Inr j' \<Rightarrow> file_history evs j')"

text \<open>Events up to time \<open>t\<close> in which no compaction loses its file handle.\<close>

fun event_ok :: "timestamp_ns \<Rightarrow> journal_event \<Rightarrow> bool" where
  "event_ok t (Ev_Call (JC_Purge co now)) \<longleftrightarrow> now \<le> t \<and> co \<noteq> C_ReopenFailed"
| "event_ok t (Ev_Call c) \<longleftrightarrow> call_before t c"
| "event_ok t (Ev_Restart io now) \<longleftrightarrow> now \<le> t"

fun insert_core :: "disk_line \<Rightarrow> (idempotency_key \<times> string \<times> timestamp_ns \<times> timestamp_ns) option" where
  "insert_core (DL_Record (Rec_Insert k h s c x)) = Some (k, h, c, x)"
| "insert_core _ = None"

text \<open>The last registration of key \<open>k\<close> in a list of lines, starting from \<open>acc\<close>.\<close>

fun last_insert where
  "last_insert k acc [] = acc"
| "last_insert k acc (l # ls) =
     last_insert k (case insert_core l of None \<Rightarrow> acc | Some p \<Rightarrow> if fst p = k then Some p else acc) ls"

lemma last_insert_append: "last_insert k acc (ls @ ls') = last_insert k (last_insert k acc ls) ls'"
  by (induction k acc ls rule: last_insert.induct) simp_all

text \<open>\<open>disk_holds p d\<close>: the file shows registration \<open>p\<close> as the last one of its key, or it cannot be opened.\<close>

definition disk_holds :: "idempotency_key \<times> string \<times> timestamp_ns \<times> timestamp_ns \<Rightarrow> disk_file \<Rightarrow> bool" where
  "disk_holds p d \<longleftrightarrow> DL_Garbage \<in> set (df_lines d) \<or> last_insert (fst p) None (df_lines d) = Some p"

lemma disk_holds_append:
  assumes "disk_holds p d" and "\<And>q. insert_core l = Some q \<Longrightarrow> fst q \<noteq> fst p"
  shows "disk_holds p (append_line l u d)"
  using assms by (auto simp: disk_holds_def append_line_def last_insert_append split: option.splits)

lemma disk_holds_insert:
  "disk_holds (k, h, c, x) (append_line (DL_Record (Rec_Insert k h s c x)) u d)"
  by (simp add: disk_holds_def append_line_def last_insert_append)

lemma disk_holds_write:
  assumes "disk_holds p d" and "\<And>q. insert_core (DL_Record r) = Some q \<Longrightarrow> fst q \<noteq> fst p"
  shows "disk_holds p (snd (write_disk w r d))"
  using assms by (cases w) (auto simp: write_disk_def intro!: disk_holds_append)

subsection \<open>Replaying\<close>

lemma replay_no_garbage: "replay f now n ls es ex nc = Inr r \<Longrightarrow> DL_Garbage \<notin> set ls"
  by (induction f now n ls es ex nc rule: replay.induct)
    (auto split: if_splits disk_line.splits journal_record.splits option.splits)

lemma replay_wf: "replay f now n ls es ex nc = Inr (es', nc') \<Longrightarrow> entries_wf es \<Longrightarrow> entries_wf es'"
  by (induction f now n ls es ex nc rule: replay.induct)
    (auto split: if_splits disk_line.splits journal_record.splits option.splits)

lemma replay_last_insert:
  assumes "replay f now n ls es ex nc = Inr (es', nc')"
    and "\<And>p. acc = Some p \<Longrightarrow> now \<le> snd (snd (snd p)) \<Longrightarrow> map_option entry_core (map_of es k) = Some p"
    and "last_insert k acc ls = Some p" and "now \<le> snd (snd (snd p))"
  shows "map_option entry_core (map_of es' k) = Some p"
  using assms
proof (induction f now n ls es ex nc arbitrary: acc rule: replay.induct)
  case (2 f now n l ls es ex nc)
  have nf: "f \<noteq> Some n" using "2.prems"(1) by auto
  show ?case
  proof (cases l)
    case DL_Blank
    with "2.prems" nf show ?thesis by (intro "2.IH"(5)[OF nf DL_Blank, where acc = acc]) auto
  next
    case DL_Garbage
    with "2.prems" nf show ?thesis by auto
  next
    case (DL_Record r)
    show ?thesis
    proof (cases r)
      case (Rec_Insert k0 h s c x)
      note l = DL_Record Rec_Insert
      show ?thesis
      proof (cases "x < now")
        case True
        with l "2.prems" nf show ?thesis
          by (intro "2.IH"(1)[OF nf l True]) (auto split: if_splits)
      next
        case False
        with l "2.prems" nf show ?thesis
          by (intro "2.IH"(2)[OF nf l False])
            (auto simp: map_of_update entry_core_def fresh_entry_def split: if_splits)
      qed
    next
      case (Rec_Settle k0 res)
      note l = DL_Record Rec_Settle
      show ?thesis
      proof (cases "map_of es k0")
        case None
        with l "2.prems" nf have "k0 \<in> ex" by (auto split: if_splits)
        with None l "2.prems" nf show ?thesis
          by (intro "2.IH"(3)[OF nf l None]) auto
      next
        case (Some e)
        with l "2.prems" nf show ?thesis
          by (intro "2.IH"(4)[OF nf l Some]) (auto simp: map_of_update)
      qed
    qed
  qed
qed simp

subsection \<open>The invariant of one registration\<close>

definition holds :: "idempotency_key \<times> string \<times> timestamp_ns \<times> timestamp_ns \<Rightarrow> file_journal \<Rightarrow> bool" where
  "holds p j \<longleftrightarrow> file_wf j \<and> fj_detached j = None \<and> disk_holds p (fj_disk j) \<and>
     map_option entry_core (map_of (fj_entries j) (fst p)) = Some p"

lemma write_record_attached:
  assumes "fj_detached j = None" and "write_record w r j = (res, j')"
  shows "j' = j\<lparr>fj_disk := snd (write_disk w r (fj_disk j))\<rparr>" and "res = fst (write_disk w r (fj_disk j))"
  using assms by (auto simp: write_record_def Let_def split: prod.splits)

lemma last_insert_entry_lines:
  assumes "je_key e \<noteq> k"
  shows "last_insert k acc (entry_lines now e) = acc"
  using assms by (auto simp: entry_lines_def split: option.splits)

lemma last_insert_entry_lines_same:
  assumes "now \<le> je_expires_at_ns e"
  shows "last_insert (je_key e) acc (entry_lines now e) = Some (entry_core e)"
  using assms by (auto simp: entry_lines_def entry_core_def split: option.splits)

lemma last_insert_concat:
  assumes "entries_wf es" and "map_of es k = Some e" and "now \<le> je_expires_at_ns e"
  shows "last_insert k acc (concat (map (entry_lines now \<circ> snd) es)) = Some (entry_core e)"
  using assms
proof (induction es arbitrary: acc)
  case (Cons q es)
  obtain k0 e0 where q: "q = (k0, e0)" by (cases q)
  have wf: "entries_wf es" and key: "je_key e0 = k0" and new: "k0 \<notin> fst ` set es"
    using Cons.prems(1) q by (auto simp: entries_wf_def)
  show ?case
  proof (cases "k0 = k")
    case True
    then have e0: "e0 = e" using Cons.prems(2) q by simp
    have "last_insert k a (concat (map (entry_lines now \<circ> snd) es)) = a" for a
      using wf new True
    proof (induction es arbitrary: a)
      case (Cons q es)
      then have "entries_wf es" "je_key (snd q) \<noteq> k" "k \<notin> fst ` set es"
        by (auto simp: entries_wf_def)
      with Cons.IH Cons.prems show ?case
        by (simp add: last_insert_append last_insert_entry_lines)
    qed simp
    with True e0 key Cons.prems(3) q show ?thesis
      by (auto simp: last_insert_append last_insert_entry_lines_same comp_def)
  next
    case False
    with Cons.IH[OF wf] Cons.prems q key show ?thesis
      by (simp add: last_insert_append last_insert_entry_lines)
  qed
qed simp

lemma holds_compact:
  assumes "file_wf j" and "map_option entry_core (map_of (fj_entries j) (fst p)) = Some p"
    and "now \<le> snd (snd (snd p))" and "c \<noteq> C_ReopenFailed" and "compact c now j = (res, j')"
    and "c = C_Failed \<Longrightarrow> holds p j"
  shows "holds p j'"
proof (cases c)
  case C_Done
  obtain e where e: "map_of (fj_entries j) (fst p) = Some e" "entry_core e = p"
    using assms(2) by auto
  then have "now \<le> je_expires_at_ns e" using assms(3) by (auto simp: entry_core_def)
  from last_insert_concat[OF assms(1) e(1) this] e C_Done assms(5) show ?thesis
    using assms(1) by (auto simp: compact_def holds_def disk_holds_def)
qed (use assms in \<open>auto simp: compact_def\<close>)

lemma holds_open:
  assumes "disk_holds p (fj_disk j)" and "file_open io now (fj_disk j) = Inr j'" and "now \<le> snd (snd (snd p))"
  shows "holds p j'"
proof -
  obtain es nc where es: "replay (oi_read_fails io) now 1 (df_lines (fj_disk j)) [] {} False = Inr (es, nc)"
    using assms(2) by (auto simp: file_open_def result_simps)
  have wf: "entries_wf es" using replay_wf[OF es] by simp
  have "last_insert (fst p) None (df_lines (fj_disk j)) = Some p"
    using assms(1) replay_no_garbage[OF es] by (simp add: disk_holds_def)
  from replay_last_insert[OF es _ this assms(3)]
  have core: "map_option entry_core (map_of es (fst p)) = Some p" by simp
  define j0 where "j0 = \<lparr>fj_disk = fj_disk j, fj_detached = None,
    fj_entries = map (\<lambda>(k, e). (k, interrupted_entry now e)) es\<rparr>"
  have "file_wf j0"
    using wf by (auto simp: j0_def entries_wf_def comp_def case_prod_unfold)
  moreover have "map_of (fj_entries j0) (fst p) = map_option (interrupted_entry now) (map_of es (fst p))"
    by (simp add: j0_def map_of_map)
  then have core0: "map_option entry_core (map_of (fj_entries j0) (fst p)) = Some p"
    using core by (auto simp: option.map_comp comp_def)
  ultimately have h0: "holds p j0"
    using assms(1) by (simp add: holds_def j0_def)
  show ?thesis
  proof (cases nc)
    case True
    with assms(2) es obtain c where c: "compact (oi_compact io) now j0 = (Inr (), j')"
      by (auto simp: file_open_def j0_def Let_def split: if_splits prod.splits sum.splits)
    then have "oi_compact io \<noteq> C_ReopenFailed" by (auto simp: compact_def Let_def)
    from holds_compact[OF \<open>file_wf j0\<close> core0 assms(3) this c] h0 show ?thesis by simp
  next
    case False
    with assms(2) es h0 show ?thesis
      by (auto simp: file_open_def j0_def Let_def split: if_splits)
  qed
qed

lemma holds_step:
  assumes "holds p j" and "event_ok (snd (snd (snd p))) (Ev_Call c)" and "journal_step file_api c j = (a, j')"
  shows "holds p j' \<and> a \<noteq> JA_Insert (fst p) (Inr Inserted)"
proof -
  obtain e where e: "map_of (fj_entries j) (fst p) = Some e" "entry_core e = p"
    using assms(1) by (auto simp: holds_def)
  have x: "snd (snd (snd p)) = je_expires_at_ns e" using e by (auto simp: entry_core_def)
  have wf: "file_wf j" and att: "fj_detached j = None" and disk: "disk_holds p (fj_disk j)"
    using assms(1) by (auto simp: holds_def)
  have cb: "call_before (je_expires_at_ns e) c"
    using assms(2) x by (cases c) auto
  have g: "ja_get file_api (fst p) j = Some e" by (simp add: file_api_def file_get_def e)
  note step = filej.step_keeps_live[OF wf g cb assms(3)]
  then have core: "map_option entry_core (map_of (fj_entries j') (fst p)) = Some p"
    using e(2) by (auto simp: file_api_def file_get_def)
  have "fj_detached j' = None \<and> disk_holds p (fj_disk j')"
  proof (cases c)
    case (JC_Insert w k h t y)
    then obtain d where d: "file_try_insert w k h t y j = (d, j')"
      using assms(3) by (cases "file_try_insert w k h t y j") (auto simp: file_api_def)
    show ?thesis
    proof (cases "live_at t (map_of (fj_entries j) k)")
      case True
      then show ?thesis
        using d att disk by (auto simp: live_at_def file_insert_live split: option.splits)
    next
      case False
      then have "k \<noteq> fst p"
        using e cb JC_Insert by (auto simp: live_at_def)
      then have "disk_holds p (snd (write_disk w (Rec_Insert k h CS_Running t y) (fj_disk j)))"
        by (intro disk_holds_write[OF disk]) auto
      with file_try_insert_absent[OF False d] write_record_attached[OF att] att show ?thesis
        by fastforce
    qed
  next
    case (JC_Settle w k r)
    then obtain res where "file_settle w k r j = (res, j')"
      using assms(3) by (cases "file_settle w k r j") (auto simp: file_api_def)
    moreover have "disk_holds p (snd (write_disk w (Rec_Settle k r) (fj_disk j)))"
      by (intro disk_holds_write[OF disk]) auto
    ultimately show ?thesis
      using file_settle_cases write_record_attached[OF att] att disk by fastforce
  next
    case (JC_Purge co now)
    then obtain n where n: "file_purge_expired co now j = (n, j')"
      using assms(3) by (cases "file_purge_expired co now j") (auto simp: file_api_def)
    define j0 where "j0 = j\<lparr>fj_entries := retain_live now (fj_entries j)\<rparr>"
    have "map_of (fj_entries j0) (fst p) = Some e"
      using wf e cb JC_Purge by (simp add: j0_def map_of_retain_live live_at_def)
    moreover from this have h0: "holds p j0"
      using wf att disk e by (simp add: holds_def j0_def entries_wf_retain_live)
    ultimately have "holds p (snd (compact co now j0))"
      using holds_compact[OF _ _ _ _ surjective_pairing, of j0 p now co] assms(2) JC_Purge e
      by (auto simp: holds_def)
    with n h0 show ?thesis
      by (auto simp: file_purge_expired_def j0_def holds_def Let_def split: if_splits)
  qed
  with step core show ?thesis
    by (auto simp: holds_def)
qed

lemma holds_history:
  assumes "holds p j" and "\<forall>ev\<in>set evs. event_ok (snd (snd (snd p))) ev" and "file_history evs j = Some (as, j')"
  shows "holds p j' \<and> JA_Insert (fst p) (Inr Inserted) \<notin> set as"
  using assms
proof (induction evs j arbitrary: as rule: file_history.induct)
  case (2 c evs j)
  obtain a j1 where s: "journal_step file_api c j = (a, j1)" by (cases "journal_step file_api c j")
  obtain as1 where r: "file_history evs j1 = Some (as1, j')" and as: "as = a # as1"
    using "2.prems"(3) s by auto
  have "holds p j1 \<and> a \<noteq> JA_Insert (fst p) (Inr Inserted)"
    using holds_step[OF "2.prems"(1) _ s] "2.prems"(2) by simp
  with "2.IH"[OF s[symmetric] refl _ _ r] "2.prems"(2) as show ?case by auto
next
  case (3 io now evs j)
  obtain j1 where o: "file_open io now (fj_disk j) = Inr j1" and r: "file_history evs j1 = Some (as, j')"
    using "3.prems"(3) by (auto split: sum.splits)
  have "disk_holds p (fj_disk j)" and "now \<le> snd (snd (snd p))"
    using "3.prems"(1,2) by (simp_all add: holds_def)
  from holds_open[OF this(1) o this(2)] have "holds p j1" .
  with "3.IH"[OF o _ _ r] "3.prems"(2) show ?case by simp
qed simp

lemma holds_inserted:
  assumes "file_wf j" and "fj_detached j = None"
    and "file_try_insert w k h c x j = (Inr Inserted, j')"
  shows "holds (k, h, c, x) j'"
proof -
  have nl: "\<not> live_at c (map_of (fj_entries j) k)"
    using assms(3) by (auto simp: live_at_def file_insert_live split: option.splits if_splits)
  from file_try_insert_absent[OF nl assms(3)] obtain j1 where
      w: "write_record w (Rec_Insert k h CS_Running c x) j = (Inr (), j1)"
      and j': "j' = j1\<lparr>fj_entries := AList.update k (fresh_entry k h CS_Running c x) (fj_entries j)\<rparr>"
    by auto
  have "Inr () = fst (write_disk w (Rec_Insert k h CS_Running c x) (fj_disk j))"
    using write_record_attached(2)[OF assms(2) w] by simp
  then have "w = W_Done" by (cases w) (auto simp: write_disk_def)
  then have "disk_holds (k, h, c, x) (fj_disk j1)"
    using write_record_attached(1)[OF assms(2) w] by (simp add: write_disk_def disk_holds_insert)
  then show ?thesis
    using assms(1,2) write_record_attached(1)[OF assms(2) w] j'
    by (simp add: holds_def map_of_update) (simp add: entry_core_def fresh_entry_def)
qed

section \<open>Recovery is the in-memory journal with unsettled requests marked\<close>

text \<open>The map a list of lines stands for, and the shape of lines the journal itself writes.\<close>

fun disk_apply :: "disk_line \<Rightarrow> (idempotency_key \<rightharpoonup> journal_entry) \<Rightarrow> (idempotency_key \<rightharpoonup> journal_entry)" where
  "disk_apply (DL_Record (Rec_Insert k h s c x)) m = m(k \<mapsto> fresh_entry k h s c x)"
| "disk_apply (DL_Record (Rec_Settle k r)) m =
     (case m k of None \<Rightarrow> m | Some e \<Rightarrow> m(k \<mapsto> settle_journal_entry r e))"
| "disk_apply _ m = m"

fun line_ok :: "disk_line \<Rightarrow> (idempotency_key \<rightharpoonup> journal_entry) \<Rightarrow> bool" where
  "line_ok (DL_Record (Rec_Insert k h s c x)) m \<longleftrightarrow> (case m k of None \<Rightarrow> True | Some e \<Rightarrow> je_expires_at_ns e < x)"
| "line_ok (DL_Record (Rec_Settle k r)) m \<longleftrightarrow> m k \<noteq> None"
| "line_ok DL_Blank m \<longleftrightarrow> True"
| "line_ok DL_Garbage m \<longleftrightarrow> False"

fun lines_ok :: "(idempotency_key \<rightharpoonup> journal_entry) \<Rightarrow> disk_line list \<Rightarrow> bool" where
  "lines_ok m [] \<longleftrightarrow> True"
| "lines_ok m (l # ls) \<longleftrightarrow> line_ok l m \<and> lines_ok (disk_apply l m) ls"

definition unexpired :: "timestamp_ns \<Rightarrow> journal_entry option \<Rightarrow> journal_entry option" where
  "unexpired now e = (if live_at now e then e else None)"

lemma unexpired_simps [simp]:
  "unexpired now None = None"
  "unexpired now (Some e) = (if now \<le> je_expires_at_ns e then Some e else None)"
  by (simp_all add: unexpired_def live_at_def)

lemma expires_simps [simp]:
  "je_expires_at_ns (fresh_entry k h s c x) = x"
  "je_expires_at_ns (settle_journal_entry r e) = je_expires_at_ns e"
  "je_expires_at_ns (interrupted_entry now e) = je_expires_at_ns e"
  by (simp_all add: fresh_entry_def settle_journal_entry_def interrupted_entry_def)

lemma lines_ok_append: "lines_ok m (ls @ ls') \<longleftrightarrow> lines_ok m ls \<and> lines_ok (fold disk_apply ls m) ls'"
  by (induction m ls rule: lines_ok.induct) simp_all

lemma replay_disk_map:
  assumes "replay f now n ls es ex nc = Inr (es', nc')" and "lines_ok m ls"
    and "\<And>k. map_of es k = unexpired now (m k)"
  shows "map_of es' k = unexpired now (fold disk_apply ls m k)"
  using assms
proof (induction f now n ls es ex nc arbitrary: m rule: replay.induct)
  case (2 f now n l ls es ex nc)
  have nf: "f \<noteq> Some n" using "2.prems"(1) by auto
  have ok: "lines_ok (disk_apply l m) ls" using "2.prems"(2) by simp
  show ?case
  proof (cases l)
    case DL_Blank
    with "2.prems" nf "2.IH"(5)[OF nf DL_Blank, of m] show ?thesis by simp
  next
    case (DL_Record r)
    show ?thesis
    proof (cases r)
      case (Rec_Insert k0 h s c x)
      note l = DL_Record Rec_Insert
      show ?thesis
      proof (cases "x < now")
        case True
        have "map_of es k1 = unexpired now (disk_apply l m k1)" for k1
          using l True "2.prems"(2,3) by (auto split: option.splits)
        moreover have "replay f now (Suc n) ls es (insert k0 ex) True = Inr (es', nc')"
          using "2.prems"(1) l True nf by simp
        ultimately show ?thesis
          using "2.IH"(1)[OF nf l True _ ok] by (metis fold_simps(2))
      next
        case False
        have "map_of (AList.update k0 (fresh_entry k0 h s c x) es) k1 = unexpired now (disk_apply l m k1)" for k1
          using l False "2.prems"(3) by (simp add: map_of_update)
        moreover have "replay f now (Suc n) ls (AList.update k0 (fresh_entry k0 h s c x) es) ex nc = Inr (es', nc')"
          using "2.prems"(1) l False nf by simp
        ultimately show ?thesis
          using "2.IH"(2)[OF nf l False _ ok] by (metis fold_simps(2))
      qed
    next
      case (Rec_Settle k0 res)
      note l = DL_Record Rec_Settle
      obtain e0 where e0: "m k0 = Some e0" using l "2.prems"(2) by auto
      show ?thesis
      proof (cases "map_of es k0")
        case None
        with l "2.prems" nf have ex: "k0 \<in> ex" by (auto split: if_splits)
        have "map_of es k1 = unexpired now (disk_apply l m k1)" for k1
          using None l "2.prems"(3)[of k1] e0 by (auto split: if_splits)
        moreover have "replay f now (Suc n) ls es (ex - {k0}) nc = Inr (es', nc')"
          using "2.prems"(1) l None ex nf by simp
        ultimately show ?thesis
          using "2.IH"(3)[OF nf l None ex _ ok] by (metis fold_simps(2))
      next
        case (Some e)
        then have "e = e0" using "2.prems"(3)[of k0] e0 by (auto split: if_splits)
        then have "map_of (AList.update k0 (settle_journal_entry res e) es) k1 = unexpired now (disk_apply l m k1)" for k1
          using Some l "2.prems"(3)[of k1] e0 by (auto simp: map_of_update split: if_splits)
        moreover have "replay f now (Suc n) ls (AList.update k0 (settle_journal_entry res e) es) ex nc = Inr (es', nc')"
          using "2.prems"(1) l Some nf by simp
        ultimately show ?thesis
          using "2.IH"(4)[OF nf l Some _ ok] by (metis fold_simps(2))
      qed
    qed
  qed (use "2.prems" in auto)
qed simp

text \<open>Opening succeeds when no line has expired and the operating system does not fail.\<close>

fun line_live :: "timestamp_ns \<Rightarrow> disk_line \<Rightarrow> bool" where
  "line_live now (DL_Record (Rec_Insert k h s c x)) \<longleftrightarrow> now \<le> x"
| "line_live now _ \<longleftrightarrow> True"

lemma replay_succeeds:
  assumes "lines_ok m ls" and "\<forall>l\<in>set ls. line_live now l" and "\<And>k. map_of es k = m k"
  shows "\<exists>es'. replay None now n ls es ex nc = Inr (es', nc)"
  using assms
proof (induction ls arbitrary: n es m)
  case (Cons l ls)
  have ok: "lines_ok (disk_apply l m) ls" and live: "\<forall>l\<in>set ls. line_live now l"
    using Cons.prems by simp_all
  show ?case
  proof (cases l)
    case (DL_Record r)
    show ?thesis
    proof (cases r)
      case (Rec_Insert k h s c x)
      with DL_Record Cons.prems have "map_of (AList.update k (fresh_entry k h s c x) es) k1 = disk_apply l m k1" for k1
        by (simp add: map_of_update)
      from Cons.IH[OF ok live this] DL_Record Rec_Insert Cons.prems(2) show ?thesis
        by simp
    next
      case (Rec_Settle k r)
      with DL_Record Cons.prems obtain e where "m k = Some e" by auto
      with Rec_Settle DL_Record Cons.prems have
        "map_of (AList.update k (settle_journal_entry r e) es) k1 = disk_apply l m k1" for k1
        by (simp add: map_of_update)
      from Cons.IH[OF ok live this] DL_Record Rec_Settle Cons.prems(3)[of k] \<open>m k = Some e\<close> show ?thesis
        by simp
    qed
  qed (use Cons in auto)
qed simp

text \<open>Calls that the operating system carries out, with an expiry that does not lie before the creation.\<close>

fun call_durable :: "journal_call \<Rightarrow> bool" where
  "call_durable (JC_Insert w k h c x) \<longleftrightarrow> w = W_Done \<and> c \<le> x"
| "call_durable (JC_Settle w k r) \<longleftrightarrow> w = W_Done"
| "call_durable (JC_Purge co now) \<longleftrightarrow> co = C_Done"

definition in_sync :: "file_journal \<Rightarrow> journal_entries \<Rightarrow> bool" where
  "in_sync j es \<longleftrightarrow> fj_detached j = None \<and> \<not> df_open (fj_disk j) \<and> entries_wf es \<and> fj_entries j = es \<and>
     lines_ok Map.empty (df_lines (fj_disk j)) \<and> fold disk_apply (df_lines (fj_disk j)) Map.empty = map_of es"

lemma in_sync_write:
  assumes "in_sync j es" and "line_ok (DL_Record r) (map_of es)"
  shows "write_record W_Done r j = (Inr (), j\<lparr>fj_disk := append_line (DL_Record r) False (fj_disk j)\<rparr>)"
    and "lines_ok Map.empty (df_lines (append_line (DL_Record r) False (fj_disk j)))"
    and "fold disk_apply (df_lines (append_line (DL_Record r) False (fj_disk j))) Map.empty =
      disk_apply (DL_Record r) (map_of es)"
    and "\<not> df_open (append_line (DL_Record r) False (fj_disk j))"
  using assms
  by (simp_all add: in_sync_def write_record_def write_disk_def append_line_def lines_ok_append del: line_ok.simps disk_apply.simps)

lemma update_fun: "map_of (AList.update k v es) = (map_of es)(k \<mapsto> v)"
  by (simp add: update_conv')

lemma in_sync_insert:
  assumes "in_sync j es" and "c \<le> x"
  shows "\<exists>j'. file_try_insert W_Done k h c x j = (fst (mem_try_insert w k h c x es), j') \<and>
    in_sync j' (snd (mem_try_insert w k h c x es))"
proof (cases "live_at c (map_of es k)")
  case True
  then show ?thesis
    using assms(1) by (auto simp: in_sync_def file_try_insert_def mem_try_insert_def Let_def live_at_def split: option.splits)
next
  case False
  let ?r = "Rec_Insert k h CS_Running c x"
  have "line_ok (DL_Record ?r) (map_of es)"
    using False assms(2) by (auto simp: live_at_def split: option.splits)
  note w = in_sync_write[OF assms(1) this]
  have es: "fj_entries j = es" using assms(1) by (simp add: in_sync_def)
  let ?j' = "j\<lparr>fj_disk := append_line (DL_Record ?r) False (fj_disk j),
    fj_entries := AList.update k (fresh_entry k h CS_Running c x) es\<rparr>"
  have "file_try_insert W_Done k h c x j = (Inr Inserted, ?j')"
    using False es w(1) by (auto simp: file_try_insert_def Let_def live_at_def split: option.splits)
  moreover have "mem_try_insert w k h c x es =
      (Inr Inserted, AList.update k (fresh_entry k h CS_Running c x) es)"
    using False by (auto simp: mem_try_insert_def Let_def live_at_def split: option.splits)
  moreover have "in_sync ?j' (AList.update k (fresh_entry k h CS_Running c x) es)"
    using assms(1) w(2,3,4) by (simp add: in_sync_def update_fun)
  ultimately show ?thesis by simp
qed

lemma in_sync_settle:
  assumes "in_sync j es"
  shows "\<exists>j'. file_settle W_Done k r j = (fst (mem_settle w k r es), j') \<and> in_sync j' (snd (mem_settle w k r es))"
proof (cases "map_of es k")
  case None
  then show ?thesis
    using assms by (auto simp: in_sync_def file_settle_def mem_settle_def)
next
  case (Some e)
  let ?r = "Rec_Settle k r"
  have "line_ok (DL_Record ?r) (map_of es)" using Some by simp
  note w = in_sync_write[OF assms this]
  let ?j' = "j\<lparr>fj_disk := append_line (DL_Record ?r) False (fj_disk j),
    fj_entries := AList.update k (settle_journal_entry r e) es\<rparr>"
  have "fj_entries j = es" using assms by (simp add: in_sync_def)
  then have "file_settle W_Done k r j = (Inr (), ?j')"
    using Some w(1) by (simp add: file_settle_def)
  moreover have "in_sync ?j' (AList.update k (settle_journal_entry r e) es)"
    using assms Some w(2,3,4) by (simp add: in_sync_def update_fun)
  ultimately show ?thesis
    using Some by (simp add: mem_settle_def)
qed

lemma entry_lines_ok:
  assumes "m (je_key e) = None" and "entry_consistent e"
  shows "lines_ok m (entry_lines now e)"
    and "fold disk_apply (entry_lines now e) m = (if je_expires_at_ns e < now then m else m(je_key e \<mapsto> e))"
  using assms
  by (auto simp: entry_lines_def entry_consistent_def fresh_entry_def settle_journal_entry_def split: option.splits)

lemma compact_lines_ok:
  assumes "entries_wf es" and "\<And>k. k \<in> fst ` set es \<Longrightarrow> m k = None"
  shows "lines_ok m (concat (map (entry_lines now \<circ> snd) es)) \<and>
    fold disk_apply (concat (map (entry_lines now \<circ> snd) es)) m = m ++ map_of (retain_live now es)"
  using assms
proof (induction es arbitrary: m)
  case (Cons q es)
  obtain k e where q: "q = (k, e)" by (cases q)
  have wf: "entries_wf es" and k: "je_key e = k" and con: "entry_consistent e" and new: "k \<notin> fst ` set es"
    using Cons.prems(1) q by (auto simp: entries_wf_def)
  have none: "m (je_key e) = None" using Cons.prems(2) q k by auto
  note el = entry_lines_ok[of m e now, OF none con]
  let ?m = "if je_expires_at_ns e < now then m else m(je_key e \<mapsto> e)"
  have m: "?m k1 = None" if "k1 \<in> fst ` set es" for k1
  proof -
    have "k1 \<noteq> k" using that new by blast
    then show ?thesis using Cons.prems(2)[of k1] k that by (simp add: q)
  qed
  have "map_of (retain_live now es) k = None"
    using new by (auto simp: retain_live_def map_of_eq_None_iff)
  then have "?m ++ map_of (retain_live now es) = m ++ map_of (retain_live now (q # es))"
    using q k by (auto simp: retain_live_def map_add_def fun_eq_iff split: option.splits)
  with Cons.IH[OF wf m] el q show ?case
    by (simp add: lines_ok_append)
qed (simp add: retain_live_def)

lemma retain_live_idem: "retain_live now (retain_live now es) = retain_live now es"
  by (simp add: retain_live_def)

lemma in_sync_purge:
  assumes "in_sync j es"
  shows "\<exists>j'. file_purge_expired C_Done now j = (fst (mem_purge_expired co now es), j') \<and>
    in_sync j' (snd (mem_purge_expired co now es))"
proof -
  have es: "fj_entries j = es" and wf: "entries_wf es" using assms by (auto simp: in_sync_def)
  show ?thesis
  proof (cases "length es - length (retain_live now es) > 0")
    case True
    let ?live = "retain_live now es"
    let ?j' = "\<lparr>fj_disk = \<lparr>df_lines = concat (map (entry_lines now \<circ> snd) ?live), df_open = False\<rparr>,
      fj_detached = None, fj_entries = ?live\<rparr>"
    have "file_purge_expired C_Done now j = (length es - length ?live, ?j')"
      using True es by (simp add: file_purge_expired_def compact_def Let_def)
    moreover have "in_sync ?j' ?live"
      using compact_lines_ok[OF entries_wf_retain_live[OF wf, of now], of Map.empty now] entries_wf_retain_live[OF wf]
      by (simp add: in_sync_def retain_live_idem)
    ultimately show ?thesis by (simp add: mem_purge_expired_def)
  next
    case False
    then have "retain_live now es = es"
      using length_filter_less[of _ es "\<lambda>(k, e). now \<le> je_expires_at_ns e"]
      by (fastforce simp: retain_live_def intro: filter_True)
    then show ?thesis
      using assms es by (simp add: file_purge_expired_def mem_purge_expired_def in_sync_def)
  qed
qed

lemma in_sync_step:
  assumes "in_sync j es" and "call_durable c"
  shows "\<exists>j'. journal_step file_api c j = (fst (journal_step mem_api c es), j') \<and>
    in_sync j' (snd (journal_step mem_api c es))"
proof (cases c)
  case (JC_Insert w k h t x)
  with assms in_sync_insert[OF assms(1), of t x k h w] show ?thesis
    by (auto simp: file_api_def mem_api_def)
next
  case (JC_Settle w k r)
  with assms in_sync_settle[OF assms(1), of k r w] show ?thesis
    by (auto simp: file_api_def mem_api_def)
next
  case (JC_Purge co now)
  with assms in_sync_purge[OF assms(1), of now co] show ?thesis
    by (auto simp: file_api_def mem_api_def)
qed

lemma in_sync_run:
  assumes "in_sync j es" and "\<forall>c\<in>set cs. call_durable c"
  shows "\<exists>j'. journal_run file_api cs j = (fst (journal_run mem_api cs es), j') \<and>
    in_sync j' (snd (journal_run mem_api cs es))"
  using assms
proof (induction cs arbitrary: j es)
  case (Cons c cs)
  obtain j1 where j1: "journal_step file_api c j = (fst (journal_step mem_api c es), j1)"
      "in_sync j1 (snd (journal_step mem_api c es))"
    using in_sync_step[OF Cons.prems(1)] Cons.prems(2) by auto
  from Cons.IH[OF this(2)] Cons.prems(2) obtain j' where
      "journal_run file_api cs j1 = (fst (journal_run mem_api cs (snd (journal_step mem_api c es))), j')"
      "in_sync j' (snd (journal_run mem_api cs (snd (journal_step mem_api c es))))"
    by auto
  with j1(1) show ?case
    by (auto simp: case_prod_unfold Let_def)
qed simp

definition empty_file_journal :: file_journal where
  "empty_file_journal = \<lparr>fj_disk = \<lparr>df_lines = [], df_open = False\<rparr>, fj_detached = None, fj_entries = []\<rparr>"

lemma in_sync_empty: "in_sync empty_file_journal []"
  by (simp add: in_sync_def empty_file_journal_def)

lemma in_sync_open:
  assumes "in_sync j es" and "file_open io now (fj_disk j) = Inr j'"
  shows "file_get k j' = map_option (interrupted_entry now) (unexpired now (map_of es k))"
proof -
  obtain es' nc where es': "replay (oi_read_fails io) now 1 (df_lines (fj_disk j)) [] {} False = Inr (es', nc)"
    using assms(2) by (auto simp: file_open_def result_simps)
  have "fj_entries j' = map (\<lambda>(k, e). (k, interrupted_entry now e)) es'"
    using assms(2) es' by (auto simp: file_open_def Let_def split: if_splits prod.splits sum.splits dest!: compact_entries)
  moreover have "map_of es' k = unexpired now (map_of es k)"
    using replay_disk_map[OF es', of Map.empty k] assms(1) by (simp add: in_sync_def)
  ultimately show ?thesis
    by (simp add: file_get_def map_of_map)
qed

lemma in_sync_open_succeeds:
  assumes "in_sync j es" and "\<forall>l\<in>set (df_lines (fj_disk j)). line_live now l"
    and "oi_read_fails io = None" and "oi_append io"
  shows "\<exists>j'. file_open io now (fj_disk j) = Inr j'"
proof -
  have "\<exists>es'. replay None now 1 (df_lines (fj_disk j)) [] {} False = Inr (es', False)"
    using assms(1,2) by (intro replay_succeeds[of Map.empty]) (simp_all add: in_sync_def)
  with assms(3,4) show ?thesis
    by (auto simp: file_open_def Let_def)
qed

section \<open>Properties\<close>

definition example_key :: idempotency_key where
  "example_key = \<lparr>ik_namespace = ''plant-a'', ik_device_id = ''vfd-1'', ik_request_id = ''r-1''\<rparr>"

definition example_settled :: control_result where
  "example_settled = \<lparr>res_request_id = ''r-1'', res_namespace = ''plant-a'', res_device_id = ''vfd-1'',
     res_status = CS_Succeeded, res_started_at_ns = Some 5, res_completed_at_ns = Some 6,
     res_result = None, res_error = None\<rparr>"

definition good_io :: open_io where
  "good_io = \<lparr>oi_read_fails = None, oi_append = True, oi_compact = C_Done\<rparr>"

text \<open>C6: Once the file journal has acknowledged the registration of a key, that key is not registered a
  second time before it expires. This holds across any further calls and any restarts that open the journal, whatever
  the outcomes of the writes (failed, torn, unterminated, unsynchronised), as long as no compaction has replaced the file
  without being able to reopen it; and the registration with its payload hash is still there at the end.\<close>
theorem registered_once_until_expiry:
  assumes "file_wf j" and "fj_detached j = None"
    and "file_history (Ev_Call (JC_Insert w k h c x) # evs) j = Some (JA_Insert k (Inr Inserted) # answers, j')"
    and "\<forall>ev\<in>set evs. event_ok x ev"
  shows "JA_Insert k (Inr Inserted) \<notin> set answers \<and>
    (\<exists>e. file_get k j' = Some e \<and> je_payload_hash e = h \<and> je_created_at_ns e = c \<and> je_expires_at_ns e = x)"
proof -
  obtain j1 where ins: "file_try_insert w k h c x j = (Inr Inserted, j1)"
      and rest: "file_history evs j1 = Some (answers, j')"
    using assms(3) by (cases "file_try_insert w k h c x j") (auto simp: file_api_def)
  have "holds (k, h, c, x) j' \<and> JA_Insert k (Inr Inserted) \<notin> set answers"
    using holds_history[OF holds_inserted[OF assms(1,2) ins] _ rest] assms(4) by simp
  then show ?thesis
    by (auto simp: holds_def file_get_def entry_core_def)
qed

definition example_restart :: "journal_event list" where
  "example_restart = [Ev_Restart good_io 20, Ev_Call (JC_Insert W_Done example_key ''aa'' 30 130)]"

theorem registered_once_until_expiry_witness:
  "\<exists>answers j'. file_history (Ev_Call (JC_Insert W_Done example_key ''aa'' 1 100) # example_restart) empty_file_journal
       = Some (JA_Insert example_key (Inr Inserted) # answers, j') \<and>
     answers \<noteq> [] \<and> JA_Insert example_key (Inr Inserted) \<notin> set answers"
proof -
  have "file_history (Ev_Call (JC_Insert W_Done example_key ''aa'' 1 100) # example_restart) empty_file_journal =
      Some (JA_Insert example_key (Inr Inserted) #
        [JA_Insert example_key (Inr (Duplicate (interrupted_entry 20 (fresh_entry example_key ''aa'' CS_Running 1 100))))],
        \<lparr>fj_disk = \<lparr>df_lines = [DL_Record (Rec_Insert example_key ''aa'' CS_Running 1 100)], df_open = False\<rparr>,
         fj_detached = None,
         fj_entries = [(example_key, interrupted_entry 20 (fresh_entry example_key ''aa'' CS_Running 1 100))]\<rparr>)"
    by (simp add: example_restart_def file_api_def file_try_insert_def empty_file_journal_def write_record_def
        write_disk_def append_line_def file_open_def good_io_def Let_def interrupted_entry_def fresh_entry_def)
  with registered_once_until_expiry[OF _ _ this] show ?thesis
    by (fastforce simp: empty_file_journal_def example_restart_def)
qed

text \<open>C11: Opening the file of a journal refines the in-memory journal: after any sequence of calls that the
  operating system carried out, a reopened file journal holds exactly what an in-memory journal holds after the same
  calls, less the expired entries, with every unsettled entry turned into an interrupted one; the answers of the
  calls are the same; and opening succeeds when no line has expired.\<close>
theorem reopened_journal_refines_memory:
  assumes "\<forall>c\<in>set cs. call_durable c"
    and "journal_run file_api cs empty_file_journal = (answers, j)" and "journal_run mem_api cs [] = (answers', es)"
  shows "answers = answers'
    \<and> (\<forall>io now j' k. file_open io now (fj_disk j) = Inr j' \<longrightarrow>
         file_get k j' = map_option (interrupted_entry now) (unexpired now (mem_get k es)))
    \<and> (\<forall>now. (\<forall>l\<in>set (df_lines (fj_disk j)). line_live now l) \<longrightarrow> (\<exists>j'. file_open good_io now (fj_disk j) = Inr j'))"
proof -
  have "answers = answers'" and s: "in_sync j es"
    using in_sync_run[OF in_sync_empty assms(1)] assms(2,3) by auto
  then show ?thesis
    using in_sync_open[OF s] in_sync_open_succeeds[OF s, of _ good_io]
    by (auto simp: mem_get_def good_io_def)
qed

theorem reopened_journal_refines_memory_witness:
  "\<exists>j j'. journal_run file_api [JC_Insert W_Done example_key ''aa'' 1 100] empty_file_journal =
       ([JA_Insert example_key (Inr Inserted)], j) \<and> file_open good_io 7 (fj_disk j) = Inr j' \<and>
     file_get example_key j' = Some (interrupted_entry 7 (fresh_entry example_key ''aa'' CS_Running 1 100))"
proof -
  let ?cs = "[JC_Insert W_Done example_key ''aa'' 1 100]"
  let ?j = "\<lparr>fj_disk = \<lparr>df_lines = [DL_Record (Rec_Insert example_key ''aa'' CS_Running 1 100)], df_open = False\<rparr>,
     fj_detached = None, fj_entries = [(example_key, fresh_entry example_key ''aa'' CS_Running 1 100)]\<rparr>"
  have f: "journal_run file_api ?cs empty_file_journal = ([JA_Insert example_key (Inr Inserted)], ?j)"
    by (simp add: file_api_def file_try_insert_def empty_file_journal_def write_record_def write_disk_def append_line_def)
  have m: "journal_run mem_api ?cs [] =
      ([JA_Insert example_key (Inr Inserted)], [(example_key, fresh_entry example_key ''aa'' CS_Running 1 100)])"
    by (simp add: mem_api_def mem_try_insert_def)
  from reopened_journal_refines_memory[OF _ f m] obtain j' where "file_open good_io 7 (fj_disk ?j) = Inr j'"
    by (auto dest: spec[of _ 7])
  with f reopened_journal_refines_memory[OF _ f m] show ?thesis
    by (intro exI[of _ ?j] exI[of _ j']) (simp add: mem_get_def)
qed

lemma replay_second_settle:
  assumes "map_of es k = None" and "\<And>h s c x. DL_Record (Rec_Insert k h s c x) \<in> set ls \<Longrightarrow> x < now"
  shows "\<exists>e. replay fails now n (ls @ DL_Record (Rec_Settle k r) # DL_Record (Rec_Settle k r') # post) es expired nc = Inl e"
  using assms
proof (induction ls arbitrary: n es expired nc)
  case (Cons l ls)
  have late: "DL_Record (Rec_Insert k h s c x) \<in> set ls \<Longrightarrow> x < now" "l = DL_Record (Rec_Insert k h s c x) \<Longrightarrow> x < now" for h s c x
    using Cons.prems(2)[of h s c x] by auto
  note IH = Cons.IH[OF _ late(1)]
  show ?case
    using Cons.prems(1) late(2)
    by (cases l rule: insert_core.cases) (auto simp: update_conv' split: option.splits intro!: IH)
qed auto

text \<open>C26: An entry that is settled twice makes the journal unreadable. Take any state of the file journal that is attached to
  its file, with a complete last line, and settle a registered key twice, one settlement right after the other. Once the
  registrations of the key in the file have expired, opening the file fails, whatever is appended to it afterwards: the first
  settlement of a skipped registration is excused, the second is taken for a settlement without registration. (A compaction
  does not append to the file but replaces it.)\<close>
theorem second_settle_of_expired_is_corrupt:
  assumes "fj_detached j = None" "\<not> df_open (fj_disk j)" "file_get k j \<noteq> None"
    and "\<And>h s c x. DL_Record (Rec_Insert k h s c x) \<in> set (df_lines (fj_disk j)) \<Longrightarrow> x < now"
    and "file_settle W_Done k r j = (a, j1)" "file_settle W_Done k r' j1 = (a', j2)"
    and "df_lines d = df_lines (fj_disk j2) @ post"
  shows "\<exists>e. file_open io now d = Inl e"
proof -
  have "df_lines d = df_lines (fj_disk j) @ DL_Record (Rec_Settle k r) # DL_Record (Rec_Settle k r') # post"
    using assms(1-3,5-7)
    by (auto simp: file_settle_def file_get_def write_record_def write_disk_def append_line_def update_conv')
  moreover have "\<exists>e. replay (oi_read_fails io) now 1
      (df_lines (fj_disk j) @ DL_Record (Rec_Settle k r) # DL_Record (Rec_Settle k r') # post) [] {} False = Inl e"
    by (rule replay_second_settle) (simp_all add: assms(4))
  ultimately show ?thesis by (auto simp: file_open_def)
qed

theorem second_settle_of_expired_is_corrupt_witness:
  "\<exists>e. file_open good_io 101 (fj_disk (snd (journal_run file_api
     [JC_Insert W_Done example_key ''aa'' 1 100, JC_Settle W_Done example_key example_settled,
      JC_Settle W_Done example_key example_settled] empty_file_journal))) = Inl e"
proof -
  let ?j = "snd (file_try_insert W_Done example_key ''aa'' 1 100 empty_file_journal)"
  let ?settle = "file_settle W_Done example_key example_settled"
  have j: "?j = \<lparr>fj_disk = \<lparr>df_lines = [DL_Record (Rec_Insert example_key ''aa'' CS_Running 1 100)], df_open = False\<rparr>,
      fj_detached = None, fj_entries = [(example_key, fresh_entry example_key ''aa'' CS_Running 1 100)]\<rparr>"
    by (simp add: file_try_insert_def empty_file_journal_def write_record_def write_disk_def append_line_def)
  have "\<exists>e. file_open good_io 101 (fj_disk (snd (?settle (snd (?settle ?j))))) = Inl e"
    by (rule second_settle_of_expired_is_corrupt[of ?j example_key _ _ _ _ _ _ _ _ "[]", OF _ _ _ _ surjective_pairing surjective_pairing])
      (simp_all add: j file_get_def)
  then show ?thesis by (simp add: file_api_def case_prod_beta)
qed

text \<open>A compaction that replaced the file but could not reopen it leaves the handle on the replaced file: a
  registration acknowledged afterwards is not in the file that a restart reads.\<close>

theorem detached_registration_is_lost:
  assumes "fj_detached j = Some old" and "map_of (fj_entries j) k = None"
    and "last_insert k None (df_lines (fj_disk j)) = None"
  shows "\<exists>j'. file_try_insert W_Done k h c x j = (Inr Inserted, j') \<and>
    last_insert k None (df_lines (fj_disk j')) = None"
  using assms by (simp add: file_try_insert_def write_record_def write_disk_def)

end
