(* ===== verification/Control_Audit.thy ===== *)
theory Control_Audit
  imports Control_Types
begin

text \<open>
  \<^verbatim>\<open>crates/control-engine/src/audit.rs\<close>: audit events, the redacted summaries of request values and the
  bounded write to the audit sink. SHA-256 and the printing of floats are library code: they are the
  parameters \<open>sha256\<close> (hexadecimal digest) and \<open>show_f32\<close>, \<open>show_f64\<close> of the summaries, collected in
  \<open>audit_env\<close> with the salt of the process.
\<close>

datatype audit_operation = AO_PropertyWrite | AO_CommandExecute

record audit_parameter =
  ap_name :: string
  ap_kind :: string
  ap_summary :: string

record audit_event =
  ae_user :: string
  ae_source :: string
  ae_namespace :: string
  ae_device_id :: device_id
  ae_request_id :: string
  ae_operation :: audit_operation
  ae_target :: string
  ae_parameters :: "audit_parameter list"
  ae_risk_level :: "risk_level option"
  ae_status :: control_status
  ae_error_code :: "string option"
  ae_protocol_code :: "int option"
  ae_duration_ms :: int
  ae_occurred_at_ns :: timestamp_ns

record audit_env =
  au_sha256 :: "bytes \<Rightarrow> string"
  au_salt :: bytes
  au_show_f32 :: "u32 \<Rightarrow> string"
  au_show_f64 :: "u64 \<Rightarrow> string"

section \<open>Summaries\<close>

definition int_to_string :: "int \<Rightarrow> string" where
  "int_to_string i = (if i < 0 then CHR ''-'' # nat_to_string (nat (- i)) else nat_to_string (nat i))"

definition numeric :: "string \<Rightarrow> string \<Rightarrow> audit_parameter" where
  "numeric kind summary = \<lparr>ap_name = ''value'', ap_kind = kind, ap_summary = summary\<rparr>"

definition redact_hashed :: "audit_env \<Rightarrow> string \<Rightarrow> bytes \<Rightarrow> audit_parameter" where
  "redact_hashed env kind bs =
     (let prefix = au_sha256 env (au_salt env @ bs) in
      \<lparr>ap_name = ''value'', ap_kind = kind,
       ap_summary = ''<'' @ kind @ ''> len='' @ nat_to_string (length bs) @ '' sha256='' @
         take (min (length prefix) 12) prefix\<rparr>)"

fun join :: "string \<Rightarrow> string list \<Rightarrow> string" where
  "join sep [] = []"
| "join sep [s] = s"
| "join sep (s # ss) = s @ sep @ join sep ss"

text \<open>The two words of the format strings in UTF-8.\<close>

definition elements_label :: string where
  "elements_label = [CHR 0xE5, CHR 0x85, CHR 0x83, CHR 0xE7, CHR 0xB4, CHR 0xA0, CHR 0xE6, CHR 0x95, CHR 0xB0, CHR ''='']"

definition fields_label :: string where
  "fields_label = [CHR 0xE5, CHR 0xAD, CHR 0x97, CHR 0xE6, CHR 0xAE, CHR 0xB5, CHR ''='']"

definition summarize_value :: "audit_env \<Rightarrow> sem_value \<Rightarrow> audit_parameter" where
  "summarize_value env v =
     (case v of
        V_Bool b \<Rightarrow> \<lparr>ap_name = ''value'', ap_kind = ''bool'', ap_summary = (if b then ''true'' else ''false'')\<rparr>
      | V_I8 w \<Rightarrow> numeric ''i8'' (int_to_string (sint w))
      | V_I16 w \<Rightarrow> numeric ''i16'' (int_to_string (sint w))
      | V_I32 w \<Rightarrow> numeric ''i32'' (int_to_string (sint w))
      | V_I64 w \<Rightarrow> numeric ''i64'' (int_to_string (sint w))
      | V_U8 w \<Rightarrow> numeric ''u8'' (int_to_string (uint w))
      | V_U16 w \<Rightarrow> numeric ''u16'' (int_to_string (uint w))
      | V_U32 w \<Rightarrow> numeric ''u32'' (int_to_string (uint w))
      | V_U64 w \<Rightarrow> numeric ''u64'' (int_to_string (uint w))
      | V_F32 w \<Rightarrow> numeric ''f32'' (au_show_f32 env w)
      | V_F64 w \<Rightarrow> numeric ''f64'' (au_show_f64 env w)
      | V_String s \<Rightarrow> redact_hashed env ''string'' (string_bytes s)
      | V_Bytes bs \<Rightarrow> redact_hashed env ''bytes'' bs
      | V_Array items \<Rightarrow>
          \<lparr>ap_name = ''value'', ap_kind = ''array'',
           ap_summary = ''<array> '' @ elements_label @ nat_to_string (length items)\<rparr>
      | V_Struct flds \<Rightarrow>
          \<lparr>ap_name = ''value'', ap_kind = ''struct'',
           ap_summary = ''<struct> '' @ fields_label @ nat_to_string (length flds) @ '' ['' @
             join '','' (map fst flds) @ '']''\<rparr>)"

text \<open>\<^verbatim>\<open>summarize_parameters\<close>: the target text and one summary for each value, named after its path or
  parameter.\<close>

fun summarize_parameters :: "audit_env \<Rightarrow> control_operation \<Rightarrow> string \<times> audit_parameter list" where
  "summarize_parameters env (PropertyWrite items) =
     (join '','' (map pwi_path items),
      map (\<lambda>i. (summarize_value env (pwi_value i))\<lparr>ap_name := pwi_path i\<rparr>) items)"
| "summarize_parameters env (CommandExecute c) =
     (cr_command c,
      map (\<lambda>p. (summarize_value env (cp_value p))\<lparr>ap_name := cp_name p\<rparr>) (cr_parameters c))"

section \<open>Events\<close>

record audit_event_context =
  ac_user :: string
  ac_source :: string
  ac_namespace :: string
  ac_device_id :: device_id
  ac_request_id :: string

record audit_event_outcome =
  ao_status :: control_status
  ao_error_code :: "string option"
  ao_protocol_code :: "int option"
  ao_duration_ms :: int
  ao_occurred_at_ns :: timestamp_ns

definition build_event ::
  "audit_event_context \<Rightarrow> audit_operation \<Rightarrow> string \<Rightarrow> audit_parameter list \<Rightarrow> risk_level option
     \<Rightarrow> audit_event_outcome \<Rightarrow> audit_event" where
  "build_event ctx op target parameters risk outcome =
     \<lparr>ae_user = ac_user ctx, ae_source = ac_source ctx, ae_namespace = ac_namespace ctx,
      ae_device_id = ac_device_id ctx, ae_request_id = ac_request_id ctx, ae_operation = op,
      ae_target = target, ae_parameters = parameters, ae_risk_level = risk,
      ae_status = ao_status outcome, ae_error_code = ao_error_code outcome,
      ae_protocol_code = ao_protocol_code outcome, ae_duration_ms = ao_duration_ms outcome,
      ae_occurred_at_ns = ao_occurred_at_ns outcome\<rparr>"

section \<open>Bounded recording\<close>

text \<open>One attempt of \<^verbatim>\<open>record_bounded\<close>: the sink finished, or it was cut off at its time limit, with or without
  having stored the event; or no budget was left, which ends the loop. The sink is the list of the stored events.\<close>

datatype record_attempt = RA_Done | RA_Timeout bool | RA_NoBudget

fun record_attempts :: "nat \<Rightarrow> record_attempt list \<Rightarrow> audit_event \<Rightarrow> audit_event list \<Rightarrow> bool \<times> audit_event list" where
  "record_attempts 0 as ev sink = (False, sink)"
| "record_attempts (Suc n) [] ev sink = (False, sink)"
| "record_attempts (Suc n) (a # as) ev sink =
     (case a of
        RA_Done \<Rightarrow> (True, sink @ [ev])
      | RA_NoBudget \<Rightarrow> (False, sink)
      | RA_Timeout stored \<Rightarrow> record_attempts n as ev (if stored then sink @ [ev] else sink))"

definition record_bounded :: "record_attempt list \<Rightarrow> audit_event \<Rightarrow> audit_event list \<Rightarrow> bool \<times> audit_event list" where
  "record_bounded as ev sink = record_attempts 2 as ev sink"

lemma record_attempts_stored:
  "\<exists>k\<le>n. snd (record_attempts n as ev sink) = sink @ replicate k ev \<and> (fst (record_attempts n as ev sink) \<longrightarrow> 0 < k)"
proof (induction n as ev sink rule: record_attempts.induct)
  case (3 n a as ev sink)
  show ?case
  proof (cases a)
    case (RA_Timeout stored)
    from "3.IH"[OF RA_Timeout] obtain k where k: "k \<le> n"
        "snd (record_attempts n as ev (if stored then sink @ [ev] else sink)) =
         (if stored then sink @ [ev] else sink) @ replicate k ev"
        "fst (record_attempts n as ev (if stored then sink @ [ev] else sink)) \<longrightarrow> 0 < k"
      by auto
    show ?thesis
    proof (cases stored)
      case True
      with k RA_Timeout show ?thesis
        by (intro exI[of _ "Suc k"]) (simp add: replicate_append_same)
    next
      case False
      with k RA_Timeout show ?thesis
        by (intro exI[of _ k]) simp
    qed
  qed (auto intro: exI[of _ 1] exI[of _ 0])
qed auto

section \<open>Redaction\<close>

text \<open>What a summary may depend on: everything of a number, the length and the truncated salted digest of a string
  or byte sequence, the number of the elements of an array, the field names of a structure.\<close>

fun visible :: "audit_env \<Rightarrow> sem_value \<Rightarrow> sem_value \<Rightarrow> bool" where
  "visible env (V_String s) (V_String t) \<longleftrightarrow>
     length s = length t \<and>
     take 12 (au_sha256 env (au_salt env @ string_bytes s)) = take 12 (au_sha256 env (au_salt env @ string_bytes t))"
| "visible env (V_Bytes s) (V_Bytes t) \<longleftrightarrow>
     length s = length t \<and> take 12 (au_sha256 env (au_salt env @ s)) = take 12 (au_sha256 env (au_salt env @ t))"
| "visible env (V_Array xs) (V_Array ys) \<longleftrightarrow> length xs = length ys"
| "visible env (V_Struct xs) (V_Struct ys) \<longleftrightarrow> map fst xs = map fst ys"
| "visible env v w \<longleftrightarrow> v = w"

lemma string_bytes_length [simp]: "length (string_bytes s) = length s"
  by (simp add: string_bytes_def)

lemma take_min_12: "take (min (length xs) 12) xs = take 12 xs"
  by (simp add: min_def)

lemma summarize_value_visible:
  assumes "visible env v w"
  shows "summarize_value env v = summarize_value env w"
proof -
  have len: "map fst xs = map fst ys \<Longrightarrow> length xs = length ys"
    for xs ys :: "(string \<times> sem_value) list"
    by (metis length_map)
  show ?thesis
    using assms
    by (cases "(env, v, w)" rule: visible.cases)
      (auto simp: summarize_value_def redact_hashed_def Let_def take_min_12 dest: len)
qed

end
