(* ===== verification/Control_Queue.thy ===== *)
theory Control_Queue
  imports Control_Operation Control_Journal Control_Audit
begin

text \<open>
  \<^verbatim>\<open>crates/control-engine/src/queue.rs\<close> (with \<^verbatim>\<open>metrics.rs\<close>): the bounded control queue of one device and its
  worker. \<open>queue_inner\<close> is what the mutex guards. An \<^verbatim>\<open>Arc<SharedResult>\<close> and a \<^verbatim>\<open>CancellationToken\<close> are
  identities: \<open>cx_shared\<close> and \<open>cx_cancelled\<close> of the engine context say what they hold, so that the clones of an entry
  share them. The worker is a program counter (\<open>pc\<close>): a step goes from one lock section or await point to the next,
  so that the steps of the worker, of callers and of a forced stop interleave as the tasks do. The clocks,
  the outcomes of disk, audit sink, executor and precondition checker are arguments of the steps.
\<close>

section \<open>Metrics\<close>

record control_metrics =
  mx_queue_depth :: nat
  mx_device_depth :: "device_id \<rightharpoonup> nat"
  mx_settled :: "control_status \<Rightarrow> nat"
  mx_cooldown_entered :: nat
  mx_journal_settle_failed :: nat

definition observe_enqueued :: "device_id \<Rightarrow> control_metrics \<Rightarrow> control_metrics" where
  "observe_enqueued d m =
     m\<lparr>mx_queue_depth := mx_queue_depth m + 1,
       mx_device_depth := (mx_device_depth m)(d := map_option (\<lambda>n. n + 1) (mx_device_depth m d))\<rparr>"

definition observe_settled_exit :: "device_id \<Rightarrow> control_metrics \<Rightarrow> control_metrics" where
  "observe_settled_exit d m =
     m\<lparr>mx_queue_depth := mx_queue_depth m - 1,
       mx_device_depth := (mx_device_depth m)(d := map_option (\<lambda>n. n - 1) (mx_device_depth m d))\<rparr>"

definition observe_settled :: "control_status \<Rightarrow> control_metrics \<Rightarrow> control_metrics" where
  "observe_settled s m =
     (if s = CS_Accepted \<or> s = CS_Running then m
      else m\<lparr>mx_settled := (mx_settled m)(s := mx_settled m s + 1)\<rparr>)"

definition observe_cooldown_entered :: "control_metrics \<Rightarrow> control_metrics" where
  "observe_cooldown_entered m = m\<lparr>mx_cooldown_entered := mx_cooldown_entered m + 1\<rparr>"

definition observe_journal_settle_failed :: "control_metrics \<Rightarrow> control_metrics" where
  "observe_journal_settle_failed m = m\<lparr>mx_journal_settle_failed := mx_journal_settle_failed m + 1\<rparr>"

section \<open>Entries and the queue\<close>

record audit_meta =
  mt_operation :: audit_operation
  mt_target :: string
  mt_parameters :: "audit_parameter list"
  mt_risk_level :: "risk_level option"
  mt_queued_at_ns :: timestamp_ns

record queued_entry =
  qe_key :: idempotency_key
  qe_operation :: validated_operation
  qe_subject :: string
  qe_source :: string
  qe_deadline :: nat
  qe_cancel :: nat
  qe_reply :: nat
  qe_audit_meta :: audit_meta

datatype enqueue_error = EE_Full nat | EE_Closed

datatype cancel_outcome = CO_Marked | CO_NotFound | CO_Closed

record queue_inner =
  qi_entries :: "priority \<Rightarrow> queued_entry list"
  qi_capacity :: nat
  qi_closed :: bool
  qi_len :: nat
  qi_running :: "queued_entry option"
  qi_draining :: "queued_entry list"
  qi_cooldown_until :: "nat option"

definition queue_new :: "nat \<Rightarrow> queue_inner" where
  "queue_new capacity =
     \<lparr>qi_entries = (\<lambda>_. []), qi_capacity = capacity, qi_closed = False, qi_len = 0, qi_running = None,
      qi_draining = [], qi_cooldown_until = None\<rparr>"

text \<open>The engine context. \<open>cx_dispatched\<close> records the calls of the executor.\<close>

record 'j engine_ctx =
  cx_journal :: 'j
  cx_active :: "idempotency_key \<rightharpoonup> nat"
  cx_shared :: "nat \<Rightarrow> control_result option"
  cx_cancelled :: "nat set"
  cx_sink :: "audit_event list"
  cx_metrics :: control_metrics
  cx_dispatched :: "(idempotency_key \<times> nat) list"

definition is_set :: "'j engine_ctx \<Rightarrow> queued_entry \<Rightarrow> bool" where
  "is_set cx e \<longleftrightarrow> cx_shared cx (qe_reply e) \<noteq> None"

definition is_cancelled :: "'j engine_ctx \<Rightarrow> queued_entry \<Rightarrow> bool" where
  "is_cancelled cx e \<longleftrightarrow> qe_cancel e \<in> cx_cancelled cx"

definition in_cooldown :: "nat \<Rightarrow> queue_inner \<Rightarrow> bool" where
  "in_cooldown t q \<longleftrightarrow> (case qi_cooldown_until q of None \<Rightarrow> False | Some u \<Rightarrow> t < u)"

text \<open>The map iterates its keys in ascending order.\<close>

definition priorities :: "priority list" where
  "priorities = [Prio_Low, Prio_Medium, Prio_High, Prio_Critical]"

definition all_entries :: "queue_inner \<Rightarrow> queued_entry list" where
  "all_entries q = concat (map (qi_entries q) priorities)"

definition enqueue ::
  "control_policy \<Rightarrow> bool \<Rightarrow> queued_entry \<Rightarrow> queue_inner \<Rightarrow> enqueue_error + queue_inner" where
  "enqueue policy engine_closed e q =
     (if qi_closed q \<or> engine_closed then Inl EE_Closed
      else if qi_capacity q \<le> qi_len q then Inl (EE_Full (qi_capacity q))
      else
        let p = policy_priority policy (op_kind (qe_operation e)) in
        Inr (q\<lparr>qi_entries := (qi_entries q)(p := qi_entries q p @ [e]), qi_len := qi_len q + 1\<rparr>))"

text \<open>Keys match on namespace and request; the device is that of the queue.\<close>

definition same_request :: "idempotency_key \<Rightarrow> queued_entry \<Rightarrow> bool" where
  "same_request key e \<longleftrightarrow>
     ik_namespace (qe_key e) = ik_namespace key \<and> ik_request_id (qe_key e) = ik_request_id key"

definition peek_kind :: "idempotency_key \<Rightarrow> queue_inner \<Rightarrow> operation_kind option" where
  "peek_kind key q =
     (case find (same_request key) (all_entries q) of
        Some e \<Rightarrow> Some (op_kind (qe_operation e))
      | None \<Rightarrow>
          (case qi_running q of
             None \<Rightarrow> None
           | Some e \<Rightarrow> if same_request key e then Some (op_kind (qe_operation e)) else None))"

definition cancel_token :: "nat \<Rightarrow> 'j engine_ctx \<Rightarrow> 'j engine_ctx" where
  "cancel_token t cx = cx\<lparr>cx_cancelled := insert t (cx_cancelled cx)\<rparr>"

definition queue_cancel :: "idempotency_key \<Rightarrow> queue_inner \<Rightarrow> 'j engine_ctx \<Rightarrow> cancel_outcome \<times> 'j engine_ctx" where
  "queue_cancel key q cx =
     (if qi_closed q then (CO_Closed, cx)
      else case find (same_request key) (all_entries q) of
        Some e \<Rightarrow> (CO_Marked, cancel_token (qe_cancel e) cx)
      | None \<Rightarrow>
          (case qi_running q of
             Some e \<Rightarrow> if same_request key e then (CO_Marked, cancel_token (qe_cancel e) cx) else (CO_NotFound, cx)
           | None \<Rightarrow> (CO_NotFound, cx)))"

definition queue_shutdown :: "queue_inner \<Rightarrow> queue_inner" where
  "queue_shutdown q = q\<lparr>qi_closed := True\<rparr>"

section \<open>Selection\<close>

text \<open>The effective priority of the front of one deque: \<open>t\<close> is \<^verbatim>\<open>Instant::now()\<close>, \<open>now\<close> is \<^verbatim>\<open>now_ns()\<close>. Integer
  division truncates, as in Rust; \<open>aging\<close> is read as \<^verbatim>\<open>aging_ms as i64\<close>.\<close>

definition tdiv :: "int \<Rightarrow> int \<Rightarrow> int" where
  "tdiv a b = sgn a * sgn b * (\<bar>a\<bar> div \<bar>b\<bar>)"

definition as_i64 :: "nat \<Rightarrow> int" where
  "as_i64 n = (let m = int n mod 2 ^ 64 in if m < 2 ^ 63 then m else m - 2 ^ 64)"

definition clamp :: "int \<Rightarrow> int \<Rightarrow> int \<Rightarrow> int" where
  "clamp x lo hi = (if x < lo then lo else if hi < x then hi else x)"

definition effective_priority ::
  "control_policy \<Rightarrow> nat \<Rightarrow> timestamp_ns \<Rightarrow> 'j engine_ctx \<Rightarrow> priority \<Rightarrow> queued_entry \<Rightarrow> int" where
  "effective_priority policy t now cx p front =
     (let ready = \<not> is_cancelled cx front \<and> t < qe_deadline front;
          base = priority_rank p;
          aging = priority_aging_ms policy;
          boost = (if 0 < aging \<and> ready then
                     let waited = tdiv (sat_sub now (mt_queued_at_ns (qe_audit_meta front))) 1000000 in
                     clamp (tdiv waited (as_i64 aging)) 0 (3 - base)
                   else 0)
      in base + boost)"

definition better :: "(int \<times> priority) option \<Rightarrow> int \<times> priority \<Rightarrow> (int \<times> priority) option" where
  "better best cand =
     (case best of None \<Rightarrow> Some cand | Some b \<Rightarrow> if fst b < fst cand then Some cand else Some b)"

definition select_priority ::
  "control_policy \<Rightarrow> nat \<Rightarrow> timestamp_ns \<Rightarrow> 'j engine_ctx \<Rightarrow> queue_inner \<Rightarrow> priority option" where
  "select_priority policy t now cx q =
     map_option snd
       (fold (\<lambda>p best. case qi_entries q p of
                [] \<Rightarrow> best
              | front # _ \<Rightarrow> better best (effective_priority policy t now cx p front, p))
          (rev priorities) None)"

datatype picked_kind = PK_Ready | PK_Cancelled | PK_Expired

definition pick ::
  "control_policy \<Rightarrow> nat \<Rightarrow> timestamp_ns \<Rightarrow> 'j engine_ctx \<Rightarrow> queue_inner
     \<Rightarrow> (queued_entry \<times> picked_kind) option \<times> queue_inner" where
  "pick policy t now cx q =
     (if in_cooldown t q then (None, q)
      else case select_priority policy t now cx q of
        None \<Rightarrow> (None, q)
      | Some p \<Rightarrow>
          (case qi_entries q p of
             [] \<Rightarrow> (None, q)
           | front # rest \<Rightarrow>
               (Some (front,
                  if is_cancelled cx front then PK_Cancelled
                  else if qe_deadline front \<le> t then PK_Expired else PK_Ready),
                q\<lparr>qi_entries := (qi_entries q)(p := rest), qi_len := qi_len q - 1\<rparr>)))"

section \<open>Settling\<close>

datatype run_result = RR_Done control_result | RR_Timeout | RR_Cancelled | RR_Indeterminate string

definition settled_result :: "queued_entry \<Rightarrow> control_status \<Rightarrow> timestamp_ns option \<Rightarrow> timestamp_ns \<Rightarrow> string \<Rightarrow> control_result" where
  "settled_result e status started completed code =
     \<lparr>res_request_id = ik_request_id (qe_key e), res_namespace = ik_namespace (qe_key e),
      res_device_id = ik_device_id (qe_key e), res_status = status, res_started_at_ns = started,
      res_completed_at_ns = Some completed, res_result = None, res_error = Some (coded_error code)\<rparr>"

definition run_to_result :: "queued_entry \<Rightarrow> timestamp_ns \<Rightarrow> run_result \<Rightarrow> control_result" where
  "run_to_result e completed run =
     (case run of
        RR_Done r \<Rightarrow> r
      | RR_Timeout \<Rightarrow> settled_result e CS_Timeout None completed ''TIMEOUT''
      | RR_Cancelled \<Rightarrow> settled_result e CS_Cancelled None completed ''CANCELLED''
      | RR_Indeterminate code \<Rightarrow> settled_result e CS_Indeterminate (Some completed) completed code)
     \<lparr>res_completed_at_ns := Some completed, res_request_id := ik_request_id (qe_key e),
      res_namespace := ik_namespace (qe_key e)\<rparr>"

text \<open>How the journal update of a settlement goes: it is carried out; it is skipped because the budget of the forced
  stop is used up; or the wait for it times out, while the update itself may still happen.\<close>

datatype settle_io = SI_Write write_outcome | SI_Skip | SI_TimedOut "write_outcome option"

definition degrade :: "control_result \<Rightarrow> control_result" where
  "degrade r = failed_with CS_Indeterminate (coded_error ''JOURNAL_SETTLE_FAILED'') r"

fun settle_journal ::
  "'j journal_api \<Rightarrow> settle_io \<Rightarrow> idempotency_key \<Rightarrow> control_result \<Rightarrow> 'j engine_ctx \<Rightarrow> control_result \<times> 'j engine_ctx" where
  "settle_journal api SI_Skip key r cx = (r, cx)"
| "settle_journal api (SI_TimedOut None) key r cx = (r, cx)"
| "settle_journal api (SI_TimedOut (Some w)) key r cx =
     (r, cx\<lparr>cx_journal := snd (ja_settle api w key r (cx_journal cx))\<rparr>)"
| "settle_journal api (SI_Write w) key r cx =
     (case ja_settle api w key r (cx_journal cx) of
        (Inr _, j) \<Rightarrow> (r, cx\<lparr>cx_journal := j\<rparr>)
      | (Inl _, j) \<Rightarrow>
          (degrade r, cx\<lparr>cx_journal := j, cx_metrics := observe_journal_settle_failed (cx_metrics cx)\<rparr>))"

text \<open>First half of \<^verbatim>\<open>settle_entry\<close>, up to the journal.\<close>

definition settle_begin ::
  "'j journal_api \<Rightarrow> settle_io \<Rightarrow> timestamp_ns \<Rightarrow> queued_entry \<Rightarrow> run_result \<Rightarrow> 'j engine_ctx
     \<Rightarrow> control_result \<times> 'j engine_ctx" where
  "settle_begin api io completed e run cx =
     settle_journal api io (qe_key e) (run_to_result e completed run)
       (cx\<lparr>cx_metrics := observe_settled_exit (ik_device_id (qe_key e)) (cx_metrics cx)\<rparr>)"

definition remove_active :: "idempotency_key \<Rightarrow> 'j engine_ctx \<Rightarrow> 'j engine_ctx" where
  "remove_active key cx = cx\<lparr>cx_active := (cx_active cx)(key := None)\<rparr>"

definition set_shared :: "nat \<Rightarrow> control_result \<Rightarrow> 'j engine_ctx \<Rightarrow> 'j engine_ctx" where
  "set_shared s r cx = cx\<lparr>cx_shared := (cx_shared cx)(s \<mapsto> r)\<rparr>"

definition result_protocol_code :: "control_result \<Rightarrow> int option" where
  "result_protocol_code r =
     (case res_result r of
        None \<Rightarrow> None
      | Some (PL_PropertyWrite items) \<Rightarrow>
          (case find (\<lambda>i. pwr_protocol_code i \<noteq> None) items of None \<Rightarrow> None | Some i \<Rightarrow> pwr_protocol_code i)
      | Some (PL_Command c) \<Rightarrow> cres_device_code c)"

definition settle_event :: "queued_entry \<Rightarrow> timestamp_ns \<Rightarrow> control_result \<Rightarrow> audit_event" where
  "settle_event e completed r =
     build_event
       \<lparr>ac_user = qe_subject e, ac_source = qe_source e, ac_namespace = ik_namespace (qe_key e),
        ac_device_id = ik_device_id (qe_key e), ac_request_id = ik_request_id (qe_key e)\<rparr>
       (mt_operation (qe_audit_meta e)) (mt_target (qe_audit_meta e)) (mt_parameters (qe_audit_meta e))
       (mt_risk_level (qe_audit_meta e))
       \<lparr>ao_status = res_status r, ao_error_code = map_option ce_code (res_error r),
        ao_protocol_code = result_protocol_code r,
        ao_duration_ms = max 0 (sat_sub completed (mt_queued_at_ns (qe_audit_meta e))) div 1000000,
        ao_occurred_at_ns = completed\<rparr>"

text \<open>Second half of \<^verbatim>\<open>settle_entry\<close>: leave the registry, audit (\<open>None\<close>: skipped for lack of budget), answer.\<close>

definition settle_finish ::
  "record_attempt list option \<Rightarrow> timestamp_ns \<Rightarrow> queued_entry \<Rightarrow> control_result \<Rightarrow> 'j engine_ctx \<Rightarrow> 'j engine_ctx" where
  "settle_finish audit completed e r cx =
     (let cx1 = remove_active (qe_key e) cx;
          cx2 = (case audit of
                   None \<Rightarrow> cx1
                 | Some as \<Rightarrow> cx1\<lparr>cx_sink := snd (record_bounded as (settle_event e completed r) (cx_sink cx1))\<rparr>);
          cx3 = cx2\<lparr>cx_metrics := observe_settled (res_status r) (cx_metrics cx2)\<rparr>
      in set_shared (qe_reply e) r cx3)"

definition settle_entry ::
  "'j journal_api \<Rightarrow> settle_io \<Rightarrow> record_attempt list option \<Rightarrow> timestamp_ns \<Rightarrow> queued_entry \<Rightarrow> run_result
     \<Rightarrow> 'j engine_ctx \<Rightarrow> 'j engine_ctx" where
  "settle_entry api io audit completed e run cx =
     (let (r, cx') = settle_begin api io completed e run cx in settle_finish audit completed e r cx')"

end
