(* ===== verification/Control_Worker.thy ===== *)
theory Control_Worker
  imports Control_Queue
begin

text \<open>
  The worker of a device queue, its supervision and its forced stop (\<^verbatim>\<open>worker_loop\<close>, \<^verbatim>\<open>run_entry\<close>,
  \<^verbatim>\<open>settle_tracked\<close>, \<^verbatim>\<open>ensure_worker\<close>, \<^verbatim>\<open>join\<close> and \<^verbatim>\<open>settle_abandoned\<close> of \<^verbatim>\<open>queue.rs\<close>) as a transition system, and
  what its receipts mean: an answer that denies the execution is given only for an entry the executor never saw.
\<close>

section \<open>Program counters\<close>

text \<open>What follows a settlement: the rest of the entries a new worker adopted (\<^verbatim>\<open>settle_tracked\<close>), or the end of an
  execution.\<close>

datatype after_settle = K_Tracked "(queued_entry \<times> run_result) list" | K_Running

datatype pc =
    PC_Idle
  | PC_Start
  | PC_Adopt "(queued_entry \<times> run_result) list"
  | PC_Drain
  | PC_Pick
  | PC_Wait
  | PC_Picked queued_entry picked_kind
  | PC_Run queued_entry
  | PC_Started queued_entry bool
  | PC_Dispatched queued_entry
  | PC_Settle queued_entry run_result after_settle
  | PC_Settled queued_entry control_result timestamp_ns after_settle
  | PC_Dead

datatype join_pc = J_None | J_Waiting | J_Abandon | J_Settling "(queued_entry \<times> run_result) list" | J_Done

text \<open>\<open>dv_ids\<close> are the receipts of all entries ever accepted.\<close>

record device =
  dv_queue :: queue_inner
  dv_pc :: pc
  dv_aborted :: bool
  dv_join :: join_pc
  dv_ids :: "nat set"

definition device_new :: "nat \<Rightarrow> device" where
  "device_new capacity =
     \<lparr>dv_queue = queue_new capacity, dv_pc = PC_Idle, dv_aborted = False, dv_join = J_None, dv_ids = {}\<rparr>"

datatype worker_choice =
    WC_Tick nat timestamp_ns
  | WC_Wake
  | WC_Deadline nat
  | WC_Cancelled nat
  | WC_Poll
  | WC_Precondition precondition_outcome timestamp_ns nat
  | WC_Dispatch
  | WC_Executed exec_write_outcome execute_outcome timestamp_ns nat
  | WC_Settle settle_io timestamp_ns
  | WC_Audit "record_attempt list"

section \<open>Pieces of the worker loop\<close>

definition WORKER_ABORTED :: run_result where
  "WORKER_ABORTED = RR_Indeterminate ''QUEUE_WORKER_ABORTED''"

definition track :: "queued_entry \<Rightarrow> queue_inner \<Rightarrow> queue_inner" where
  "track e q = q\<lparr>qi_draining := qi_draining q @ [e]\<rparr>"

definition untrack :: "'j engine_ctx \<Rightarrow> queue_inner \<Rightarrow> queue_inner" where
  "untrack cx q = q\<lparr>qi_draining := dropWhile (is_set cx) (qi_draining q)\<rparr>"

text \<open>The start of \<^verbatim>\<open>worker_loop\<close>: the entries a dead worker left behind, the running one first.\<close>

definition adopt :: "queue_inner \<Rightarrow> (queued_entry \<times> run_result) list \<times> queue_inner" where
  "adopt q =
     ((case qi_running q of None \<Rightarrow> [] | Some e \<Rightarrow> [(e, WORKER_ABORTED)]) @
        map (\<lambda>e. (e, RR_Cancelled)) (qi_draining q),
      q\<lparr>qi_running := None, qi_draining := []\<rparr>)"

text \<open>Phase A: once closed, everything queued moves to \<open>draining\<close>; its front is settled next.\<close>

definition close_and_move :: "bool \<Rightarrow> queue_inner \<Rightarrow> queue_inner" where
  "close_and_move engine_closed q =
     (let q1 = (if engine_closed then q\<lparr>qi_closed := True\<rparr> else q) in
      if \<not> qi_closed q1 then q1
      else if qi_len q1 > 0 then
        q1\<lparr>qi_entries := (\<lambda>_. []), qi_draining := qi_draining q1 @ all_entries q1, qi_len := 0\<rparr>
      else q1)"

definition phase_a :: "bool \<Rightarrow> queue_inner \<Rightarrow> pc \<times> queue_inner" where
  "phase_a engine_closed q =
     (let q1 = close_and_move engine_closed q in
      if \<not> qi_closed q1 then (PC_Pick, q1)
      else case qi_draining q1 of
        [] \<Rightarrow> (if qi_running q1 = None then PC_Idle else PC_Pick, q1)
      | e # _ \<Rightarrow> (PC_Settle e RR_Cancelled (K_Tracked []), track e q1))"

fun phase_picked :: "queued_entry \<Rightarrow> picked_kind \<Rightarrow> queue_inner \<Rightarrow> pc \<times> queue_inner" where
  "phase_picked e PK_Cancelled q = (PC_Settle e RR_Cancelled (K_Tracked []), track e q)"
| "phase_picked e PK_Expired q = (PC_Settle e RR_Timeout (K_Tracked []), track e q)"
| "phase_picked e PK_Ready q = (PC_Run e, q\<lparr>qi_running := Some e\<rparr>)"

definition is_indeterminate :: "run_result \<Rightarrow> bool" where
  "is_indeterminate run =
     (case run of RR_Indeterminate _ \<Rightarrow> True | RR_Done r \<Rightarrow> res_status r = CS_Indeterminate | _ \<Rightarrow> False)"

text \<open>After \<^verbatim>\<open>run_entry\<close>: an indeterminate result starts the cooldown of the device.\<close>

definition after_run ::
  "control_policy \<Rightarrow> nat \<Rightarrow> queued_entry \<Rightarrow> run_result \<Rightarrow> device \<times> 'j engine_ctx \<Rightarrow> device \<times> 'j engine_ctx" where
  "after_run policy t e run = (\<lambda>(dv, cx).
     if is_indeterminate run \<and> 0 < indeterminate_cooldown_ms policy then
       (dv\<lparr>dv_queue := (dv_queue dv)\<lparr>qi_cooldown_until := Some (t + indeterminate_cooldown_ms policy * 1000000)\<rparr>,
           dv_pc := PC_Settle e run K_Running\<rparr>,
        cx\<lparr>cx_metrics := observe_cooldown_entered (cx_metrics cx)\<rparr>)
     else (dv\<lparr>dv_pc := PC_Settle e run K_Running\<rparr>, cx))"

text \<open>\<^verbatim>\<open>run_operation\<close> checks the preconditions of a command again before it calls the executor.\<close>

fun needs_check :: "validated_operation \<Rightarrow> bool" where
  "needs_check (VO_Write _ _) \<longleftrightarrow> False"
| "needs_check (VO_Execute _ _ preconditions) \<longleftrightarrow> preconditions \<noteq> []"

definition checker_may :: "control_policy \<Rightarrow> precondition_outcome \<Rightarrow> bool" where
  "checker_may policy o' \<longleftrightarrow> (o' = PO_Unconfigured \<longleftrightarrow> \<not> precondition_checker policy)"

section \<open>The worker\<close>

fun worker_step ::
  "control_policy \<Rightarrow> 'j journal_api \<Rightarrow> bool \<Rightarrow> worker_choice \<Rightarrow> device \<times> 'j engine_ctx \<Rightarrow> (device \<times> 'j engine_ctx) option" where
  "worker_step policy api closed choice (dv, cx) =
     (case (dv_pc dv, choice) of
        (PC_Start, WC_Tick t now) \<Rightarrow>
          (let (orphans, q) = adopt (dv_queue dv) in Some (dv\<lparr>dv_queue := q, dv_pc := PC_Adopt orphans\<rparr>, cx))
      | (PC_Adopt [], WC_Tick t now) \<Rightarrow> Some (dv\<lparr>dv_pc := PC_Drain\<rparr>, cx)
      | (PC_Adopt ((e, run) # rest), WC_Tick t now) \<Rightarrow>
          if is_set cx e then Some (dv\<lparr>dv_pc := PC_Adopt rest\<rparr>, cx)
          else Some (dv\<lparr>dv_queue := track e (dv_queue dv), dv_pc := PC_Settle e run (K_Tracked rest)\<rparr>, cx)
      | (PC_Drain, WC_Tick t now) \<Rightarrow>
          (let (p, q) = phase_a closed (dv_queue dv) in Some (dv\<lparr>dv_queue := q, dv_pc := p\<rparr>, cx))
      | (PC_Pick, WC_Tick t now) \<Rightarrow>
          (case pick policy t now cx (dv_queue dv) of
             (None, q) \<Rightarrow> Some (dv\<lparr>dv_queue := q, dv_pc := PC_Wait\<rparr>, cx)
           | (Some (e, k), q) \<Rightarrow> Some (dv\<lparr>dv_queue := q, dv_pc := PC_Picked e k\<rparr>, cx))
      | (PC_Wait, WC_Wake) \<Rightarrow> Some (dv\<lparr>dv_pc := PC_Drain\<rparr>, cx)
      | (PC_Picked e k, WC_Tick t now) \<Rightarrow>
          (let (p, q) = phase_picked e k (dv_queue dv) in Some (dv\<lparr>dv_queue := q, dv_pc := p\<rparr>, cx))
      | (PC_Run e, WC_Deadline t) \<Rightarrow>
          if qe_deadline e \<le> t then Some (after_run policy t e RR_Timeout (dv, cx)) else None
      | (PC_Run e, WC_Cancelled t) \<Rightarrow>
          if is_cancelled cx e then Some (after_run policy t e RR_Cancelled (dv, cx)) else None
      | (PC_Run e, WC_Poll) \<Rightarrow> Some (dv\<lparr>dv_pc := PC_Started e (\<not> needs_check (qe_operation e))\<rparr>, cx)
      | (PC_Started e checked, WC_Deadline t) \<Rightarrow>
          if qe_deadline e \<le> t then Some (after_run policy t e (RR_Indeterminate ''TIMEOUT'') (dv, cx)) else None
      | (PC_Started e checked, WC_Cancelled t) \<Rightarrow>
          if is_cancelled cx e then Some (after_run policy t e (RR_Indeterminate ''CANCELLED'') (dv, cx)) else None
      | (PC_Started e False, WC_Precondition o' started t) \<Rightarrow>
          if \<not> checker_may policy o' then None
          else (case precondition_failure o' of
                  None \<Rightarrow> Some (dv\<lparr>dv_pc := PC_Started e True\<rparr>, cx)
                | Some err \<Rightarrow>
                    Some (after_run policy t e
                      (RR_Done (failed_with CS_Failed err (base_result (ik_device_id (qe_key e)) started))) (dv, cx)))
      | (PC_Started e True, WC_Dispatch) \<Rightarrow>
          Some (dv\<lparr>dv_pc := PC_Dispatched e\<rparr>, cx\<lparr>cx_dispatched := cx_dispatched cx @ [(qe_key e, qe_reply e)]\<rparr>)
      | (PC_Dispatched e, WC_Deadline t) \<Rightarrow>
          if qe_deadline e \<le> t then Some (after_run policy t e (RR_Indeterminate ''TIMEOUT'') (dv, cx)) else None
      | (PC_Dispatched e, WC_Cancelled t) \<Rightarrow>
          if is_cancelled cx e then Some (after_run policy t e (RR_Indeterminate ''CANCELLED'') (dv, cx)) else None
      | (PC_Dispatched e, WC_Executed wo eo started t) \<Rightarrow>
          (case outcome_result (base_result (ik_device_id (qe_key e)) started) (qe_operation e) wo eo of
             None \<Rightarrow> Some (dv\<lparr>dv_pc := PC_Dead\<rparr>, cx)
           | Some r \<Rightarrow> Some (after_run policy t e (RR_Done r) (dv, cx)))
      | (PC_Settle e run k, WC_Settle io completed) \<Rightarrow>
          (let (r, cx') = settle_begin api io completed e run cx in
           Some (dv\<lparr>dv_pc := PC_Settled e r completed k\<rparr>, cx'))
      | (PC_Settled e r completed k, WC_Audit attempts) \<Rightarrow>
          (let cx' = settle_finish (Some attempts) completed e r cx in
           case k of
             K_Tracked rest \<Rightarrow> Some (dv\<lparr>dv_queue := untrack cx' (dv_queue dv), dv_pc := PC_Adopt rest\<rparr>, cx')
           | K_Running \<Rightarrow> Some (dv\<lparr>dv_queue := (dv_queue dv)\<lparr>qi_running := None\<rparr>, dv_pc := PC_Drain\<rparr>, cx'))
      | _ \<Rightarrow> None)"

declare worker_step.simps [simp del]

text \<open>\<^verbatim>\<open>ensure_worker\<close>: a task that never started or has finished is replaced.\<close>

definition ensure_worker :: "device \<Rightarrow> device" where
  "ensure_worker dv =
     (if dv_pc dv = PC_Idle \<or> dv_pc dv = PC_Dead then dv\<lparr>dv_pc := PC_Start\<rparr> else dv)"

definition device_enqueue ::
  "control_policy \<Rightarrow> bool \<Rightarrow> queued_entry \<Rightarrow> device \<times> 'j engine_ctx \<Rightarrow> enqueue_error + device \<times> 'j engine_ctx" where
  "device_enqueue policy closed e = (\<lambda>(dv, cx).
     res_bind (enqueue policy closed e (dv_queue dv)) (\<lambda>q.
       Inr (ensure_worker (dv\<lparr>dv_queue := q, dv_ids := insert (qe_reply e) (dv_ids dv)\<rparr>),
            cx\<lparr>cx_metrics := observe_enqueued (ik_device_id (qe_key e)) (cx_metrics cx)\<rparr>)))"

text \<open>The points at which a task can be dropped or its code can panic.\<close>

fun at_await :: "pc \<Rightarrow> bool" where
  "at_await PC_Start = True"
| "at_await PC_Wait = True"
| "at_await (PC_Started _ _) = True"
| "at_await (PC_Dispatched _) = True"
| "at_await (PC_Settle _ _ _) = True"
| "at_await (PC_Settled _ _ _ _) = True"
| "at_await _ = False"

fun may_panic :: "pc \<Rightarrow> bool" where
  "may_panic (PC_Started _ _) = True"
| "may_panic (PC_Dispatched _) = True"
| "may_panic (PC_Settle _ _ _) = True"
| "may_panic (PC_Settled _ _ _ _) = True"
| "may_panic _ = False"

text \<open>A task dropped while it waits for the journal: the update may still be carried out.\<close>

fun kill_journal :: "'j journal_api \<Rightarrow> (settle_io \<times> timestamp_ns) option \<Rightarrow> pc \<Rightarrow> 'j engine_ctx \<Rightarrow> 'j engine_ctx" where
  "kill_journal api (Some (io, completed)) (PC_Settle e run k) cx =
     cx\<lparr>cx_journal := cx_journal (snd (settle_begin api io completed e run cx))\<rparr>"
| "kill_journal api _ _ cx = cx"

section \<open>The forced stop\<close>

text \<open>\<^verbatim>\<open>settle_abandoned\<close>: take everything under the lock, then settle one entry after the other.\<close>

definition abandon :: "queue_inner \<Rightarrow> (queued_entry \<times> run_result) list \<times> queue_inner" where
  "abandon q =
     ((case qi_running q of None \<Rightarrow> [] | Some e \<Rightarrow> [(e, WORKER_ABORTED)]) @
        map (\<lambda>e. (e, RR_Cancelled)) (all_entries q @ qi_draining q),
      q\<lparr>qi_closed := True, qi_running := None, qi_entries := (\<lambda>_. []), qi_draining := [],
        qi_len := qi_len q - length (all_entries q)\<rparr>)"

datatype join_choice =
    JC_Expire
  | JC_Exited
  | JC_Take
  | JC_SettleNext settle_io "record_attempt list option" timestamp_ns

text \<open>\<^verbatim>\<open>join\<close>: the grace period expires and the worker is aborted; or the worker task has ended, normally or by a
  panic.\<close>

fun join_step :: "'j journal_api \<Rightarrow> join_choice \<Rightarrow> device \<times> 'j engine_ctx \<Rightarrow> (device \<times> 'j engine_ctx) option" where
  "join_step api choice (dv, cx) =
     (case (dv_join dv, choice) of
        (J_Waiting, JC_Expire) \<Rightarrow>
          if dv_pc dv \<noteq> PC_Idle \<and> dv_pc dv \<noteq> PC_Dead then Some (dv\<lparr>dv_aborted := True, dv_join := J_Abandon\<rparr>, cx) else None
      | (J_Waiting, JC_Exited) \<Rightarrow>
          if dv_pc dv = PC_Idle then Some (dv\<lparr>dv_join := J_Done\<rparr>, cx)
          else if dv_pc dv = PC_Dead then Some (dv\<lparr>dv_join := J_Abandon\<rparr>, cx) else None
      | (J_Abandon, JC_Take) \<Rightarrow>
          (let (es, q) = abandon (dv_queue dv) in Some (dv\<lparr>dv_queue := q, dv_join := J_Settling es\<rparr>, cx))
      | (J_Settling [], JC_Take) \<Rightarrow> Some (dv\<lparr>dv_join := J_Done\<rparr>, cx)
      | (J_Settling ((e, run) # rest), JC_SettleNext io audit completed) \<Rightarrow>
          Some (dv\<lparr>dv_join := J_Settling rest\<rparr>,
                if is_set cx e then cx else settle_entry api io audit completed e run cx)
      | _ \<Rightarrow> None)"

declare join_step.simps [simp del]

section \<open>The steps as a relation\<close>

text \<open>One rule for each way a worker step can go; \<open>worker_step_rel\<close> shows that the function has no other.\<close>

inductive worker_rel ::
  "control_policy \<Rightarrow> 'j journal_api \<Rightarrow> bool \<Rightarrow> device \<times> 'j engine_ctx \<Rightarrow> device \<times> 'j engine_ctx \<Rightarrow> bool"
  for policy api closed where
  r_start: "dv_pc dv = PC_Start \<Longrightarrow> adopt (dv_queue dv) = (os, q) \<Longrightarrow>
    worker_rel policy api closed (dv, cx) (dv\<lparr>dv_queue := q, dv_pc := PC_Adopt os\<rparr>, cx)"
| r_adopt_done: "dv_pc dv = PC_Adopt [] \<Longrightarrow> worker_rel policy api closed (dv, cx) (dv\<lparr>dv_pc := PC_Drain\<rparr>, cx)"
| r_adopt_skip: "dv_pc dv = PC_Adopt ((e, run) # rest) \<Longrightarrow> is_set cx e \<Longrightarrow>
    worker_rel policy api closed (dv, cx) (dv\<lparr>dv_pc := PC_Adopt rest\<rparr>, cx)"
| r_adopt: "dv_pc dv = PC_Adopt ((e, run) # rest) \<Longrightarrow> \<not> is_set cx e \<Longrightarrow>
    worker_rel policy api closed (dv, cx)
      (dv\<lparr>dv_queue := track e (dv_queue dv), dv_pc := PC_Settle e run (K_Tracked rest)\<rparr>, cx)"
| r_drain: "dv_pc dv = PC_Drain \<Longrightarrow> phase_a closed (dv_queue dv) = (p, q) \<Longrightarrow>
    worker_rel policy api closed (dv, cx) (dv\<lparr>dv_queue := q, dv_pc := p\<rparr>, cx)"
| r_pick_none: "dv_pc dv = PC_Pick \<Longrightarrow> pick policy t now cx (dv_queue dv) = (None, q) \<Longrightarrow>
    worker_rel policy api closed (dv, cx) (dv\<lparr>dv_queue := q, dv_pc := PC_Wait\<rparr>, cx)"
| r_pick: "dv_pc dv = PC_Pick \<Longrightarrow> pick policy t now cx (dv_queue dv) = (Some (e, k), q) \<Longrightarrow>
    worker_rel policy api closed (dv, cx) (dv\<lparr>dv_queue := q, dv_pc := PC_Picked e k\<rparr>, cx)"
| r_wake: "dv_pc dv = PC_Wait \<Longrightarrow> worker_rel policy api closed (dv, cx) (dv\<lparr>dv_pc := PC_Drain\<rparr>, cx)"
| r_picked: "dv_pc dv = PC_Picked e k \<Longrightarrow> phase_picked e k (dv_queue dv) = (p, q) \<Longrightarrow>
    worker_rel policy api closed (dv, cx) (dv\<lparr>dv_queue := q, dv_pc := p\<rparr>, cx)"
| r_not_started: "dv_pc dv = PC_Run e \<Longrightarrow> run \<in> {RR_Timeout, RR_Cancelled} \<Longrightarrow>
    worker_rel policy api closed (dv, cx) (after_run policy t e run (dv, cx))"
| r_poll: "dv_pc dv = PC_Run e \<Longrightarrow>
    worker_rel policy api closed (dv, cx) (dv\<lparr>dv_pc := PC_Started e (\<not> needs_check (qe_operation e))\<rparr>, cx)"
| r_checked: "dv_pc dv = PC_Started e False \<Longrightarrow> precondition_failure o' = None \<Longrightarrow>
    worker_rel policy api closed (dv, cx) (dv\<lparr>dv_pc := PC_Started e True\<rparr>, cx)"
| r_dispatch: "dv_pc dv = PC_Started e True \<Longrightarrow>
    worker_rel policy api closed (dv, cx)
      (dv\<lparr>dv_pc := PC_Dispatched e\<rparr>, cx\<lparr>cx_dispatched := cx_dispatched cx @ [(qe_key e, qe_reply e)]\<rparr>)"
| r_executor_panic: "dv_pc dv = PC_Dispatched e \<Longrightarrow> outcome_result base (qe_operation e) wo eo = None \<Longrightarrow>
    worker_rel policy api closed (dv, cx) (dv\<lparr>dv_pc := PC_Dead\<rparr>, cx)"
| r_ran: "dv_pc dv = PC_Dispatched e \<or> dv_pc dv = PC_Started e checked \<Longrightarrow>
    (\<exists>code. run = RR_Indeterminate code) \<or>
    (\<exists>r. run = RR_Done r \<and> res_status r \<in> {CS_Succeeded, CS_Failed, CS_Indeterminate}) \<Longrightarrow>
    worker_rel policy api closed (dv, cx) (after_run policy t e run (dv, cx))"
| r_settle: "dv_pc dv = PC_Settle e run k \<Longrightarrow> settle_begin api io completed e run cx = (r, cx') \<Longrightarrow>
    worker_rel policy api closed (dv, cx) (dv\<lparr>dv_pc := PC_Settled e r completed k\<rparr>, cx')"
| r_tracked: "dv_pc dv = PC_Settled e r completed (K_Tracked rest) \<Longrightarrow>
    settle_finish (Some attempts) completed e r cx = cx' \<Longrightarrow>
    worker_rel policy api closed (dv, cx) (dv\<lparr>dv_queue := untrack cx' (dv_queue dv), dv_pc := PC_Adopt rest\<rparr>, cx')"
| r_finished: "dv_pc dv = PC_Settled e r completed K_Running \<Longrightarrow>
    settle_finish (Some attempts) completed e r cx = cx' \<Longrightarrow>
    worker_rel policy api closed (dv, cx) (dv\<lparr>dv_queue := (dv_queue dv)\<lparr>qi_running := None\<rparr>, dv_pc := PC_Drain\<rparr>, cx')"

lemma r_refused: "dv_pc dv = PC_Started e checked \<Longrightarrow>
    worker_rel policy api closed (dv, cx) (after_run policy t e (RR_Done (failed_with CS_Failed err base)) (dv, cx))"
  by (rule r_ran) (auto simp: failed_with_def)

lemma worker_step_rel:
  assumes "worker_step policy api closed choice (dv, cx) = Some s'"
  shows "worker_rel policy api closed (dv, cx) s'"
proof (cases "dv_pc dv")
  case PC_Start
  with assms show ?thesis
    by (cases choice) (auto simp: worker_step.simps split: prod.splits intro: worker_rel.intros)
next
  case (PC_Adopt os)
  with assms show ?thesis
    by (cases choice; cases os) (auto simp: worker_step.simps split: prod.splits if_splits intro: worker_rel.intros)
next
  case PC_Drain
  with assms show ?thesis
    by (cases choice) (auto simp: worker_step.simps split: prod.splits intro: worker_rel.intros)
next
  case PC_Pick
  with assms show ?thesis
    by (cases choice) (auto simp: worker_step.simps split: prod.splits option.splits intro: worker_rel.intros)
next
  case PC_Wait
  with assms show ?thesis
    by (cases choice) (auto simp: worker_step.simps intro: worker_rel.intros)
next
  case (PC_Picked e k)
  with assms show ?thesis
    by (cases choice) (auto simp: worker_step.simps split: prod.splits intro: worker_rel.intros)
next
  case (PC_Run e)
  with assms show ?thesis
    by (cases choice) (auto simp: worker_step.simps split: if_splits intro: worker_rel.intros)
next
  case (PC_Started e checked)
  with assms show ?thesis
    by (cases choice; cases checked)
      (auto simp: worker_step.simps split: if_splits option.splits
        intro: r_ran r_checked r_dispatch r_refused)
next
  case (PC_Dispatched e)
  with assms show ?thesis
    by (cases choice)
      (auto simp: worker_step.simps split: if_splits option.splits intro: r_executor_panic
        intro!: r_ran dest: outcome_result_status)
next
  case (PC_Settle e run k)
  with assms show ?thesis
    by (cases choice) (auto simp: worker_step.simps split: prod.splits intro: worker_rel.intros)
next
  case (PC_Settled e r completed k)
  with assms show ?thesis
    by (cases choice; cases k) (auto simp: worker_step.simps Let_def intro: worker_rel.intros)
qed (use assms in \<open>auto simp: worker_step.simps\<close>)

section \<open>The system of one device\<close>

text \<open>All that happens to the queue of one device: accepted requests, cancellations, the worker, the engine's closing,
  the forced stop, a dropped task, a panic (only when \<open>panics\<close>), the supervisor's new worker, and whatever the rest of
  the engine does to the context without touching the receipts of this device. An accepted entry has a fresh
  receipt and as many paths as items, which validation guarantees.\<close>

fun op_wf :: "validated_operation \<Rightarrow> bool" where
  "op_wf (VO_Write items paths) \<longleftrightarrow> length items = length paths"
| "op_wf (VO_Execute _ _ _) \<longleftrightarrow> True"

definition dispatched_ids :: "'j engine_ctx \<Rightarrow> nat set" where
  "dispatched_ids cx = snd ` set (cx_dispatched cx)"

inductive device_step ::
  "control_policy \<Rightarrow> 'j journal_api \<Rightarrow> bool \<Rightarrow> bool \<times> device \<times> 'j engine_ctx \<Rightarrow> bool \<times> device \<times> 'j engine_ctx \<Rightarrow> bool"
  for policy api panics where
  d_enqueue: "device_enqueue policy c e (dv, cx) = Inr (dv', cx') \<Longrightarrow> qe_reply e \<notin> dv_ids dv \<Longrightarrow>
    cx_shared cx (qe_reply e) = None \<Longrightarrow> qe_reply e \<notin> dispatched_ids cx \<Longrightarrow> op_wf (qe_operation e) \<Longrightarrow>
    device_step policy api panics (c, dv, cx) (c, dv', cx')"
| d_cancel: "queue_cancel key (dv_queue dv) cx = (out, cx') \<Longrightarrow>
    device_step policy api panics (c, dv, cx) (c, dv, cx')"
| d_work: "worker_step policy api c choice (dv, cx) = Some (dv', cx') \<Longrightarrow>
    device_step policy api panics (c, dv, cx) (c, dv', cx')"
| d_close: "device_step policy api panics (c, dv, cx) (True, dv, cx)"
| d_shutdown: "dv_join dv = J_None \<Longrightarrow>
    device_step policy api panics (True, dv, cx)
      (True, dv\<lparr>dv_queue := queue_shutdown (dv_queue dv), dv_join := J_Waiting\<rparr>, cx)"
| d_join: "join_step api choice (dv, cx) = Some (dv', cx') \<Longrightarrow>
    device_step policy api panics (c, dv, cx) (c, dv', cx')"
| d_kill: "dv_aborted dv \<Longrightarrow> at_await (dv_pc dv) \<Longrightarrow>
    device_step policy api panics (c, dv, cx) (c, dv\<lparr>dv_pc := PC_Dead\<rparr>, kill_journal api w (dv_pc dv) cx)"
| d_panic: "panics \<Longrightarrow> may_panic (dv_pc dv) \<Longrightarrow>
    device_step policy api panics (c, dv, cx) (c, dv\<lparr>dv_pc := PC_Dead\<rparr>, kill_journal api w (dv_pc dv) cx)"
| d_respawn: "\<not> c \<Longrightarrow> dv_pc dv = PC_Dead \<Longrightarrow>
    device_step policy api panics (c, dv, cx) (c, ensure_worker dv, cx)"
| d_other: "\<forall>s\<in>dv_ids dv. cx_shared cx' s = cx_shared cx s \<and> (s \<in> dispatched_ids cx' \<longleftrightarrow> s \<in> dispatched_ids cx) \<Longrightarrow>
    device_step policy api panics (c, dv, cx) (c, dv, cx')"

inductive device_reach ::
  "control_policy \<Rightarrow> 'j journal_api \<Rightarrow> bool \<Rightarrow> bool \<times> device \<times> 'j engine_ctx \<Rightarrow> bool"
  for policy api panics where
  d_init: "device_reach policy api panics (False, device_new (queue_capacity policy), cx)"
| d_step: "device_reach policy api panics s \<Longrightarrow> device_step policy api panics s s' \<Longrightarrow> device_reach policy api panics s'"

section \<open>What a receipt means\<close>

definition run_denies :: "run_result \<Rightarrow> bool" where
  "run_denies run =
     (case run of RR_Timeout \<Rightarrow> True | RR_Cancelled \<Rightarrow> True | RR_Indeterminate _ \<Rightarrow> False
      | RR_Done r \<Rightarrow> denies_execution (res_status r))"

definition denied_of :: "(queued_entry \<times> run_result) list \<Rightarrow> queued_entry list" where
  "denied_of ers = map fst (filter (\<lambda>(e, run). run_denies run) ers)"

text \<open>The entry a worker may still hand to the executor, and the entries it is about to answer with a denial.\<close>

fun pc_live :: "pc \<Rightarrow> queued_entry list" where
  "pc_live (PC_Picked e _) = [e]"
| "pc_live (PC_Run e) = [e]"
| "pc_live (PC_Started e _) = [e]"
| "pc_live _ = []"

fun pc_denied :: "pc \<Rightarrow> queued_entry list" where
  "pc_denied (PC_Settle e run _) = (if run_denies run then [e] else [])"
| "pc_denied (PC_Settled e r _ _) = (if denies_execution (res_status r) then [e] else [])"
| "pc_denied _ = []"

fun join_denied :: "join_pc \<Rightarrow> queued_entry list" where
  "join_denied (J_Settling ers) = denied_of ers"
| "join_denied _ = []"

definition live_ids :: "device \<Rightarrow> nat list" where
  "live_ids dv = map qe_reply (all_entries (dv_queue dv) @ pc_live (dv_pc dv))"

definition denied_ids :: "device \<Rightarrow> 'j engine_ctx \<Rightarrow> nat set" where
  "denied_ids dv cx =
     qe_reply ` (set (qi_draining (dv_queue dv)) \<union> set (pc_denied (dv_pc dv)) \<union> set (join_denied (dv_join dv))) \<union>
     {s \<in> dv_ids dv. \<exists>r. cx_shared cx s = Some r \<and> denies_execution (res_status r)}"

definition pc_entries :: "pc \<Rightarrow> queued_entry set" where
  "pc_entries p =
     (case p of PC_Picked e _ \<Rightarrow> {e} | PC_Run e \<Rightarrow> {e} | PC_Started e _ \<Rightarrow> {e} | PC_Dispatched e \<Rightarrow> {e}
      | PC_Settle e _ _ \<Rightarrow> {e} | PC_Settled e _ _ _ \<Rightarrow> {e} | _ \<Rightarrow> {})"

definition join_entries :: "join_pc \<Rightarrow> queued_entry set" where
  "join_entries j = (case j of J_Settling ers \<Rightarrow> fst ` set ers | _ \<Rightarrow> {})"

definition device_entries :: "device \<Rightarrow> queued_entry set" where
  "device_entries dv =
     set (all_entries (dv_queue dv)) \<union> set (qi_draining (dv_queue dv)) \<union> set_option (qi_running (dv_queue dv)) \<union>
     pc_entries (dv_pc dv) \<union> join_entries (dv_join dv)"

text \<open>Without panics, no worker ever finds entries of a dead one.\<close>

fun pc_clean :: "bool \<Rightarrow> queue_inner \<Rightarrow> pc \<Rightarrow> bool" where
  "pc_clean c q PC_Start \<longleftrightarrow> qi_running q = None \<and> qi_draining q = []"
| "pc_clean c q PC_Idle \<longleftrightarrow> qi_running q = None \<and> qi_draining q = []"
| "pc_clean c q (PC_Adopt os) \<longleftrightarrow> os = []"
| "pc_clean c q (PC_Settle e run (K_Tracked rest)) \<longleftrightarrow> rest = []"
| "pc_clean c q (PC_Settled e r t (K_Tracked rest)) \<longleftrightarrow> rest = []"
| "pc_clean c q PC_Dead \<longleftrightarrow> c \<and> qi_closed q"
| "pc_clean c q _ \<longleftrightarrow> True"

lemma pc_clean_mono:
  "pc_clean c q p \<Longrightarrow> (qi_running q = None \<Longrightarrow> qi_running q' = None) \<Longrightarrow>
   (qi_draining q = [] \<Longrightarrow> qi_draining q' = []) \<Longrightarrow> (qi_closed q \<Longrightarrow> qi_closed q') \<Longrightarrow> (c \<Longrightarrow> c') \<Longrightarrow> pc_clean c' q' p"
  by (cases "(c, q, p)" rule: pc_clean.cases) auto

definition clean :: "bool \<Rightarrow> device \<Rightarrow> bool" where
  "clean c dv \<longleftrightarrow>
     pc_clean c (dv_queue dv) (dv_pc dv) \<and>
     (dv_join dv \<noteq> J_None \<longrightarrow> c \<and> qi_closed (dv_queue dv)) \<and> (dv_aborted dv \<longrightarrow> dv_join dv \<noteq> J_None)"

definition truthful_inv :: "bool \<Rightarrow> device \<Rightarrow> 'j engine_ctx \<Rightarrow> bool" where
  "truthful_inv c dv cx \<longleftrightarrow>
     clean c dv \<and> distinct (live_ids dv) \<and>
     set (live_ids dv) \<inter> denied_ids dv cx = {} \<and> set (live_ids dv) \<inter> dispatched_ids cx = {} \<and>
     dispatched_ids cx \<inter> denied_ids dv cx = {} \<and>
     qe_reply ` device_entries dv \<subseteq> dv_ids dv \<and> (\<forall>e\<in>device_entries dv. op_wf (qe_operation e))"

subsection \<open>Context updates\<close>

lemma settle_finish_simps [simp]:
  "cx_shared (settle_finish a t e r cx) = (cx_shared cx)(qe_reply e \<mapsto> r)"
  "cx_dispatched (settle_finish a t e r cx) = cx_dispatched cx"
  "cx_cancelled (settle_finish a t e r cx) = cx_cancelled cx"
  "cx_journal (settle_finish a t e r cx) = cx_journal cx"
  by (auto simp: settle_finish_def set_shared_def remove_active_def Let_def split: option.splits)

lemma settle_journal_frame:
  assumes "settle_journal api io key r cx = (r', cx')"
  shows "cx_shared cx' = cx_shared cx" "cx_dispatched cx' = cx_dispatched cx"
    "cx_active cx' = cx_active cx" "cx_cancelled cx' = cx_cancelled cx"
    "res_status r' = res_status r \<or> res_status r' = CS_Indeterminate"
  using assms
  by (cases "(api, io, key, r, cx)" rule: settle_journal.cases;
      auto simp: degrade_def failed_with_def split: prod.splits sum.splits)+

lemma run_to_result_denies: "denies_execution (res_status (run_to_result e t run)) \<longleftrightarrow> run_denies run"
  by (cases run) (auto simp: run_to_result_def run_denies_def settled_result_def denies_execution_def)

lemma settle_begin_frame:
  assumes "settle_begin api io t e run cx = (r, cx')"
  shows "cx_shared cx' = cx_shared cx" "cx_dispatched cx' = cx_dispatched cx"
    "cx_active cx' = cx_active cx" "cx_cancelled cx' = cx_cancelled cx"
    "denies_execution (res_status r) \<Longrightarrow> run_denies run"
proof -
  note f = settle_journal_frame[OF assms[unfolded settle_begin_def]]
  from f show "cx_shared cx' = cx_shared cx" "cx_dispatched cx' = cx_dispatched cx"
    "cx_active cx' = cx_active cx" "cx_cancelled cx' = cx_cancelled cx" by simp_all
  show "run_denies run" if "denies_execution (res_status r)"
    using that f(5) run_to_result_denies[of e t run] by (auto simp: denies_execution_def)
qed

lemma settle_entry_frame:
  assumes "settle_entry api io audit t e run cx = cx'"
  obtains r where "cx_shared cx' = (cx_shared cx)(qe_reply e \<mapsto> r)" "cx_dispatched cx' = cx_dispatched cx"
    "denies_execution (res_status r) \<Longrightarrow> run_denies run"
proof -
  obtain r cx1 where b: "settle_begin api io t e run cx = (r, cx1)"
    by (cases "settle_begin api io t e run cx")
  show thesis
    using that[of r] assms b settle_begin_frame[OF b] by (auto simp: settle_entry_def)
qed

lemma kill_journal_frame [simp]:
  "cx_shared (kill_journal api w p cx) = cx_shared cx"
  "cx_dispatched (kill_journal api w p cx) = cx_dispatched cx"
  by (cases "(api, w, p, cx)" rule: kill_journal.cases; simp)+


subsection \<open>Queue updates\<close>

lemma all_entries_push:
  "mset (all_entries (q\<lparr>qi_entries := (qi_entries q)(p := qi_entries q p @ [e])\<rparr>)) =
     add_mset e (mset (all_entries q))"
  by (cases p) (simp_all add: all_entries_def priorities_def)

lemma all_entries_pop:
  assumes "qi_entries q p = e # es"
  shows "mset (all_entries q) = add_mset e (mset (all_entries (q\<lparr>qi_entries := (qi_entries q)(p := es)\<rparr>)))"
  using assms by (cases p) (simp_all add: all_entries_def priorities_def)

lemma all_entries_simps [simp]:
  "all_entries (q\<lparr>qi_closed := b\<rparr>) = all_entries q"
  "all_entries (q\<lparr>qi_len := n\<rparr>) = all_entries q"
  "all_entries (q\<lparr>qi_running := r\<rparr>) = all_entries q"
  "all_entries (q\<lparr>qi_draining := d\<rparr>) = all_entries q"
  "all_entries (q\<lparr>qi_cooldown_until := u\<rparr>) = all_entries q"
  "all_entries (q\<lparr>qi_entries := (\<lambda>_. [])\<rparr>) = []"
  "all_entries (track e q) = all_entries q"
  "all_entries (untrack cx q) = all_entries q"
  "all_entries (queue_shutdown q) = all_entries q"
  "all_entries (queue_new n) = []"
  by (simp_all add: all_entries_def priorities_def track_def untrack_def queue_shutdown_def queue_new_def)

lemma pick_SomeD:
  assumes "pick policy t now cx q = (Some (e, k), q')"
  shows "mset (all_entries q) = add_mset e (mset (all_entries q'))"
    and "qi_draining q' = qi_draining q" "qi_running q' = qi_running q" "qi_closed q' = qi_closed q"
proof -
  obtain p es where p: "qi_entries q p = e # es" and
      q': "q' = q\<lparr>qi_entries := (qi_entries q)(p := es), qi_len := qi_len q - 1\<rparr>"
    using assms by (auto simp: pick_def split: if_splits option.splits list.splits)
  from all_entries_pop[OF p] q' show "mset (all_entries q) = add_mset e (mset (all_entries q'))"
    by simp
  from q' show "qi_draining q' = qi_draining q" "qi_running q' = qi_running q" "qi_closed q' = qi_closed q"
    by simp_all
qed

lemma pick_NoneD: "pick policy t now cx q = (None, q') \<Longrightarrow> q' = q"
  by (auto simp: pick_def split: if_splits option.splits list.splits)

lemma close_and_move_cases:
  obtains (stay) "all_entries (close_and_move c q) = all_entries q"
    "qi_draining (close_and_move c q) = qi_draining q"
  | (move) "all_entries (close_and_move c q) = []"
    "qi_draining (close_and_move c q) = qi_draining q @ all_entries q"
  by (cases "qi_len q > 0"; cases c; cases "qi_closed q") (auto simp: close_and_move_def Let_def)

lemma close_and_move_simps [simp]:
  "qi_running (close_and_move c q) = qi_running q"
  "qi_closed (close_and_move c q) \<longleftrightarrow> c \<or> qi_closed q"
  by (simp_all add: close_and_move_def Let_def)

subsection \<open>One lemma for all steps\<close>

lemma distinct_mset_sub: "mset ys \<subseteq># mset xs \<Longrightarrow> distinct xs \<Longrightarrow> distinct ys"
  unfolding distinct_count_atmost_1
  by (metis count_eq_zero_iff le_antisym mset_subset_eq_count One_nat_def Suc_leI neq0_conv set_mset_mset zero_le)

lemma truthful_advance:
  assumes inv: "truthful_inv c dv cx" and "clean c' dv'"
    and live: "mset (live_ids dv') \<subseteq># mset (live_ids dv)"
    and denied: "denied_ids dv' cx' \<subseteq> denied_ids dv cx \<union> A"
    and disp: "dispatched_ids cx' \<subseteq> dispatched_ids cx \<union> B"
    and left: "A \<union> B \<subseteq> set (live_ids dv) - set (live_ids dv')" and "A \<inter> B = {}"
    and "device_entries dv' \<subseteq> device_entries dv" and "dv_ids dv' = dv_ids dv"
  shows "truthful_inv c' dv' cx'"
proof -
  have sub: "set (live_ids dv') \<subseteq> set (live_ids dv)"
    using set_mset_mono[OF live] by simp
  have "distinct (live_ids dv')"
    using inv distinct_mset_sub[OF live] by (simp add: truthful_inv_def)
  moreover have old: "set (live_ids dv) \<inter> denied_ids dv cx = {}" "set (live_ids dv) \<inter> dispatched_ids cx = {}"
      "dispatched_ids cx \<inter> denied_ids dv cx = {}"
    using inv by (simp_all add: truthful_inv_def)
  have "set (live_ids dv') \<inter> denied_ids dv' cx' = {}"
    using old(1) sub denied left by blast
  moreover have "set (live_ids dv') \<inter> dispatched_ids cx' = {}"
    using old(2) sub disp left by blast
  moreover have "dispatched_ids cx' \<inter> denied_ids dv' cx' \<subseteq> (dispatched_ids cx \<union> B) \<inter> (denied_ids dv cx \<union> A)"
    using denied disp by blast
  then have "dispatched_ids cx' \<inter> denied_ids dv' cx' = {}"
    using old left \<open>A \<inter> B = {}\<close> by blast
  moreover have "qe_reply ` device_entries dv' \<subseteq> dv_ids dv'" "\<forall>e\<in>device_entries dv'. op_wf (qe_operation e)"
    using inv assms(8,9) unfolding truthful_inv_def by blast+
  ultimately show ?thesis
    using assms(2) by (simp add: truthful_inv_def)
qed

lemma pc_live_entries: "set (pc_live p) \<subseteq> pc_entries p"
  by (cases p) (auto simp: pc_entries_def)

lemma pc_denied_entries: "set (pc_denied p) \<subseteq> pc_entries p"
  by (cases p) (auto simp: pc_entries_def)

lemma join_denied_entries: "set (join_denied j) \<subseteq> join_entries j"
  by (cases j) (auto simp: join_entries_def denied_of_def)

lemma truthful_other:
  assumes "truthful_inv c dv cx"
    and "\<forall>s\<in>dv_ids dv. cx_shared cx' s = cx_shared cx s \<and> (s \<in> dispatched_ids cx' \<longleftrightarrow> s \<in> dispatched_ids cx)"
  shows "truthful_inv c dv cx'"
proof -
  have ids: "set (live_ids dv) \<subseteq> dv_ids dv"
  proof -
    have "set (all_entries (dv_queue dv) @ pc_live (dv_pc dv)) \<subseteq> device_entries dv"
      using pc_live_entries[of "dv_pc dv"] by (auto simp: device_entries_def)
    then show ?thesis
      using assms(1) unfolding truthful_inv_def live_ids_def set_map by blast
  qed
  have "denied_ids dv cx' = denied_ids dv cx"
    using assms(2) by (auto simp: denied_ids_def)
  moreover have "denied_ids dv cx \<subseteq> dv_ids dv"
  proof -
    have "qe_reply ` device_entries dv \<subseteq> dv_ids dv"
      using assms(1) by (simp add: truthful_inv_def)
    then show ?thesis
      using pc_denied_entries[of "dv_pc dv"] join_denied_entries[of "dv_join dv"]
      unfolding denied_ids_def device_entries_def by blast
  qed
  moreover have "X \<inter> dispatched_ids cx' = X \<inter> dispatched_ids cx" if "X \<subseteq> dv_ids dv" for X
    using assms(2) that by blast
  ultimately show ?thesis
    using assms(1) ids by (simp add: truthful_inv_def Int_commute[of "dispatched_ids cx"] Int_commute[of "dispatched_ids cx'"])
qed

subsection \<open>The worker keeps the invariant\<close>

lemmas view_defs = live_ids_def denied_ids_def device_entries_def pc_entries_def join_entries_def

lemma truthful_clean: "truthful_inv c dv cx \<Longrightarrow> clean c dv"
  by (simp add: truthful_inv_def)

lemma truthful_distinct_pc:
  assumes "truthful_inv c dv cx" and "pc_live (dv_pc dv) = [e]"
  shows "qe_reply e \<in> set (live_ids dv)" and "qe_reply e \<notin> qe_reply ` set (all_entries (dv_queue dv))"
  using assms by (auto simp: truthful_inv_def live_ids_def)

text \<open>The pc entry leaves the live ones: for a denial, for the executor, or for an answer that denies nothing.\<close>

lemma after_run_truthful:
  assumes inv: "truthful_inv c dv cx" and pc: "pc_entries (dv_pc dv) = {e}"
    and live: "run_denies run \<Longrightarrow> pc_live (dv_pc dv) = [e]"
    and "after_run policy t e run (dv, cx) = (dv', cx')"
  shows "truthful_inv c dv' cx'"
proof -
  let ?A = "if run_denies run then {qe_reply e} else {}"
  have dv': "dv_pc dv' = PC_Settle e run K_Running" "dv_join dv' = dv_join dv" "dv_aborted dv' = dv_aborted dv"
      "dv_ids dv' = dv_ids dv" "all_entries (dv_queue dv') = all_entries (dv_queue dv)"
      "qi_draining (dv_queue dv') = qi_draining (dv_queue dv)" "qi_running (dv_queue dv') = qi_running (dv_queue dv)"
      "qi_closed (dv_queue dv') = qi_closed (dv_queue dv)"
      "cx_shared cx' = cx_shared cx" "cx_dispatched cx' = cx_dispatched cx"
    using assms(4) by (auto simp: after_run_def split: if_splits)
  show ?thesis
  proof (rule truthful_advance[OF inv, where A = ?A and B = "{}"])
    show "clean c dv'" using truthful_clean[OF inv] dv' by (simp add: clean_def)
    show "mset (live_ids dv') \<subseteq># mset (live_ids dv)" by (simp add: live_ids_def dv')
    show "denied_ids dv' cx' \<subseteq> denied_ids dv cx \<union> ?A" by (auto simp: denied_ids_def dv')
    show "dispatched_ids cx' \<subseteq> dispatched_ids cx \<union> {}" by (simp add: dispatched_ids_def dv')
    show "?A \<union> {} \<subseteq> set (live_ids dv) - set (live_ids dv')"
      using live truthful_distinct_pc[OF inv] by (auto simp: live_ids_def dv')
    show "device_entries dv' \<subseteq> device_entries dv"
      using pc by (simp add: device_entries_def dv') (auto simp: pc_entries_def)
  qed (simp_all add: dv')
qed

lemma phase_a_truthful:
  assumes inv: "truthful_inv c dv cx" and pc: "dv_pc dv = PC_Drain" and "phase_a c (dv_queue dv) = (p, q)"
  shows "truthful_inv c (dv\<lparr>dv_queue := q, dv_pc := p\<rparr>) cx"
proof -
  define q1 where "q1 = close_and_move c (dv_queue dv)"
  let ?dv' = "dv\<lparr>dv_queue := q, dv_pc := p\<rparr>"
  let ?A = "qe_reply ` (set (all_entries (dv_queue dv)) - set (all_entries q1))"
  have q: "all_entries q = all_entries q1" "set (qi_draining q) = set (qi_draining q1)" "qi_running q = qi_running (dv_queue dv)"
      "qi_closed q \<longleftrightarrow> c \<or> qi_closed (dv_queue dv)"
    using assms(3) by (auto simp: phase_a_def q1_def[symmetric] track_def Let_def split: if_splits list.splits)
      (auto simp: q1_def)
  have p: "pc_live p = []" "set (pc_denied p) \<subseteq> set (qi_draining q1)" "pc_entries p \<subseteq> set (qi_draining q1)"
    using assms(3)
    by (auto simp: phase_a_def q1_def[symmetric] Let_def pc_entries_def run_denies_def split: if_splits list.splits)
  have sub: "mset (all_entries q1) \<subseteq># mset (all_entries (dv_queue dv))"
      "set (qi_draining q1) \<subseteq> set (qi_draining (dv_queue dv)) \<union> (set (all_entries (dv_queue dv)) - set (all_entries q1))"
    unfolding q1_def by (cases rule: close_and_move_cases[of c "dv_queue dv"]; simp)+
  have inj: "inj_on qe_reply (set (all_entries (dv_queue dv)))"
    using inv by (auto simp: truthful_inv_def live_ids_def distinct_map)
  show ?thesis
  proof (rule truthful_advance[OF inv, where A = ?A and B = "{}"])
    show "clean c ?dv'"
      using truthful_clean[OF inv] assms(3) pc q
      by (auto simp: clean_def phase_a_def q1_def[symmetric] Let_def track_def split: if_splits list.splits)
    show "mset (live_ids ?dv') \<subseteq># mset (live_ids dv)"
      using sub(1) p(1) pc by (simp add: live_ids_def q image_mset_subseteq_mono)
    show "denied_ids ?dv' cx \<subseteq> denied_ids dv cx \<union> ?A"
      using p(2) q sub(2) by (auto simp: denied_ids_def pc)
    show "?A \<union> {} \<subseteq> set (live_ids dv) - set (live_ids ?dv')"
      using p(1) set_mset_mono[OF sub(1)] inj by (auto simp: live_ids_def q pc inj_on_def)
    show "device_entries ?dv' \<subseteq> device_entries dv"
      using p(3) q sub set_mset_mono[OF sub(1)] by (auto simp: device_entries_def)
  qed simp_all
qed

lemma phase_picked_truthful:
  assumes inv: "truthful_inv c dv cx" and pc: "dv_pc dv = PC_Picked e k" and "phase_picked e k (dv_queue dv) = (p, q)"
  shows "truthful_inv c (dv\<lparr>dv_queue := q, dv_pc := p\<rparr>) cx"
proof -
  let ?dv' = "dv\<lparr>dv_queue := q, dv_pc := p\<rparr>"
  let ?A = "if k = PK_Ready then {} else {qe_reply e}"
  show ?thesis
  proof (rule truthful_advance[OF inv, where A = ?A and B = "{}"])
    show "clean c ?dv'"
      using truthful_clean[OF inv] assms(3) pc by (cases k) (auto simp: clean_def track_def)
    show "mset (live_ids ?dv') \<subseteq># mset (live_ids dv)"
      using assms(3) pc by (cases k) (auto simp: live_ids_def)
    show "denied_ids ?dv' cx \<subseteq> denied_ids dv cx \<union> ?A"
      using assms(3) pc by (cases k) (auto simp: denied_ids_def track_def)
    show "?A \<union> {} \<subseteq> set (live_ids dv) - set (live_ids ?dv')"
      using assms(3) pc truthful_distinct_pc[OF inv, of e] by (cases k) (auto simp: live_ids_def)
    show "device_entries ?dv' \<subseteq> device_entries dv"
      using assms(3) pc by (cases k) (auto simp: device_entries_def pc_entries_def track_def)
  qed simp_all
qed

lemma finish_truthful:
  assumes inv: "truthful_inv c dv cx" and pc: "dv_pc dv = PC_Settled e r completed k"
    and sh: "cx_shared cx' = (cx_shared cx)(qe_reply e \<mapsto> r)" and disp: "cx_dispatched cx' = cx_dispatched cx"
    and q: "qi_entries q = qi_entries (dv_queue dv)" "set (qi_draining q) \<subseteq> set (qi_draining (dv_queue dv))"
      "set_option (qi_running q) \<subseteq> set_option (qi_running (dv_queue dv))" "qi_closed q = qi_closed (dv_queue dv)"
    and p: "p = PC_Adopt [] \<or> p = PC_Drain"
  shows "truthful_inv c (dv\<lparr>dv_queue := q, dv_pc := p\<rparr>) cx'"
proof -
  have e: "all_entries q = all_entries (dv_queue dv)" by (simp add: all_entries_def q)
  show ?thesis
  proof (rule truthful_advance[OF inv, where A = "{}" and B = "{}"])
    show "clean c (dv\<lparr>dv_queue := q, dv_pc := p\<rparr>)"
      using truthful_clean[OF inv] p pc q(4) by (auto simp: clean_def)
    show "mset (live_ids (dv\<lparr>dv_queue := q, dv_pc := p\<rparr>)) \<subseteq># mset (live_ids dv)"
      using p pc by (auto simp: live_ids_def e)
    show "denied_ids (dv\<lparr>dv_queue := q, dv_pc := p\<rparr>) cx' \<subseteq> denied_ids dv cx \<union> {}"
      using p pc q(2) sh by (auto simp: denied_ids_def split: if_splits)
    show "dispatched_ids cx' \<subseteq> dispatched_ids cx \<union> {}" by (simp add: dispatched_ids_def disp)
    show "device_entries (dv\<lparr>dv_queue := q, dv_pc := p\<rparr>) \<subseteq> device_entries dv"
      using p q(2,3) by (auto simp: device_entries_def pc_entries_def e)
  qed auto
qed

lemma set_dropWhile_subset: "set (dropWhile P xs) \<subseteq> set xs"
  by (auto dest: set_dropWhileD)

lemma worker_truthful:
  assumes "worker_rel policy api c (dv, cx) (dv', cx')" and inv: "truthful_inv c dv cx"
  shows "truthful_inv c dv' cx'"
  using assms(1)
proof cases
  case (r_start os q)
  have "qi_running (dv_queue dv) = None" "qi_draining (dv_queue dv) = []"
    using truthful_clean[OF inv] r_start(3) by (simp_all add: clean_def)
  then have "os = []" "q = dv_queue dv"
    using r_start(4) by (auto simp: adopt_def)
  with r_start show ?thesis
    by (intro truthful_advance[OF inv, where A = "{}" and B = "{}"])
      (use truthful_clean[OF inv] in \<open>auto simp: clean_def view_defs\<close>)
next
  case r_adopt_done
  then show ?thesis
    by (intro truthful_advance[OF inv, where A = "{}" and B = "{}"])
      (use truthful_clean[OF inv] in \<open>auto simp: clean_def view_defs\<close>)
next
  case (r_adopt_skip e run rest)
  then show ?thesis using truthful_clean[OF inv] by (simp add: clean_def)
next
  case (r_adopt e run rest)
  then show ?thesis using truthful_clean[OF inv] by (simp add: clean_def)
next
  case (r_drain p q)
  then show ?thesis using phase_a_truthful[OF inv r_drain(3,4)] by simp
next
  case (r_pick_none t now q)
  then show ?thesis
    by (intro truthful_advance[OF inv, where A = "{}" and B = "{}"])
      (use truthful_clean[OF inv] in \<open>auto simp: clean_def view_defs dest!: pick_NoneD\<close>)
next
  case (r_pick t now e k q)
  note pk = pick_SomeD[OF r_pick(4)]
  have s: "set (all_entries (dv_queue dv)) = insert e (set (all_entries q))"
    using arg_cong[OF pk(1), of set_mset] by simp
  show ?thesis
  proof (rule truthful_advance[OF inv, where A = "{}" and B = "{}"])
    show "mset (live_ids dv') \<subseteq># mset (live_ids dv)"
      using r_pick pk by (simp add: live_ids_def)
  qed (use truthful_clean[OF inv] r_pick pk s in \<open>auto simp: clean_def denied_ids_def device_entries_def pc_entries_def\<close>)
next
  case r_wake
  then show ?thesis
    by (intro truthful_advance[OF inv, where A = "{}" and B = "{}"])
      (use truthful_clean[OF inv] in \<open>auto simp: clean_def view_defs\<close>)
next
  case (r_picked e k p q)
  then show ?thesis using phase_picked_truthful[OF inv r_picked(3,4)] by simp
next
  case (r_not_started e run t)
  then show ?thesis
    using after_run_truthful[OF inv, of e run policy t dv' cx'] by (auto simp: pc_entries_def)
next
  case (r_poll e)
  then show ?thesis
    by (intro truthful_advance[OF inv, where A = "{}" and B = "{}"])
      (use truthful_clean[OF inv] in \<open>auto simp: clean_def view_defs\<close>)
next
  case (r_checked e o')
  then show ?thesis
    by (intro truthful_advance[OF inv, where A = "{}" and B = "{}"])
      (use truthful_clean[OF inv] in \<open>auto simp: clean_def view_defs\<close>)
next
  case (r_dispatch e)
  show ?thesis
  proof (rule truthful_advance[OF inv, where A = "{}" and B = "{qe_reply e}"])
    show "{} \<union> {qe_reply e} \<subseteq> set (live_ids dv) - set (live_ids dv')"
      using truthful_distinct_pc[OF inv, of e] r_dispatch by (auto simp: live_ids_def)
  qed (use truthful_clean[OF inv] r_dispatch in
      \<open>auto simp: clean_def view_defs dispatched_ids_def\<close>)
next
  case (r_executor_panic e base wo eo)
  have "op_wf (qe_operation e)"
    using inv r_executor_panic(3) by (simp add: truthful_inv_def device_entries_def pc_entries_def)
  then have "outcome_result base (qe_operation e) wo eo \<noteq> None"
    by (cases "qe_operation e"; cases wo) (auto simp: write_item_results_eq)
  with r_executor_panic show ?thesis by simp
next
  case (r_ran e checked run t)
  then have "\<not> run_denies run"
    by (auto simp: run_denies_def denies_execution_def)
  with r_ran show ?thesis
    using after_run_truthful[OF inv, of e run policy t dv' cx'] by (auto simp: pc_entries_def)
next
  case (r_settle e run k io completed r)
  note f = settle_begin_frame[OF r_settle(3)]
  have "pc_clean c (dv_queue dv) (PC_Settled e r completed k)"
    using truthful_clean[OF inv] r_settle(2) by (cases k) (auto simp: clean_def)
  then show ?thesis
    by (intro truthful_advance[OF inv, where A = "{}" and B = "{}"])
      (use truthful_clean[OF inv] r_settle f in \<open>auto simp: clean_def view_defs dispatched_ids_def split: if_splits\<close>)
next
  case (r_tracked e r completed rest attempts)
  have "rest = []" using truthful_clean[OF inv] r_tracked(2) by (simp add: clean_def)
  moreover have "set (qi_draining (untrack cx' (dv_queue dv))) \<subseteq> set (qi_draining (dv_queue dv))"
    by (auto simp: untrack_def dest: set_dropWhileD)
  ultimately show ?thesis
    using r_tracked finish_truthful[OF inv r_tracked(2), of cx' "untrack cx' (dv_queue dv)" "PC_Adopt []"]
    by (auto simp: untrack_def)
next
  case (r_finished e r completed attempts)
  then show ?thesis
    using finish_truthful[OF inv r_finished(2), of cx' "(dv_queue dv)\<lparr>qi_running := None\<rparr>" PC_Drain] by auto
qed

subsection \<open>So does everything else\<close>

lemma enqueue_InrD:
  assumes "enqueue policy c e q = Inr q'"
  shows "\<not> c" "\<not> qi_closed q" "mset (all_entries q') = add_mset e (mset (all_entries q))"
    "qi_draining q' = qi_draining q" "qi_running q' = qi_running q" "qi_closed q' = qi_closed q"
    "qi_len q < qi_capacity q" "qi_len q' = qi_len q + 1" "qi_capacity q' = qi_capacity q"
  using assms
  by (auto simp: enqueue_def Let_def all_entries_push simp flip: One_nat_def split: if_splits)

lemma enqueue_truthful:
  assumes inv: "truthful_inv c dv cx" and enq: "device_enqueue policy c e (dv, cx) = Inr (dv', cx')"
    and new: "qe_reply e \<notin> dv_ids dv" "cx_shared cx (qe_reply e) = None" "qe_reply e \<notin> dispatched_ids cx"
    and wf: "op_wf (qe_operation e)"
  shows "truthful_inv c dv' cx'"
proof -
  obtain q where q: "enqueue policy c e (dv_queue dv) = Inr q"
      and dv': "dv' = ensure_worker (dv\<lparr>dv_queue := q, dv_ids := insert (qe_reply e) (dv_ids dv)\<rparr>)"
      and cx': "cx' = cx\<lparr>cx_metrics := observe_enqueued (ik_device_id (qe_key e)) (cx_metrics cx)\<rparr>"
    using enq by (auto simp: device_enqueue_def result_simps)
  note f = enqueue_InrD[OF q]
  have s: "set (all_entries q) = insert e (set (all_entries (dv_queue dv)))"
    using arg_cong[OF f(3), of set_mset] by simp
  have dead: "dv_pc dv \<noteq> PC_Dead"
    using truthful_clean[OF inv] f(1) by (auto simp: clean_def)
  have pcs: "pc_live (dv_pc dv') = pc_live (dv_pc dv)" "pc_denied (dv_pc dv') = pc_denied (dv_pc dv)"
      "pc_entries (dv_pc dv') = pc_entries (dv_pc dv)"
    and rest: "dv_queue dv' = q" "dv_join dv' = dv_join dv" "dv_ids dv' = insert (qe_reply e) (dv_ids dv)"
    by (auto simp: dv' ensure_worker_def pc_entries_def)
  have ids: "qe_reply ` device_entries dv \<subseteq> dv_ids dv" using inv by (simp add: truthful_inv_def)
  note pl = pc_live_entries[of "dv_pc dv"] pc_denied_entries[of "dv_pc dv"]
  note jd = join_denied_entries[of "dv_join dv"]
  have ents: "device_entries dv' = insert e (device_entries dv)"
    by (simp add: device_entries_def pcs rest s f)
  have live: "mset (live_ids dv') = add_mset (qe_reply e) (mset (live_ids dv))"
    using f(3) by (simp add: live_ids_def pcs rest)
  have "set (live_ids dv) \<subseteq> qe_reply ` device_entries dv"
    using pl by (auto simp: live_ids_def device_entries_def)
  then have nl: "qe_reply e \<notin> set (live_ids dv)" using ids new(1) by blast
  have nd: "denied_ids dv' cx' = denied_ids dv cx"
    using new(2) f(4) by (auto simp: denied_ids_def pcs rest cx')
  have "denied_ids dv cx \<subseteq> dv_ids dv"
    using ids pl(2) jd unfolding denied_ids_def device_entries_def by blast
  then have "qe_reply e \<notin> denied_ids dv cx" using new(1) by blast
  have disp: "dispatched_ids cx' = dispatched_ids cx" by (simp add: dispatched_ids_def cx')
  have sl: "set (live_ids dv') = insert (qe_reply e) (set (live_ids dv))"
    using arg_cong[OF live, of set_mset] by simp
  have "distinct (live_ids dv')"
    using inv nl live by (metis distinct.simps(2) mset.simps(2) mset_eq_imp_distinct_iff truthful_inv_def)
  moreover have "clean c dv'"
    using truthful_clean[OF inv] dead f pc_clean_mono[of c "dv_queue dv" "dv_pc dv" q c]
    by (auto simp: clean_def dv' ensure_worker_def)
  ultimately show ?thesis
    using inv new(3) nd disp sl ents wf \<open>qe_reply e \<notin> denied_ids dv cx\<close> ids
    by (auto simp: truthful_inv_def rest)
qed

lemma denied_of_simps:
  "denied_of (xs @ ys) = denied_of xs @ denied_of ys"
  "denied_of ((e, WORKER_ABORTED) # xs) = denied_of xs"
  "denied_of (map (\<lambda>e. (e, RR_Cancelled)) es) = es"
  "denied_of [] = []"
  by (simp_all add: denied_of_def run_denies_def WORKER_ABORTED_def filter_map comp_def)

lemma join_truthful:
  assumes inv: "truthful_inv c dv cx" and step: "join_step api choice (dv, cx) = Some (dv', cx')"
  shows "truthful_inv c dv' cx'"
proof (cases "dv_join dv")
  case J_Waiting
  with step show ?thesis
    by (intro truthful_advance[OF inv, where A = "{}" and B = "{}"])
      (use truthful_clean[OF inv] in \<open>auto simp: join_step.simps clean_def view_defs split: join_choice.splits if_splits\<close>)
next
  case J_Abandon
  then obtain es q where ab: "abandon (dv_queue dv) = (es, q)" and dv': "dv' = dv\<lparr>dv_queue := q, dv_join := J_Settling es\<rparr>"
      and cx': "cx' = cx"
    using step by (cases choice) (auto simp: join_step.simps split: prod.splits)
  let ?A = "qe_reply ` set (all_entries (dv_queue dv))"
  have es: "fst ` set es = set_option (qi_running (dv_queue dv)) \<union> set (all_entries (dv_queue dv)) \<union> set (qi_draining (dv_queue dv))"
      "set (denied_of es) = set (all_entries (dv_queue dv)) \<union> set (qi_draining (dv_queue dv))"
    using ab by (auto simp: abandon_def denied_of_simps image_Un image_image split: option.splits)
  have q: "all_entries q = []" "qi_draining q = []" "qi_running q = None" "qi_closed q"
    using ab by (auto simp: abandon_def)
  show ?thesis
  proof (rule truthful_advance[OF inv, where A = ?A and B = "{}"])
    show "clean c dv'"
      using truthful_clean[OF inv] J_Abandon q pc_clean_mono[of c "dv_queue dv" "dv_pc dv" q c]
      by (auto simp: clean_def dv')
    show "mset (live_ids dv') \<subseteq># mset (live_ids dv)" by (simp add: live_ids_def dv' q)
    show "denied_ids dv' cx' \<subseteq> denied_ids dv cx \<union> ?A" using es q by (auto simp: denied_ids_def dv' cx')
    show "?A \<union> {} \<subseteq> set (live_ids dv) - set (live_ids dv')"
      using inv by (auto simp: truthful_inv_def live_ids_def dv' q)
    show "device_entries dv' \<subseteq> device_entries dv"
      using es q by (auto simp: device_entries_def join_entries_def dv')
  qed (simp_all add: dv' cx')
next
  case (J_Settling es)
  show ?thesis
  proof (cases es)
    case Nil
    with J_Settling step show ?thesis
      by (intro truthful_advance[OF inv, where A = "{}" and B = "{}"])
        (use truthful_clean[OF inv] in \<open>auto simp: join_step.simps clean_def view_defs denied_of_def split: join_choice.splits\<close>)
  next
    case (Cons x rest)
    then obtain e run io audit t where c: "es = (e, run) # rest" and dv': "dv' = dv\<lparr>dv_join := J_Settling rest\<rparr>"
        and cx': "cx' = (if is_set cx e then cx else settle_entry api io audit t e run cx)"
      using J_Settling step by (cases x; cases choice) (auto simp: join_step.simps)
    obtain r where r: "\<not> is_set cx e \<Longrightarrow> cx_shared cx' = (cx_shared cx)(qe_reply e \<mapsto> r)"
        "cx_dispatched cx' = cx_dispatched cx" "denies_execution (res_status r) \<Longrightarrow> run_denies run"
        "is_set cx e \<Longrightarrow> cx_shared cx' = cx_shared cx"
      by (rule settle_entry_frame[OF refl, of api io audit t e run cx]) (use cx' in auto)
    show ?thesis
    proof (rule truthful_advance[OF inv, where A = "{}" and B = "{}"])
      show "denied_ids dv' cx' \<subseteq> denied_ids dv cx \<union> {}"
        using r J_Settling c by (cases "is_set cx e") (auto simp: denied_ids_def denied_of_def dv' split: if_splits)
    qed (use truthful_clean[OF inv] J_Settling c r in
        \<open>auto simp: clean_def live_ids_def device_entries_def join_entries_def dispatched_ids_def dv'\<close>)
  qed
qed (use step in \<open>auto simp: join_step.simps\<close>)

lemma kill_truthful:
  assumes inv: "truthful_inv c dv cx" and "dv_aborted dv"
  shows "truthful_inv c (dv\<lparr>dv_pc := PC_Dead\<rparr>) (kill_journal api w (dv_pc dv) cx)"
  by (intro truthful_advance[OF inv, where A = "{}" and B = "{}"])
    (use truthful_clean[OF inv] assms(2) in \<open>auto simp: clean_def view_defs dispatched_ids_def\<close>)

lemma queue_cancel_frame:
  assumes "queue_cancel key q cx = (out, cx')"
  shows "cx_shared cx' = cx_shared cx" "cx_dispatched cx' = cx_dispatched cx"
  using assms by (auto simp: queue_cancel_def cancel_token_def split: if_splits option.splits)

lemma clean_close: "clean c dv \<Longrightarrow> clean True dv"
  by (auto simp: clean_def intro: pc_clean_mono)

lemma device_step_truthful:
  assumes "device_step policy api False (c, dv, cx) (c', dv', cx')" and inv: "truthful_inv c dv cx"
  shows "truthful_inv c' dv' cx'"
  using assms(1)
proof cases
  case (d_enqueue e)
  then show ?thesis using enqueue_truthful[OF inv] by simp
next
  case (d_cancel key out)
  then show ?thesis
    using truthful_other[OF inv, of cx'] queue_cancel_frame[OF d_cancel(3)] by (simp add: dispatched_ids_def)
next
  case (d_work choice)
  then show ?thesis using worker_truthful[OF worker_step_rel inv] by simp
next
  case d_close
  then show ?thesis using inv clean_close by (auto simp: truthful_inv_def)
next
  case d_shutdown
  have "pc_clean True (queue_shutdown (dv_queue dv)) (dv_pc dv)"
    using truthful_clean[OF inv] pc_clean_mono[of c "dv_queue dv" "dv_pc dv" "queue_shutdown (dv_queue dv)" True]
    by (simp add: clean_def queue_shutdown_def)
  with d_shutdown show ?thesis
    by (intro truthful_advance[OF inv, where A = "{}" and B = "{}"])
      (auto simp: clean_def view_defs queue_shutdown_def)
next
  case (d_join choice)
  then show ?thesis using join_truthful[OF inv] by simp
next
  case (d_kill w)
  then show ?thesis using kill_truthful[OF inv] by simp
next
  case d_respawn
  then show ?thesis using truthful_clean[OF inv] by (simp add: clean_def)
next
  case d_other
  then show ?thesis using truthful_other[OF inv] by simp
qed simp_all

lemma device_reach_truthful:
  assumes "device_reach policy api False (c, dv, cx)"
  shows "truthful_inv c dv cx"
  using assms
proof (induction "(c, dv, cx)" arbitrary: c dv cx rule: device_reach.induct)
  case (d_init cx)
  show ?case
    by (simp add: truthful_inv_def clean_def view_defs device_new_def queue_new_def all_entries_def priorities_def)
next
  case (d_step s)
  then show ?case by (cases s) (auto intro: device_step_truthful)
qed

section \<open>A denial is the truth, unless a worker panicked\<close>

text \<open>The rules of reachability for single kinds of steps, used to build traces.\<close>

lemma reach_worker:
  "device_reach policy api panics (c, dv, cx) \<Longrightarrow> worker_step policy api c choice (dv, cx) = Some (dv', cx') \<Longrightarrow>
   device_reach policy api panics (c, dv', cx')"
  by (blast intro: d_step d_work)

lemma reach_join:
  "device_reach policy api panics (c, dv, cx) \<Longrightarrow> join_step api choice (dv, cx) = Some (dv', cx') \<Longrightarrow>
   device_reach policy api panics (c, dv', cx')"
  by (blast intro: d_step d_join)

text \<open>An entry on a device with an in-memory journal.\<close>

definition example_entry :: queued_entry where
  "example_entry =
     \<lparr>qe_key = example_key, qe_operation = VO_Write [] [], qe_subject = ''op'', qe_source = ''test'', qe_deadline = 1000,
      qe_cancel = 0, qe_reply = 0,
      qe_audit_meta = \<lparr>mt_operation = AO_PropertyWrite, mt_target = [], mt_parameters = [], mt_risk_level = None,
                       mt_queued_at_ns = 0\<rparr>\<rparr>"

definition empty_metrics :: control_metrics where
  "empty_metrics = \<lparr>mx_queue_depth = 0, mx_device_depth = Map.empty, mx_settled = (\<lambda>_. 0), mx_cooldown_entered = 0,
     mx_journal_settle_failed = 0\<rparr>"

definition empty_ctx :: "journal_entries engine_ctx" where
  "empty_ctx = \<lparr>cx_journal = [], cx_active = Map.empty, cx_shared = Map.empty, cx_cancelled = {}, cx_sink = [],
     cx_metrics = empty_metrics, cx_dispatched = []\<rparr>"

definition dev_at :: "queue_inner \<Rightarrow> pc \<Rightarrow> bool \<Rightarrow> join_pc \<Rightarrow> device" where
  "dev_at q p a j = \<lparr>dv_queue = q, dv_pc = p, dv_aborted = a, dv_join = j, dv_ids = {0}\<rparr>"

definition example_queue :: "bool \<Rightarrow> queued_entry list \<Rightarrow> queued_entry option \<Rightarrow> queued_entry list \<Rightarrow> queue_inner" where
  "example_queue closed es running draining =
     \<lparr>qi_entries = (\<lambda>p. if p = Prio_Medium then es else []), qi_capacity = 64, qi_closed = closed, qi_len = length es,
      qi_running = running, qi_draining = draining, qi_cooldown_until = None\<rparr>"

definition queued_ctx :: "journal_entries engine_ctx" where
  "queued_ctx = empty_ctx\<lparr>cx_metrics := observe_enqueued ''vfd-1'' empty_metrics\<rparr>"

definition dispatched_ctx :: "journal_entries engine_ctx" where
  "dispatched_ctx = queued_ctx\<lparr>cx_dispatched := [(example_key, 0)]\<rparr>"

lemmas example_simps = dev_at_def example_queue_def worker_step.simps join_step.simps

lemma trace_enqueued:
  "device_reach default_policy mem_api panics (False, dev_at (example_queue False [example_entry] None []) PC_Start False J_None, queued_ctx)"
proof -
  have init: "device_reach default_policy mem_api panics (False, device_new (queue_capacity default_policy), empty_ctx)"
    by (rule d_init)
  show ?thesis
  proof (rule d_step[OF init], rule d_enqueue[where e = example_entry])
    show "device_enqueue default_policy False example_entry (device_new (queue_capacity default_policy), empty_ctx) =
        Inr (dev_at (example_queue False [example_entry] None []) PC_Start False J_None, queued_ctx)"
      by (simp add: device_enqueue_def enqueue_def device_new_def queue_new_def ensure_worker_def default_policy_def
          example_entry_def dev_at_def example_queue_def queued_ctx_def empty_ctx_def example_key_def fun_eq_iff
          del: One_nat_def)
  qed (simp_all add: device_new_def empty_ctx_def dispatched_ids_def example_entry_def)
qed

lemma select_example:
  "pick default_policy t now queued_ctx (example_queue False [example_entry] None []) =
     (Some (example_entry, if 1000 \<le> t then PK_Expired else PK_Ready), example_queue False [] None [])"
  by (auto simp: pick_def in_cooldown_def select_priority_def example_queue_def priorities_def better_def
      is_cancelled_def queued_ctx_def empty_ctx_def example_entry_def fun_eq_iff)

lemma trace_picked:
  "device_reach default_policy mem_api panics
     (False, dev_at (example_queue False [] None []) (PC_Picked example_entry PK_Ready) False J_None, queued_ctx)"
proof -
  let ?q = "example_queue False [example_entry] None []"
  note r = trace_enqueued[of panics]
  have r: "device_reach default_policy mem_api panics (False, dev_at ?q (PC_Adopt []) False J_None, queued_ctx)"
    by (rule reach_worker[OF r, of "WC_Tick 0 0"]) (simp add: worker_step.simps dev_at_def adopt_def example_queue_def)
  have r: "device_reach default_policy mem_api panics (False, dev_at ?q PC_Drain False J_None, queued_ctx)"
    by (rule reach_worker[OF r, of "WC_Tick 0 0"]) (simp add: worker_step.simps dev_at_def)
  have r: "device_reach default_policy mem_api panics (False, dev_at ?q PC_Pick False J_None, queued_ctx)"
    by (rule reach_worker[OF r, of "WC_Tick 0 0"])
      (simp add: worker_step.simps dev_at_def phase_a_def close_and_move_def example_queue_def)
  show ?thesis
    by (rule reach_worker[OF r, of "WC_Tick 0 0"]) (simp add: worker_step.simps dev_at_def select_example)
qed

lemma trace_dispatched:
  "device_reach default_policy mem_api panics
     (False, dev_at (example_queue False [] (Some example_entry) []) (PC_Dispatched example_entry) False J_None, dispatched_ctx)"
proof -
  let ?q = "example_queue False [] (Some example_entry) []"
  have r: "device_reach default_policy mem_api panics (False, dev_at ?q (PC_Run example_entry) False J_None, queued_ctx)"
    by (rule reach_worker[OF trace_picked, of "WC_Tick 0 0"]) (simp add: worker_step.simps dev_at_def example_queue_def)
  have r: "device_reach default_policy mem_api panics (False, dev_at ?q (PC_Started example_entry True) False J_None, queued_ctx)"
    by (rule reach_worker[OF r, of WC_Poll]) (simp add: worker_step.simps dev_at_def example_entry_def)
  show ?thesis
    by (rule reach_worker[OF r, of WC_Dispatch])
      (simp add: worker_step.simps dev_at_def dispatched_ctx_def queued_ctx_def empty_ctx_def example_entry_def)
qed

definition expired_ctx :: "journal_entries engine_ctx" where
  "expired_ctx = settle_finish (Some []) 5 example_entry (run_to_result example_entry 5 RR_Timeout)
     (queued_ctx\<lparr>cx_metrics := observe_settled_exit ''vfd-1'' (cx_metrics queued_ctx)\<rparr>)"

lemma trace_expired:
  "device_reach default_policy mem_api panics
     (False, dev_at (example_queue False [] None []) (PC_Adopt []) False J_None, expired_ctx)"
proof -
  let ?q = "example_queue False [example_entry] None []"
  let ?cx = "queued_ctx\<lparr>cx_metrics := observe_settled_exit ''vfd-1'' (cx_metrics queued_ctx)\<rparr>"
  have r: "device_reach default_policy mem_api panics (False, dev_at ?q (PC_Adopt []) False J_None, queued_ctx)"
    by (rule reach_worker[OF trace_enqueued, of "WC_Tick 0 0"]) (simp add: worker_step.simps dev_at_def adopt_def example_queue_def)
  have r: "device_reach default_policy mem_api panics (False, dev_at ?q PC_Drain False J_None, queued_ctx)"
    by (rule reach_worker[OF r, of "WC_Tick 0 0"]) (simp add: worker_step.simps dev_at_def)
  have r: "device_reach default_policy mem_api panics (False, dev_at ?q PC_Pick False J_None, queued_ctx)"
    by (rule reach_worker[OF r, of "WC_Tick 0 0"])
      (simp add: worker_step.simps dev_at_def phase_a_def close_and_move_def example_queue_def)
  have r: "device_reach default_policy mem_api panics
      (False, dev_at (example_queue False [] None []) (PC_Picked example_entry PK_Expired) False J_None, queued_ctx)"
    by (rule reach_worker[OF r, of "WC_Tick 1000 0"]) (simp add: worker_step.simps dev_at_def select_example)
  have r: "device_reach default_policy mem_api panics
      (False, dev_at (example_queue False [] None [example_entry]) (PC_Settle example_entry RR_Timeout (K_Tracked [])) False J_None, queued_ctx)"
    by (rule reach_worker[OF r, of "WC_Tick 1000 0"]) (simp add: worker_step.simps dev_at_def example_queue_def track_def)
  have r: "device_reach default_policy mem_api panics
      (False, dev_at (example_queue False [] None [example_entry])
        (PC_Settled example_entry (run_to_result example_entry 5 RR_Timeout) 5 (K_Tracked [])) False J_None, ?cx)"
    by (rule reach_worker[OF r, of "WC_Settle SI_Skip 5"])
      (simp add: worker_step.simps dev_at_def settle_begin_def example_entry_def example_key_def)
  show ?thesis
    by (rule reach_worker[OF r, of "WC_Audit []"])
      (simp add: worker_step.simps dev_at_def untrack_def expired_ctx_def example_queue_def is_set_def)
qed

text \<open>The entry that a panicked worker had running is settled by the next worker as \<open>draining\<close>; a forced stop takes what is
  draining for entries that never ran.\<close>

lemma trace_panicked:
  "\<exists>cx. device_reach default_policy mem_api True
     (True, dev_at (example_queue True [] None []) PC_Dead True (J_Settling []), cx) \<and>
     cx_dispatched cx = [(example_key, 0)] \<and> cx_shared cx 0 = Some (run_to_result example_entry 9 RR_Cancelled)"
proof -
  let ?reach = "device_reach default_policy mem_api True"
  let ?e = "example_entry"
  have r: "?reach (False, dev_at (example_queue False [] (Some ?e) []) PC_Dead False J_None, dispatched_ctx)"
    using d_step[OF trace_dispatched d_panic[where w = None]] by (simp add: dev_at_def)
  have r: "?reach (False, dev_at (example_queue False [] (Some ?e) []) PC_Start False J_None, dispatched_ctx)"
    using d_step[OF r d_respawn] by (simp add: dev_at_def ensure_worker_def)
  have r: "?reach (False, dev_at (example_queue False [] None []) (PC_Adopt [(?e, WORKER_ABORTED)]) False J_None, dispatched_ctx)"
    by (rule reach_worker[OF r, of "WC_Tick 0 0"]) (simp add: worker_step.simps dev_at_def adopt_def example_queue_def)
  have r: "?reach (False, dev_at (example_queue False [] None [?e]) (PC_Settle ?e WORKER_ABORTED (K_Tracked [])) False J_None, dispatched_ctx)"
    by (rule reach_worker[OF r, of "WC_Tick 0 0"])
      (simp add: worker_step.simps dev_at_def track_def example_queue_def is_set_def dispatched_ctx_def queued_ctx_def empty_ctx_def)
  have r: "?reach (True, dev_at (example_queue True [] None [?e]) (PC_Settle ?e WORKER_ABORTED (K_Tracked [])) False J_Waiting, dispatched_ctx)"
    using d_step[OF d_step[OF r d_close] d_shutdown] by (simp add: dev_at_def queue_shutdown_def example_queue_def)
  have r: "?reach (True, dev_at (example_queue True [] None [?e]) (PC_Settle ?e WORKER_ABORTED (K_Tracked [])) True J_Abandon, dispatched_ctx)"
    by (rule reach_join[OF r, of JC_Expire]) (simp add: join_step.simps dev_at_def)
  have r: "?reach (True, dev_at (example_queue True [] None []) (PC_Settle ?e WORKER_ABORTED (K_Tracked [])) True
      (J_Settling [(?e, RR_Cancelled)]), dispatched_ctx)"
    by (rule reach_join[OF r, of JC_Take])
      (simp add: join_step.simps dev_at_def abandon_def example_queue_def all_entries_def priorities_def)
  have r: "?reach (True, dev_at (example_queue True [] None []) PC_Dead True (J_Settling [(?e, RR_Cancelled)]), dispatched_ctx)"
    using d_step[OF r d_kill[where w = None]] by (simp add: dev_at_def)
  have "?reach (True, dev_at (example_queue True [] None []) PC_Dead True (J_Settling []),
      settle_entry mem_api SI_Skip None 9 ?e RR_Cancelled dispatched_ctx)"
    by (rule reach_join[OF r, of "JC_SettleNext SI_Skip None 9"])
      (simp add: join_step.simps dev_at_def is_set_def dispatched_ctx_def queued_ctx_def empty_ctx_def)
  then show ?thesis
    by (rule exI[of _ "settle_entry mem_api SI_Skip None 9 ?e RR_Cancelled dispatched_ctx", OF conjI])
      (simp add: settle_entry_def settle_begin_def dispatched_ctx_def example_entry_def)
qed

text \<open>A worker that has taken an entry off the queue and not yet entered it as running is invisible to the forced stop.\<close>

definition stranded :: "bool \<times> device \<times> journal_entries engine_ctx \<Rightarrow> bool" where
  "stranded s \<longleftrightarrow> (case s of (c, dv, cx) \<Rightarrow> c \<and> qi_closed (dv_queue dv) \<and> dv_pc dv = PC_Dead \<and> dv_join dv = J_Done \<and>
     0 \<in> dv_ids dv \<and> cx_shared cx 0 = None \<and> 0 \<in> dispatched_ids cx)"

lemma stranded_step:
  assumes "device_step policy mem_api False s s'" and "stranded s"
  shows "stranded s'"
  using assms
proof cases
  case (d_enqueue c e dv cx dv' cx')
  then show ?thesis
    using assms(2) by (auto simp: stranded_def device_enqueue_def enqueue_def)
next
  case (d_cancel key dv cx out cx' c)
  then show ?thesis
    using assms(2) queue_cancel_frame[OF d_cancel(3)] by (simp add: stranded_def dispatched_ids_def)
qed (use assms(2) in \<open>auto simp: stranded_def worker_step.simps join_step.simps\<close>)

lemma trace_stranded:
  "\<exists>s. device_reach default_policy mem_api False s \<and> stranded s"
proof -
  let ?reach = "device_reach default_policy mem_api False"
  let ?e = "example_entry"
  let ?p = "PC_Picked ?e PK_Ready"
  have r: "?reach (True, dev_at (example_queue True [] None []) ?p False J_Waiting, queued_ctx)"
    using d_step[OF d_step[OF trace_picked d_close] d_shutdown] by (simp add: dev_at_def queue_shutdown_def example_queue_def)
  have r: "?reach (True, dev_at (example_queue True [] None []) ?p True J_Abandon, queued_ctx)"
    by (rule reach_join[OF r, of JC_Expire]) (simp add: join_step.simps dev_at_def)
  have r: "?reach (True, dev_at (example_queue True [] None []) ?p True (J_Settling []), queued_ctx)"
    by (rule reach_join[OF r, of JC_Take])
      (simp add: join_step.simps dev_at_def abandon_def example_queue_def all_entries_def priorities_def)
  have r: "?reach (True, dev_at (example_queue True [] None []) ?p True J_Done, queued_ctx)"
    by (rule reach_join[OF r, of JC_Take]) (simp add: join_step.simps dev_at_def)
  have r: "?reach (True, dev_at (example_queue True [] (Some ?e) []) (PC_Run ?e) True J_Done, queued_ctx)"
    by (rule reach_worker[OF r, of "WC_Tick 0 0"]) (simp add: worker_step.simps dev_at_def example_queue_def)
  have r: "?reach (True, dev_at (example_queue True [] (Some ?e) []) (PC_Started ?e True) True J_Done, queued_ctx)"
    by (rule reach_worker[OF r, of WC_Poll]) (simp add: worker_step.simps dev_at_def example_entry_def)
  have r: "?reach (True, dev_at (example_queue True [] (Some ?e) []) (PC_Dispatched ?e) True J_Done, dispatched_ctx)"
    by (rule reach_worker[OF r, of WC_Dispatch])
      (simp add: worker_step.simps dev_at_def dispatched_ctx_def queued_ctx_def empty_ctx_def example_entry_def)
  have "?reach (True, dev_at (example_queue True [] (Some ?e) []) PC_Dead True J_Done, dispatched_ctx)"
    using d_step[OF r d_kill[where w = None]] by (simp add: dev_at_def)
  moreover have "stranded (True, dev_at (example_queue True [] (Some ?e) []) PC_Dead True J_Done, dispatched_ctx)"
    by (simp add: stranded_def dev_at_def example_queue_def dispatched_ids_def dispatched_ctx_def queued_ctx_def empty_ctx_def)
  ultimately show ?thesis by blast
qed

text \<open>C2: As long as no worker panics, a receipt that denies the execution (timeout, cancelled, rejected) is the
  truth: the executor was never called for that entry, whatever cancellations, time limits, journal failures, shutdowns and
  forced stops happen in between.\<close>
theorem denial_means_never_dispatched:
  assumes "device_reach policy api False (c, dv, cx)" and "s \<in> dv_ids dv"
    and "cx_shared cx s = Some r" and "denies_execution (res_status r)"
  shows "s \<notin> dispatched_ids cx"
  using device_reach_truthful[OF assms(1)] assms(2,3,4) by (auto simp: truthful_inv_def denied_ids_def)

theorem denial_means_never_dispatched_witness:
  "cx_shared expired_ctx 0 = Some (run_to_result example_entry 5 RR_Timeout) \<and> 0 \<notin> dispatched_ids expired_ctx"
proof -
  have s: "cx_shared expired_ctx 0 = Some (run_to_result example_entry 5 RR_Timeout)"
    by (simp add: expired_ctx_def example_entry_def)
  from denial_means_never_dispatched[OF trace_expired _ s] s show ?thesis
    by (simp add: dev_at_def run_to_result_denies run_denies_def)
qed

text \<open>C24: A panic breaks that promise. After the panic of a worker during an execution, the next worker settles the
  running entry as a draining one, and a forced stop at that moment answers it with a cancellation although the executor
  was called.\<close>
theorem panic_then_forced_stop_denies_falsely:
  "\<exists>dv cx r. device_reach default_policy mem_api True (True, dv, cx) \<and> 0 \<in> dispatched_ids cx \<and>
     cx_shared cx 0 = Some r \<and> res_status r = CS_Cancelled"
proof -
  obtain cx where "device_reach default_policy mem_api True (True, dev_at (example_queue True [] None []) PC_Dead True (J_Settling []), cx)"
      "cx_dispatched cx = [(example_key, 0)]" "cx_shared cx 0 = Some (run_to_result example_entry 9 RR_Cancelled)"
    using trace_panicked by auto
  then show ?thesis
    by (intro exI[of _ "dev_at (example_queue True [] None []) PC_Dead True (J_Settling [])"] exI[of _ cx]
        exI[of _ "run_to_result example_entry 9 RR_Cancelled"])
      (simp add: dispatched_ids_def run_to_result_def settled_result_def)
qed

text \<open>C25: A forced stop between the moment a worker takes an entry off the queue and the moment it enters it as running
  misses that entry: the executor is called after the stop, and no later step ever sets the receipt.\<close>
theorem forced_stop_can_strand_a_receipt:
  "\<exists>s. device_reach default_policy mem_api False s \<and>
     {s'. (device_step default_policy mem_api False)\<^sup>*\<^sup>* s s'} \<subseteq>
     {(c, dv, cx). dv_join dv = J_Done \<and> 0 \<in> dispatched_ids cx \<and> cx_shared cx 0 = None}"
proof -
  obtain s where s: "device_reach default_policy mem_api False s" "stranded s"
    using trace_stranded by auto
  have "stranded s'" if "(device_step default_policy mem_api False)\<^sup>*\<^sup>* s s'" for s'
    using that s(2) by (induction rule: rtranclp_induct) (auto intro: stranded_step)
  with s(1) show ?thesis
    by (intro exI[of _ s]) (auto simp: stranded_def)
qed

end
