(* ===== verification/Control_Schedule.thy ===== *)
theory Control_Schedule
  imports Control_Worker
begin

text \<open>
  Scheduling properties of a device queue: its bound, which entry the worker takes next, and that a closed queue drains:
  every run of the worker is finite and ends with all receipts set.
\<close>

section \<open>The bound\<close>

definition len_ok :: "queue_inner \<Rightarrow> bool" where
  "len_ok q \<longleftrightarrow> qi_len q = length (all_entries q) \<and> qi_len q \<le> qi_capacity q"

lemma len_ok_simps [simp]:
  "len_ok (q\<lparr>qi_running := r\<rparr>) = len_ok q"
  "len_ok (q\<lparr>qi_draining := d\<rparr>) = len_ok q"
  "len_ok (q\<lparr>qi_cooldown_until := u\<rparr>) = len_ok q"
  "len_ok (q\<lparr>qi_closed := b\<rparr>) = len_ok q"
  "len_ok (track e q) = len_ok q"
  "len_ok (untrack cx q) = len_ok q"
  "len_ok (queue_shutdown q) = len_ok q"
  by (simp_all add: len_ok_def track_def untrack_def queue_shutdown_def)

lemma len_ok_new [simp]: "len_ok (queue_new n)"
  by (simp add: len_ok_def) (simp add: queue_new_def)

lemma mset_length_eq: "mset xs = add_mset e (mset ys) \<Longrightarrow> length xs = Suc (length ys)"
  by (metis size_add_mset size_mset)

lemma len_ok_enqueue:
  assumes "enqueue policy c e q = Inr q'" and "len_ok q"
  shows "len_ok q'"
  using enqueue_InrD[OF assms(1)] mset_length_eq[OF enqueue_InrD(3)[OF assms(1)]] assms(2)
  by (simp add: len_ok_def)

lemma len_ok_pick: "pick policy t now cx q = (r, q') \<Longrightarrow> len_ok q \<Longrightarrow> len_ok q'"
proof (cases r)
  case None
  then show "pick policy t now cx q = (r, q') \<Longrightarrow> len_ok q \<Longrightarrow> len_ok q'" by (auto dest: pick_NoneD)
next
  case (Some ek)
  obtain e k where ek: "ek = (e, k)" by (cases ek)
  assume p: "pick policy t now cx q = (r, q')" and "len_ok q"
  have "qi_len q' = qi_len q - 1" "qi_capacity q' = qi_capacity q"
    using p Some by (auto simp: pick_def split: if_splits option.splits list.splits)
  moreover have "length (all_entries q) = Suc (length (all_entries q'))"
    using p Some ek by (intro mset_length_eq pick_SomeD(1)) simp
  ultimately show "len_ok q'"
    using \<open>len_ok q\<close> by (auto simp: len_ok_def)
qed

lemma len_ok_close_and_move: "len_ok q \<Longrightarrow> len_ok (close_and_move c q)"
  by (auto simp: close_and_move_def Let_def len_ok_def)

lemma len_ok_phase_a: "phase_a c q = (p, q') \<Longrightarrow> len_ok q \<Longrightarrow> len_ok q'"
  by (auto simp: phase_a_def Let_def len_ok_close_and_move split: if_splits list.splits)

lemma len_ok_abandon: "abandon q = (es, q') \<Longrightarrow> len_ok q \<Longrightarrow> len_ok q'"
  by (auto simp: abandon_def len_ok_def)

lemma worker_len_ok:
  assumes "worker_rel policy api c (dv, cx) (dv', cx')" and "len_ok (dv_queue dv)"
  shows "len_ok (dv_queue dv')"
  using assms(1)
proof cases
  case (r_picked e k p q)
  then show ?thesis using assms(2) by (cases k) auto
qed (use assms(2) in \<open>auto simp: adopt_def after_run_def len_ok_phase_a len_ok_pick split: if_splits\<close>)

lemma device_step_len_ok:
  assumes "device_step policy api panics (c, dv, cx) (c', dv', cx')" and "len_ok (dv_queue dv)"
  shows "len_ok (dv_queue dv')"
  using assms(1)
proof cases
  case (d_enqueue e)
  then show ?thesis
    using assms(2) by (auto simp: device_enqueue_def result_simps ensure_worker_def len_ok_enqueue)
next
  case (d_work choice)
  then show ?thesis using worker_len_ok[OF worker_step_rel] assms(2) by blast
next
  case (d_join choice)
  then show ?thesis
    using assms(2)
    by (auto simp: join_step.simps len_ok_abandon split: join_pc.splits join_choice.splits if_splits prod.splits list.splits)
qed (use assms(2) in \<open>auto simp: ensure_worker_def\<close>)

lemma device_reach_len_ok:
  "device_reach policy api panics (c, dv, cx) \<Longrightarrow> len_ok (dv_queue dv)"
proof (induction "(c, dv, cx)" arbitrary: c dv cx rule: device_reach.induct)
  case d_init
  then show ?case by (simp add: device_new_def)
next
  case (d_step s)
  then show ?case by (cases s) (auto intro: device_step_len_ok)
qed

section \<open>Selection\<close>

lemma effective_priority_bounds:
  "priority_rank p \<le> effective_priority policy t now cx p e"
  "effective_priority policy t now cx p e \<le> 3"
  using priority_rank_bounds[of p] by (auto simp: effective_priority_def clamp_def Let_def)

text \<open>The order in which the worker takes fronts: effective priority, then base priority.\<close>

definition takes_before :: "int \<times> priority \<Rightarrow> int \<times> priority \<Rightarrow> bool" where
  "takes_before a b \<longleftrightarrow> fst b < fst a \<or> fst b = fst a \<and> snd b \<le> snd a"

definition front_of ::
  "control_policy \<Rightarrow> nat \<Rightarrow> timestamp_ns \<Rightarrow> 'j engine_ctx \<Rightarrow> queue_inner \<Rightarrow> priority \<Rightarrow> (int \<times> priority) option" where
  "front_of policy t now cx q p =
     (case qi_entries q p of [] \<Rightarrow> None | e # _ \<Rightarrow> Some (effective_priority policy t now cx p e, p))"

lemma better_fold:
  fixes f :: "priority \<Rightarrow> (int \<times> priority) option"
  assumes "sorted_wrt (\<lambda>p q. q < p) ps" and "\<And>p a. f p = Some a \<Longrightarrow> snd a = p"
    and "\<And>b. best = Some b \<Longrightarrow> \<forall>p\<in>set ps. p < snd b"
    and "fold (\<lambda>p best. case f p of None \<Rightarrow> best | Some a \<Rightarrow> better best a) ps best = r"
  shows "(r = None \<longleftrightarrow> best = None \<and> (\<forall>p\<in>set ps. f p = None)) \<and>
    (\<forall>a. r = Some a \<longrightarrow> (best = Some a \<or> (\<exists>p\<in>set ps. f p = Some a)) \<and>
       (\<forall>b. best = Some b \<longrightarrow> takes_before a b) \<and> (\<forall>p\<in>set ps. \<forall>b. f p = Some b \<longrightarrow> takes_before a b))"
  using assms(1,3,4)
proof (induction ps arbitrary: best)
  case Nil
  then show ?case by (auto simp: takes_before_def)
next
  case (Cons p ps)
  define best' where "best' = (case f p of None \<Rightarrow> best | Some a \<Rightarrow> better best a)"
  have sorted: "sorted_wrt (\<lambda>p q. q < p) ps" and lt: "\<forall>q\<in>set ps. q < p"
    using Cons.prems(1) by auto
  have below: "\<forall>q\<in>set ps. q < snd b" if "best' = Some b" for b
    using that Cons.prems(2) assms(2)[of p] lt
    by (fastforce simp: best'_def better_def split: option.splits if_splits)
  have r: "fold (\<lambda>p best. case f p of None \<Rightarrow> best | Some a \<Rightarrow> better best a) ps best' = r"
    using Cons.prems(3) by (simp add: best'_def)
  note IH = Cons.IH[OF sorted below r]
  have trans: "takes_before a b \<Longrightarrow> takes_before b d \<Longrightarrow> takes_before a d" for a b d :: "int \<times> priority"
    by (auto simp: takes_before_def)
  have b1: "best' = None \<longleftrightarrow> best = None \<and> f p = None"
    by (auto simp: best'_def better_def split: option.splits)
  have b2: "best' = Some a \<Longrightarrow> best = Some a \<or> f p = Some a" for a
    by (auto simp: best'_def better_def split: option.splits if_splits)
  have b3: "best' = Some a \<Longrightarrow> best = Some b \<Longrightarrow> takes_before a b" for a b
    by (auto simp: best'_def better_def takes_before_def split: option.splits if_splits)
  have b4: "best' = Some a \<Longrightarrow> f p = Some b \<Longrightarrow> takes_before a b" for a b
    using Cons.prems(2)[of a] assms(2)[of p b]
    by (auto simp: best'_def better_def takes_before_def split: option.splits if_splits)
  have b5: "\<exists>a'. best' = Some a'" if "best = Some b \<or> f p = Some b" for b
    using that b1 by (cases best') auto
  show ?case
  proof (intro conjI allI impI)
    show "(r = None) = (best = None \<and> (\<forall>q\<in>set (p # ps). f q = None))"
      using IH b1 by auto
  next
    fix a
    assume a: "r = Some a"
    show "best = Some a \<or> (\<exists>q\<in>set (p # ps). f q = Some a)"
      using IH a b2[of a] by auto
    show "takes_before a b" if "best = Some b" for b
      using IH a b3 b5[of b] trans that by blast
    show "\<forall>q\<in>set (p # ps). \<forall>b. f q = Some b \<longrightarrow> takes_before a b"
    proof (intro ballI allI impI)
      fix q b
      assume "q \<in> set (p # ps)" and "f q = Some b"
      show "takes_before a b"
      proof (cases "q = p")
        case True
        then have fp: "f p = Some b" using \<open>f q = Some b\<close> by simp
        then obtain a' where a': "best' = Some a'" using b5[of b] by blast
        have "takes_before a a'" using IH a a' by blast
        with b4[OF a' fp] show ?thesis by (rule trans[rotated])
      next
        case False
        then show ?thesis using IH a \<open>q \<in> set (p # ps)\<close> \<open>f q = Some b\<close> by (cases b) simp
      qed
    qed
  qed
qed

lemma select_priority_best:
  assumes "select_priority policy t now cx q = Some p"
  shows "\<exists>a. front_of policy t now cx q p = Some a \<and> (\<forall>p' b. front_of policy t now cx q p' = Some b \<longrightarrow> takes_before a b)"
proof -
  let ?f = "front_of policy t now cx q"
  have fold: "fold (\<lambda>p best. case qi_entries q p of [] \<Rightarrow> best
      | front # _ \<Rightarrow> better best (effective_priority policy t now cx p front, p)) ps b =
      fold (\<lambda>p best. case ?f p of None \<Rightarrow> best | Some a \<Rightarrow> better best a) ps b" for ps b
    by (rule fold_cong) (auto simp: front_of_def fun_eq_iff split: list.splits)
  obtain a where a: "fold (\<lambda>p best. case ?f p of None \<Rightarrow> best | Some a \<Rightarrow> better best a) (rev priorities) None = Some a"
      and p: "snd a = p"
    using assms by (auto simp: select_priority_def fold)
  have all: "p' \<in> set (rev priorities)" for p'
    by (cases p') (simp_all add: priorities_def)
  have "sorted_wrt (\<lambda>p q. q < p) (rev priorities)"
    by (simp add: priorities_def less_priority_def)
  moreover have snd: "snd b = p'" if "?f p' = Some b" for p' b
    using that by (auto simp: front_of_def split: list.splits)
  ultimately have "(\<exists>p'\<in>set (rev priorities). ?f p' = Some a) \<and>
      (\<forall>p'\<in>set (rev priorities). \<forall>b. ?f p' = Some b \<longrightarrow> takes_before a b)"
    using better_fold[of "rev priorities" ?f None, OF _ _ _ a] by simp
  then show ?thesis
    using all snd p by blast
qed

lemma select_priority_critical:
  assumes "qi_entries q Prio_Critical \<noteq> []"
  shows "select_priority policy t now cx q = Some Prio_Critical"
proof -
  obtain e es where e: "qi_entries q Prio_Critical = e # es" using assms by (cases "qi_entries q Prio_Critical") auto
  define f where "f = (\<lambda>p best. case qi_entries q p of [] \<Rightarrow> best
      | front # _ \<Rightarrow> better best (effective_priority policy t now cx p front, p))"
  have three: "effective_priority policy t now cx Prio_Critical e = 3"
    using effective_priority_bounds(1)[where p = Prio_Critical and policy = policy and t = t and now = now and cx = cx and e = e]
      effective_priority_bounds(2)[where p = Prio_Critical and policy = policy and t = t and now = now and cx = cx and e = e]
    by simp
  have keep: "f p (Some (3, Prio_Critical)) = Some (3, Prio_Critical)" for p
    by (auto simp: f_def better_def leD[OF effective_priority_bounds(2)] split: list.splits)
  have rest: "fold f ps (Some (3, Prio_Critical)) = Some (3, Prio_Critical)" for ps
    by (induction ps) (simp_all add: keep)
  have "rev priorities = Prio_Critical # [Prio_High, Prio_Medium, Prio_Low]"
    by (simp add: priorities_def)
  moreover have "f Prio_Critical None = Some (3, Prio_Critical)"
    by (simp add: f_def e three better_def)
  ultimately have "fold f (rev priorities) None = Some (3, Prio_Critical)"
    using rest[of "[Prio_High, Prio_Medium, Prio_Low]"] by (simp add: priorities_def)
  then show ?thesis
    by (simp add: select_priority_def f_def)
qed

section \<open>A closed queue drains\<close>

text \<open>No forced stop has begun.\<close>

definition quiet :: "device \<Rightarrow> bool" where
  "quiet dv \<longleftrightarrow> dv_join dv = J_None \<or> dv_join dv = J_Waiting"

text \<open>Where the worker is decides what may be draining and running.\<close>

fun pc_place :: "'j engine_ctx \<Rightarrow> queue_inner \<Rightarrow> pc \<Rightarrow> bool" where
  "pc_place cx q (PC_Settle e run (K_Tracked rest)) \<longleftrightarrow>
     e \<in> set (qi_draining q) \<and> (qi_closed q \<or> qi_draining q = [e]) \<and> qi_running q = None"
| "pc_place cx q (PC_Settled e r t (K_Tracked rest)) \<longleftrightarrow>
     e \<in> set (qi_draining q) \<and> (qi_closed q \<or> qi_draining q = [e]) \<and> qi_running q = None"
| "pc_place cx q (PC_Adopt os) \<longleftrightarrow>
     (qi_draining q = [] \<or> qi_closed q \<and> \<not> is_set cx (hd (qi_draining q))) \<and> qi_running q = None"
| "pc_place cx q PC_Drain \<longleftrightarrow>
     (qi_draining q = [] \<or> qi_closed q \<and> \<not> is_set cx (hd (qi_draining q))) \<and> qi_running q = None"
| "pc_place cx q (PC_Settle e run K_Running) \<longleftrightarrow> qi_draining q = [] \<and> qi_running q = Some e"
| "pc_place cx q (PC_Settled e r t K_Running) \<longleftrightarrow> qi_draining q = [] \<and> qi_running q = Some e"
| "pc_place cx q (PC_Run e) \<longleftrightarrow> qi_draining q = [] \<and> qi_running q = Some e"
| "pc_place cx q (PC_Started e b) \<longleftrightarrow> qi_draining q = [] \<and> qi_running q = Some e"
| "pc_place cx q (PC_Dispatched e) \<longleftrightarrow> qi_draining q = [] \<and> qi_running q = Some e"
| "pc_place cx q PC_Dead \<longleftrightarrow> False"
| "pc_place cx q PC_Idle \<longleftrightarrow> qi_draining q = [] \<and> qi_running q = None \<and> all_entries q = []"
| "pc_place cx q _ \<longleftrightarrow> qi_draining q = [] \<and> qi_running q = None"

definition reachable_ids :: "device \<Rightarrow> nat set" where
  "reachable_ids dv =
     qe_reply ` (set (all_entries (dv_queue dv)) \<union> set (qi_draining (dv_queue dv)) \<union> pc_entries (dv_pc dv))"

definition fair_inv :: "device \<Rightarrow> 'j engine_ctx \<Rightarrow> bool" where
  "fair_inv dv cx \<longleftrightarrow>
     pc_place cx (dv_queue dv) (dv_pc dv) \<and> \<not> dv_aborted dv \<and> finite (dv_ids dv) \<and>
     (\<forall>e\<in>set (all_entries (dv_queue dv)) \<union> pc_entries (dv_pc dv). \<not> is_set cx e) \<and>
     qe_reply ` pc_entries (dv_pc dv) \<inter> qe_reply ` set (all_entries (dv_queue dv)) = {} \<and>
     (\<forall>s\<in>dv_ids dv. cx_shared cx s = None \<longrightarrow> s \<in> reachable_ids dv)"

lemma fair_invD:
  assumes "fair_inv dv cx"
  shows "pc_place cx (dv_queue dv) (dv_pc dv)" "\<not> dv_aborted dv" "finite (dv_ids dv)"
    "\<And>e. e \<in> set (all_entries (dv_queue dv)) \<union> pc_entries (dv_pc dv) \<Longrightarrow> \<not> is_set cx e"
    "qe_reply ` pc_entries (dv_pc dv) \<inter> qe_reply ` set (all_entries (dv_queue dv)) = {}"
    "\<And>s. s \<in> dv_ids dv \<Longrightarrow> cx_shared cx s = None \<Longrightarrow> s \<in> reachable_ids dv"
  using assms by (simp_all add: fair_inv_def)

lemma pc_place_cong: "cx_shared cx' = cx_shared cx \<Longrightarrow> pc_place cx' q p = pc_place cx q p"
  by (cases "(cx, q, p)" rule: pc_place.cases) (simp_all add: is_set_def)

text \<open>Steps that change neither receipts nor the set of accepted entries.\<close>

lemma fair_advance:
  assumes "fair_inv dv cx" and "pc_place cx (dv_queue dv') (dv_pc dv')" and "cx_shared cx' = cx_shared cx"
    and "set (all_entries (dv_queue dv')) \<union> pc_entries (dv_pc dv') \<subseteq> set (all_entries (dv_queue dv)) \<union> pc_entries (dv_pc dv)"
    and "qe_reply ` pc_entries (dv_pc dv') \<inter> qe_reply ` set (all_entries (dv_queue dv')) = {}"
    and "reachable_ids dv \<subseteq> reachable_ids dv'" and "dv_ids dv' = dv_ids dv" and "dv_aborted dv' = dv_aborted dv"
  shows "fair_inv dv' cx'"
proof -
  have s: "is_set cx' = is_set cx" using assms(3) by (simp add: fun_eq_iff is_set_def)
  note old = fair_invD[OF assms(1)]
  have "pc_place cx' (dv_queue dv') (dv_pc dv')" using assms(2,3) pc_place_cong by blast
  moreover have "\<not> is_set cx' e" if "e \<in> set (all_entries (dv_queue dv')) \<union> pc_entries (dv_pc dv')" for e
    unfolding s using old(4) assms(4) that by blast
  moreover have "i \<in> reachable_ids dv'" if "i \<in> dv_ids dv'" "cx_shared cx' i = None" for i
    using old(6)[of i] assms(3,6,7) that by auto
  ultimately show ?thesis
    using old(2,3) assms(5,7,8) by (simp add: fair_inv_def)
qed

lemma fair_finish:
  assumes inv: "fair_inv dv cx" and pc: "pc_entries (dv_pc dv) = {e}"
    and sh: "cx_shared cx' = (cx_shared cx)(qe_reply e \<mapsto> r)"
    and q: "qi_entries q = qi_entries (dv_queue dv)"
    and p: "pc_place cx' q p" "pc_entries p = {}"
    and dr: "\<And>x. x \<in> set (qi_draining (dv_queue dv)) \<Longrightarrow> \<not> is_set cx' x \<Longrightarrow> x \<in> set (qi_draining q)"
  shows "fair_inv (dv\<lparr>dv_queue := q, dv_pc := p\<rparr>) cx'"
proof -
  have e: "all_entries q = all_entries (dv_queue dv)" by (simp add: all_entries_def q)
  have other: "qe_reply x \<noteq> qe_reply e" if "x \<in> set (all_entries (dv_queue dv))" for x
    using inv imageI[OF that, of qe_reply] unfolding fair_inv_def pc by auto
  have "\<not> is_set cx' x" if "x \<in> set (all_entries (dv_queue dv))" for x
    using inv other[OF that] that by (auto simp: fair_inv_def is_set_def sh)
  moreover have "s \<in> reachable_ids (dv\<lparr>dv_queue := q, dv_pc := p\<rparr>)"
    if s: "s \<in> dv_ids dv" "cx_shared cx' s = None" for s
  proof -
    have "s \<noteq> qe_reply e" "cx_shared cx s = None" using s sh by (auto split: if_splits)
    then obtain x where x: "x \<in> set (all_entries (dv_queue dv)) \<union> set (qi_draining (dv_queue dv))" "s = qe_reply x"
      using fair_invD(6)[OF inv s(1)] by (auto simp: reachable_ids_def pc)
    moreover have "\<not> is_set cx' x" using x s(2) by (simp add: is_set_def)
    ultimately show ?thesis
      using dr[of x] by (auto simp: reachable_ids_def e)
  qed
  ultimately show ?thesis
    using inv p by (simp add: fair_inv_def e)
qed

lemma in_set_dropWhile: "x \<in> set xs \<Longrightarrow> \<not> P x \<Longrightarrow> x \<in> set (dropWhile P xs)"
  by (induction xs) auto

lemma phase_a_fair:
  assumes inv: "fair_inv dv cx" and pc: "dv_pc dv = PC_Drain" and "phase_a c (dv_queue dv) = (p, q)"
    and len: "len_ok (dv_queue dv)"
  shows "fair_inv (dv\<lparr>dv_queue := q, dv_pc := p\<rparr>) cx"
proof -
  define q1 where "q1 = close_and_move c (dv_queue dv)"
  have pa: "phase_a c (dv_queue dv) =
      (if \<not> qi_closed q1 then (PC_Pick, q1)
       else case qi_draining q1 of
         [] \<Rightarrow> (if qi_running q1 = None then PC_Idle else PC_Pick, q1)
       | e # _ \<Rightarrow> (PC_Settle e RR_Cancelled (K_Tracked []), track e q1))"
    unfolding phase_a_def q1_def Let_def by (rule refl)
  have place: "qi_draining (dv_queue dv) = [] \<or> qi_closed (dv_queue dv) \<and> \<not> is_set cx (hd (qi_draining (dv_queue dv)))"
      "qi_running (dv_queue dv) = None"
    using inv pc by (simp_all add: fair_inv_def)
  have unset: "\<not> is_set cx x" if "x \<in> set (all_entries (dv_queue dv))" for x
    using inv that by (auto simp: fair_inv_def)
  have q1: "set (all_entries q1) \<union> set (qi_draining q1) = set (all_entries (dv_queue dv)) \<union> set (qi_draining (dv_queue dv))"
      "qi_running q1 = None" "qi_closed q1 \<longleftrightarrow> c \<or> qi_closed (dv_queue dv)"
      "qi_closed q1 \<Longrightarrow> all_entries q1 = []"
    using place len unfolding q1_def
    by (cases c; cases "qi_closed (dv_queue dv)"; force simp: close_and_move_def Let_def len_ok_def)+
  have same: "q1 = dv_queue dv" if "\<not> qi_closed q1"
    using that unfolding q1_def by (auto simp: close_and_move_def Let_def split: if_splits)
  have hd: "\<not> is_set cx (hd (qi_draining q1))" if "qi_draining q1 \<noteq> []" "qi_closed q1"
  proof (cases "qi_draining (dv_queue dv)")
    case Nil
    then have "hd (qi_draining q1) \<in> set (all_entries (dv_queue dv))"
      using q1(1,4) that by (metis Un_iff empty_iff empty_set hd_in_set)
    then show ?thesis by (rule unset)
  next
    case (Cons x xs)
    then have "hd (qi_draining q1) = x"
      unfolding q1_def by (cases rule: close_and_move_cases[of c "dv_queue dv"]) simp_all
    then show ?thesis using place Cons by simp
  qed
  show ?thesis
  proof (cases "qi_closed q1")
    case False
    then have pq: "p = PC_Pick" "q = q1" using assms(3) pa by simp_all
    have "qi_draining (dv_queue dv) = []" using False place(1) q1(3) by blast
    with False pq q1(2) same[OF False] pc show ?thesis
      by (intro fair_advance[OF inv]) (auto simp: reachable_ids_def pc_entries_def)
  next
    case True
    show ?thesis
    proof (cases "qi_draining q1")
      case Nil
      then have "p = PC_Idle" "q = q1" using assms(3) pa True q1(2) by simp_all
      with Nil True q1 pc show ?thesis
        by (intro fair_advance[OF inv]) (auto simp: reachable_ids_def pc_entries_def)
    next
      case (Cons x xs)
      then have pq: "p = PC_Settle x RR_Cancelled (K_Tracked [])" "q = track x q1"
        using assms(3) pa True by simp_all
      have e: "all_entries q = []" "set (qi_draining q) = set (qi_draining q1)" "qi_running q = None" "qi_closed q"
        using pq Cons True q1 by (auto simp: track_def)
      have "\<not> is_set cx x" using hd Cons True by simp
      have "pc_place cx q p" using pq e Cons by simp
      moreover have "reachable_ids (dv\<lparr>dv_queue := q, dv_pc := p\<rparr>) = reachable_ids dv"
        using e q1(1,4) True Cons pq pc by (auto simp: reachable_ids_def pc_entries_def)
      ultimately show ?thesis
        using inv \<open>\<not> is_set cx x\<close> e pq by (simp add: fair_inv_def pc_entries_def)
    qed
  qed
qed

lemma after_run_fair:
  assumes inv: "fair_inv dv cx" and pc: "pc_entries (dv_pc dv) = {e}"
    and place: "qi_draining (dv_queue dv) = []" "qi_running (dv_queue dv) = Some e"
    and "after_run policy t e run (dv, cx) = (dv', cx')"
  shows "fair_inv dv' cx'"
proof -
  have dv': "dv_pc dv' = PC_Settle e run K_Running" "dv_aborted dv' = dv_aborted dv"
      "dv_ids dv' = dv_ids dv" "all_entries (dv_queue dv') = all_entries (dv_queue dv)"
      "qi_draining (dv_queue dv') = qi_draining (dv_queue dv)" "qi_running (dv_queue dv') = qi_running (dv_queue dv)"
      "cx_shared cx' = cx_shared cx"
    using assms(5) by (auto simp: after_run_def split: if_splits)
  show ?thesis
    by (rule fair_advance[OF inv])
      (use pc place dv' fair_invD(5)[OF inv] in \<open>simp_all add: reachable_ids_def pc_entries_def\<close>)
qed

lemma worker_fair:
  assumes "worker_rel policy api c (dv, cx) (dv', cx')" and inv: "fair_inv dv cx"
    and len: "len_ok (dv_queue dv)" and tr: "truthful_inv c dv cx"
  shows "fair_inv dv' cx'"
proof -
  note place = fair_invD(1)[OF inv] and disj = fair_invD(5)[OF inv]
  show ?thesis
    using assms(1)
  proof cases
    case (r_start os q)
    then have "os = []" "q = dv_queue dv" using place by (auto simp: adopt_def)
    with r_start place show ?thesis
      by (intro fair_advance[OF inv]) (auto simp: reachable_ids_def pc_entries_def)
  next
    case r_adopt_done
    with place show ?thesis
      by (intro fair_advance[OF inv]) (auto simp: reachable_ids_def pc_entries_def)
  next
    case (r_adopt_skip e run rest)
    then show ?thesis using truthful_clean[OF tr] by (simp add: clean_def)
  next
    case (r_adopt e run rest)
    then show ?thesis using truthful_clean[OF tr] by (simp add: clean_def)
  next
    case (r_drain p q)
    then show ?thesis using phase_a_fair[OF inv r_drain(3,4) len] by simp
  next
    case (r_pick_none t now q)
    with place pick_NoneD[OF r_pick_none(4)] show ?thesis
      by (intro fair_advance[OF inv]) (auto simp: reachable_ids_def pc_entries_def)
  next
    case (r_pick t now e k q)
    note pk = pick_SomeD[OF r_pick(4)]
    have s: "set (all_entries (dv_queue dv)) = insert e (set (all_entries q))"
      using arg_cong[OF pk(1), of set_mset] by simp
    have "mset (map qe_reply (all_entries (dv_queue dv))) = mset (qe_reply e # map qe_reply (all_entries q))"
      using pk(1) by simp
    from mset_eq_imp_distinct_iff[OF this] have "distinct (qe_reply e # map qe_reply (all_entries q))"
      using tr by (simp add: truthful_inv_def live_ids_def)
    then show ?thesis
      using r_pick place pk(2,3) s
      by (intro fair_advance[OF inv]) (auto simp: reachable_ids_def pc_entries_def)
  next
    case r_wake
    with place show ?thesis
      by (intro fair_advance[OF inv]) (auto simp: reachable_ids_def pc_entries_def)
  next
    case (r_picked e k p q)
    then have d: "qe_reply e \<notin> qe_reply ` set (all_entries (dv_queue dv))"
      using disj by (simp add: pc_entries_def)
    show ?thesis
      using r_picked place d
      by (cases k; intro fair_advance[OF inv]) (auto simp: reachable_ids_def pc_entries_def track_def)
  next
    case (r_not_started e run t)
    then show ?thesis using place after_run_fair[OF inv, of e policy t run dv' cx'] by (simp add: pc_entries_def)
  next
    case (r_poll e)
    with place disj show ?thesis
      by (intro fair_advance[OF inv]) (auto simp: reachable_ids_def pc_entries_def)
  next
    case (r_checked e o')
    with place disj show ?thesis
      by (intro fair_advance[OF inv]) (auto simp: reachable_ids_def pc_entries_def)
  next
    case (r_dispatch e)
    with place disj show ?thesis
      by (intro fair_advance[OF inv]) (auto simp: reachable_ids_def pc_entries_def)
  next
    case (r_executor_panic e base wo eo)
    have "op_wf (qe_operation e)"
      using tr r_executor_panic(3) by (simp add: truthful_inv_def device_entries_def pc_entries_def)
    then have "outcome_result base (qe_operation e) wo eo \<noteq> None"
      by (cases "qe_operation e"; cases wo) (auto simp: write_item_results_eq)
    with r_executor_panic show ?thesis by simp
  next
    case (r_ran e checked run t)
    then show ?thesis using place after_run_fair[OF inv, of e policy t run dv' cx'] by (auto simp: pc_entries_def)
  next
    case (r_settle e run k io completed r)
    note f = settle_begin_frame[OF r_settle(3)]
    have "pc_place cx (dv_queue dv) (PC_Settled e r completed k)"
      using place r_settle(2) by (cases k) auto
    with r_settle f disj show ?thesis
      by (intro fair_advance[OF inv]) (auto simp: reachable_ids_def pc_entries_def)
  next
    case (r_tracked e r completed rest attempts)
    have sh: "cx_shared cx' = (cx_shared cx)(qe_reply e \<mapsto> r)" using r_tracked(3) by auto
    then have e: "is_set cx' e" by (simp add: is_set_def)
    have "rest = []" using truthful_clean[OF tr] r_tracked(2) by (simp add: clean_def)
    moreover have "pc_place cx' (untrack cx' (dv_queue dv)) (PC_Adopt [])"
      using place r_tracked(2) e hd_dropWhile[of "is_set cx'" "qi_draining (dv_queue dv)"]
      by (auto simp: untrack_def)
    moreover have "x \<in> set (qi_draining (untrack cx' (dv_queue dv)))"
      if "x \<in> set (qi_draining (dv_queue dv))" "\<not> is_set cx' x" for x
      using that by (simp add: untrack_def in_set_dropWhile)
    ultimately show ?thesis
      using fair_finish[OF inv _ sh, of "untrack cx' (dv_queue dv)" "PC_Adopt []"] r_tracked
      by (simp add: pc_entries_def untrack_def)
  next
    case (r_finished e r completed attempts)
    have sh: "cx_shared cx' = (cx_shared cx)(qe_reply e \<mapsto> r)" using r_finished(3) by auto
    show ?thesis
      using fair_finish[OF inv _ sh, of "(dv_queue dv)\<lparr>qi_running := None\<rparr>" PC_Drain] r_finished place
      by (simp add: pc_entries_def)
  qed
qed

lemma device_step_fair:
  assumes "device_step policy api False (c, dv, cx) (c', dv', cx')"
    and inv: "quiet dv \<Longrightarrow> fair_inv dv cx" and len: "len_ok (dv_queue dv)" and tr: "truthful_inv c dv cx"
    and "quiet dv'"
  shows "fair_inv dv' cx'"
  using assms(1)
proof cases
  case (d_enqueue e)
  obtain q where q: "enqueue policy c e (dv_queue dv) = Inr q"
      and dv': "dv' = ensure_worker (dv\<lparr>dv_queue := q, dv_ids := insert (qe_reply e) (dv_ids dv)\<rparr>)"
      and cx': "cx' = cx\<lparr>cx_metrics := observe_enqueued (ik_device_id (qe_key e)) (cx_metrics cx)\<rparr>"
    using d_enqueue(2) by (auto simp: device_enqueue_def result_simps)
  note f = enqueue_InrD[OF q]
  have "quiet dv" using assms(5) by (simp add: dv' quiet_def ensure_worker_def split: if_splits)
  note old = fair_invD[OF inv[OF this]]
  have s: "set (all_entries q) = insert e (set (all_entries (dv_queue dv)))"
    using arg_cong[OF f(3), of set_mset] by simp
  have pcs: "pc_entries (dv_pc dv') = pc_entries (dv_pc dv)" "dv_queue dv' = q" "dv_aborted dv' = dv_aborted dv"
      "dv_ids dv' = insert (qe_reply e) (dv_ids dv)"
    by (auto simp: dv' ensure_worker_def pc_entries_def)
  have "qe_reply ` pc_entries (dv_pc dv) \<subseteq> dv_ids dv"
    using tr unfolding truthful_inv_def device_entries_def by blast
  then have fresh: "qe_reply e \<notin> qe_reply ` pc_entries (dv_pc dv)" using d_enqueue(3) by blast
  have "pc_place cx q (dv_pc dv) \<or> dv_pc dv = PC_Idle"
    using old(1) f by (cases "(cx, dv_queue dv, dv_pc dv)" rule: pc_place.cases) auto
  then have "pc_place cx' q (dv_pc dv')"
    using old(1) f pc_place_cong[of cx' cx q] by (auto simp: dv' cx' ensure_worker_def)
  moreover have "is_set cx' = is_set cx" by (simp add: fun_eq_iff is_set_def cx')
  moreover have "\<not> is_set cx e" using d_enqueue(4) by (simp add: is_set_def)
  moreover have "reachable_ids dv' = insert (qe_reply e) (reachable_ids dv)"
    by (simp add: reachable_ids_def pcs s f)
  ultimately show ?thesis
    using old(2-6) fresh s by (auto simp: fair_inv_def pcs cx')
next
  case (d_work choice)
  moreover have "dv_join dv' = dv_join dv"
    using worker_step_rel[OF d_work(2)] by cases (auto simp: after_run_def split: if_splits)
  ultimately show ?thesis
    using worker_fair[OF worker_step_rel _ len tr] inv assms(5) by (simp add: quiet_def)
next
  case (d_cancel key out)
  have "fair_inv dv cx" using inv assms(5) d_cancel(2) by simp
  from fair_advance[OF this fair_invD(1)[OF this] queue_cancel_frame(1)[OF d_cancel(3)] _ fair_invD(5)[OF this]]
  show ?thesis using d_cancel(2) by simp
next
  case d_close
  then show ?thesis using inv assms(5) by simp
next
  case d_shutdown
  have q: "quiet dv" using d_shutdown by (simp add: quiet_def)
  note old = fair_invD[OF inv[OF q]]
  have "pc_place cx (queue_shutdown (dv_queue dv)) (dv_pc dv)"
    using old(1) by (cases "(cx, dv_queue dv, dv_pc dv)" rule: pc_place.cases) (auto simp: queue_shutdown_def)
  with d_shutdown old(5) show ?thesis
    by (intro fair_advance[OF inv[OF q]]) (auto simp: reachable_ids_def queue_shutdown_def)
next
  case (d_join choice)
  then show ?thesis
    using assms(5)
    by (auto simp: join_step.simps quiet_def split: join_pc.splits join_choice.splits if_splits prod.splits list.splits)
next
  case (d_kill w)
  then have "quiet dv" using assms(5) by (simp add: quiet_def)
  then show ?thesis using fair_invD(2)[OF inv] d_kill by simp
next
  case d_respawn
  then have "quiet dv" using assms(5) by (simp add: quiet_def ensure_worker_def)
  then show ?thesis using fair_invD(1)[OF inv] d_respawn by simp
next
  case d_other
  then have "quiet dv" using assms(5) by simp
  note old = fair_invD[OF inv[OF this]]
  have same: "is_set cx' e = is_set cx e" if "e \<in> device_entries dv" for e
    using d_other(3) tr that by (auto simp: truthful_inv_def is_set_def)
  have "pc_place cx' (dv_queue dv) (dv_pc dv)"
  proof (cases "qi_draining (dv_queue dv)")
    case Nil
    then show ?thesis
      using old(1) by (cases "(cx, dv_queue dv, dv_pc dv)" rule: pc_place.cases) auto
  next
    case (Cons x xs)
    then have "is_set cx' x = is_set cx x" by (intro same) (simp add: device_entries_def)
    with Cons show ?thesis
      using old(1) by (cases "(cx, dv_queue dv, dv_pc dv)" rule: pc_place.cases) auto
  qed
  moreover have "\<not> is_set cx' e" if "e \<in> set (all_entries (dv_queue dv)) \<union> pc_entries (dv_pc dv)" for e
    using same[of e] old(4)[OF that] that by (auto simp: device_entries_def)
  ultimately show ?thesis
    using d_other old by (auto simp: fair_inv_def)
qed simp_all

lemma device_reach_fair:
  assumes "device_reach policy api False (c, dv, cx)" and "quiet dv"
  shows "fair_inv dv cx"
  using assms
proof (induction "(c, dv, cx)" arbitrary: c dv cx rule: device_reach.induct)
  case d_init
  then show ?case
    by (simp add: fair_inv_def device_new_def pc_entries_def) (simp add: queue_new_def)
next
  case (d_step s)
  obtain c0 dv0 cx0 where s: "s = (c0, dv0, cx0)" by (cases s)
  have "device_step policy api False (c0, dv0, cx0) (c, dv, cx)" using d_step(3) s by simp
  moreover have r: "device_reach policy api False (c0, dv0, cx0)" using d_step(1) s by simp
  ultimately show ?case
    using device_step_fair d_step(2)[OF s] device_reach_len_ok[OF r] device_reach_truthful[OF r] d_step(4) by blast
qed


fun worker_run ::
  "control_policy \<Rightarrow> 'j journal_api \<Rightarrow> bool \<Rightarrow> worker_choice list \<Rightarrow> device \<times> 'j engine_ctx \<Rightarrow> (device \<times> 'j engine_ctx) option" where
  "worker_run policy api c [] s = Some s"
| "worker_run policy api c (choice # choices) s =
     (case worker_step policy api c choice s of None \<Rightarrow> None | Some s' \<Rightarrow> worker_run policy api c choices s')"

definition unanswered :: "device \<Rightarrow> 'j engine_ctx \<Rightarrow> nat set" where
  "unanswered dv cx = {s \<in> dv_ids dv. cx_shared cx s = None}"

text \<open>The steps that ask neither the executor nor the precondition checker for anything.\<close>

fun own_choice :: "worker_choice \<Rightarrow> bool" where
  "own_choice (WC_Tick _ _) = True"
| "own_choice WC_Wake = True"
| "own_choice (WC_Deadline _) = True"
| "own_choice (WC_Settle _ _) = True"
| "own_choice (WC_Audit _) = True"
| "own_choice _ = False"

fun pc_weight :: "pc \<Rightarrow> nat" where
  "pc_weight PC_Pick = 8"
| "pc_weight (PC_Picked _ _) = 7"
| "pc_weight (PC_Run _) = 6"
| "pc_weight PC_Start = 5"
| "pc_weight (PC_Started _ False) = 5"
| "pc_weight (PC_Started _ True) = 4"
| "pc_weight (PC_Adopt _) = 4"
| "pc_weight PC_Wait = 4"
| "pc_weight (PC_Dispatched _) = 3"
| "pc_weight PC_Drain = 3"
| "pc_weight (PC_Settle _ _ _) = 2"
| "pc_weight (PC_Settled _ _ _ _) = 1"
| "pc_weight PC_Idle = 0"
| "pc_weight PC_Dead = 0"

lemma pc_weight_le: "pc_weight p \<le> 8"
  by (cases p rule: pc_weight.cases) simp_all

definition drain_measure :: "device \<Rightarrow> 'j engine_ctx \<Rightarrow> nat" where
  "drain_measure dv cx = 4 * card (unanswered dv cx) + pc_weight (dv_pc dv)"

lemma drain_measure_same:
  "dv_ids dv' = dv_ids dv \<Longrightarrow> cx_shared cx' = cx_shared cx \<Longrightarrow> pc_weight (dv_pc dv') < pc_weight (dv_pc dv) \<Longrightarrow>
     drain_measure dv' cx' < drain_measure dv cx"
  by (simp add: drain_measure_def unanswered_def)

lemma drain_measure_finish:
  assumes "finite (dv_ids dv)" "dv_ids dv' = dv_ids dv" "s \<in> unanswered dv cx"
    and "cx_shared cx' = (cx_shared cx)(s \<mapsto> r)" and "pc_weight (dv_pc dv) = 1" "pc_weight (dv_pc dv') \<le> 4"
  shows "drain_measure dv' cx' < drain_measure dv cx"
proof -
  have "unanswered dv' cx' = unanswered dv cx - {s}"
    using assms(2,3,4) by (auto simp: unanswered_def)
  moreover have "finite (unanswered dv cx)" using assms(1) by (simp add: unanswered_def)
  ultimately have "card (unanswered dv cx) = Suc (card (unanswered dv' cx'))"
    using card.remove[OF _ assms(3)] by simp
  then show ?thesis using assms(5,6) by (simp add: drain_measure_def)
qed

lemma phase_a_weight:
  assumes "phase_a True q = (p, q')" and "qi_running q = None"
  shows "pc_weight p < 3"
proof -
  have "qi_closed (close_and_move True q)" "qi_running (close_and_move True q) = None"
    using assms(2) by (auto simp: close_and_move_def Let_def)
  with assms(1) show ?thesis by (auto simp: phase_a_def Let_def split: list.splits)
qed

lemma worker_measure:
  assumes "worker_rel policy api True (dv, cx) (dv', cx')" and inv: "fair_inv dv cx" and tr: "truthful_inv True dv cx"
  shows "drain_measure dv' cx' < drain_measure dv cx" and "dv_ids dv' = dv_ids dv" and "dv_join dv' = dv_join dv"
proof -
  show "dv_ids dv' = dv_ids dv" "dv_join dv' = dv_join dv"
    using assms(1) by (cases; auto simp: after_run_def split: if_splits)+
  have pend: "qe_reply e \<in> unanswered dv cx" if "pc_entries (dv_pc dv) = {e}" for e
  proof -
    have "e \<in> device_entries dv" using that by (simp add: device_entries_def)
    then have "qe_reply e \<in> dv_ids dv" using tr by (auto simp: truthful_inv_def)
    moreover have "\<not> is_set cx e" using fair_invD(4)[OF inv, of e] that by simp
    ultimately show ?thesis by (simp add: unanswered_def is_set_def)
  qed
  show "drain_measure dv' cx' < drain_measure dv cx"
    using assms(1)
  proof cases
    case (r_drain p q)
    have "qi_running (dv_queue dv) = None" using fair_invD(1)[OF inv] r_drain(3) by simp
    with r_drain show ?thesis by (intro drain_measure_same) (auto dest: phase_a_weight)
  next
    case (r_adopt_skip e run rest)
    then show ?thesis using truthful_clean[OF tr] by (simp add: clean_def)
  next
    case (r_picked e k p q)
    then show ?thesis by (cases k; intro drain_measure_same) auto
  next
    case (r_poll e)
    then show ?thesis by (cases "needs_check (qe_operation e)"; intro drain_measure_same) simp_all
  next
    case (r_ran e checked run t)
    then show ?thesis
      by (cases checked; intro drain_measure_same) (auto simp: after_run_def split: if_splits)
  next
    case (r_settle e run k io completed r)
    then show ?thesis using settle_begin_frame[OF r_settle(3)] by (intro drain_measure_same) simp_all
  next
    case (r_tracked e r completed rest attempts)
    then have "cx_shared cx' = (cx_shared cx)(qe_reply e \<mapsto> r)" by auto
    with r_tracked pend[of e] fair_invD(3)[OF inv] show ?thesis
      by (intro drain_measure_finish) (simp_all add: pc_entries_def)
  next
    case (r_finished e r completed attempts)
    then have "cx_shared cx' = (cx_shared cx)(qe_reply e \<mapsto> r)" by auto
    with r_finished pend[of e] fair_invD(3)[OF inv] show ?thesis
      by (intro drain_measure_finish) (simp_all add: pc_entries_def)
  next
    case (r_start os q)
    then show ?thesis by (intro drain_measure_same) simp_all
  next
    case r_adopt_done
    then show ?thesis by (intro drain_measure_same) simp_all
  next
    case (r_adopt e run rest)
    then show ?thesis by (intro drain_measure_same) simp_all
  next
    case (r_pick_none t now q)
    then show ?thesis by (intro drain_measure_same) simp_all
  next
    case (r_pick t now e k q)
    then show ?thesis by (intro drain_measure_same) simp_all
  next
    case r_wake
    then show ?thesis by (intro drain_measure_same) simp_all
  next
    case (r_not_started e run t)
    then show ?thesis by (intro drain_measure_same) (auto simp: after_run_def split: if_splits)
  next
    case (r_checked e o')
    then show ?thesis by (intro drain_measure_same) simp_all
  next
    case (r_dispatch e)
    then show ?thesis by (intro drain_measure_same) simp_all
  next
    case (r_executor_panic e base wo eo)
    then show ?thesis by (intro drain_measure_same) simp_all
  qed
qed

lemma worker_run_measure:
  assumes "device_reach policy api False (True, dv, cx)" and "quiet dv"
    and "worker_run policy api True choices (dv, cx) = Some (dv', cx')"
  shows "length choices + drain_measure dv' cx' \<le> drain_measure dv cx \<and> dv_ids dv' = dv_ids dv \<and> quiet dv' \<and>
    device_reach policy api False (True, dv', cx')"
  using assms
proof (induction choices arbitrary: dv cx)
  case Nil
  then show ?case by simp
next
  case (Cons choice choices)
  obtain dv1 cx1 where step: "worker_step policy api True choice (dv, cx) = Some (dv1, cx1)"
      and run: "worker_run policy api True choices (dv1, cx1) = Some (dv', cx')"
    using Cons.prems(3) by (auto split: option.splits)
  note m = worker_measure[OF worker_step_rel[OF step] device_reach_fair[OF Cons.prems(1,2)] device_reach_truthful[OF Cons.prems(1)]]
  have "device_reach policy api False (True, dv1, cx1)"
    using Cons.prems(1) step by (blast intro: d_step d_work)
  moreover have "quiet dv1" using m(3) Cons.prems(2) by (simp add: quiet_def)
  ultimately show ?case
    using Cons.IH[OF _ _ run] m(1,2) by auto
qed

lemma own_step_enabled:
  assumes "fair_inv dv cx" and "dv_pc dv \<noteq> PC_Idle"
  shows "\<exists>choice. own_choice choice \<and> worker_step policy api True choice (dv, cx) \<noteq> None"
proof (cases "dv_pc dv")
  case PC_Wait
  then show ?thesis by (intro exI[of _ WC_Wake]) (simp add: worker_step.simps)
next
  case (PC_Run e)
  then show ?thesis by (intro exI[of _ "WC_Deadline (qe_deadline e)"]) (simp add: worker_step.simps)
next
  case (PC_Started e b)
  then show ?thesis by (intro exI[of _ "WC_Deadline (qe_deadline e)"]) (cases b; simp add: worker_step.simps)
next
  case (PC_Dispatched e)
  then show ?thesis by (intro exI[of _ "WC_Deadline (qe_deadline e)"]) (simp add: worker_step.simps)
next
  case (PC_Settle e run k)
  then show ?thesis by (intro exI[of _ "WC_Settle SI_Skip 0"]) (simp add: worker_step.simps split: prod.splits)
next
  case (PC_Settled e r t k)
  then show ?thesis
    by (intro exI[of _ "WC_Audit []"]) (simp add: worker_step.simps Let_def split: after_settle.splits)
next
  case PC_Dead
  then show ?thesis using fair_invD(1)[OF assms(1)] by simp
next
  case (PC_Adopt os)
  then show ?thesis
    by (intro exI[of _ "WC_Tick 0 0"]) (cases os; auto simp: worker_step.simps)
next
  case PC_Pick
  then show ?thesis
    by (intro exI[of _ "WC_Tick 0 0"]) (simp add: worker_step.simps split: prod.splits option.splits)
qed (use assms(2) in \<open>auto simp: worker_step.simps split: prod.splits intro!: exI[of _ "WC_Tick 0 0"]\<close>)

lemma idle_answered:
  assumes "fair_inv dv cx" and "dv_pc dv = PC_Idle"
  shows "unanswered dv cx = {}"
  using fair_invD(1)[OF assms(1)] fair_invD(6)[OF assms(1)] assms(2)
  by (auto simp: unanswered_def reachable_ids_def pc_entries_def)


section \<open>Properties\<close>

lemma worker_capacity:
  assumes "worker_rel policy api c (dv, cx) (dv', cx')"
  shows "qi_capacity (dv_queue dv') = qi_capacity (dv_queue dv)"
  using assms
proof cases
  case (r_drain p q)
  then show ?thesis
    by (auto simp: phase_a_def close_and_move_def track_def Let_def split: if_splits list.splits)
next
  case (r_picked e k p q)
  then show ?thesis by (cases k) (auto simp: track_def)
next
  case (r_pick t now e k q)
  then show ?thesis by (auto simp: pick_def split: if_splits option.splits list.splits)
qed (auto simp: adopt_def track_def untrack_def after_run_def dest: pick_NoneD split: if_splits)

lemma device_step_capacity:
  assumes "device_step policy api panics (c, dv, cx) (c', dv', cx')"
  shows "qi_capacity (dv_queue dv') = qi_capacity (dv_queue dv)"
  using assms
proof cases
  case (d_enqueue e)
  then show ?thesis by (auto simp: device_enqueue_def result_simps ensure_worker_def enqueue_InrD(9))
next
  case (d_work choice)
  then show ?thesis using worker_capacity[OF worker_step_rel] by blast
next
  case (d_join choice)
  then show ?thesis
    by (auto simp: join_step.simps abandon_def split: join_pc.splits join_choice.splits if_splits prod.splits list.splits)
qed (auto simp: ensure_worker_def queue_shutdown_def)

lemma device_reach_capacity:
  "device_reach policy api panics (c, dv, cx) \<Longrightarrow> qi_capacity (dv_queue dv) = queue_capacity policy"
proof (induction "(c, dv, cx)" arbitrary: c dv cx rule: device_reach.induct)
  case d_init
  then show ?case by (simp add: device_new_def queue_new_def)
next
  case (d_step s)
  then show ?case by (cases s) (auto dest: device_step_capacity)
qed

text \<open>C12: In every state a device can reach, workers panicking and forced stops included, the length counter of its queue
  is the number of waiting entries and never exceeds the configured capacity.\<close>
theorem queue_never_exceeds_capacity:
  assumes "device_reach policy api panics (c, dv, cx)"
  shows "qi_len (dv_queue dv) = length (all_entries (dv_queue dv)) \<and> length (all_entries (dv_queue dv)) \<le> queue_capacity policy"
  using device_reach_len_ok[OF assms] device_reach_capacity[OF assms] by (simp add: len_ok_def)

theorem queue_never_exceeds_capacity_witness:
  "length (all_entries (example_queue False [example_entry] None [])) \<le> queue_capacity default_policy"
  using queue_never_exceeds_capacity[OF trace_enqueued] by (simp add: dev_at_def)

definition fronts ::
  "control_policy \<Rightarrow> nat \<Rightarrow> timestamp_ns \<Rightarrow> 'j engine_ctx \<Rightarrow> queue_inner \<Rightarrow> (int \<times> priority) set" where
  "fronts policy t now cx q = {b. \<exists>p. front_of policy t now cx q p = Some b}"

lemma fold_better_None:
  "fold (\<lambda>p best. case qi_entries q p of [] \<Rightarrow> best | front # _ \<Rightarrow> better best (f p front, p)) ps b = None \<Longrightarrow>
     b = None \<and> (\<forall>p\<in>set ps. qi_entries q p = [])"
proof (induction ps arbitrary: b)
  case (Cons p ps)
  let ?b = "case qi_entries q p of [] \<Rightarrow> b | front # _ \<Rightarrow> better b (f p front, p)"
  have "?b = None \<and> (\<forall>p\<in>set ps. qi_entries q p = [])"
    using Cons.prems by (intro Cons.IH) simp
  moreover have "better b a \<noteq> None" for a by (simp add: better_def split: option.split)
  ultimately show ?case by (cases "qi_entries q p") auto
qed simp

lemma select_priority_None:
  assumes "select_priority policy t now cx q = None"
  shows "qi_entries q p = []"
proof -
  have "p \<in> set (rev priorities)" by (cases p) (simp_all add: priorities_def)
  with assms show ?thesis by (auto simp: select_priority_def dest!: fold_better_None)
qed

text \<open>The worker takes nothing during the cooldown or from an empty queue; otherwise it takes the front of one
  priority class, and no other front has a higher effective (aged) priority, nor the same one and a higher base priority.
  The entry is handed on as cancelled, expired or ready by its token and its time limit, and nothing else of the queue
  changes.\<close>
theorem pick_takes_the_best_front:
  "case pick policy t now cx q of
     (None, q') \<Rightarrow> q' = q \<and> (in_cooldown t q \<or> all_entries q = [])
   | (Some (e, k), q') \<Rightarrow> \<not> in_cooldown t q \<and>
       (\<exists>p es. qi_entries q p = e # es \<and> q' = q\<lparr>qi_entries := (qi_entries q)(p := es), qi_len := qi_len q - 1\<rparr> \<and>
          fronts policy t now cx q \<subseteq> {b. takes_before (effective_priority policy t now cx p e, p) b}) \<and>
       k = (if is_cancelled cx e then PK_Cancelled else if qe_deadline e \<le> t then PK_Expired else PK_Ready)"
proof (cases "in_cooldown t q")
  case True
  then show ?thesis by (simp add: pick_def)
next
  case False
  show ?thesis
  proof (cases "select_priority policy t now cx q")
    case None
    then have "qi_entries q p = []" for p using select_priority_None by blast
    then have "all_entries q = []" by (simp add: all_entries_def)
    with None False show ?thesis by (simp add: pick_def)
  next
    case (Some p)
    obtain e es where e: "qi_entries q p = e # es"
        "\<forall>p' b. front_of policy t now cx q p' = Some b \<longrightarrow> takes_before (effective_priority policy t now cx p e, p) b"
      using select_priority_best[OF Some] by (auto simp: front_of_def[of policy t now cx q p] split: list.splits)
    have "fronts policy t now cx q \<subseteq> {b. takes_before (effective_priority policy t now cx p e, p) b}"
      using e(2) by (auto simp: fronts_def)
    with Some False e(1) show ?thesis by (auto simp: pick_def)
  qed
qed

text \<open>C23: Ageing raises an entry to the rank of \<^verbatim>\<open>Critical\<close> and never above it, and a tie goes to the higher base
  priority: as long as a critical entry waits, no entry of a lower class is taken, however long it has waited.\<close>
theorem ageing_never_passes_critical:
  assumes "qi_entries q Prio_Critical = c # cs" and "pick policy t now cx q = (Some (e, k), q')"
  shows "e = c \<and> qi_entries q' Prio_Critical = cs"
  using assms select_priority_critical[of q policy t now cx]
  by (auto simp: pick_def split: if_splits)

definition critical_and_aged :: queue_inner where
  "critical_and_aged = (example_queue False [example_entry] None [])
     \<lparr>qi_entries := (\<lambda>p. if p = Prio_Critical then [example_entry\<lparr>qe_reply := 1\<rparr>] else if p = Prio_Low then [example_entry] else []), qi_len := 2\<rparr>"

theorem ageing_never_passes_critical_witness:
  "fst (pick default_policy 10 (10 ^ 15) queued_ctx critical_and_aged) = Some (example_entry\<lparr>qe_reply := 1\<rparr>, PK_Ready)"
proof -
  have c: "qi_entries critical_and_aged Prio_Critical = [example_entry\<lparr>qe_reply := 1\<rparr>]"
    by (simp add: critical_and_aged_def)
  have cool: "\<not> in_cooldown 10 critical_and_aged"
    by (simp add: in_cooldown_def critical_and_aged_def example_queue_def)
  have ready: "\<not> is_cancelled queued_ctx (example_entry\<lparr>qe_reply := 1\<rparr>)" "qe_deadline (example_entry\<lparr>qe_reply := 1\<rparr>) = 1000"
    by (simp_all add: is_cancelled_def queued_ctx_def empty_ctx_def example_entry_def)
  have "select_priority default_policy 10 (10 ^ 15) queued_ctx critical_and_aged = Some Prio_Critical"
    by (rule select_priority_critical) (simp add: c)
  then obtain e q' where p: "pick default_policy 10 (10 ^ 15) queued_ctx critical_and_aged = (Some (e, PK_Ready), q')"
    using cool ready by (simp add: pick_def c)
  with ageing_never_passes_critical[OF c p] show ?thesis by simp
qed

text \<open>C9: A closed queue drains without the help of the executor. From every state reachable without panics in which
  the engine is closed and no forced stop has begun, each run of the worker makes at most four steps per unanswered receipt and eight
  more; and in whatever state a run ends, either the worker can go on by itself (clock, time limit, journal, audit), or
  it has ended and every receipt of every accepted request is set.\<close>
theorem closed_queue_drains:
  assumes "device_reach policy api False (True, dv, cx)" and "quiet dv"
    and "worker_run policy api True choices (dv, cx) = Some (dv', cx')"
  shows "length choices \<le> 4 * card (unanswered dv cx) + 8 \<and> dv_ids dv' = dv_ids dv \<and>
    ((\<exists>choice. own_choice choice \<and> worker_step policy api True choice (dv', cx') \<noteq> None) \<or>
     dv_pc dv' = PC_Idle \<and> unanswered dv' cx' = {})"
proof -
  have run: "length choices + drain_measure dv' cx' \<le> drain_measure dv cx" "dv_ids dv' = dv_ids dv" "quiet dv'"
      "device_reach policy api False (True, dv', cx')"
    using worker_run_measure[OF assms] by simp_all
  have "fair_inv dv' cx'" using device_reach_fair run(3,4) by blast
  then have "(\<exists>choice. own_choice choice \<and> worker_step policy api True choice (dv', cx') \<noteq> None) \<or>
     dv_pc dv' = PC_Idle \<and> unanswered dv' cx' = {}"
    using own_step_enabled idle_answered by blast
  then show ?thesis using run(1,2) pc_weight_le[of "dv_pc dv"] by (simp add: drain_measure_def)
qed

theorem closed_queue_drains_witness:
  "\<exists>dv cx. worker_run default_policy mem_api True [WC_Tick 0 0, WC_Tick 0 0, WC_Tick 0 0, WC_Settle SI_Skip 5, WC_Audit [], WC_Tick 0 0, WC_Tick 0 0]
       (dev_at (example_queue False [example_entry] None []) PC_Start False J_None, queued_ctx) = Some (dv, cx) \<and>
     dv_pc dv = PC_Idle \<and> unanswered dv cx = {}"
proof -
  let ?dv = "dev_at (example_queue False [example_entry] None []) PC_Start False J_None"
  have r: "device_reach default_policy mem_api False (True, ?dv, queued_ctx)"
    by (rule d_step[OF trace_enqueued d_close])
  obtain dv cx where run: "worker_run default_policy mem_api True [WC_Tick 0 0, WC_Tick 0 0, WC_Tick 0 0, WC_Settle SI_Skip 5, WC_Audit [], WC_Tick 0 0, WC_Tick 0 0]
       (?dv, queued_ctx) = Some (dv, cx)" and idle: "dv_pc dv = PC_Idle"
    by (simp add: worker_step.simps dev_at_def adopt_def example_queue_def phase_a_def close_and_move_def all_entries_def
        priorities_def track_def untrack_def settle_begin_def is_set_def)
  from closed_queue_drains[OF r _ run] idle run show ?thesis
    by (auto simp: quiet_def dev_at_def worker_step.simps)
qed

end
