(* ===== verification/Profile_Model.thy ===== *)
theory Profile_Model
  imports Control_Types
begin

text \<open>
  \<^verbatim>\<open>crates/profile-engine/src/models.rs\<close>: the device profile that maps semantic paths and business commands
  to what a driver understands. Floats are their bits. The acquisition constraints and the descriptive fields
  (vendor, family, models, unit) are kept. The kinds of device are those of \<^verbatim>\<open>crates/observation-model/src/device.rs\<close>.
\<close>

datatype domain_kind =
    DK_Plc | DK_Cnc | DK_Robot | DK_Drive | DK_Servo | DK_Meter | DK_Sensor | DK_Instrument | DK_Machine
  | DK_PowerDevice | DK_BuildingDevice | DK_Custom string

datatype write_rounding = WR_Exact | WR_Nearest | WR_Floor | WR_Ceil | WR_Truncate

record profile_property =
  pp_path :: property_path
  pp_driver_address :: string
  pp_raw_type :: data_type
  pp_value_type :: data_type
  pp_unit :: "string option"
  pp_scale :: u64
  pp_offset :: u64
  pp_write_rounding :: write_rounding
  pp_readable :: bool
  pp_writable :: bool
  pp_default_interval_ms :: "nat option"
  pp_min :: "sem_value option"
  pp_max :: "sem_value option"

record profile_command =
  pcmd_id :: string
  pcmd_driver_command_id :: string
  pcmd_parameters :: "command_parameter_descriptor list"
  pcmd_risk_level :: risk_level
  pcmd_preconditions :: "command_precondition list"

record acquisition_constraints =
  ac_polling :: "bool option"
  ac_subscription :: "bool option"
  ac_events :: "bool option"
  ac_history :: "bool option"

record profile_capabilities =
  pk_supported_properties :: "property_path list"
  pk_supported_commands :: "string list"
  pk_acquisition :: acquisition_constraints
  pk_limits :: "(string \<times> sem_value) list"

record device_profile =
  dp_id :: string
  dp_vendor :: string
  dp_family :: string
  dp_models :: "string list"
  dp_domain :: domain_kind
  dp_driver_id :: string
  dp_properties :: "profile_property list"
  dp_commands :: "profile_command list"
  dp_capabilities :: profile_capabilities

definition lookup_property :: "device_profile \<Rightarrow> property_path \<Rightarrow> profile_property option" where
  "lookup_property p path = find (\<lambda>q. pp_path q = path) (dp_properties p)"

definition lookup_command :: "device_profile \<Rightarrow> string \<Rightarrow> profile_command option" where
  "lookup_command p cmd = find (\<lambda>c. pcmd_id c = cmd) (dp_commands p)"

end
