(* ===== verification/Ieee_Arith.thy ===== *)
theory Ieee_Arith
  imports Ieee_Float
begin

text \<open>
  Arithmetic on \<^verbatim>\<open>f64\<close>: correctly rounded sum, difference, product and quotient, comparison, the roundings to an
  integer of the standard library (\<^verbatim>\<open>round\<close>, \<^verbatim>\<open>floor\<close>, \<^verbatim>\<open>ceil\<close>, \<^verbatim>\<open>trunc\<close>, \<^verbatim>\<open>fract\<close>) and the casts between integers and
  floats. Every finite float is an integer multiple of the smallest positive one, so the exact results are
  integers or quotients of integers in that unit, and one function rounds them.
\<close>

section \<open>Values\<close>

text \<open>One, in units of the smallest positive float.\<close>

definition one_units :: nat where
  "one_units = 2 ^ 1074"

definition mag_units :: "nat \<Rightarrow> nat" where
  "mag_units n = (if n < 2 ^ 52 then n else (2 ^ 52 + n mod 2 ^ 52) * 2 ^ (n div 2 ^ 52 - 1))"

definition f64_mag :: "u64 \<Rightarrow> nat" where
  "f64_mag w = unat w mod 2 ^ 63"

definition f64_units :: "u64 \<Rightarrow> nat" where
  "f64_units w = mag_units (f64_mag w)"

definition f64_neg_p :: "u64 \<Rightarrow> bool" where
  "f64_neg_p w \<longleftrightarrow> f64_sign w = 1"

definition f64_num :: "u64 \<Rightarrow> int" where
  "f64_num w = (if f64_neg_p w then - int (f64_units w) else int (f64_units w))"

definition f64_is_infinite :: "u64 \<Rightarrow> bool" where
  "f64_is_infinite w \<longleftrightarrow> f64_mag w = 2047 * 2 ^ 52"

definition f64_signed :: "bool \<Rightarrow> nat \<Rightarrow> u64" where
  "f64_signed neg mag = word_of_nat ((if neg then 2 ^ 63 else 0) + mag)"

abbreviation "f64_nan \<equiv> f64_signed False (2047 * 2 ^ 52 + 2 ^ 51)"
abbreviation "f64_inf neg \<equiv> f64_signed neg (2047 * 2 ^ 52)"
abbreviation "f64_zero neg \<equiv> f64_signed neg 0"

section \<open>Rounding\<close>

definition round_div :: "nat \<Rightarrow> nat \<Rightarrow> nat" where
  "round_div p q =
     (let d = p div q; r = p mod q in if q < 2 * r \<or> (2 * r = q \<and> odd d) then d + 1 else d)"

text \<open>The float nearest to the quotient of \<open>p\<close> and \<open>q\<close> units, ties to even.\<close>

definition round_mag :: "nat \<Rightarrow> nat \<Rightarrow> nat" where
  "round_mag p q =
     (let k = (if p div q < 2 ^ 53 then 0 else flog2 (p div q) - 52)
      in min (k * 2 ^ 52 + round_div p (q * 2 ^ k)) (2047 * 2 ^ 52))"

definition f64_pack :: "bool \<Rightarrow> nat \<Rightarrow> nat \<Rightarrow> u64" where
  "f64_pack neg p q = f64_signed neg (round_mag p q)"

section \<open>Operations\<close>

definition f64_of_int :: "int \<Rightarrow> u64" where
  "f64_of_int i = f64_pack (i < 0) (nat \<bar>i\<bar> * one_units) 1"

definition f64_neg :: "u64 \<Rightarrow> u64" where
  "f64_neg w = f64_signed (\<not> f64_neg_p w) (f64_mag w)"

definition f64_add :: "u64 \<Rightarrow> u64 \<Rightarrow> u64" where
  "f64_add a b =
     (if f64_is_nan a \<or> f64_is_nan b then f64_nan
      else if f64_is_infinite a then (if f64_is_infinite b \<and> f64_neg_p a \<noteq> f64_neg_p b then f64_nan else a)
      else if f64_is_infinite b then b
      else let s = f64_num a + f64_num b in
        if s = 0 then f64_zero (f64_neg_p a \<and> f64_neg_p b) else f64_pack (s < 0) (nat \<bar>s\<bar>) 1)"

definition f64_sub :: "u64 \<Rightarrow> u64 \<Rightarrow> u64" where
  "f64_sub a b = f64_add a (f64_neg b)"

definition f64_mul :: "u64 \<Rightarrow> u64 \<Rightarrow> u64" where
  "f64_mul a b =
     (let neg = (f64_neg_p a \<noteq> f64_neg_p b) in
      if f64_is_nan a \<or> f64_is_nan b then f64_nan
      else if f64_is_infinite a \<or> f64_is_infinite b then
        (if f64_is_zero a \<or> f64_is_zero b then f64_nan else f64_inf neg)
      else f64_pack neg (f64_units a * f64_units b) one_units)"

definition f64_div :: "u64 \<Rightarrow> u64 \<Rightarrow> u64" where
  "f64_div a b =
     (let neg = (f64_neg_p a \<noteq> f64_neg_p b) in
      if f64_is_nan a \<or> f64_is_nan b then f64_nan
      else if f64_is_infinite a then (if f64_is_infinite b then f64_nan else f64_inf neg)
      else if f64_is_infinite b then f64_zero neg
      else if f64_is_zero b then (if f64_is_zero a then f64_nan else f64_inf neg)
      else f64_pack neg (f64_units a * one_units) (f64_units b))"

text \<open>The order of the bit patterns is the order of the values; the two zeros are equal.\<close>

definition f64_key :: "u64 \<Rightarrow> int" where
  "f64_key w = (if f64_neg_p w then - int (f64_mag w) else int (f64_mag w))"

definition f64_lt :: "u64 \<Rightarrow> u64 \<Rightarrow> bool" where
  "f64_lt a b \<longleftrightarrow> \<not> f64_is_nan a \<and> \<not> f64_is_nan b \<and> f64_key a < f64_key b"

definition f64_le :: "u64 \<Rightarrow> u64 \<Rightarrow> bool" where
  "f64_le a b \<longleftrightarrow> \<not> f64_is_nan a \<and> \<not> f64_is_nan b \<and> f64_key a \<le> f64_key b"

section \<open>Roundings to an integer\<close>

definition trunc_int :: "u64 \<Rightarrow> int" where
  "trunc_int w = (if f64_neg_p w then - int (f64_units w div one_units) else int (f64_units w div one_units))"

definition round_int :: "u64 \<Rightarrow> int" where
  "round_int w =
     (let n = int ((2 * f64_units w + one_units) div (2 * one_units)) in if f64_neg_p w then - n else n)"

definition floor_int :: "u64 \<Rightarrow> int" where
  "floor_int w = f64_num w div int one_units"

definition ceil_int :: "u64 \<Rightarrow> int" where
  "ceil_int w = - ((- f64_num w) div int one_units)"

definition f64_integral :: "(u64 \<Rightarrow> int) \<Rightarrow> u64 \<Rightarrow> u64" where
  "f64_integral f w =
     (if \<not> f64_is_finite w then w
      else if f w = 0 then f64_zero (f64_neg_p w) else f64_of_int (f w))"

definition f64_round :: "u64 \<Rightarrow> u64" where "f64_round = f64_integral round_int"
definition f64_floor :: "u64 \<Rightarrow> u64" where "f64_floor = f64_integral floor_int"
definition f64_ceil :: "u64 \<Rightarrow> u64" where "f64_ceil = f64_integral ceil_int"
definition f64_trunc :: "u64 \<Rightarrow> u64" where "f64_trunc = f64_integral trunc_int"

definition f64_fract :: "u64 \<Rightarrow> u64" where
  "f64_fract w = f64_sub w (f64_trunc w)"

text \<open>The cast \<^verbatim>\<open>as i128\<close>: toward zero, saturating, zero on NaN.\<close>

definition f64_as_i128 :: "u64 \<Rightarrow> int" where
  "f64_as_i128 w =
     (if f64_is_nan w then 0
      else if f64_is_infinite w then (if f64_neg_p w then - (2 ^ 127) else 2 ^ 127 - 1)
      else max (- (2 ^ 127)) (min (2 ^ 127 - 1) (trunc_int w)))"

section \<open>Facts about magnitudes\<close>

lemma mag_units_Suc: "mag_units n < mag_units (Suc n)"
proof -
  consider "Suc n < 2 ^ 52" | "Suc n = 2 ^ 52" | "2 ^ 52 \<le> n" by linarith
  then show ?thesis
  proof cases
    case 3
    let ?d = "n div 2 ^ 52" and ?m = "n mod 2 ^ 52"
    have d: "0 < ?d" using 3 by (simp add: div_greater_zero_iff)
    have m: "?m < 2 ^ 52" by simp
    show ?thesis
    proof (cases "Suc ?m = 2 ^ 52")
      case True
      then have "Suc n mod 2 ^ 52 = 0" "Suc n div 2 ^ 52 = Suc ?d" by (simp_all only: mod_Suc div_Suc simp_thms if_True)
      moreover have "(2::nat) ^ ?d = 2 * 2 ^ (?d - 1)" using d by (cases ?d) simp_all
      ultimately show ?thesis using 3 m by (simp add: mag_units_def)
    next
      case False
      then have "Suc n mod 2 ^ 52 = Suc ?m" "Suc n div 2 ^ 52 = ?d" by (simp_all add: mod_Suc div_Suc)
      then show ?thesis using 3 by (simp add: mag_units_def)
    qed
  qed (simp_all add: mag_units_def)
qed

lemma mag_units_less_iff [simp]: "mag_units m < mag_units n \<longleftrightarrow> m < n"
  by (rule strict_mono_less) (simp add: strict_mono_Suc_iff mag_units_Suc)

lemma mag_units_le_iff [simp]: "mag_units m \<le> mag_units n \<longleftrightarrow> m \<le> n"
  by (simp add: linorder_not_less[symmetric] del: linorder_not_less)

lemma mag_units_0 [simp]: "mag_units 0 = 0"
  by (simp add: mag_units_def)

lemma div_mod_add:
  fixes a b r :: nat
  assumes "r < b"
  shows "(a * b + r) div b = a" "(a * b + r) mod b = r"
  using assms by simp_all

lemma mult_add_less_iff:
  fixes b e m c :: nat
  assumes "m < b"
  shows "e * b + m < c * b \<longleftrightarrow> e < c"
proof
  assume "e < c"
  then have "(e + 1) * b \<le> c * b" by (intro mult_le_mono1) simp
  then show "e * b + m < c * b" using assms by simp
next
  assume "e * b + m < c * b"
  then have "e * b < c * b" by linarith
  then show "e < c" by simp
qed

lemma f64_signed_fields [simp]:
  assumes "mag < 2 ^ 63"
  shows "f64_mag (f64_signed neg mag) = mag" "f64_neg_p (f64_signed neg mag) = neg"
proof -
  have u: "unat (f64_signed neg mag) = (if neg then 2 ^ 63 else 0) + mag"
    unfolding f64_signed_def using assms by (subst unat_word_of_nat) simp_all
  show "f64_mag (f64_signed neg mag) = mag" using assms by (simp add: f64_mag_def u)
  have "(2 ^ 63 + mag) div 2 ^ 63 = 1" using div_mod_add(1)[OF assms, of 1] by (simp only: mult_1)
  then show "f64_neg_p (f64_signed neg mag) = neg"
    unfolding f64_neg_p_def f64_sign_def u using assms by (cases neg) simp_all
qed

lemma f64_exp_man: "f64_exp w = f64_mag w div 2 ^ 52" "f64_man w = f64_mag w mod 2 ^ 52"
proof -
  have "unat w mod 2 ^ 63 div 2 ^ 52 = unat w div 2 ^ 52 mod 2 ^ 11"
    using div_exp_mod_exp_eq[of "unat w" 52 11] by simp
  then show "f64_exp w = f64_mag w div 2 ^ 52" by (simp add: f64_exp_def f64_mag_def)
  show "f64_man w = f64_mag w mod 2 ^ 52"
    by (simp add: f64_man_def f64_mag_def mod_mod_cancel)
qed

lemma f64_mag_less: "f64_mag w < 2 ^ 63"
  by (simp add: f64_mag_def)

lemma f64_mag_split: "f64_mag w = f64_exp w * 2 ^ 52 + f64_man w"
  by (simp only: f64_exp_man div_mult_mod_eq)

lemma f64_finite_iff: "f64_is_finite w \<longleftrightarrow> f64_mag w < 2047 * 2 ^ 52"
  using f64_fields(3)[of w] mult_add_less_iff[OF f64_fields(4)[of w], of "f64_exp w" 2047]
  unfolding f64_is_finite_def f64_mag_split by linarith

lemma f64_nan_iff: "f64_is_nan w \<longleftrightarrow> 2047 * 2 ^ 52 < f64_mag w"
  using f64_fields(3)[of w] mult_add_less_iff[OF f64_fields(4)[of w], of "f64_exp w" 2047]
  unfolding f64_is_nan_def f64_mag_split by (cases "f64_exp w = 2047") auto

lemma f64_zero_iff: "f64_is_zero w \<longleftrightarrow> f64_mag w = 0"
  unfolding f64_is_zero_def f64_mag_split by (simp only: add_is_0 mult_is_0) simp

lemma f64_finite_not [simp]: "f64_is_finite w \<Longrightarrow> \<not> f64_is_nan w" "f64_is_finite w \<Longrightarrow> \<not> f64_is_infinite w"
  by (simp_all add: f64_finite_iff f64_nan_iff f64_is_infinite_def)

text \<open>On finite floats the comparison is the comparison of the values.\<close>

lemma f64_num_less: "f64_num a < f64_num b \<longleftrightarrow> f64_key a < f64_key b"
proof -
  have pos: "(0 < mag_units n) = (0 < n)" for n
    using mag_units_less_iff[of 0 n] by simp
  then have "(mag_units n = 0) = (n = 0)" for n by (metis neq0_conv)
  with pos have diff: "(- int (mag_units m) < int (mag_units n)) = (- int m < int n)"
      "(int (mag_units m) < - int (mag_units n)) = (int m < - int n)" for m n
    by (smt (verit) of_nat_0_less_iff of_nat_0_le_iff)+
  show ?thesis
    by (cases "f64_neg_p a"; cases "f64_neg_p b") (simp_all add: f64_num_def f64_key_def f64_units_def diff)
qed

lemma f64_lt_iff: "f64_is_finite a \<Longrightarrow> f64_is_finite b \<Longrightarrow> f64_lt a b \<longleftrightarrow> f64_num a < f64_num b"
  by (simp add: f64_lt_def f64_num_less)

lemma f64_le_iff: "f64_is_finite a \<Longrightarrow> f64_is_finite b \<Longrightarrow> f64_le a b \<longleftrightarrow> f64_num a \<le> f64_num b"
  using f64_num_less[of b a] by (simp add: f64_le_def linorder_not_less[symmetric] del: linorder_not_less)

section \<open>Exact results\<close>

lemma flog2_unique: "2 ^ j \<le> n \<Longrightarrow> n < 2 * 2 ^ j \<Longrightarrow> flog2 n = j"
proof -
  assume n: "2 ^ j \<le> n" "n < 2 * 2 ^ j"
  then have "0 < n" using power_not_zero[of "2::nat" j] by linarith
  note b = flog2_bounds[OF this]
  have "(2::nat) ^ flog2 n < 2 ^ Suc j" unfolding power_Suc using b n by linarith
  then have "flog2 n < Suc j" by (rule power_less_imp_less_exp[rotated]) simp
  moreover have "(2::nat) ^ j < 2 ^ Suc (flog2 n)" unfolding power_Suc using b n by linarith
  then have "j < Suc (flog2 n)" by (rule power_less_imp_less_exp[rotated]) simp
  ultimately show ?thesis by linarith
qed

lemma round_div_exact: "0 < q \<Longrightarrow> round_div (q * a) q = a"
  by (simp add: round_div_def Let_def)

lemma mag_units_small: "n < 2 ^ 53 \<Longrightarrow> mag_units n = n"
proof -
  assume n: "n < 2 ^ 53"
  have "n div 2 ^ 52 = 1 \<and> n = 2 ^ 52 + n mod 2 ^ 52" if "2 ^ 52 \<le> n"
  proof
    show "n div 2 ^ 52 = 1" using n that by simp
    then show "n = 2 ^ 52 + n mod 2 ^ 52" by (metis mult_1 div_mult_mod_eq)
  qed
  then show ?thesis by (auto simp: mag_units_def)
qed

lemma mag_units_binade: "2 ^ 52 \<le> m \<Longrightarrow> m \<le> 2 ^ 53 \<Longrightarrow> mag_units (k * 2 ^ 52 + m) = m * 2 ^ k"
proof -
  assume m: "2 ^ 52 \<le> m" "m \<le> 2 ^ 53"
  show ?thesis
  proof (cases "m = 2 ^ 53")
    case True
    then have "k * 2 ^ 52 + m = (k + 2) * 2 ^ 52" by simp
    then have "(k * 2 ^ 52 + m) div 2 ^ 52 = k + 2" "(k * 2 ^ 52 + m) mod 2 ^ 52 = 0" by simp_all
    then show ?thesis using True by (simp add: mag_units_def)
  next
    case False
    then have e: "k * 2 ^ 52 + m = (k + 1) * 2 ^ 52 + (m - 2 ^ 52)" and lt: "m - 2 ^ 52 < 2 ^ 52" using m by simp_all
    have "(k * 2 ^ 52 + m) div 2 ^ 52 = k + 1" "(k * 2 ^ 52 + m) mod 2 ^ 52 = m - 2 ^ 52"
      unfolding e by (rule div_mod_add[OF lt])+
    then show ?thesis using m by (simp add: mag_units_def)
  qed
qed

lemma mag_units_cases:
  obtains (small) "n < 2 ^ 53" "mag_units n = n"
  | (large) k m where "n = k * 2 ^ 52 + m" "2 ^ 52 \<le> m" "m < 2 ^ 53" "0 < k" "mag_units n = m * 2 ^ k"
proof (cases "n < 2 ^ 53")
  case True
  then show ?thesis using small mag_units_small by blast
next
  case False
  define k m where "k = n div 2 ^ 52 - 1" and "m = n mod 2 ^ 52 + 2 ^ 52"
  have "2 \<le> n div 2 ^ 52" using False by simp
  then have "n div 2 ^ 52 = k + 1" "0 < k" by (simp_all add: k_def)
  then have n: "n = k * 2 ^ 52 + m" using div_mult_mod_eq[of n "2 ^ 52"] by (simp add: m_def)
  have m: "2 ^ 52 \<le> m" "m < 2 ^ 53" by (simp_all add: m_def)
  show ?thesis
    using large[OF n m \<open>0 < k\<close>] mag_units_binade[of m k] m n by simp
qed

lemma round_mag_exact:
  assumes "n \<le> 2047 * 2 ^ 52" and "0 < q"
  shows "round_mag (q * mag_units n) q = n"
proof (cases rule: mag_units_cases[of n])
  case small
  with assms show ?thesis by (simp add: round_mag_def round_div_exact)
next
  case (large k m)
  have "2 ^ (k + 52) \<le> mag_units n" "mag_units n < 2 * 2 ^ (k + 52)"
    using large by (simp_all add: power_add mult.commute)
  then have log: "flog2 (mag_units n) = k + 52" by (rule flog2_unique)
  have "(2::nat) ^ 53 \<le> 2 ^ (k + 52)" using large(4) by (intro power_increasing) simp_all
  then have big: "\<not> mag_units n < 2 ^ 53" using \<open>2 ^ (k + 52) \<le> mag_units n\<close> by linarith
  have "q * mag_units n = (q * 2 ^ k) * m" by (simp add: large(5))
  moreover have "0 < q * 2 ^ k" using assms(2) by simp
  ultimately have "round_div (q * mag_units n) (q * 2 ^ k) = m"
    by (simp only: round_div_exact)
  with big log assms large(1) show ?thesis
    by (simp add: round_mag_def)
qed


section \<open>Integers as floats\<close>

text \<open>A number with at most 53 significant bits is a float.\<close>

lemma mag_units_onto:
  assumes "a \<le> 2 ^ 53"
  shows "\<exists>n. mag_units n = a * 2 ^ j"
proof (induction j)
  case 0
  have "mag_units (2 ^ 53) = 2 ^ 53" using mag_units_binade[of "2 ^ 53" 0] by simp
  then show ?case using assms mag_units_small[of a] by (cases "a = 2 ^ 53") auto
next
  case (Suc j)
  then obtain n where n: "mag_units n = a * 2 ^ j" by blast
  show ?case
  proof (cases rule: mag_units_cases[of n])
    case small
    show ?thesis
    proof (cases "n < 2 ^ 52")
      case True
      then have "mag_units (2 * n) = 2 * n" by (intro mag_units_small) simp
      then show ?thesis using n small(2) by (intro exI[of _ "2 * n"]) simp
    next
      case False
      then have "mag_units (1 * 2 ^ 52 + n) = n * 2 ^ 1" using small(1) by (intro mag_units_binade) simp_all
      then show ?thesis using n small(2) by (intro exI[of _ "1 * 2 ^ 52 + n"]) simp
    qed
  next
    case (large k m)
    then have "mag_units (Suc k * 2 ^ 52 + m) = m * 2 ^ Suc k" by (intro mag_units_binade) simp_all
    then show ?thesis using n large(5) by (intro exI[of _ "Suc k * 2 ^ 52 + m"]) simp
  qed
qed

lemma f64_pack_fields:
  "f64_neg_p (f64_pack neg p q) = neg" "f64_mag (f64_pack neg p q) = round_mag p q"
proof -
  have "round_mag p q < 2 ^ 63" by (simp add: round_mag_def Let_def min_def)
  then show "f64_neg_p (f64_pack neg p q) = neg" "f64_mag (f64_pack neg p q) = round_mag p q"
    by (simp_all add: f64_pack_def)
qed

lemma mag_units_max: "mag_units (2047 * 2 ^ 52) = 2 ^ 2098"
proof -
  have "mag_units (2046 * 2 ^ 52 + 2 ^ 52) = 2 ^ 52 * 2 ^ 2046" by (rule mag_units_binade) simp_all
  moreover have "(2::nat) ^ 52 * 2 ^ 2046 = 2 ^ 2098" by (simp only: power_add[symmetric]) simp
  ultimately show ?thesis by simp
qed

lemma one_units_pos [simp]: "0 < one_units"
  by (simp add: one_units_def)

lemma f64_of_int_exact:
  assumes "nat \<bar>i\<bar> = a * 2 ^ j" and "a \<le> 2 ^ 53" and "nat \<bar>i\<bar> < 2 ^ 1024"
  shows "f64_num (f64_of_int i) = i * int one_units" and "f64_is_finite (f64_of_int i)"
proof -
  obtain n where n: "mag_units n = nat \<bar>i\<bar> * one_units"
    using mag_units_onto[OF assms(2), of "j + 1074"] by (auto simp: assms(1) one_units_def power_add mult.assoc)
  have "nat \<bar>i\<bar> * one_units < 2 ^ 1024 * 2 ^ 1074"
    unfolding one_units_def using assms(3) by (simp only: mult_less_cancel2) simp
  also have "\<dots> = mag_units (2047 * 2 ^ 52)"
    unfolding mag_units_max power_add[symmetric] by simp
  finally have lt: "n < 2047 * 2 ^ 52" unfolding n[symmetric] by (simp only: mag_units_less_iff)
  then have r: "round_mag (nat \<bar>i\<bar> * one_units) 1 = n"
    using round_mag_exact[of n 1] n by simp
  show "f64_is_finite (f64_of_int i)"
    using lt by (simp add: f64_finite_iff f64_of_int_def f64_pack_fields r del: One_nat_def)
  have "f64_units (f64_of_int i) = nat \<bar>i\<bar> * one_units"
    unfolding f64_units_def f64_of_int_def f64_pack_fields r n by (rule refl)
  moreover have "f64_neg_p (f64_of_int i) = (i < 0)" by (simp add: f64_of_int_def f64_pack_fields)
  ultimately show "f64_num (f64_of_int i) = i * int one_units" by (simp add: f64_num_def)
qed

lemma f64_of_int_small:
  assumes "\<bar>i\<bar> \<le> 2 ^ 53"
  shows "f64_num (f64_of_int i) = i * int one_units" "f64_is_finite (f64_of_int i)"
proof -
  have a: "nat \<bar>i\<bar> = nat \<bar>i\<bar> * 2 ^ 0" "nat \<bar>i\<bar> \<le> 2 ^ 53" using assms by simp_all
  moreover have "(2::nat) ^ 53 < 2 ^ 1024" by (rule power_strict_increasing) simp_all
  ultimately have "nat \<bar>i\<bar> < 2 ^ 1024" by linarith
  from f64_of_int_exact[OF a this]
  show "f64_num (f64_of_int i) = i * int one_units" "f64_is_finite (f64_of_int i)" .
qed


lemma trunc_int_integral: "f64_num w = z * int one_units \<Longrightarrow> trunc_int w = z"
proof -
  assume z: "f64_num w = z * int one_units"
  have "int (f64_units w div one_units) = int (f64_units w) div int one_units" by (simp add: zdiv_int)
  moreover have "int (f64_units w) = (if f64_neg_p w then - z else z) * int one_units"
    using z by (simp add: f64_num_def split: if_splits)
  ultimately show ?thesis by (simp add: trunc_int_def)
qed


section \<open>Integral floats\<close>

text \<open>A rounding to an integer that leaves integers alone and stays among the integers that floats hold exactly.\<close>

definition int_rounding :: "(u64 \<Rightarrow> int) \<Rightarrow> bool" where
  "int_rounding f \<longleftrightarrow>
     (\<forall>w z. f64_num w = z * int one_units \<longrightarrow> f w = z) \<and>
     (\<forall>w. \<bar>f64_num w\<bar> < 2 ^ 53 * int one_units \<longrightarrow> \<bar>f w\<bar> \<le> 2 ^ 53)"

lemma f64_num_abs: "\<bar>f64_num w\<bar> = int (f64_units w)"
  by (simp add: f64_num_def)

lemma large_is_integral:
  assumes "2 ^ 53 * int one_units \<le> \<bar>f64_num w\<bar>"
  shows "\<exists>z. f64_num w = z * int one_units"
proof -
  have "2 ^ 53 * one_units \<le> f64_units w"
    using assms unfolding f64_num_abs by (metis of_nat_le_iff of_nat_mult of_nat_numeral of_nat_power)
  then have u: "2 ^ 1127 \<le> mag_units (f64_mag w)"
    by (simp only: f64_units_def one_units_def power_add[symmetric]) simp
  have "\<exists>a. f64_units w = a * one_units"
  proof (cases rule: mag_units_cases[of "f64_mag w"])
    case small
    have "(2::nat) ^ 53 < 2 ^ 1127" by (rule power_strict_increasing) simp_all
    with small u show ?thesis by linarith
  next
    case (large k m)
    have "1074 \<le> k"
    proof (rule ccontr)
      assume "\<not> 1074 \<le> k"
      then have "m * 2 ^ k < 2 ^ 53 * 2 ^ 1074"
        using large(3) by (intro mult_less_le_imp_less power_increasing) simp_all
      then have "mag_units (f64_mag w) < 2 ^ 1127" unfolding large(5) power_add[symmetric] by simp
      with u show False by linarith
    qed
    then have "(2::nat) ^ k = 2 ^ (k - 1074) * one_units" by (simp only: one_units_def power_add[symmetric]) simp
    then have "f64_units w = m * 2 ^ (k - 1074) * one_units"
      unfolding f64_units_def large(5) by (simp only: mult.assoc)
    then show ?thesis by blast
  qed
  then obtain a where "f64_units w = a * one_units" by blast
  then have "f64_num w = (if f64_neg_p w then - int a else int a) * int one_units" by (simp add: f64_num_def)
  then show ?thesis by blast
qed

lemma f64_of_int_of_num:
  assumes "f64_is_finite w" and "f64_num w = z * int one_units"
  shows "f64_num (f64_of_int z) = z * int one_units" "f64_is_finite (f64_of_int z)"
proof -
  have u: "nat \<bar>z\<bar> * one_units = mag_units (f64_mag w)"
    using arg_cong[OF assms(2), of abs] unfolding f64_num_abs f64_units_def
    by (metis abs_mult abs_of_nat nat_int nat_mult_distrib abs_ge_zero)
  have lt: "f64_mag w < 2047 * 2 ^ 52" using assms(1) by (simp add: f64_finite_iff)
  then have r: "round_mag (nat \<bar>z\<bar> * one_units) 1 = f64_mag w"
    unfolding u using round_mag_exact[of "f64_mag w" 1] by simp
  show "f64_is_finite (f64_of_int z)"
    unfolding f64_finite_iff f64_of_int_def f64_pack_fields r by (rule lt)
  have "f64_units (f64_of_int z) = nat \<bar>z\<bar> * one_units"
    unfolding f64_units_def f64_of_int_def f64_pack_fields r by (rule u[symmetric])
  moreover have "f64_neg_p (f64_of_int z) = (z < 0)" by (simp add: f64_of_int_def f64_pack_fields)
  ultimately show "f64_num (f64_of_int z) = z * int one_units" by (simp add: f64_num_def)
qed

lemma f64_zero_fields: "f64_num (f64_zero neg) = 0" "f64_is_finite (f64_zero neg)"
  by (simp_all add: f64_num_def f64_units_def f64_finite_iff)

lemma f64_integral_num:
  assumes "int_rounding f" and "f64_is_finite w"
  shows "f64_num (f64_integral f w) = f w * int one_units" "f64_is_finite (f64_integral f w)"
proof -
  have "f64_num (f64_of_int (f w)) = f w * int one_units \<and> f64_is_finite (f64_of_int (f w))"
  proof (cases "\<bar>f64_num w\<bar> < 2 ^ 53 * int one_units")
    case True
    then have "\<bar>f w\<bar> \<le> 2 ^ 53" using assms(1) by (simp add: int_rounding_def)
    then show ?thesis using f64_of_int_small by blast
  next
    case False
    then obtain z where z: "f64_num w = z * int one_units" using large_is_integral by force
    then have "f w = z" using assms(1) by (simp add: int_rounding_def)
    then show ?thesis using f64_of_int_of_num[OF assms(2) z] by simp
  qed
  then show "f64_num (f64_integral f w) = f w * int one_units" "f64_is_finite (f64_integral f w)"
    using assms(2) by (simp_all add: f64_integral_def f64_zero_fields)
qed

lemma num_neg: "f64_num w = (if f64_neg_p w then - 1 else 1) * int (f64_units w)"
  by (simp add: f64_num_def)

lemma int_div_bounds:
  fixes n d :: int
  assumes "0 < d" "\<bar>n\<bar> < b * d"
  shows "\<bar>n div d\<bar> \<le> b"
proof -
  have "(- b) * d \<le> n" "n \<le> b * d" using assms(2) by (simp_all add: abs_less_iff)
  then have "(- b) * d div d \<le> n div d" "n div d \<le> b * d div d" using assms(1) by (simp_all only: zdiv_mono1)
  moreover have "(- b) * d div d = - b" "b * d div d = b"
    using assms(1) by (simp_all only: nonzero_mult_div_cancel_right less_imp_neq[symmetric] simp_thms)
  ultimately show ?thesis by linarith
qed

lemma units_of_integral: "f64_num w = z * int one_units \<Longrightarrow> f64_units w = nat \<bar>z\<bar> * one_units"
proof -
  assume "f64_num w = z * int one_units"
  then have "int (f64_units w) = \<bar>z\<bar> * int one_units" unfolding f64_num_abs[symmetric] by (simp add: abs_mult)
  then show ?thesis by (metis abs_ge_zero nat_int nat_mult_distrib)
qed

lemma neg_of_integral: "f64_num w = z * int one_units \<Longrightarrow> z \<noteq> 0 \<Longrightarrow> f64_neg_p w = (z < 0)"
  using one_units_pos unfolding f64_num_def
  by (smt (verit, best) of_nat_0_le_iff of_nat_0_less_iff zero_less_mult_iff mult_less_0_iff)

lemma int_rounding_floor: "int_rounding floor_int"
  using int_div_bounds[of "int one_units"] by (auto simp: int_rounding_def floor_int_def)

lemma int_rounding_ceil: "int_rounding ceil_int"
proof -
  have "\<bar>ceil_int w\<bar> \<le> 2 ^ 53" if "\<bar>f64_num w\<bar> < 2 ^ 53 * int one_units" for w
    using int_div_bounds[of "int one_units" "- f64_num w" "2 ^ 53"] that by (simp add: ceil_int_def)
  moreover have "ceil_int w = z" if "f64_num w = z * int one_units" for w z
  proof -
    have "- f64_num w = (- z) * int one_units" using that by simp
    then have "(- f64_num w) div int one_units = - z"
      by (simp only: nonzero_mult_div_cancel_right of_nat_eq_0_iff one_units_pos[THEN less_imp_neq, symmetric] simp_thms)
    then show ?thesis by (simp add: ceil_int_def)
  qed
  ultimately show ?thesis by (simp add: int_rounding_def)
qed

lemma int_rounding_trunc: "int_rounding trunc_int"
proof -
  have "\<bar>trunc_int w\<bar> \<le> 2 ^ 53" if "\<bar>f64_num w\<bar> < 2 ^ 53 * int one_units" for w
    using int_div_bounds[of "int one_units" "int (f64_units w)" "2 ^ 53"] that
    by (simp add: trunc_int_def f64_num_abs zdiv_int)
  then show ?thesis by (simp add: int_rounding_def trunc_int_integral)
qed

lemma int_rounding_round: "int_rounding round_int"
proof -
  have "\<bar>round_int w\<bar> \<le> 2 ^ 53" if "\<bar>f64_num w\<bar> < 2 ^ 53 * int one_units" for w
  proof -
    have "f64_units w < 2 ^ 53 * one_units"
      using that unfolding f64_num_abs by (metis of_nat_less_iff of_nat_mult of_nat_numeral of_nat_power)
    then have "2 * f64_units w + one_units < (2 ^ 53 + 1) * (2 * one_units)" by simp
    then have "(2 * f64_units w + one_units) div (2 * one_units) < 2 ^ 53 + 1" by (rule less_mult_imp_div_less)
    then show ?thesis by (simp add: round_int_def Let_def)
  qed
  moreover have "round_int w = z" if "f64_num w = z * int one_units" for w z
  proof -
    have "2 * f64_units w + one_units = nat \<bar>z\<bar> * (2 * one_units) + one_units"
      by (simp add: units_of_integral[OF that])
    moreover have "one_units < 2 * one_units" by simp
    ultimately have "(2 * f64_units w + one_units) div (2 * one_units) = nat \<bar>z\<bar>"
      by (simp only: div_mod_add(1))
    then show ?thesis
      using neg_of_integral[OF that] by (cases "z = 0") (auto simp: round_int_def Let_def)
  qed
  ultimately show ?thesis by (simp add: int_rounding_def)
qed

lemmas f64_rounding_nums =
  f64_integral_num[OF int_rounding_round, folded f64_round_def] f64_integral_num[OF int_rounding_floor, folded f64_floor_def]
  f64_integral_num[OF int_rounding_ceil, folded f64_ceil_def] f64_integral_num[OF int_rounding_trunc, folded f64_trunc_def]


section \<open>Fractions\<close>

lemma f64_neg_fields: "f64_num (f64_neg w) = - f64_num w" "f64_is_finite (f64_neg w) = f64_is_finite w"
    "f64_is_nan (f64_neg w) = f64_is_nan w" "f64_is_infinite (f64_neg w) = f64_is_infinite w"
  using f64_mag_less[of w]
  by (simp_all add: f64_neg_def f64_num_def f64_units_def f64_finite_iff f64_nan_iff f64_is_infinite_def)

lemma round_mag_pos:
  assumes "0 < p"
  shows "0 < round_mag p 1"
proof (cases "p < 2 ^ 53")
  case True
  then show ?thesis using assms by (simp add: round_mag_def round_div_def)
next
  case False
  then have b: "2 ^ flog2 p \<le> p" "p < 2 * 2 ^ flog2 p" using flog2_bounds[OF assms] by simp_all
  have "53 \<le> flog2 p"
  proof (rule ccontr)
    assume "\<not> 53 \<le> flog2 p"
    then have "(2::nat) ^ Suc (flog2 p) \<le> 2 ^ 53" by (intro power_increasing) simp_all
    with b(2) False show False by simp
  qed
  then have "0 < (flog2 p - 52) * 2 ^ 52" by simp
  then show ?thesis using False by (simp add: round_mag_def Let_def)
qed

lemma f64_fract_zero_iff:
  assumes "f64_is_finite w"
  shows "f64_eq (f64_fract w) (f64_of_int 0) \<longleftrightarrow> f64_num w = trunc_int w * int one_units"
proof -
  define t where "t = f64_trunc w"
  define s where "s = f64_num w - f64_num t"
  have t: "f64_num t = trunc_int w * int one_units" "f64_is_finite t"
    using f64_rounding_nums(7,8)[OF assms] by (simp_all add: t_def)
  have zero: "f64_is_zero (f64_of_int 0)" "\<not> f64_is_nan (f64_of_int 0)"
    using f64_of_int_small(2)[of 0]
    by (simp_all add: f64_zero_iff f64_of_int_def f64_pack_fields round_mag_def round_div_def)
  have add: "f64_fract w = (if s = 0 then f64_zero (f64_neg_p w \<and> f64_neg_p (f64_neg t)) else f64_pack (s < 0) (nat \<bar>s\<bar>) 1)"
    using assms t(2)
    by (simp add: f64_fract_def f64_sub_def f64_add_def t_def[symmetric] s_def f64_neg_fields Let_def)
  have "f64_eq (f64_fract w) (f64_of_int 0) \<longleftrightarrow> s = 0"
  proof (cases "s = 0")
    case True
    then have "f64_mag (f64_fract w) = 0" using add by simp
    then show ?thesis using True zero by (simp add: f64_eq_def f64_zero_iff f64_nan_iff)
  next
    case False
    then have "0 < f64_mag (f64_fract w)" using add round_mag_pos[of "nat \<bar>s\<bar>"] by (simp add: f64_pack_fields)
    moreover have "f64_mag (f64_of_int 0) = 0" using zero(1) by (simp add: f64_zero_iff)
    ultimately show ?thesis using False by (auto simp: f64_eq_def f64_zero_iff)
  qed
  then show ?thesis by (simp add: s_def t(1))
qed

lemma f64_between_finite:
  assumes "f64_le a w" "f64_le w b" "f64_is_finite a" "f64_is_finite b"
  shows "f64_is_finite w"
proof -
  have "\<bar>f64_key x\<bar> < 2047 * 2 ^ 52" if "f64_is_finite x" for x
    using that by (simp add: f64_key_def f64_finite_iff)
  from this[OF assms(3)] this[OF assms(4)] have "\<bar>f64_key w\<bar> < 2047 * 2 ^ 52"
    using assms(1,2) unfolding f64_le_def by linarith
  then have "int (f64_mag w) < 2047 * 2 ^ 52" by (simp add: f64_key_def split: if_splits)
  then show ?thesis by (simp add: f64_finite_iff)
qed

lemma f64_lt_le: "f64_lt a b \<Longrightarrow> f64_le a b"
  by (simp add: f64_lt_def f64_le_def)

lemma trunc_int_bounds:
  assumes "- a * int one_units \<le> f64_num w" "f64_num w < b * int one_units" "0 \<le> a" "0 \<le> b"
  shows "- a \<le> trunc_int w" "trunc_int w < b \<or> trunc_int w = 0"
proof -
  have u: "int (f64_units w div one_units) = int (f64_units w) div int one_units" by (simp add: zdiv_int)
  have pos: "0 < int one_units" by simp
  have up: "int (f64_units w) div int one_units \<le> a" if "f64_neg_p w"
  proof -
    have "int (f64_units w) \<le> a * int one_units" using that assms(1) by (simp add: f64_num_def)
    from zdiv_mono1[OF this pos] show ?thesis by simp
  qed
  have lo: "int (f64_units w) div int one_units < b" if "\<not> f64_neg_p w"
  proof -
    have "int (f64_units w) < b * int one_units" using that assms(2) by (simp add: f64_num_def)
    moreover have "int (f64_units w) div int one_units * int one_units \<le> int (f64_units w)"
      by (simp add: minus_mod_eq_div_mult[symmetric])
    ultimately have "int (f64_units w) div int one_units * int one_units < b * int one_units" by linarith
    then show ?thesis by simp
  qed
  have nn: "0 \<le> int (f64_units w) div int one_units" by (simp add: pos_imp_zdiv_nonneg_iff)
  show "- a \<le> trunc_int w" "trunc_int w < b \<or> trunc_int w = 0"
    using up lo nn assms(3,4) by (auto simp: trunc_int_def u)
qed

end
