(* ===== verification/Profile_Convert.thy ===== *)
theory Profile_Convert
  imports Profile_Model Ieee_Arith
begin

text \<open>
  \<^verbatim>\<open>crates/profile-engine/src/convert.rs\<close>: a raw read becomes a semantic value with its quality, and a semantic value that
  is to be written becomes a raw value. Both directions scale by \<^verbatim>\<open>scale\<close> and \<^verbatim>\<open>offset\<close> in \<^verbatim>\<open>f64\<close>, with an exact integer
  path for the identity scale. Messages are dropped, so a failed decoding is \<open>None\<close>. An \<^verbatim>\<open>i64\<close>, \<^verbatim>\<open>u64\<close> or \<^verbatim>\<open>i128\<close>
  in an intermediate place is an integer.
\<close>

section \<open>Quality\<close>

datatype quality_level = QL_Good | QL_Uncertain | QL_Bad

datatype quality_reason =
    QR_None | QR_Stale | QR_Timeout | QR_NotConnected | QR_InvalidAddress | QR_DeviceError
  | QR_ProtocolError | QR_ConfigurationError | QR_Unsupported

record quality =
  ql_level :: quality_level
  ql_reason :: quality_reason
  ql_protocol_code :: "int option"

record decoded_read =
  dr_value :: "sem_value option"
  dr_quality :: quality

section \<open>Type families\<close>

definition is_signed_type :: "data_type \<Rightarrow> bool" where
  "is_signed_type t \<longleftrightarrow> t \<in> {DT_I8, DT_I16, DT_I32, DT_I64}"

definition is_unsigned_type :: "data_type \<Rightarrow> bool" where
  "is_unsigned_type t \<longleftrightarrow> t \<in> {DT_U8, DT_U16, DT_U32, DT_U64}"

definition is_float_type :: "data_type \<Rightarrow> bool" where
  "is_float_type t \<longleftrightarrow> t \<in> {DT_F32, DT_F64}"

definition is_integer_type :: "data_type \<Rightarrow> bool" where
  "is_integer_type t \<longleftrightarrow> is_signed_type t \<or> is_unsigned_type t"

definition is_numeric :: "data_type \<Rightarrow> bool" where
  "is_numeric t \<longleftrightarrow> is_integer_type t \<or> is_float_type t"

text \<open>\<^verbatim>\<open>try_from\<close> into an integer of \<open>n\<close> bits.\<close>

definition try_signed :: "nat \<Rightarrow> int \<Rightarrow> int option" where
  "try_signed n v = (if - (2 ^ (n - 1)) \<le> v \<and> v < 2 ^ (n - 1) then Some v else None)"

definition try_unsigned :: "nat \<Rightarrow> int \<Rightarrow> int option" where
  "try_unsigned n v = (if 0 \<le> v \<and> v < 2 ^ n then Some v else None)"

section \<open>Casts\<close>

definition f64_to_i64 :: "u64 \<Rightarrow> int option" where
  "f64_to_i64 v =
     (if f64_le (f64_of_int (- (2 ^ 63))) v \<and> f64_lt v (f64_of_int (2 ^ 63)) then Some (trunc_int v) else None)"

definition f64_to_u64 :: "u64 \<Rightarrow> int option" where
  "f64_to_u64 v =
     (if f64_le (f64_of_int 0) v \<and> f64_lt v (f64_of_int (2 ^ 64)) then Some (trunc_int v) else None)"

definition i64_lossless_to_f64 :: "int \<Rightarrow> u64 option" where
  "i64_lossless_to_f64 v =
     (let f = f64_of_int v in
      case f64_to_i64 f of Some back \<Rightarrow> if back = v then Some f else None | None \<Rightarrow> None)"

definition u64_lossless_to_f64 :: "int \<Rightarrow> u64 option" where
  "u64_lossless_to_f64 v =
     (let f = f64_of_int v in
      case f64_to_u64 f of Some back \<Rightarrow> if back = v then Some f else None | None \<Rightarrow> None)"

fun numeric_value_to_f64 :: "sem_value \<Rightarrow> u64 option" where
  "numeric_value_to_f64 (V_I8 x) = Some (f64_of_int (sint x))"
| "numeric_value_to_f64 (V_I16 x) = Some (f64_of_int (sint x))"
| "numeric_value_to_f64 (V_I32 x) = Some (f64_of_int (sint x))"
| "numeric_value_to_f64 (V_I64 x) = Some (f64_of_int (sint x))"
| "numeric_value_to_f64 (V_U8 x) = Some (f64_of_int (uint x))"
| "numeric_value_to_f64 (V_U16 x) = Some (f64_of_int (uint x))"
| "numeric_value_to_f64 (V_U32 x) = Some (f64_of_int (uint x))"
| "numeric_value_to_f64 (V_U64 x) = Some (f64_of_int (uint x))"
| "numeric_value_to_f64 (V_F32 x) = Some (f32_to_f64 x)"
| "numeric_value_to_f64 (V_F64 x) = Some x"
| "numeric_value_to_f64 _ = None"

fun integer_value_to_i128 :: "sem_value \<Rightarrow> int option" where
  "integer_value_to_i128 (V_I8 x) = Some (sint x)"
| "integer_value_to_i128 (V_I16 x) = Some (sint x)"
| "integer_value_to_i128 (V_I32 x) = Some (sint x)"
| "integer_value_to_i128 (V_I64 x) = Some (sint x)"
| "integer_value_to_i128 (V_U8 x) = Some (uint x)"
| "integer_value_to_i128 (V_U16 x) = Some (uint x)"
| "integer_value_to_i128 (V_U32 x) = Some (uint x)"
| "integer_value_to_i128 (V_U64 x) = Some (uint x)"
| "integer_value_to_i128 _ = None"

section \<open>Reading\<close>

fun exact_int_semantic :: "data_type \<Rightarrow> int \<Rightarrow> sem_value option" where
  "exact_int_semantic DT_I8 v = map_option (\<lambda>x. V_I8 (word_of_int x)) (try_signed 8 v)"
| "exact_int_semantic DT_I16 v = map_option (\<lambda>x. V_I16 (word_of_int x)) (try_signed 16 v)"
| "exact_int_semantic DT_I32 v = map_option (\<lambda>x. V_I32 (word_of_int x)) (try_signed 32 v)"
| "exact_int_semantic DT_I64 v = map_option (\<lambda>x. V_I64 (word_of_int x)) (try_signed 64 v)"
| "exact_int_semantic DT_U8 v = map_option (\<lambda>x. V_U8 (word_of_int x)) (try_unsigned 8 v)"
| "exact_int_semantic DT_U16 v = map_option (\<lambda>x. V_U16 (word_of_int x)) (try_unsigned 16 v)"
| "exact_int_semantic DT_U32 v = map_option (\<lambda>x. V_U32 (word_of_int x)) (try_unsigned 32 v)"
| "exact_int_semantic DT_U64 v = map_option (\<lambda>x. V_U64 (word_of_int x)) (try_unsigned 64 v)"
| "exact_int_semantic _ v = None"

definition checked_to_semantic :: "data_type \<Rightarrow> u64 \<Rightarrow> sem_value option" where
  "checked_to_semantic value_type semantic =
     (if \<not> f64_is_finite semantic then None
      else if is_signed_type value_type then
        Option.bind (f64_to_i64 (f64_round semantic)) (exact_int_semantic value_type)
      else if is_unsigned_type value_type then
        Option.bind (f64_to_u64 (f64_round semantic)) (exact_int_semantic value_type)
      else if value_type = DT_F32 then
        (let narrowed = f64_to_f32 semantic in if f32_is_infinite narrowed then None else Some (V_F32 narrowed))
      else if value_type = DT_F64 then Some (V_F64 semantic)
      else None)"

text \<open>An integer raw type insists on its own family; a float raw type takes every number.\<close>

definition numeric_raw_to_f64 :: "data_type \<Rightarrow> raw_value \<Rightarrow> u64 option" where
  "numeric_raw_to_f64 raw_type raw =
     (case raw of
        RV_I64 v \<Rightarrow> if is_signed_type raw_type \<or> is_float_type raw_type then i64_lossless_to_f64 (sint v) else None
      | RV_U64 v \<Rightarrow> if is_unsigned_type raw_type \<or> is_float_type raw_type then u64_lossless_to_f64 (uint v) else None
      | RV_F64 v \<Rightarrow> if is_float_type raw_type then Some v else None
      | _ \<Rightarrow> None)"

definition identity_scale :: "profile_property \<Rightarrow> bool" where
  "identity_scale p \<longleftrightarrow> f64_eq (pp_scale p) (f64_of_int 1) \<and> f64_eq (pp_offset p) (f64_of_int 0)"

text \<open>The exact path of \<^verbatim>\<open>decode_value\<close>: \<open>None\<close> when it does not apply.\<close>

definition exact_decode :: "profile_property \<Rightarrow> raw_value \<Rightarrow> sem_value option option" where
  "exact_decode p raw =
     (if identity_scale p \<and> is_integer_type (pp_value_type p) then
        (case raw of
           RV_I64 v \<Rightarrow> if is_signed_type (pp_raw_type p) then Some (exact_int_semantic (pp_value_type p) (sint v)) else None
         | RV_U64 v \<Rightarrow> if is_unsigned_type (pp_raw_type p) then Some (exact_int_semantic (pp_value_type p) (uint v)) else None
         | _ \<Rightarrow> None)
      else None)"

definition decode_value :: "profile_property \<Rightarrow> raw_value \<Rightarrow> sem_value option" where
  "decode_value p raw =
     (if pp_raw_type p = DT_Bool \<and> pp_value_type p = DT_Bool then
        (case raw of RV_Bool b \<Rightarrow> Some (V_Bool b) | _ \<Rightarrow> None)
      else if pp_raw_type p = DT_String \<and> pp_value_type p = DT_String then
        (case raw of RV_String s \<Rightarrow> Some (V_String s) | _ \<Rightarrow> None)
      else if pp_raw_type p = DT_Bytes \<and> pp_value_type p = DT_Bytes then
        (case raw of RV_Bytes b \<Rightarrow> Some (V_Bytes b) | _ \<Rightarrow> None)
      else if is_numeric (pp_raw_type p) \<and> is_numeric (pp_value_type p) then
        (case exact_decode p raw of
           Some r \<Rightarrow> r
         | None \<Rightarrow>
             Option.bind (numeric_raw_to_f64 (pp_raw_type p) raw) (\<lambda>raw_num.
               checked_to_semantic (pp_value_type p) (f64_add (f64_mul raw_num (pp_scale p)) (pp_offset p))))
      else None)"

definition bad_result :: "raw_read_result \<Rightarrow> quality_reason \<Rightarrow> decoded_read" where
  "bad_result result reason =
     \<lparr>dr_value = None,
      dr_quality = \<lparr>ql_level = QL_Bad, ql_reason = reason, ql_protocol_code = rr_protocol_quality_code result\<rparr>\<rparr>"

definition decode_read :: "profile_property \<Rightarrow> raw_read_result \<Rightarrow> decoded_read" where
  "decode_read p result =
     (case rr_error result of
        Some e \<Rightarrow>
          \<lparr>dr_value = None,
           dr_quality = \<lparr>ql_level = QL_Bad, ql_reason = QR_ProtocolError,
             ql_protocol_code = (case ei_protocol_code e of Some c \<Rightarrow> Some c | None \<Rightarrow> rr_protocol_quality_code result)\<rparr>\<rparr>
      | None \<Rightarrow>
          (case rr_value result of
             None \<Rightarrow> bad_result result QR_ProtocolError
           | Some raw \<Rightarrow>
               (case decode_value p raw of
                  Some v \<Rightarrow>
                    \<lparr>dr_value = Some v,
                     dr_quality = \<lparr>ql_level = QL_Good, ql_reason = QR_None,
                       ql_protocol_code = rr_protocol_quality_code result\<rparr>\<rparr>
                | None \<Rightarrow> bad_result result QR_ConfigurationError)))"

section \<open>Writing\<close>

datatype conversion_error =
    CE_NotWritable
  | CE_SemanticTypeMismatch data_type
  | CE_MinMaxViolation u64 "u64 option" "u64 option"
  | CE_ScaleInvalid u64 u64
  | CE_NotFinite u64
  | CE_ExactRequired u64
  | CE_Overflow u64 data_type
  | CE_PrecisionLoss int

definition apply_rounding :: "profile_property \<Rightarrow> u64 \<Rightarrow> conversion_error + u64" where
  "apply_rounding p candidate =
     (case pp_write_rounding p of
        WR_Exact \<Rightarrow>
          if \<not> f64_eq (f64_fract candidate) (f64_of_int 0) then Inl (CE_ExactRequired candidate) else Inr candidate
      | WR_Nearest \<Rightarrow> Inr (f64_round candidate)
      | WR_Floor \<Rightarrow> Inr (f64_floor candidate)
      | WR_Ceil \<Rightarrow> Inr (f64_ceil candidate)
      | WR_Truncate \<Rightarrow> Inr (f64_trunc candidate))"

definition checked_signed :: "profile_property \<Rightarrow> u64 \<Rightarrow> int \<Rightarrow> int \<Rightarrow> conversion_error + raw_value" where
  "checked_signed p candidate mn mx =
     res_bind (apply_rounding p candidate) (\<lambda>rounded.
       if \<not> (f64_le (f64_of_int mn) rounded \<and> f64_le rounded (f64_of_int mx))
       then Inl (CE_Overflow rounded (pp_raw_type p))
       else case f64_to_i64 rounded of
              None \<Rightarrow> Inl (CE_Overflow rounded (pp_raw_type p))
            | Some v \<Rightarrow> Inr (RV_I64 (word_of_int v)))"

definition checked_unsigned :: "profile_property \<Rightarrow> u64 \<Rightarrow> int \<Rightarrow> conversion_error + raw_value" where
  "checked_unsigned p candidate mx =
     res_bind (apply_rounding p candidate) (\<lambda>rounded.
       if \<not> (f64_le (f64_of_int 0) rounded \<and> f64_le rounded (f64_of_int mx))
       then Inl (CE_Overflow rounded (pp_raw_type p))
       else case f64_to_u64 rounded of
              None \<Rightarrow> Inl (CE_Overflow rounded (pp_raw_type p))
            | Some v \<Rightarrow> Inr (RV_U64 (word_of_int v)))"

definition checked_float :: "profile_property \<Rightarrow> u64 \<Rightarrow> conversion_error + raw_value" where
  "checked_float p candidate =
     (let narrowed = f64_to_f32 candidate in
      if pp_write_rounding p = WR_Exact \<and> \<not> f64_eq (f32_to_f64 narrowed) candidate
      then Inl (CE_ExactRequired candidate)
      else if f32_is_infinite narrowed then Inl (CE_Overflow candidate (pp_raw_type p))
      else Inr (RV_F64 (f32_to_f64 narrowed)))"

definition i128_gt_f64 :: "int \<Rightarrow> u64 \<Rightarrow> bool" where
  "i128_gt_f64 v bound \<longleftrightarrow>
     \<not> f64_is_nan bound \<and>
     f64_as_i128 (if f64_eq (f64_fract bound) (f64_of_int 0) then bound else f64_floor bound) < v"

definition i128_lt_f64 :: "int \<Rightarrow> u64 \<Rightarrow> bool" where
  "i128_lt_f64 v bound \<longleftrightarrow>
     \<not> f64_is_nan bound \<and>
     v < f64_as_i128 (if f64_eq (f64_fract bound) (f64_of_int 0) then bound else f64_ceil bound)"

text \<open>A bound that is not a number counts as NaN.\<close>

definition below_bound :: "int \<Rightarrow> sem_value \<Rightarrow> bool" where
  "below_bound v b =
     (case integer_value_to_i128 b of
        Some i \<Rightarrow> v < i
      | None \<Rightarrow> i128_lt_f64 v (case numeric_value_to_f64 b of Some f \<Rightarrow> f | None \<Rightarrow> f64_nan))"

definition above_bound :: "int \<Rightarrow> sem_value \<Rightarrow> bool" where
  "above_bound v b =
     (case integer_value_to_i128 b of
        Some i \<Rightarrow> i < v
      | None \<Rightarrow> i128_gt_f64 v (case numeric_value_to_f64 b of Some f \<Rightarrow> f | None \<Rightarrow> f64_nan))"

definition check_exact_bounds :: "profile_property \<Rightarrow> int \<Rightarrow> conversion_error + unit" where
  "check_exact_bounds p v =
     (let violation =
        Inl (CE_MinMaxViolation (f64_of_int v)
          (Option.bind (pp_min p) numeric_value_to_f64) (Option.bind (pp_max p) numeric_value_to_f64)) in
      if (case pp_min p of None \<Rightarrow> False | Some b \<Rightarrow> below_bound v b) then violation
      else if (case pp_max p of None \<Rightarrow> False | Some b \<Rightarrow> above_bound v b) then violation
      else Inr ())"

definition lossy :: "profile_property \<Rightarrow> u64 \<Rightarrow> int \<Rightarrow> conversion_error" where
  "lossy p f v = (if pp_write_rounding p = WR_Exact then CE_ExactRequired f else CE_PrecisionLoss v)"

definition overflow_or :: "profile_property \<Rightarrow> int \<Rightarrow> (int \<Rightarrow> raw_value) \<Rightarrow> int option \<Rightarrow> conversion_error + raw_value" where
  "overflow_or p v mk r =
     (case r of Some x \<Rightarrow> Inr (mk x) | None \<Rightarrow> Inl (CE_Overflow (f64_of_int v) (pp_raw_type p)))"

definition encode_exact_int :: "profile_property \<Rightarrow> int \<Rightarrow> conversion_error + raw_value" where
  "encode_exact_int p v =
     res_bind (check_exact_bounds p v) (\<lambda>_.
       let signed = overflow_or p v (\<lambda>x. RV_I64 (word_of_int x));
           unsigned = overflow_or p v (\<lambda>x. RV_U64 (word_of_int x))
       in case pp_raw_type p of
            DT_I8 \<Rightarrow> signed (try_signed 8 v)
          | DT_I16 \<Rightarrow> signed (try_signed 16 v)
          | DT_I32 \<Rightarrow> signed (try_signed 32 v)
          | DT_I64 \<Rightarrow> signed (try_signed 64 v)
          | DT_U8 \<Rightarrow> unsigned (try_unsigned 8 v)
          | DT_U16 \<Rightarrow> unsigned (try_unsigned 16 v)
          | DT_U32 \<Rightarrow> unsigned (try_unsigned 32 v)
          | DT_U64 \<Rightarrow> unsigned (try_unsigned 64 v)
          | DT_F32 \<Rightarrow>
              (let f = f32_to_f64 (f64_to_f32 (f64_of_int v)) in
               if f64_as_i128 f \<noteq> v then Inl (lossy p f v) else Inr (RV_F64 f))
          | DT_F64 \<Rightarrow>
              (let f = f64_of_int v in
               if f64_as_i128 f \<noteq> v then Inl (lossy p f v) else Inr (RV_F64 f))
          | _ \<Rightarrow> Inl (CE_SemanticTypeMismatch (pp_value_type p)))"

text \<open>Steps 2 to 8 of \<^verbatim>\<open>encode_write\<close>: the semantic value as a float, its bounds, the inverse scale, the raw type.\<close>

definition semantic_to_f64 :: "profile_property \<Rightarrow> sem_value \<Rightarrow> conversion_error + u64" where
  "semantic_to_f64 p v =
     (case v of
        V_I64 x \<Rightarrow> (case i64_lossless_to_f64 (sint x) of Some f \<Rightarrow> Inr f | None \<Rightarrow> Inl (CE_PrecisionLoss (sint x)))
      | V_U64 x \<Rightarrow> (case u64_lossless_to_f64 (uint x) of Some f \<Rightarrow> Inr f | None \<Rightarrow> Inl (CE_PrecisionLoss (uint x)))
      | _ \<Rightarrow> (case numeric_value_to_f64 v of Some f \<Rightarrow> Inr f | None \<Rightarrow> Inl (CE_SemanticTypeMismatch (pp_value_type p))))"

definition check_min_max :: "profile_property \<Rightarrow> u64 \<Rightarrow> conversion_error + unit" where
  "check_min_max p v =
     (let mn = Option.bind (pp_min p) numeric_value_to_f64; mx = Option.bind (pp_max p) numeric_value_to_f64 in
      if (case mn of None \<Rightarrow> False | Some b \<Rightarrow> f64_lt v b) then Inl (CE_MinMaxViolation v mn mx)
      else if (case mx of None \<Rightarrow> False | Some b \<Rightarrow> f64_lt b v) then Inl (CE_MinMaxViolation v mn mx)
      else Inr ())"

definition encode_candidate :: "profile_property \<Rightarrow> u64 \<Rightarrow> conversion_error + raw_value" where
  "encode_candidate p candidate =
     (case pp_raw_type p of
        DT_I8 \<Rightarrow> checked_signed p candidate (- 128) 127
      | DT_I16 \<Rightarrow> checked_signed p candidate (- 32768) 32767
      | DT_I32 \<Rightarrow> checked_signed p candidate (- (2 ^ 31)) (2 ^ 31 - 1)
      | DT_I64 \<Rightarrow> checked_signed p candidate (- (2 ^ 63)) (2 ^ 63 - 1)
      | DT_U8 \<Rightarrow> checked_unsigned p candidate 255
      | DT_U16 \<Rightarrow> checked_unsigned p candidate 65535
      | DT_U32 \<Rightarrow> checked_unsigned p candidate (2 ^ 32 - 1)
      | DT_U64 \<Rightarrow> checked_unsigned p candidate (2 ^ 64 - 1)
      | DT_F32 \<Rightarrow> checked_float p candidate
      | DT_F64 \<Rightarrow> Inr (RV_F64 candidate)
      | _ \<Rightarrow> Inl (CE_SemanticTypeMismatch (pp_value_type p)))"

definition encode_scaled :: "profile_property \<Rightarrow> sem_value \<Rightarrow> conversion_error + raw_value" where
  "encode_scaled p v =
     res_bind (semantic_to_f64 p v) (\<lambda>f.
     if \<not> f64_is_finite f then Inl (CE_NotFinite f)
     else res_bind (check_min_max p f) (\<lambda>_.
       if f64_eq (pp_scale p) (f64_of_int 0) \<or> \<not> f64_is_finite (pp_scale p) \<or> \<not> f64_is_finite (pp_offset p)
       then Inl (CE_ScaleInvalid (pp_scale p) (pp_offset p))
       else let candidate = f64_div (f64_sub f (pp_offset p)) (pp_scale p) in
         if \<not> f64_is_finite candidate then Inl (CE_NotFinite candidate) else encode_candidate p candidate))"

definition encode_write :: "profile_property \<Rightarrow> sem_value \<Rightarrow> conversion_error + raw_value" where
  "encode_write p v =
     (if \<not> pp_writable p then Inl CE_NotWritable
      else case (pp_value_type p, v) of
        (DT_Bool, V_Bool b) \<Rightarrow> Inr (RV_Bool b)
      | (DT_String, V_String s) \<Rightarrow> Inr (RV_String s)
      | (DT_Bytes, V_Bytes b) \<Rightarrow> Inr (RV_Bytes b)
      | (DT_Bool, _) \<Rightarrow> Inl (CE_SemanticTypeMismatch DT_Bool)
      | (DT_String, _) \<Rightarrow> Inl (CE_SemanticTypeMismatch DT_String)
      | (DT_Bytes, _) \<Rightarrow> Inl (CE_SemanticTypeMismatch DT_Bytes)
      | _ \<Rightarrow>
          (case v of
             V_I64 x \<Rightarrow> if identity_scale p then encode_exact_int p (sint x) else encode_scaled p v
           | V_U64 x \<Rightarrow> if identity_scale p then encode_exact_int p (uint x) else encode_scaled p v
           | _ \<Rightarrow> encode_scaled p v))"


section \<open>Casts are exact\<close>

lemma f64_of_int_power:
  "f64_num (f64_of_int (2 ^ n)) = 2 ^ n * int one_units" "f64_is_finite (f64_of_int (2 ^ n))"
  "f64_num (f64_of_int (- (2 ^ n))) = - (2 ^ n) * int one_units" "f64_is_finite (f64_of_int (- (2 ^ n)))"
  if "n < 1024"
proof -
  have lt: "(2::nat) ^ n < 2 ^ 1024" using that by (rule power_strict_increasing) simp
  have e: "nat \<bar>2 ^ n :: int\<bar> = 1 * 2 ^ n" "nat \<bar>- (2 ^ n) :: int\<bar> = 1 * 2 ^ n" by (simp_all add: nat_power_eq)
  have small: "nat \<bar>2 ^ n :: int\<bar> < 2 ^ 1024" "nat \<bar>- (2 ^ n) :: int\<bar> < 2 ^ 1024" unfolding e mult_1 by (rule lt)+
  have one: "(1::nat) \<le> 2 ^ 53" by simp
  show "f64_num (f64_of_int (2 ^ n)) = 2 ^ n * int one_units" "f64_is_finite (f64_of_int (2 ^ n))"
    by (rule f64_of_int_exact[OF e(1) one small(1)])+
  show "f64_num (f64_of_int (- (2 ^ n))) = - (2 ^ n) * int one_units" "f64_is_finite (f64_of_int (- (2 ^ n)))"
    by (rule f64_of_int_exact[OF e(2) one small(2)])+
qed

lemma f64_to_i64_Some:
  assumes "f64_to_i64 v = Some n"
  shows "n = trunc_int v" "f64_is_finite v" "- (2 ^ 63) \<le> n" "n < 2 ^ 63"
proof -
  have c: "f64_le (f64_of_int (- (2 ^ 63))) v" "f64_lt v (f64_of_int (2 ^ 63))" and n: "n = trunc_int v"
    using assms by (simp_all only: f64_to_i64_def split: if_splits) simp_all
  show "n = trunc_int v" by (rule n)
  show fin: "f64_is_finite v"
    using f64_between_finite[OF c(1) f64_lt_le[OF c(2)]] f64_of_int_power(2,4)[of 63] by simp
  have "- (2 ^ 63) * int one_units \<le> f64_num v" "f64_num v < 2 ^ 63 * int one_units"
    using c f64_le_iff[OF f64_of_int_power(4) fin, of 63] f64_lt_iff[OF fin f64_of_int_power(2), of 63]
      f64_of_int_power(1,3)[of 63] by simp_all
  from trunc_int_bounds[OF this] show "- (2 ^ 63) \<le> n" "n < 2 ^ 63" unfolding n by auto
qed

lemma f64_to_u64_Some:
  assumes "f64_to_u64 v = Some n"
  shows "n = trunc_int v" "f64_is_finite v" "0 \<le> n" "n < 2 ^ 64"
proof -
  have c: "f64_le (f64_of_int 0) v" "f64_lt v (f64_of_int (2 ^ 64))" and n: "n = trunc_int v"
    using assms by (simp_all only: f64_to_u64_def split: if_splits) simp_all
  show "n = trunc_int v" by (rule n)
  show fin: "f64_is_finite v"
    using f64_between_finite[OF c(1) f64_lt_le[OF c(2)]] f64_of_int_power(2)[of 64] f64_of_int_small(2)[of 0] by simp
  have "- 0 * int one_units \<le> f64_num v" "f64_num v < 2 ^ 64 * int one_units"
    using c f64_le_iff[OF f64_of_int_small(2) fin, of 0] f64_lt_iff[OF fin f64_of_int_power(2), of 64]
      f64_of_int_power(1)[of 64] f64_of_int_small(1)[of 0] by simp_all
  from trunc_int_bounds[OF this] show "0 \<le> n" "n < 2 ^ 64" unfolding n by auto
qed

text \<open>What an accepted rounding returns.\<close>

definition declared_rounding :: "write_rounding \<Rightarrow> u64 \<Rightarrow> int \<Rightarrow> bool" where
  "declared_rounding wr c r \<longleftrightarrow>
     (case wr of
        WR_Exact \<Rightarrow> f64_num c = r * int one_units
      | WR_Nearest \<Rightarrow> r = round_int c
      | WR_Floor \<Rightarrow> r = floor_int c
      | WR_Ceil \<Rightarrow> r = ceil_int c
      | WR_Truncate \<Rightarrow> r = trunc_int c)"

lemma apply_rounding_Inr:
  assumes "apply_rounding p c = Inr rounded" and "f64_is_finite c"
  shows "f64_is_finite rounded \<and> f64_num rounded = trunc_int rounded * int one_units \<and>
    declared_rounding (pp_write_rounding p) c (trunc_int rounded)"
proof -
  have whole: "f64_is_finite rounded \<and> f64_num rounded = trunc_int rounded * int one_units \<and> trunc_int rounded = r"
    if "f64_num rounded = r * int one_units" "f64_is_finite rounded" for r
    using that trunc_int_integral[OF that(1)] by simp
  show ?thesis
  proof (cases "pp_write_rounding p")
    case WR_Exact
    then have "rounded = c" "f64_num c = trunc_int c * int one_units"
      using assms by (simp_all add: apply_rounding_def f64_fract_zero_iff split: if_splits)
    then show ?thesis using assms(2) WR_Exact by (simp add: declared_rounding_def)
  next
    case WR_Nearest
    then show ?thesis
      using assms whole[of "round_int c"] f64_rounding_nums(1,2)[OF assms(2)] by (simp add: apply_rounding_def declared_rounding_def)
  next
    case WR_Floor
    then show ?thesis
      using assms whole[of "floor_int c"] f64_rounding_nums(3,4)[OF assms(2)] by (simp add: apply_rounding_def declared_rounding_def)
  next
    case WR_Ceil
    then show ?thesis
      using assms whole[of "ceil_int c"] f64_rounding_nums(5,6)[OF assms(2)] by (simp add: apply_rounding_def declared_rounding_def)
  next
    case WR_Truncate
    then show ?thesis
      using assms whole[of "trunc_int c"] f64_rounding_nums(7,8)[OF assms(2)] by (simp add: apply_rounding_def declared_rounding_def)
  qed
qed

text \<open>An integer bound of at most 53 bits is compared exactly.\<close>

lemma f64_le_of_int:
  assumes "\<bar>b\<bar> \<le> 2 ^ 53" "f64_is_finite v" "f64_num v = r * int one_units"
  shows "f64_le (f64_of_int b) v \<longleftrightarrow> b \<le> r" "f64_le v (f64_of_int b) \<longleftrightarrow> r \<le> b"
  using assms f64_of_int_small[OF assms(1)] by (simp_all add: f64_le_iff)

lemma checked_signed_Inr:
  assumes "checked_signed p c mn mx = Inr raw" and "f64_is_finite c"
  shows "\<exists>r. raw = RV_I64 (word_of_int r) \<and> - (2 ^ 63) \<le> r \<and> r < 2 ^ 63 \<and> declared_rounding (pp_write_rounding p) c r \<and>
    (\<bar>mn\<bar> \<le> 2 ^ 53 \<longrightarrow> mn \<le> r) \<and> (\<bar>mx\<bar> \<le> 2 ^ 53 \<longrightarrow> r \<le> mx)"
proof -
  obtain rounded v where r: "apply_rounding p c = Inr rounded"
      "f64_le (f64_of_int mn) rounded" "f64_le rounded (f64_of_int mx)" "f64_to_i64 rounded = Some v" "raw = RV_I64 (word_of_int v)"
    using assms(1) by (auto simp: checked_signed_def res_bind_eq_Inr split: if_splits option.splits)
  note a = apply_rounding_Inr[OF r(1) assms(2)] and t = f64_to_i64_Some[OF r(4)]
  show ?thesis
    using a t r(2,3,5) f64_le_of_int[of _ rounded "trunc_int rounded"] by (intro exI[of _ v]) auto
qed

lemma checked_unsigned_Inr:
  assumes "checked_unsigned p c mx = Inr raw" and "f64_is_finite c"
  shows "\<exists>r. raw = RV_U64 (word_of_int r) \<and> 0 \<le> r \<and> r < 2 ^ 64 \<and> declared_rounding (pp_write_rounding p) c r \<and>
    (\<bar>mx\<bar> \<le> 2 ^ 53 \<longrightarrow> r \<le> mx)"
proof -
  obtain rounded v where r: "apply_rounding p c = Inr rounded"
      "f64_le rounded (f64_of_int mx)" "f64_to_u64 rounded = Some v" "raw = RV_U64 (word_of_int v)"
    using assms(1) by (auto simp: checked_unsigned_def res_bind_eq_Inr split: if_splits option.splits)
  note a = apply_rounding_Inr[OF r(1) assms(2)] and t = f64_to_u64_Some[OF r(3)]
  show ?thesis
    using a t r(2,4) f64_le_of_int[of _ rounded "trunc_int rounded"] by (intro exI[of _ v]) auto
qed


section \<open>Writing\<close>

definition type_ints :: "data_type \<Rightarrow> int set" where
  "type_ints t =
     (case t of
        DT_I8 \<Rightarrow> {- 128..127} | DT_I16 \<Rightarrow> {- 32768..32767}
      | DT_I32 \<Rightarrow> {- (2 ^ 31)..2 ^ 31 - 1} | DT_I64 \<Rightarrow> {- (2 ^ 63)..2 ^ 63 - 1}
      | DT_U8 \<Rightarrow> {0..255} | DT_U16 \<Rightarrow> {0..65535} | DT_U32 \<Rightarrow> {0..2 ^ 32 - 1} | DT_U64 \<Rightarrow> {0..2 ^ 64 - 1}
      | _ \<Rightarrow> {})"

definition raw_of_int :: "data_type \<Rightarrow> int \<Rightarrow> raw_value" where
  "raw_of_int t r = (if is_signed_type t then RV_I64 (word_of_int r) else RV_U64 (word_of_int r))"

lemma integer_type_cases:
  assumes "is_integer_type t"
  obtains "t = DT_I8" | "t = DT_I16" | "t = DT_I32" | "t = DT_I64" | "t = DT_U8" | "t = DT_U16" | "t = DT_U32" | "t = DT_U64"
  using assms by (auto simp: is_integer_type_def is_signed_type_def is_unsigned_type_def)

lemma encode_candidate_int:
  assumes "encode_candidate p c = Inr raw" "f64_is_finite c" "is_integer_type (pp_raw_type p)"
  shows "\<exists>r\<in>type_ints (pp_raw_type p). raw = raw_of_int (pp_raw_type p) r \<and> declared_rounding (pp_write_rounding p) c r"
  using assms(3)
proof (cases rule: integer_type_cases)
  case 1
  with assms(1) checked_signed_Inr[of p c "- 128" 127 raw] assms(2) show ?thesis
    by (auto simp: encode_candidate_def type_ints_def raw_of_int_def is_signed_type_def)
next
  case 2
  with assms(1) checked_signed_Inr[of p c "- 32768" 32767 raw] assms(2) show ?thesis
    by (auto simp: encode_candidate_def type_ints_def raw_of_int_def is_signed_type_def)
next
  case 3
  with assms(1) checked_signed_Inr[of p c "- (2 ^ 31)" "2 ^ 31 - 1" raw] assms(2) show ?thesis
    by (auto simp: encode_candidate_def type_ints_def raw_of_int_def is_signed_type_def)
next
  case 4
  with assms(1) checked_signed_Inr[of p c "- (2 ^ 63)" "2 ^ 63 - 1" raw] assms(2) show ?thesis
    by (auto simp: encode_candidate_def type_ints_def raw_of_int_def is_signed_type_def)
next
  case 5
  with assms(1) checked_unsigned_Inr[of p c 255 raw] assms(2) show ?thesis
    by (auto simp: encode_candidate_def type_ints_def raw_of_int_def is_signed_type_def)
next
  case 6
  with assms(1) checked_unsigned_Inr[of p c 65535 raw] assms(2) show ?thesis
    by (auto simp: encode_candidate_def type_ints_def raw_of_int_def is_signed_type_def)
next
  case 7
  with assms(1) checked_unsigned_Inr[of p c "2 ^ 32 - 1" raw] assms(2) show ?thesis
    by (auto simp: encode_candidate_def type_ints_def raw_of_int_def is_signed_type_def)
next
  case 8
  with assms(1) checked_unsigned_Inr[of p c "2 ^ 64 - 1" raw] assms(2) show ?thesis
    by (auto simp: encode_candidate_def type_ints_def raw_of_int_def is_signed_type_def)
qed

lemma overflow_or_Inr:
  "overflow_or p v mk (try_signed n v) = Inr raw \<longleftrightarrow> - (2 ^ (n - 1)) \<le> v \<and> v < 2 ^ (n - 1) \<and> raw = mk v"
  "overflow_or p v mk (try_unsigned n v) = Inr raw \<longleftrightarrow> 0 \<le> v \<and> v < 2 ^ n \<and> raw = mk v"
  by (auto simp: overflow_or_def try_signed_def try_unsigned_def)

lemma encode_exact_int_Inr:
  assumes "encode_exact_int p v = Inr raw" "is_integer_type (pp_raw_type p)"
  shows "v \<in> type_ints (pp_raw_type p)" "raw = raw_of_int (pp_raw_type p) v" "check_exact_bounds p v = Inr ()"
proof -
  have "v \<in> type_ints (pp_raw_type p) \<and> raw = raw_of_int (pp_raw_type p) v \<and> check_exact_bounds p v = Inr ()"
    using assms(2)
    by (cases rule: integer_type_cases)
      (use assms(1) in \<open>auto simp: encode_exact_int_def res_bind_eq_Inr type_ints_def raw_of_int_def is_signed_type_def Let_def
        overflow_or_Inr\<close>)
  then show "v \<in> type_ints (pp_raw_type p)" "raw = raw_of_int (pp_raw_type p) v" "check_exact_bounds p v = Inr ()"
    by simp_all
qed

text \<open>The integer of a 64-bit semantic value, the only ones that take the exact path.\<close>

fun wide_int :: "sem_value \<Rightarrow> int option" where
  "wide_int (V_I64 x) = Some (sint x)"
| "wide_int (V_U64 x) = Some (uint x)"
| "wide_int _ = None"

definition scaled_value_type :: "data_type \<Rightarrow> bool" where
  "scaled_value_type t \<longleftrightarrow> t \<notin> {DT_Bool, DT_String, DT_Bytes}"

lemma encode_write_cases:
  assumes "scaled_value_type (pp_value_type p)" "pp_writable p"
  shows "encode_write p v =
    (case wide_int v of
       Some n \<Rightarrow> if identity_scale p then encode_exact_int p n else encode_scaled p v
     | None \<Rightarrow> encode_scaled p v)"
  using assms by (cases "pp_value_type p"; cases v) (simp_all add: encode_write_def scaled_value_type_def)

lemma encode_write_writable: "encode_write p v = Inr raw \<Longrightarrow> pp_writable p"
  by (cases "pp_writable p") (simp_all add: encode_write_def)

lemma encode_scaled_Inr:
  assumes "encode_scaled p v = Inr raw"
  obtains f c where "semantic_to_f64 p v = Inr f" "f64_is_finite f" "check_min_max p f = Inr ()"
    "c = f64_div (f64_sub f (pp_offset p)) (pp_scale p)" "f64_is_finite c" "encode_candidate p c = Inr raw"
  using assms by (auto simp: encode_scaled_def res_bind_eq_Inr Let_def split: if_splits)

section \<open>Properties\<close>

text \<open>C27: A write that is accepted for an integer raw type carries an integer of that type, for every scale: nothing
  wraps or saturates. On the exact path (identity scale, 64-bit value) it is the value itself; on the scaled path it is the
  candidate \<^verbatim>\<open>(value - offset) / scale\<close> rounded in the way the profile declares, and under \<^verbatim>\<open>Exact\<close> the candidate itself.\<close>
theorem accepted_write_is_declared_rounding:
  assumes "encode_write p v = Inr raw" and "is_integer_type (pp_raw_type p)" and "scaled_value_type (pp_value_type p)"
  shows "\<exists>r\<in>type_ints (pp_raw_type p). raw = raw_of_int (pp_raw_type p) r \<and>
    (identity_scale p \<and> wide_int v = Some r \<or>
     (\<exists>f. semantic_to_f64 p v = Inr f \<and>
        declared_rounding (pp_write_rounding p) (f64_div (f64_sub f (pp_offset p)) (pp_scale p)) r))"
proof (cases "\<exists>n. wide_int v = Some n \<and> identity_scale p")
  case True
  then obtain n where n: "wide_int v = Some n" "identity_scale p" by blast
  then have "encode_exact_int p n = Inr raw"
    using assms(1) encode_write_cases[OF assms(3) encode_write_writable[OF assms(1)], of v] by simp
  then show ?thesis using encode_exact_int_Inr[OF _ assms(2)] n by blast
next
  case False
  then have "encode_scaled p v = Inr raw"
    using assms(1) encode_write_cases[OF assms(3) encode_write_writable[OF assms(1)], of v] by (auto split: option.splits)
  then obtain f c where f: "semantic_to_f64 p v = Inr f" "c = f64_div (f64_sub f (pp_offset p)) (pp_scale p)"
      "f64_is_finite c" "encode_candidate p c = Inr raw"
    by (rule encode_scaled_Inr)
  then show ?thesis using encode_candidate_int[OF f(4,3) assms(2)] by blast
qed

definition example_property :: "data_type \<Rightarrow> data_type \<Rightarrow> profile_property" where
  "example_property raw value =
     \<lparr>pp_path = ''drive.speed'', pp_driver_address = ''1!40001'', pp_raw_type = raw, pp_value_type = value, pp_unit = None,
      pp_scale = f64_of_int 1, pp_offset = f64_of_int 0, pp_write_rounding = WR_Exact, pp_readable = True,
      pp_writable = True, pp_default_interval_ms = None, pp_min = None, pp_max = Some (V_U64 (2 ^ 60))\<rparr>"

lemma example_identity: "identity_scale (example_property raw value)"
  using f64_of_int_small(2)[of 0] f64_of_int_small(2)[of 1]
  by (simp add: identity_scale_def example_property_def f64_eq_def)

lemma example_encode:
  "encode_write (example_property DT_U64 DT_U64) (V_U64 9007199254740993) = Inr (RV_U64 9007199254740993)"
proof -
  have "encode_write (example_property DT_U64 DT_U64) (V_U64 9007199254740993) =
    encode_exact_int (example_property DT_U64 DT_U64) 9007199254740993"
    by (subst encode_write_cases) (simp_all add: example_identity, simp_all add: example_property_def scaled_value_type_def)
  also have "\<dots> = Inr (RV_U64 9007199254740993)"
    by (simp add: example_property_def encode_exact_int_def check_exact_bounds_def above_bound_def overflow_or_def
      try_unsigned_def)
  finally show ?thesis .
qed

theorem accepted_write_is_declared_rounding_witness:
  "\<exists>r\<in>type_ints DT_U64. raw_of_int DT_U64 r = RV_U64 9007199254740993"
  using accepted_write_is_declared_rounding[OF example_encode]
  by (auto simp: example_property_def is_integer_type_def is_unsigned_type_def scaled_value_type_def)

lemma sint_of_int64: "- (2 ^ 63) \<le> n \<Longrightarrow> n < 2 ^ 63 \<Longrightarrow> sint (word_of_int n :: 64 word) = n"
  by (simp add: signed_of_int signed_take_bit_int_eq_self)

lemma uint_of_int64: "0 \<le> n \<Longrightarrow> n < 2 ^ 64 \<Longrightarrow> uint (word_of_int n :: 64 word) = n"
  by (simp add: unsigned_of_int take_bit_int_eq_self)

text \<open>The type of a scalar value.\<close>

fun sem_type :: "sem_value \<Rightarrow> data_type option" where
  "sem_type (V_Bool _) = Some DT_Bool"
| "sem_type (V_I8 _) = Some DT_I8" | "sem_type (V_I16 _) = Some DT_I16"
| "sem_type (V_I32 _) = Some DT_I32" | "sem_type (V_I64 _) = Some DT_I64"
| "sem_type (V_U8 _) = Some DT_U8" | "sem_type (V_U16 _) = Some DT_U16"
| "sem_type (V_U32 _) = Some DT_U32" | "sem_type (V_U64 _) = Some DT_U64"
| "sem_type (V_F32 _) = Some DT_F32" | "sem_type (V_F64 _) = Some DT_F64"
| "sem_type (V_String _) = Some DT_String" | "sem_type (V_Bytes _) = Some DT_Bytes"
| "sem_type (V_Array _) = None" | "sem_type (V_Struct _) = None"

lemma word_of_int_exact:
  "- (2 ^ (LENGTH('a) - 1)) \<le> n \<Longrightarrow> n < 2 ^ (LENGTH('a) - 1) \<Longrightarrow> sint (word_of_int n :: 'a::len word) = n"
  "0 \<le> n \<Longrightarrow> n < 2 ^ LENGTH('a) \<Longrightarrow> uint (word_of_int n :: 'a::len word) = n"
  by (simp_all add: sint_sbintrunc' signed_take_bit_int_eq_self unsigned_of_int take_bit_int_eq_self)

text \<open>Reading an integer at an integer type gives this integer at that type, or nothing when the type does not have it.\<close>

lemma exact_int_semantic_value:
  assumes "is_integer_type t"
  shows "if n \<in> type_ints t then \<exists>w. exact_int_semantic t n = Some w \<and> sem_type w = Some t \<and> integer_value_to_i128 w = Some n
    else exact_int_semantic t n = None"
  using assms by (cases rule: integer_type_cases)
    (auto simp: type_ints_def try_signed_def try_unsigned_def word_of_int_exact)



text \<open>Narrowing a finite float never makes a NaN: the magnitude stops at infinity.\<close>

lemma f32_make_not_nan:
  assumes "s < 2" "mag \<le> 255 * 2 ^ 23"
  shows "\<not> f32_is_nan (f32_make s mag)"
proof -
  have lt: "s * 2 ^ 31 + mag < 2 ^ 32" using assms by simp
  have u: "unat (f32_make s mag) = s * 2 ^ 31 + mag"
    unfolding f32_make_def using lt by (subst unat_word_of_nat) simp_all
  have split: "s * 2 ^ 31 + mag = mag + s * 256 * 2 ^ 23" by simp
  have "mag div 2 ^ 23 < 256" using assms(2) by (intro less_mult_imp_div_less) simp
  then have "f32_exp (f32_make s mag) = mag div 2 ^ 23"
    unfolding f32_exp_def u split by (subst div_mult_self1) simp_all
  moreover have "f32_man (f32_make s mag) = mag mod 2 ^ 23"
    unfolding f32_man_def u split by (rule mod_mult_self1)
  moreover have "mag mod 2 ^ 23 = 0" if "mag div 2 ^ 23 = 255"
    using that assms(2) div_mult_mod_eq[of mag "2 ^ 23"] by simp
  ultimately show ?thesis by (simp add: f32_is_nan_def)
qed

lemma f64_to_f32_not_nan: "f64_is_finite w \<Longrightarrow> \<not> f32_is_nan (f64_to_f32 w)"
proof -
  assume fin: "f64_is_finite w"
  let ?e = "f64_exp w" and ?m = "f64_man w"
  note bounds = f64_fields(2-4)[of w]
  have sub: "rne (2 ^ 52 + ?m) (926 - ?e) \<le> 255 * 2 ^ 23" if "?e < 897"
  proof -
    have "(2::nat) ^ 30 \<le> 2 ^ (926 - ?e)"
      using that by (intro power_increasing) simp_all
    then have "(2 ^ 52 + ?m) div 2 ^ (926 - ?e) \<le> (2 ^ 52 + ?m) div 2 ^ 30"
      by (intro div_le_mono2) simp_all
    also have "(2 ^ 52 + ?m) div 2 ^ 30 < 2 ^ 23"
      using bounds(3) by (intro less_mult_imp_div_less) simp
    finally show ?thesis
      using rne_le[of "2 ^ 52 + ?m" "926 - ?e"] by simp
  qed
  have "f32_make_arg \<le> 255 * 2 ^ 23 \<Longrightarrow> \<not> f32_is_nan (f32_make (f64_sign w) f32_make_arg)" for f32_make_arg
    using bounds(1) by (rule f32_make_not_nan)
  then show "\<not> f32_is_nan (f64_to_f32 w)"
    using fin sub by (simp add: f64_to_f32_def f64_is_finite_def Let_def)
qed

text \<open>The type a semantic value has; arrays and structures are not typed by a profile.\<close>

fun finite_value :: "sem_value \<Rightarrow> bool" where
  "finite_value (V_F32 w) \<longleftrightarrow> f32_exp w \<noteq> 255"
| "finite_value (V_F64 w) \<longleftrightarrow> f64_is_finite w"
| "finite_value _ \<longleftrightarrow> True"

lemma exact_int_semantic_typed: "exact_int_semantic t n = Some v \<Longrightarrow> sem_type v = Some t \<and> finite_value v"
  by (cases t) auto

lemma checked_to_semantic_typed:
  assumes "checked_to_semantic t w = Some v"
  shows "sem_type v = Some t \<and> finite_value v"
proof -
  have "f64_is_finite w" using assms by (auto simp: checked_to_semantic_def split: if_splits)
  then have "\<not> f32_is_nan (f64_to_f32 w)" by (rule f64_to_f32_not_nan)
  then show ?thesis
    using assms
    by (auto simp: checked_to_semantic_def exact_int_semantic_typed f32_is_nan_def f32_is_infinite_def Let_def bind_eq_Some_conv
      split: if_splits)
qed

lemma decode_value_typed:
  assumes "decode_value p raw = Some v"
  shows "sem_type v = Some (pp_value_type p) \<and> finite_value v"
proof (cases "is_numeric (pp_raw_type p) \<and> is_numeric (pp_value_type p)")
  case True
  then have nt: "pp_raw_type p \<notin> {DT_Bool, DT_String, DT_Bytes}"
    by (auto simp: is_numeric_def is_integer_type_def is_signed_type_def is_unsigned_type_def is_float_type_def)
  show ?thesis
  proof (cases "exact_decode p raw")
    case None
    with True nt assms show ?thesis
      by (auto simp: decode_value_def bind_eq_Some_conv checked_to_semantic_typed)
  next
    case (Some r)
    with True nt assms have "r = Some v" by (auto simp: decode_value_def)
    with Some show ?thesis
      by (auto simp: exact_decode_def exact_int_semantic_typed split: if_splits raw_value.splits)
  qed
next
  case False
  with assms show ?thesis
    by (auto simp: decode_value_def split: if_splits raw_value.splits)
qed

text \<open>C29: A decoded read never disguises a failure. When it carries a value, the driver reported no error and one raw
  value, the value has the declared semantic type, is finite, and the quality is Good without a reason; otherwise the
  quality is Bad with a reason. No decoded read is Uncertain.\<close>
theorem decoded_read_is_typed:
  "case dr_value (decode_read p result) of
     Some v \<Rightarrow>
       rr_error result = None \<and> (\<exists>raw. rr_value result = Some raw \<and> decode_value p raw = Some v) \<and>
       sem_type v = Some (pp_value_type p) \<and> finite_value v \<and>
       ql_level (dr_quality (decode_read p result)) = QL_Good \<and> ql_reason (dr_quality (decode_read p result)) = QR_None
   | None \<Rightarrow>
       ql_level (dr_quality (decode_read p result)) = QL_Bad \<and> ql_reason (dr_quality (decode_read p result)) \<noteq> QR_None"
  using decode_value_typed[of p]
  by (auto simp: decode_read_def bad_result_def split: option.splits)

text \<open>The step \<^verbatim>\<open>value type must match\<close> of the write conversion is not made for numbers: a profile whose semantic
  type is \<^verbatim>\<open>u8\<close> over a \<^verbatim>\<open>u16\<close> register accepts 300, and the register it then holds cannot be decoded any more.\<close>
theorem accepted_write_may_be_unreadable:
  "encode_write (example_property DT_U16 DT_U8) (V_U64 300) = Inr (RV_U64 300) \<and>
   decode_value (example_property DT_U16 DT_U8) (RV_U64 300) = None"
proof
  have "encode_write (example_property DT_U16 DT_U8) (V_U64 300) = encode_exact_int (example_property DT_U16 DT_U8) 300"
    by (subst encode_write_cases) (simp_all add: example_identity, simp_all add: example_property_def scaled_value_type_def)
  also have "\<dots> = Inr (RV_U64 300)"
    by (simp add: example_property_def encode_exact_int_def check_exact_bounds_def above_bound_def overflow_or_def
      try_unsigned_def)
  finally show "encode_write (example_property DT_U16 DT_U8) (V_U64 300) = Inr (RV_U64 300)" .
  have "exact_decode (example_property DT_U16 DT_U8) (RV_U64 300) = Some None"
    unfolding exact_decode_def using example_identity
    by (simp add: example_property_def is_integer_type_def is_unsigned_type_def try_unsigned_def)
  then show "decode_value (example_property DT_U16 DT_U8) (RV_U64 300) = None"
    unfolding decode_value_def by (simp add: example_property_def)
qed

end
