(* ===== verification/Control_Validate.thy ===== *)
theory Control_Validate
  imports Control_Operation Profile_Convert "HOL-Library.AList"
begin

text \<open>
  \<^verbatim>\<open>crates/control-engine/src/validate.rs\<close>: what a request must satisfy before it may enter the queue of its device, and
  the operation it becomes. A property write is checked and converted item by item through the profile
  (\<^verbatim>\<open>encode_write\<close>), a command against its parameter descriptors. The text of an error is dropped, its code and its
  data are kept. The members of a JSON object are an association list whose order does not matter.
\<close>

section \<open>Errors\<close>

datatype validation_error =
    VE_PropertyNotFound property_path
  | VE_PropertyNotWritable property_path
  | VE_ValueTypeMismatch property_path data_type
  | VE_ValueOutOfRange property_path u64 "u64 option" "u64 option"
  | VE_ValueNotRepresentable property_path
  | VE_CommandNotFound string
  | VE_MissingParameter string string
  | VE_UnknownParameter string string
  | VE_ParameterTypeMismatch string string data_type
  | VE_DuplicateParameter string string
  | VE_ParameterOutOfRange string string u64 "u64 option" "u64 option"
  | VE_ParameterNotFinite string string
  | VE_ParameterNotRepresentable string string
  | VE_EmptyWrite
  | VE_ProfileConfiguration property_path

primrec validation_code :: "validation_error \<Rightarrow> string" where
  "validation_code (VE_PropertyNotFound _) = ''PROPERTY_NOT_FOUND''"
| "validation_code (VE_PropertyNotWritable _) = ''PROPERTY_NOT_WRITABLE''"
| "validation_code (VE_ValueTypeMismatch _ _) = ''VALUE_TYPE_MISMATCH''"
| "validation_code (VE_ValueOutOfRange _ _ _ _) = ''VALUE_OUT_OF_RANGE''"
| "validation_code (VE_ValueNotRepresentable _) = ''VALUE_NOT_REPRESENTABLE''"
| "validation_code (VE_CommandNotFound _) = ''COMMAND_NOT_FOUND''"
| "validation_code (VE_MissingParameter _ _) = ''MISSING_PARAMETER''"
| "validation_code (VE_UnknownParameter _ _) = ''UNKNOWN_PARAMETER''"
| "validation_code (VE_ParameterTypeMismatch _ _ _) = ''PARAMETER_TYPE_MISMATCH''"
| "validation_code (VE_DuplicateParameter _ _) = ''DUPLICATE_PARAMETER''"
| "validation_code (VE_ParameterOutOfRange _ _ _ _ _) = ''PARAMETER_OUT_OF_RANGE''"
| "validation_code (VE_ParameterNotFinite _ _) = ''PARAMETER_NOT_FINITE''"
| "validation_code (VE_ParameterNotRepresentable _ _) = ''PARAMETER_NOT_REPRESENTABLE''"
| "validation_code VE_EmptyWrite = ''EMPTY_WRITE''"
| "validation_code (VE_ProfileConfiguration _) = ''PROFILE_CONFIGURATION''"

section \<open>Property writes\<close>

definition map_conversion :: "profile_property \<Rightarrow> conversion_error \<Rightarrow> validation_error" where
  "map_conversion p e =
     (case e of
        CE_NotWritable \<Rightarrow> VE_PropertyNotWritable (pp_path p)
      | CE_SemanticTypeMismatch expected \<Rightarrow> VE_ValueTypeMismatch (pp_path p) expected
      | CE_MinMaxViolation v mn mx \<Rightarrow> VE_ValueOutOfRange (pp_path p) v mn mx
      | CE_ScaleInvalid _ _ \<Rightarrow> VE_ProfileConfiguration (pp_path p)
      | _ \<Rightarrow> VE_ValueNotRepresentable (pp_path p))"

text \<open>One round of the loop; the loop stops at the first error.\<close>

definition validate_write_item ::
  "device_profile \<Rightarrow> nat \<Rightarrow> property_write_item \<Rightarrow> validation_error + driver_write_item" where
  "validate_write_item profile index item =
     (case lookup_property profile (pwi_path item) of
        None \<Rightarrow> Inl (VE_PropertyNotFound (pwi_path item))
      | Some p \<Rightarrow>
          if \<not> pp_writable p then Inl (VE_PropertyNotWritable (pwi_path item))
          else (case encode_write p (pwi_value item) of
                  Inl e \<Rightarrow> Inl (map_conversion p e)
                | Inr raw \<Rightarrow> Inr \<lparr>dwi_id = index, dwi_address = pp_driver_address p, dwi_value = raw\<rparr>))"

fun validate_write_items ::
  "device_profile \<Rightarrow> nat \<Rightarrow> property_write_item list \<Rightarrow> validation_error + driver_write_item list" where
  "validate_write_items profile index [] = Inr []"
| "validate_write_items profile index (item # rest) =
     res_bind (validate_write_item profile index item) (\<lambda>w.
     res_bind (validate_write_items profile (Suc index) rest) (\<lambda>ws. Inr (w # ws)))"

definition validate_property_write ::
  "device_profile \<Rightarrow> property_write_item list \<Rightarrow> validation_error + validated_operation" where
  "validate_property_write profile items =
     (if items = [] then Inl VE_EmptyWrite
      else res_bind (validate_write_items profile 0 items) (\<lambda>ws. Inr (VO_Write ws (map pwi_path items))))"

section \<open>Values and types of command parameters\<close>

fun value_has_non_finite :: "sem_value \<Rightarrow> bool" where
  "value_has_non_finite (V_F32 v) \<longleftrightarrow> f32_exp v = 255"
| "value_has_non_finite (V_F64 v) \<longleftrightarrow> \<not> f64_is_finite v"
| "value_has_non_finite (V_Array items) \<longleftrightarrow> list_ex value_has_non_finite items"
| "value_has_non_finite (V_Struct fs) \<longleftrightarrow> list_ex (\<lambda>f. value_has_non_finite (snd f)) fs"
| "value_has_non_finite _ \<longleftrightarrow> False"

definition is_numeric_type :: "data_type \<Rightarrow> bool" where
  "is_numeric_type t \<longleftrightarrow>
     t \<in> {DT_I8, DT_I16, DT_I32, DT_I64, DT_U8, DT_U16, DT_U32, DT_U64, DT_F32, DT_F64}"

fun is_integer_value :: "sem_value \<Rightarrow> bool" where
  "is_integer_value (V_I8 _) = True" | "is_integer_value (V_I16 _) = True"
| "is_integer_value (V_I32 _) = True" | "is_integer_value (V_I64 _) = True"
| "is_integer_value (V_U8 _) = True" | "is_integer_value (V_U16 _) = True"
| "is_integer_value (V_U32 _) = True" | "is_integer_value (V_U64 _) = True"
| "is_integer_value _ = False"

fun is_numeric_value :: "sem_value \<Rightarrow> bool" where
  "is_numeric_value (V_F32 _) = True"
| "is_numeric_value (V_F64 _) = True"
| "is_numeric_value v = is_integer_value v"

text \<open>The matches of \<^verbatim>\<open>value_to_i128\<close> and \<^verbatim>\<open>value_to_f64\<close> repeat those of the profile engine.\<close>

definition value_to_i128 :: "sem_value \<Rightarrow> int option" where
  "value_to_i128 v = integer_value_to_i128 v"

definition value_to_f64 :: "sem_value \<Rightarrow> u64 option" where
  "value_to_f64 v = numeric_value_to_f64 v"

fun value_matches_type :: "sem_value \<Rightarrow> data_type \<Rightarrow> bool" where
  "value_matches_type (V_Bool _) t \<longleftrightarrow> t = DT_Bool"
| "value_matches_type (V_String _) t \<longleftrightarrow> t = DT_String"
| "value_matches_type (V_Bytes _) t \<longleftrightarrow> t = DT_Bytes"
| "value_matches_type (V_Array items) t \<longleftrightarrow>
     (case t of DT_Array elem \<Rightarrow> list_all (\<lambda>v. value_matches_type v elem) items | _ \<Rightarrow> False)"
| "value_matches_type (V_Struct values) t \<longleftrightarrow>
     (case t of
        DT_Struct fs \<Rightarrow>
          length fs = length values \<and>
          list_all (\<lambda>f. list_ex (\<lambda>v. fst v = fst f \<and> value_matches_type (snd v) (snd f)) values) fs
      | _ \<Rightarrow> False)"
| "value_matches_type v t \<longleftrightarrow> is_numeric_type t \<and> is_numeric_value v"

fun integer_range :: "data_type \<Rightarrow> (int \<times> int) option" where
  "integer_range DT_I8 = Some (- 128, 127)"
| "integer_range DT_I16 = Some (- 32768, 32767)"
| "integer_range DT_I32 = Some (- (2 ^ 31), 2 ^ 31 - 1)"
| "integer_range DT_I64 = Some (- (2 ^ 63), 2 ^ 63 - 1)"
| "integer_range DT_U8 = Some (0, 255)"
| "integer_range DT_U16 = Some (0, 65535)"
| "integer_range DT_U32 = Some (0, 2 ^ 32 - 1)"
| "integer_range DT_U64 = Some (0, 2 ^ 64 - 1)"
| "integer_range _ = None"

definition f64_abs :: "u64 \<Rightarrow> u64" where
  "f64_abs w = f64_signed False (f64_mag w)"

text \<open>The cases of \<^verbatim>\<open>value_representable\<close> that do not look inside a value.\<close>

definition scalar_representable :: "sem_value \<Rightarrow> data_type \<Rightarrow> bool" where
  "scalar_representable v t \<longleftrightarrow>
     (if t = DT_F32 \<and> (\<exists>x. v = V_F64 x) then
        (case v of V_F64 x \<Rightarrow> f64_is_finite x \<and> f32_exp (f64_to_f32 x) \<noteq> 255 | _ \<Rightarrow> False)
      else if t = DT_F32 \<and> is_integer_value v then
        (case value_to_i128 v of Some i \<Rightarrow> \<bar>i\<bar> < 2 ^ 24 | None \<Rightarrow> False)
      else if t = DT_F64 \<and> is_integer_value v then
        (case value_to_i128 v of Some i \<Rightarrow> \<bar>i\<bar> < 2 ^ 53 | None \<Rightarrow> False)
      else if is_integer_type t \<and> is_numeric_value v then
        (case integer_range t of
           None \<Rightarrow> True
         | Some (lo, hi) \<Rightarrow>
             (case value_to_i128 v of
                Some i \<Rightarrow> lo \<le> i \<and> i \<le> hi
              | None \<Rightarrow>
                  (case value_to_f64 v of
                     None \<Rightarrow> True
                   | Some f \<Rightarrow>
                       f64_eq (f64_fract f) (f64_of_int 0) \<and> f64_lt (f64_abs f) (f64_of_int (2 ^ 53)) \<and>
                       lo \<le> f64_as_i128 f \<and> f64_as_i128 f \<le> hi)))
      else True)"

fun value_representable :: "sem_value \<Rightarrow> data_type \<Rightarrow> bool" where
  "value_representable (V_Array items) t \<longleftrightarrow>
     (case t of DT_Array elem \<Rightarrow> list_all (\<lambda>v. value_representable v elem) items | _ \<Rightarrow> True)"
| "value_representable (V_Struct values) t \<longleftrightarrow>
     (case t of
        DT_Struct fs \<Rightarrow>
          list_all (\<lambda>f. list_all (\<lambda>v. fst v = fst f \<longrightarrow> value_representable (snd v) (snd f)) values) fs
      | _ \<Rightarrow> True)"
| "value_representable v t \<longleftrightarrow> scalar_representable v t"

text \<open>A bound is violated when both sides are integers and it is violated exactly, or when it is violated as floats.\<close>

definition violates :: "(int \<Rightarrow> int \<Rightarrow> bool) \<Rightarrow> (u64 \<Rightarrow> u64 \<Rightarrow> bool) \<Rightarrow> sem_value \<Rightarrow> sem_value option \<Rightarrow> bool" where
  "violates lt_int lt_f64 v bound \<longleftrightarrow>
     (case (value_to_i128 v, Option.bind bound value_to_i128) of (Some x, Some b) \<Rightarrow> lt_int x b | _ \<Rightarrow> False) \<or>
     (case (value_to_f64 v, Option.bind bound value_to_f64) of (Some x, Some b) \<Rightarrow> lt_f64 x b | _ \<Rightarrow> False)"

definition param_within_range :: "sem_value \<Rightarrow> sem_value option \<Rightarrow> sem_value option \<Rightarrow> bool" where
  "param_within_range v mn mx \<longleftrightarrow>
     \<not> violates (<) f64_lt v mn \<and> \<not> violates (\<lambda>x b. b < x) (\<lambda>x b. f64_lt b x) v mx"

fun value_to_json :: "sem_value \<Rightarrow> json" where
  "value_to_json (V_Bool v) = J_Bool v"
| "value_to_json (V_I8 v) = J_Int (sint v)" | "value_to_json (V_I16 v) = J_Int (sint v)"
| "value_to_json (V_I32 v) = J_Int (sint v)" | "value_to_json (V_I64 v) = J_Int (sint v)"
| "value_to_json (V_U8 v) = J_Int (uint v)" | "value_to_json (V_U16 v) = J_Int (uint v)"
| "value_to_json (V_U32 v) = J_Int (uint v)" | "value_to_json (V_U64 v) = J_Int (uint v)"
| "value_to_json (V_F32 v) = (if f64_is_finite (f32_to_f64 v) then J_Float (f32_to_f64 v) else J_Null)"
| "value_to_json (V_F64 v) = (if f64_is_finite v then J_Float v else J_Null)"
| "value_to_json (V_String v) = J_String v"
| "value_to_json (V_Bytes v) = J_Array (map (\<lambda>b. J_Int (uint b)) v)"
| "value_to_json (V_Array items) = J_Array (map value_to_json items)"
| "value_to_json (V_Struct fs) =
     J_Object (fold (\<lambda>f m. AList.update (fst f) (value_to_json (snd f)) m) fs [])"


section \<open>Commands\<close>

fun first_duplicate :: "string set \<Rightarrow> command_parameter list \<Rightarrow> string option" where
  "first_duplicate seen [] = None"
| "first_duplicate seen (p # ps) =
     (if cp_name p \<in> seen then Some (cp_name p) else first_duplicate (insert (cp_name p) seen) ps)"

definition first_missing :: "command_parameter_descriptor list \<Rightarrow> command_parameter list \<Rightarrow> string option" where
  "first_missing descs ps =
     map_option pd_name (find (\<lambda>d. pd_required d \<and> \<not> list_ex (\<lambda>p. cp_name p = pd_name d) ps) descs)"

definition range_as_f64 :: "sem_value \<Rightarrow> sem_value option \<Rightarrow> sem_value option \<Rightarrow> u64 \<times> u64 option \<times> u64 option" where
  "range_as_f64 v mn mx =
     (case value_to_f64 v of Some f \<Rightarrow> f | None \<Rightarrow> f64_nan, Option.bind mn value_to_f64, Option.bind mx value_to_f64)"

text \<open>One round of the last loop.\<close>

definition check_parameter ::
  "string \<Rightarrow> command_parameter_descriptor list \<Rightarrow> command_parameter \<Rightarrow> validation_error option" where
  "check_parameter command descs p =
     (case find (\<lambda>d. pd_name d = cp_name p) descs of
        None \<Rightarrow> Some (VE_UnknownParameter command (cp_name p))
      | Some d \<Rightarrow>
          if value_has_non_finite (cp_value p) then Some (VE_ParameterNotFinite command (cp_name p))
          else if \<not> value_matches_type (cp_value p) (pd_data_type d)
          then Some (VE_ParameterTypeMismatch command (cp_name p) (pd_data_type d))
          else if \<not> value_representable (cp_value p) (pd_data_type d)
          then Some (VE_ParameterNotRepresentable command (cp_name p))
          else if \<not> param_within_range (cp_value p) (pd_min d) (pd_max d)
          then (case range_as_f64 (cp_value p) (pd_min d) (pd_max d) of
                  (v, mn, mx) \<Rightarrow> Some (VE_ParameterOutOfRange command (cp_name p) v mn mx))
          else None)"

fun check_parameters ::
  "string \<Rightarrow> command_parameter_descriptor list \<Rightarrow> command_parameter list \<Rightarrow> validation_error option" where
  "check_parameters command descs [] = None"
| "check_parameters command descs (p # ps) =
     (case check_parameter command descs p of Some e \<Rightarrow> Some e | None \<Rightarrow> check_parameters command descs ps)"

definition command_payload :: "command_parameter list \<Rightarrow> json" where
  "command_payload ps = J_Object (fold (\<lambda>p m. AList.update (cp_name p) (value_to_json (cp_value p)) m) ps [])"

definition validate_command :: "device_profile \<Rightarrow> command_request \<Rightarrow> validation_error + validated_operation" where
  "validate_command profile request =
     (let command = cr_command request; ps = cr_parameters request in
      case lookup_command profile command of
        None \<Rightarrow> Inl (VE_CommandNotFound command)
      | Some d \<Rightarrow>
          (case first_duplicate {} ps of
             Some name \<Rightarrow> Inl (VE_DuplicateParameter command name)
           | None \<Rightarrow>
               (case first_missing (pcmd_parameters d) ps of
                  Some name \<Rightarrow> Inl (VE_MissingParameter command name)
                | None \<Rightarrow>
                    (case check_parameters command (pcmd_parameters d) ps of
                       Some e \<Rightarrow> Inl e
                     | None \<Rightarrow>
                         Inr (VO_Execute
                           \<lparr>dc_command_id = pcmd_driver_command_id d, dc_payload = command_payload ps\<rparr>
                           (pcmd_risk_level d) (pcmd_preconditions d))))))"


section \<open>Accepted writes\<close>

lemma validate_write_items_iff:
  "validate_write_items profile n items = Inr ws \<longleftrightarrow>
     length ws = length items \<and>
     (\<forall>i<length items. validate_write_item profile (n + i) (items ! i) = Inr (ws ! i))"
proof (induction items arbitrary: n ws)
  case (Cons item rest)
  show ?case
  proof (cases ws)
    case (Cons w ws')
    then show ?thesis
      using Cons.IH[of "Suc n" ws'] by (auto simp: res_bind_eq_Inr All_less_Suc2)
  qed (auto simp: res_bind_eq_Inr)
qed auto

lemma validate_write_item_Inr:
  "validate_write_item profile n item = Inr w \<longleftrightarrow>
     (\<exists>p. lookup_property profile (pwi_path item) = Some p \<and> encode_write p (pwi_value item) = Inr (dwi_value w) \<and>
        dwi_id w = n \<and> dwi_address w = pp_driver_address p)"
  by (cases w)
    (auto simp: validate_write_item_def split: option.splits sum.splits dest: encode_write_writable)

text \<open>A write request is accepted exactly when it is not empty and every item names a property of the profile whose
  conversion accepts the value; then the operation has one driver item per requested item in the same order, numbered
  from 0, at the driver address of the property and with the converted raw value, and the paths of the request. One
  refused item refuses the whole batch.\<close>
theorem write_accepted_iff:
  "validate_property_write profile items = Inr op \<longleftrightarrow>
     items \<noteq> [] \<and>
     (\<exists>ws. op = VO_Write ws (map pwi_path items) \<and> length ws = length items \<and>
       (\<forall>i<length items. \<exists>p.
          lookup_property profile (pwi_path (items ! i)) = Some p \<and> encode_write p (pwi_value (items ! i)) = Inr (dwi_value (ws ! i)) \<and>
          dwi_id (ws ! i) = i \<and> dwi_address (ws ! i) = pp_driver_address p))"
  unfolding validate_property_write_def
  by (auto simp: res_bind_eq_Inr validate_write_items_iff validate_write_item_Inr split: if_splits)

section \<open>Accepted commands\<close>

lemma first_duplicate_None:
  "first_duplicate seen ps = None \<longleftrightarrow> distinct (map cp_name ps) \<and> cp_name ` set ps \<inter> seen = {}"
  by (induction ps arbitrary: seen) auto

lemma check_parameters_None:
  "check_parameters c ds ps = None \<longleftrightarrow> (\<forall>p\<in>set ps. check_parameter c ds p = None)"
  by (induction ps) (auto split: option.splits)

definition parameter_accepted :: "command_parameter_descriptor \<Rightarrow> sem_value \<Rightarrow> bool" where
  "parameter_accepted d v \<longleftrightarrow>
     \<not> value_has_non_finite v \<and> value_matches_type v (pd_data_type d) \<and> value_representable v (pd_data_type d) \<and>
     param_within_range v (pd_min d) (pd_max d)"

lemma check_parameter_None:
  "check_parameter c ds p = None \<longleftrightarrow>
     (\<exists>d. find (\<lambda>d. pd_name d = cp_name p) ds = Some d \<and> parameter_accepted d (cp_value p))"
  by (auto simp: check_parameter_def parameter_accepted_def range_as_f64_def split: option.splits if_splits)

lemma first_missing_None:
  "first_missing ds ps = None \<longleftrightarrow> (\<forall>d\<in>set ds. pd_required d \<longrightarrow> pd_name d \<in> cp_name ` set ps)"
  by (simp add: first_missing_def find_None_iff list_ex_iff image_iff) metis

lemma validate_command_Inr:
  "validate_command profile r = Inr op \<longleftrightarrow>
     (\<exists>d. lookup_command profile (cr_command r) = Some d \<and> distinct (map cp_name (cr_parameters r)) \<and>
        (\<forall>q\<in>set (pcmd_parameters d). pd_required q \<longrightarrow> pd_name q \<in> cp_name ` set (cr_parameters r)) \<and>
        (\<forall>p\<in>set (cr_parameters r). \<exists>q. find (\<lambda>q. pd_name q = cp_name p) (pcmd_parameters d) = Some q \<and>
           parameter_accepted q (cp_value p)) \<and>
        op = VO_Execute \<lparr>dc_command_id = pcmd_driver_command_id d, dc_payload = command_payload (cr_parameters r)\<rparr>
               (pcmd_risk_level d) (pcmd_preconditions d))"
proof -
  let ?ps = "cr_parameters r" and ?c = "cr_command r"
  have dup: "distinct (map cp_name ?ps) \<longleftrightarrow> first_duplicate {} ?ps = None" by (simp add: first_duplicate_None)
  have missing: "(\<forall>q\<in>set ds. pd_required q \<longrightarrow> pd_name q \<in> cp_name ` set ?ps) \<longleftrightarrow> first_missing ds ?ps = None" for ds
    by (simp add: first_missing_None)
  have params: "(\<forall>p\<in>set ?ps. \<exists>q. find (\<lambda>q. pd_name q = cp_name p) ds = Some q \<and> parameter_accepted q (cp_value p)) \<longleftrightarrow>
      check_parameters ?c ds ?ps = None" for ds
    by (simp add: check_parameters_None check_parameter_None)
  show ?thesis
    unfolding dup missing params validate_command_def by (auto simp: Let_def split: option.splits)
qed


section \<open>What an accepted parameter carries\<close>

definition exact_int :: "sem_value \<Rightarrow> int option" where
  "exact_int v =
     (case value_to_i128 v of
        Some i \<Rightarrow> Some i
      | None \<Rightarrow>
          (case value_to_f64 v of
             Some f \<Rightarrow> if f64_is_finite f \<and> f64_num f = trunc_int f * int one_units then Some (trunc_int f) else None
           | None \<Rightarrow> None))"

text \<open>For a float type a number is finite after the conversion to that type, and an integer converts without loss.\<close>

definition float_carried :: "sem_value \<Rightarrow> data_type \<Rightarrow> bool" where
  "float_carried v t \<longleftrightarrow>
     (case value_to_i128 v of
        Some i \<Rightarrow>
          f64_num (f64_of_int i) = i * int one_units \<and>
          (t = DT_F32 \<longrightarrow> f32_to_f64 (f64_to_f32 (f64_of_int i)) = f64_of_int i)
      | None \<Rightarrow>
          (case v of
             V_F32 w \<Rightarrow> f32_exp w \<noteq> 255
           | V_F64 x \<Rightarrow> f64_is_finite x \<and> (t = DT_F32 \<longrightarrow> f32_exp (f64_to_f32 x) \<noteq> 255)
           | _ \<Rightarrow> False))"

definition scalar_carried :: "sem_value \<Rightarrow> data_type \<Rightarrow> bool" where
  "scalar_carried v t \<longleftrightarrow>
     (case integer_range t of
        Some (lo, hi) \<Rightarrow> (case exact_int v of Some i \<Rightarrow> lo \<le> i \<and> i \<le> hi | None \<Rightarrow> False)
      | None \<Rightarrow> if is_float_type t then float_carried v t else sem_type v = Some t)"

fun carried :: "sem_value \<Rightarrow> data_type \<Rightarrow> bool" where
  "carried (V_Array items) t \<longleftrightarrow> (case t of DT_Array elem \<Rightarrow> list_all (\<lambda>v. carried v elem) items | _ \<Rightarrow> False)"
| "carried (V_Struct values) t \<longleftrightarrow>
     (case t of
        DT_Struct fs \<Rightarrow>
          distinct (map fst values) \<and> fst ` set values = fst ` set fs \<and>
          list_all (\<lambda>f. list_all (\<lambda>v. fst v = fst f \<longrightarrow> carried (snd v) (snd f)) values) fs
      | _ \<Rightarrow> False)"
| "carried v t \<longleftrightarrow> scalar_carried v t"

fun fields_distinct :: "data_type \<Rightarrow> bool" where
  "fields_distinct (DT_Array elem) \<longleftrightarrow> fields_distinct elem"
| "fields_distinct (DT_Struct fs) \<longleftrightarrow> distinct (map fst fs) \<and> list_all (\<lambda>f. fields_distinct (snd f)) fs"
| "fields_distinct _ \<longleftrightarrow> True"

lemma integer_range_iff: "is_integer_type t \<longleftrightarrow> integer_range t \<noteq> None"
  by (cases t) (simp_all add: is_integer_type_def is_signed_type_def is_unsigned_type_def)

text \<open>A float with no fraction below \<open>2 ^ 53\<close> is the integer it is cast to.\<close>

lemma f64_as_i128_small:
  assumes "f64_is_finite f" "f64_num f = trunc_int f * int one_units" "f64_lt (f64_abs f) (f64_of_int (2 ^ 53))"
  shows "f64_as_i128 f = trunc_int f"
proof -
  have mag: "f64_mag f < 2 ^ 63" by (simp add: f64_mag_def)
  have a: "f64_mag (f64_abs f) = f64_mag f" "f64_neg_p (f64_abs f) = False"
    using f64_signed_fields[OF mag] by (simp_all add: f64_abs_def)
  then have "f64_num (f64_abs f) = \<bar>f64_num f\<bar>" by (simp add: f64_num_def f64_units_def)
  moreover have "f64_is_finite (f64_abs f)" using assms(1) a by (simp add: f64_finite_iff)
  ultimately have "\<bar>f64_num f\<bar> < 2 ^ 53 * int one_units"
    using assms(3) f64_lt_iff[of "f64_abs f" "f64_of_int (2 ^ 53)"] f64_of_int_small[of "2 ^ 53"] by simp
  then have "\<bar>trunc_int f\<bar> < 2 ^ 53"
    unfolding assms(2) abs_mult by (simp add: one_units_pos)
  moreover have "\<not> f64_is_nan f" "\<not> f64_is_infinite f"
    using assms(1) f64_finite_iff[of f] by (simp_all add: f64_is_nan_def f64_is_finite_def f64_is_infinite_def)
  ultimately show ?thesis by (simp add: f64_as_i128_def)
qed


lemma f32_to_f64_finite:
  assumes "f32_exp w \<noteq> 255"
  shows "f64_is_finite (f32_to_f64 w)"
proof -
  note b = f32_fields(2-4)[of w]
  have l: "flog2 (f32_man w) < 23" if "f32_man w \<noteq> 0" using flog2_less[of "f32_man w" 23] that b(3) by simp
  have sub: "(f32_man w - 2 ^ flog2 (f32_man w)) * 2 ^ (52 - flog2 (f32_man w)) < 2 ^ 52" if "f32_man w \<noteq> 0"
  proof -
    have "f32_man w - 2 ^ flog2 (f32_man w) < 2 ^ flog2 (f32_man w)"
      using flog2_bounds[of "f32_man w"] that by linarith
    then have "(f32_man w - 2 ^ flog2 (f32_man w)) * 2 ^ (52 - flog2 (f32_man w)) <
        2 ^ flog2 (f32_man w) * 2 ^ (52 - flog2 (f32_man w))" by simp
    also have "\<dots> = 2 ^ 52" using l[OF that] by (simp add: power_add[symmetric])
    finally show ?thesis .
  qed
  have norm: "f32_man w * 2 ^ 29 < 2 ^ 52" using b(3) by simp
  consider (zero) "f32_exp w = 0" "f32_man w = 0" | (sub) "f32_exp w = 0" "f32_man w \<noteq> 0" | (norm) "f32_exp w \<noteq> 0" by blast
  then show ?thesis
  proof cases
    case zero
    then show ?thesis using b(1) by (simp add: f32_to_f64_def f64_is_finite_def f64_make_fields Let_def)
  next
    case sub': sub
    then show ?thesis
      using b(1) l[OF sub'(2)] sub[OF sub'(2)] by (simp add: f32_to_f64_def f64_is_finite_def f64_make_fields Let_def)
  next
    case n: norm
    then show ?thesis
      using b assms norm by (simp add: f32_to_f64_def f64_is_finite_def f64_make_fields Let_def)
  qed
qed

lemma value_to_f64_finite:
  assumes "value_to_f64 v = Some f" "value_to_i128 v = None" "\<not> value_has_non_finite v"
  shows "f64_is_finite f"
  using assms by (cases v) (auto simp: value_to_f64_def value_to_i128_def f32_to_f64_finite)

lemma numeric_value_views:
  assumes "is_numeric_value v"
  shows "(\<exists>i. value_to_i128 v = Some i) \<and> is_integer_value v \<or>
    value_to_i128 v = None \<and> \<not> is_integer_value v \<and> (\<exists>f. value_to_f64 v = Some f)"
  using assms by (cases v) (auto simp: value_to_f64_def value_to_i128_def)

lemma scalar_representable_int:
  assumes "\<not> value_has_non_finite v" "is_numeric_value v" "integer_range t = Some (lo, hi)" "scalar_representable v t"
  shows "\<exists>i. exact_int v = Some i \<and> lo \<le> i \<and> i \<le> hi"
proof -
  have t: "t \<noteq> DT_F32" "t \<noteq> DT_F64" "is_integer_type t" using assms(3) by (auto simp: integer_range_iff)
  show ?thesis
  proof (cases "value_to_i128 v")
    case None
    then obtain f where f: "value_to_f64 v = Some f" using numeric_value_views[OF assms(2)] by auto
    have fin: "f64_is_finite f" by (rule value_to_f64_finite[OF f None assms(1)])
    have r: "f64_eq (f64_fract f) (f64_of_int 0)" "f64_lt (f64_abs f) (f64_of_int (2 ^ 53))"
        "lo \<le> f64_as_i128 f" "f64_as_i128 f \<le> hi"
      using assms(2,3,4) None f t by (simp_all add: scalar_representable_def)
    have whole: "f64_num f = trunc_int f * int one_units" using r(1) f64_fract_zero_iff[OF fin] by simp
    from f64_as_i128_small[OF fin whole r(2)] show ?thesis
      using r(3,4) None f fin whole by (simp add: exact_int_def)
  next
    case (Some i)
    then show ?thesis using assms(2,3,4) t by (simp add: scalar_representable_def exact_int_def)
  qed
qed

lemma f32_make_parts:
  assumes "s < 2" "e < 256" "m < 2 ^ 23"
  shows "f32_sign (f32_make s (e * 2 ^ 23 + m)) = s" "f32_exp (f32_make s (e * 2 ^ 23 + m)) = e" "f32_man (f32_make s (e * 2 ^ 23 + m)) = m"
proof -
  have "e * 2 ^ 23 \<le> 255 * 2 ^ 23" using assms(2) by (intro mult_right_mono) simp_all
  then have mag: "e * 2 ^ 23 + m < 2 ^ 31" using assms(3) by simp
  then show "f32_sign (f32_make s (e * 2 ^ 23 + m)) = s" by (rule f32_make_sign[OF assms(1)])
  have u: "unat (f32_make s (e * 2 ^ 23 + m)) = m + (e + s * 256) * 2 ^ 23"
  proof -
    have "s * 2 ^ 31 + (e * 2 ^ 23 + m) < 2 ^ 32" using mag assms(1) by simp
    then show ?thesis unfolding f32_make_def by (subst unat_word_of_nat) simp_all
  qed
  show "f32_exp (f32_make s (e * 2 ^ 23 + m)) = e" unfolding f32_exp_def u using assms by (subst div_mult_self1) simp_all
  show "f32_man (f32_make s (e * 2 ^ 23 + m)) = m" unfolding f32_man_def u using assms by (subst mod_mult_self1) simp_all
qed

text \<open>An integer below \<open>2 ^ 24\<close> uses at most 24 leading bits of the mantissa, so narrowing loses nothing.\<close>

lemma small_int_mantissa:
  assumes "f64_num f = i * int one_units" "i \<noteq> 0" "\<bar>i\<bar> < 2 ^ 24"
  obtains q where "f64_man f = q * 2 ^ 29" "q < 2 ^ 23" "1023 \<le> f64_exp f" "f64_exp f \<le> 1046"
proof -
  define u where "u = nat \<bar>i\<bar>"
  let ?e = "f64_exp f" and ?m = "f64_man f"
  have u: "0 < u" "u < 2 ^ 24" "f64_units f = u * 2 ^ 1074"
    using assms units_of_integral[OF assms(1)] by (simp_all add: u_def one_units_def nat_less_iff)
  have m: "?m < 2 ^ 52" using f64_fields(4)[of f] by simp
  have big: "(2::nat) ^ 1074 \<le> u * 2 ^ 1074" using u(1) by simp
  have "(2::nat) ^ 52 < 2 ^ 1074" by (rule power_strict_increasing) simp_all
  then have e: "0 < ?e"
    using big u(3) m by (cases "?e = 0") (simp_all add: f64_units_def f64_mag_split mag_units_def)
  then have eq: "(2 ^ 52 + ?m) * 2 ^ (?e - 1) = u * 2 ^ 1074"
    using u(3) m by (simp add: f64_units_def f64_mag_split mag_units_def)
  have lt: "?e - 1 < 1074"
  proof (rule ccontr)
    assume "\<not> ?thesis"
    then have "(2::nat) ^ 1074 \<le> 2 ^ (?e - 1)" by (intro power_increasing) simp_all
    then have "(2 ^ 52 + ?m) * 2 ^ 1074 \<le> u * 2 ^ 1074" unfolding eq[symmetric] by (intro mult_left_mono) simp_all
    then show False using u(2) by simp
  qed
  define k where "k = 1074 - (?e - 1)"
  have "(2::nat) ^ 1074 = 2 ^ k * 2 ^ (?e - 1)" using lt by (simp add: k_def flip: power_add)
  then have "(2 ^ 52 + ?m) * 2 ^ (?e - 1) = u * 2 ^ k * 2 ^ (?e - 1)" unfolding eq by (simp only: mult.assoc)
  then have k: "2 ^ 52 + ?m = u * 2 ^ k" by (subst (asm) mult_right_cancel) (simp_all only: power_not_zero zero_neq_numeral[symmetric] simp_thms)
  have k29: "29 \<le> k"
  proof (rule ccontr)
    assume "\<not> ?thesis"
    then have "(2::nat) ^ k \<le> 2 ^ 28" by (intro power_increasing) simp_all
    then have "u * 2 ^ k \<le> u * 2 ^ 28" by (intro mult_left_mono) simp_all
    also have "\<dots> < 2 ^ 24 * 2 ^ 28" using u(2) by (intro mult_strict_right_mono) simp_all
    finally show False unfolding k[symmetric] by simp
  qed
  have k52: "k \<le> 52"
  proof (rule ccontr)
    assume "\<not> ?thesis"
    then have "(2::nat) ^ 53 \<le> 2 ^ k" by (intro power_increasing) simp_all
    moreover have "2 ^ k \<le> u * 2 ^ k" using u(1) by simp
    ultimately show False using m unfolding k[symmetric] by simp
  qed
  have "(2::nat) ^ k = 2 ^ (k - 29) * 2 ^ 29" by (subst power_add[symmetric]) (use k29 in simp)
  then have "2 ^ 52 + ?m = u * 2 ^ (k - 29) * 2 ^ 29" unfolding k by (simp only: mult.assoc)
  then have "?m = (u * 2 ^ (k - 29) - 2 ^ 23) * 2 ^ 29" by (simp add: diff_mult_distrib)
  then show thesis using m k29 k52 e by (intro that[of "u * 2 ^ (k - 29) - 2 ^ 23"]) (simp_all add: k_def)
qed

lemma small_int_is_f32:
  assumes "\<bar>i\<bar> < 2 ^ 24"
  shows "f32_to_f64 (f64_to_f32 (f64_of_int i)) = f64_of_int i" "f32_exp (f64_to_f32 (f64_of_int i)) \<noteq> 255"
proof -
  let ?f = "f64_of_int i"
  have num: "f64_num ?f = i * int one_units" using f64_of_int_small(1)[of i] assms by simp
  have "f32_to_f64 (f64_to_f32 ?f) = ?f \<and> f32_exp (f64_to_f32 ?f) \<noteq> 255"
  proof (cases "i = 0")
    case True
    then have "mag_units (f64_mag ?f) = mag_units 0" using num by (simp add: f64_num_def f64_units_def split: if_splits)
    then have "f64_mag ?f = 0" by (metis mag_units_less_iff nat_neq_iff)
    then have z: "f64_exp ?f = 0" "f64_man ?f = 0" by (simp_all add: f64_exp_man)
    have "f64_to_f32 ?f = f32_make (f64_sign ?f) (0 * 2 ^ 23 + 0)" by (simp add: f64_to_f32_def z)
    with f32_make_parts[of "f64_sign ?f" 0 0] f64_fields(2)[of ?f] f64_make_self[of ?f] show ?thesis
      by (simp add: f32_to_f64_def z)
  next
    case False
    obtain q where q: "f64_man ?f = q * 2 ^ 29" "q < 2 ^ 23" "1023 \<le> f64_exp ?f" "f64_exp ?f \<le> 1046"
      by (rule small_int_mantissa[OF num False assms])
    have s: "f64_sign ?f < 2" using f64_fields(2)[of ?f] by simp
    have "(f64_exp ?f - 896) * 2 ^ 23 + q \<le> 255 * 2 ^ 23"
    proof -
      have "(f64_exp ?f - 896) * 2 ^ 23 \<le> 150 * 2 ^ 23" using q(4) by (intro mult_right_mono) simp_all
      then show ?thesis using q(2) by simp
    qed
    then have w: "f64_to_f32 ?f = f32_make (f64_sign ?f) ((f64_exp ?f - 896) * 2 ^ 23 + q)"
      using q rne_exact[of q 29] by (simp add: f64_to_f32_def)
    have "f64_exp ?f - 896 < 256" using q(4) by simp
    note p = f32_make_parts[OF s this q(2)]
    have ne: "f64_exp ?f - 896 \<noteq> 255" "f64_exp ?f - 896 \<noteq> 0" using q(3,4) by linarith+
    have "f32_to_f64 (f64_to_f32 ?f) = f64_make (f64_sign ?f) (f64_exp ?f) (f64_man ?f)"
      unfolding w f32_to_f64_def p Let_def using q ne by simp
    then show ?thesis using q unfolding w p f64_make_self by simp
  qed
  then show "f32_to_f64 (f64_to_f32 ?f) = ?f" "f32_exp (f64_to_f32 ?f) \<noteq> 255" by simp_all
qed

lemma float_accepted_carried:
  assumes "\<not> value_has_non_finite v" "is_numeric_value v" "is_float_type t" "scalar_representable v t"
  shows "float_carried v t"
proof (cases "value_to_i128 v")
  case None
  then have "\<not> is_integer_value v" using numeric_value_views[OF assms(2)] by auto
  then show ?thesis
    using assms None by (cases v) (auto simp: float_carried_def scalar_representable_def)
next
  case (Some i)
  then have int: "is_integer_value v" using numeric_value_views[OF assms(2)] by auto
  then have "\<bar>i\<bar> < (if t = DT_F32 then 2 ^ 24 else 2 ^ 53)"
    using assms(3,4) Some by (cases v) (auto simp: scalar_representable_def is_float_type_def)
  then show ?thesis
    using Some small_int_is_f32(1)[of i] f64_of_int_small(1)[of i] by (auto simp: float_carried_def split: if_splits)
qed

lemma scalar_accepted_carried:
  assumes "\<not> value_has_non_finite v" "value_matches_type v t" "scalar_representable v t" and "sem_type v \<noteq> None"
  shows "scalar_carried v t"
proof (cases "is_numeric_value v")
  case True
  have nt: "is_numeric_type t" using assms(2) True by (cases v) simp_all
  show ?thesis
  proof (cases "integer_range t")
    case None
    then have "is_float_type t" using nt by (auto simp: is_numeric_type_def is_float_type_def)
    moreover have "float_carried v t" by (rule float_accepted_carried[OF assms(1) True \<open>is_float_type t\<close> assms(3)])
    ultimately show ?thesis using None by (simp add: scalar_carried_def)
  next
    case (Some r)
    then obtain lo hi where r: "integer_range t = Some (lo, hi)" by (cases r) simp
    from scalar_representable_int[OF assms(1) True r assms(3)] r show ?thesis by (auto simp: scalar_carried_def)
  qed
next
  case False
  then show ?thesis using assms(2,4) by (cases v) (simp_all add: scalar_carried_def is_float_type_def)
qed


text \<open>A structure with as many fields as the type, in which every declared field occurs, has exactly these fields.\<close>

lemma struct_fields_exact:
  assumes "distinct (map fst fs)" "length fs = length vs" "\<And>f. f \<in> set fs \<Longrightarrow> fst f \<in> fst ` set vs"
  shows "fst ` set vs = fst ` set fs" "distinct (map fst vs)"
proof -
  have sub: "set (map fst fs) \<subseteq> set (map fst vs)" using assms(3) by auto
  have card: "card (set (map fst fs)) = length (map fst vs)" using assms(1,2) distinct_card[OF assms(1)] by simp
  have "card (set (map fst vs)) \<le> length (map fst vs)" by (rule card_length)
  then have "set (map fst fs) = set (map fst vs)"
    using sub card card_mono[OF finite_set sub] by (intro card_subset_eq) simp_all
  with card show "fst ` set vs = fst ` set fs" "distinct (map fst vs)"
    by (simp_all add: card_distinct)
qed

lemma accepted_carried:
  "\<not> value_has_non_finite v \<Longrightarrow> value_matches_type v t \<Longrightarrow> value_representable v t \<Longrightarrow> fields_distinct t \<Longrightarrow> carried v t"
proof (induction v t rule: carried.induct)
  case (1 items t)
  then show ?case by (auto simp: list_all_iff list_ex_iff split: data_type.splits)
next
  case (2 vs t)
  then obtain fs where t: "t = DT_Struct fs" by (cases t) auto
  have d: "distinct (map fst fs)" and len: "length fs = length vs" using 2(3,5) t by simp_all
  have m: "\<exists>v\<in>set vs. fst v = fst f \<and> value_matches_type (snd v) (snd f)" if "f \<in> set fs" for f
    using 2(3) t that by (auto simp: list_all_iff list_ex_iff)
  have exact: "fst ` set vs = fst ` set fs" "distinct (map fst vs)"
    using struct_fields_exact[OF d len] m by (metis image_eqI)+
  have "carried (snd v) (snd f)" if fv: "f \<in> set fs" "v \<in> set vs" "fst v = fst f" for f v
  proof (rule 2(1)[OF t fv])
    obtain v' where v': "v' \<in> set vs" "fst v' = fst f" "value_matches_type (snd v') (snd f)" using m[OF fv(1)] by blast
    then have "v' = v" using exact(2) fv by (metis distinct_map inj_onD)
    then show "value_matches_type (snd v) (snd f)" using v' by simp
    show "\<not> value_has_non_finite (snd v)" using 2(2) fv(2) by (auto simp: list_ex_iff)
    show "value_representable (snd v) (snd f)" using 2(4) t fv by (auto simp: list_all_iff)
    show "fields_distinct (snd f)" using 2(5) t fv by (auto simp: list_all_iff)
  qed
  then show ?case using exact t by (simp add: list_all_iff)
qed (simp_all add: scalar_accepted_carried)


text \<open>The limits of a descriptor, compared exactly where the value and the limit are integers.\<close>

definition within_limits :: "command_parameter_descriptor \<Rightarrow> sem_value \<Rightarrow> bool" where
  "within_limits q v \<longleftrightarrow>
     (case (value_to_i128 v, Option.bind (pd_min q) value_to_i128) of (Some i, Some lo) \<Rightarrow> lo \<le> i | _ \<Rightarrow> True) \<and>
     (case (value_to_i128 v, Option.bind (pd_max q) value_to_i128) of (Some i, Some hi) \<Rightarrow> i \<le> hi | _ \<Rightarrow> True)"

lemma param_within_range_limits: "param_within_range v (pd_min q) (pd_max q) \<Longrightarrow> within_limits q v"
  by (auto simp: param_within_range_def violates_def within_limits_def split: option.splits)

text \<open>C30: An accepted command names a command of the profile; its parameters are distinct, declared, and include every
  required one. Each value carries its declared type: for an integer type it is exactly an integer of the range of the
  type, whether it arrived as an integer or as a float; for a float type it is finite after the conversion to that type
  (which may round a float), and an integer converts without loss, to double and where declared to single precision;
  an array carries the element type throughout and a structure has exactly the declared fields, provided that the
  profile declares no field of a structure twice. Integer values are within integer limits.\<close>
theorem accepted_command_is_typed:
  assumes "validate_command profile r = Inr op"
    and "\<forall>c\<in>set (dp_commands profile). \<forall>q\<in>set (pcmd_parameters c). fields_distinct (pd_data_type q)"
  shows "\<exists>c\<in>set (dp_commands profile). pcmd_id c = cr_command r \<and>
    distinct (map cp_name (cr_parameters r)) \<and>
    (\<forall>q\<in>set (pcmd_parameters c). pd_required q \<longrightarrow> pd_name q \<in> cp_name ` set (cr_parameters r)) \<and>
    (\<forall>p\<in>set (cr_parameters r). \<exists>q\<in>set (pcmd_parameters c).
       pd_name q = cp_name p \<and> carried (cp_value p) (pd_data_type q) \<and> within_limits q (cp_value p))"
proof -
  obtain c where c: "lookup_command profile (cr_command r) = Some c" "distinct (map cp_name (cr_parameters r))"
      "\<forall>q\<in>set (pcmd_parameters c). pd_required q \<longrightarrow> pd_name q \<in> cp_name ` set (cr_parameters r)"
      "\<forall>p\<in>set (cr_parameters r). \<exists>q. find (\<lambda>q. pd_name q = cp_name p) (pcmd_parameters c) = Some q \<and>
         parameter_accepted q (cp_value p)"
    using assms(1) by (auto simp: validate_command_Inr)
  have cin: "c \<in> set (dp_commands profile)" "pcmd_id c = cr_command r"
    using c(1) by (auto simp: lookup_command_def find_Some_iff)
  have "\<exists>q\<in>set (pcmd_parameters c). pd_name q = cp_name p \<and> carried (cp_value p) (pd_data_type q) \<and> within_limits q (cp_value p)"
    if p: "p \<in> set (cr_parameters r)" for p
  proof -
    obtain q where q: "find (\<lambda>q. pd_name q = cp_name p) (pcmd_parameters c) = Some q" "parameter_accepted q (cp_value p)"
      using c(4) p by blast
    have qin: "q \<in> set (pcmd_parameters c)" "pd_name q = cp_name p" using q(1) by (auto simp: find_Some_iff)
    then have "carried (cp_value p) (pd_data_type q)"
      using q(2) assms(2) cin(1) by (intro accepted_carried) (auto simp: parameter_accepted_def)
    moreover have "within_limits q (cp_value p)"
      using q(2) by (intro param_within_range_limits) (simp add: parameter_accepted_def)
    ultimately show ?thesis using qin by blast
  qed
  then show ?thesis using cin c(2,3) by blast
qed

section \<open>The payload of a command\<close>

fun null_free :: "json \<Rightarrow> bool" where
  "null_free J_Null \<longleftrightarrow> False"
| "null_free (J_Array xs) \<longleftrightarrow> list_all null_free xs"
| "null_free (J_Object m) \<longleftrightarrow> list_all (\<lambda>e. null_free (snd e)) m"
| "null_free _ \<longleftrightarrow> True"

lemma set_update: "set (AList.update k v m) \<subseteq> insert (k, v) (set m)"
  by (induction m) auto

lemma set_fold_update:
  "set (fold (\<lambda>x m. AList.update (f x) (g x) m) xs m) \<subseteq> (\<lambda>x. (f x, g x)) ` set xs \<union> set m"
proof (induction xs arbitrary: m)
  case (Cons x xs)
  show ?case using Cons.IH[of "AList.update (f x) (g x) m"] set_update[of "f x" "g x" m] by auto
qed simp

lemma map_of_fold_update:
  "distinct (map f xs) \<Longrightarrow> map_of (fold (\<lambda>x m. AList.update (f x) (g x) m) xs m) = map_of m ++ map_of (map (\<lambda>x. (f x, g x)) xs)"
proof (induction xs arbitrary: m)
  case (Cons x xs)
  have "f x \<notin> fst ` set (map (\<lambda>x. (f x, g x)) xs)" using Cons.prems by auto
  then have "map_of (map (\<lambda>x. (f x, g x)) xs) (f x) = None" by (simp add: map_of_eq_None_iff)
  then show ?case
    using Cons by (auto simp: update_conv' map_add_def fun_eq_iff split: option.splits)
qed simp

lemma value_to_json_null_free: "\<not> value_has_non_finite v \<Longrightarrow> null_free (value_to_json v)"
proof (induction v rule: value_has_non_finite.induct)
  case (1 v)
  then show ?case by (simp add: f32_to_f64_finite)
next
  case (4 fs)
  have "null_free (value_to_json (snd f))" if "f \<in> set fs" for f
    using 4 that by (auto simp: list_ex_iff)
  then show ?case
    using set_fold_update[of fst "\<lambda>f. value_to_json (snd f)" fs "[]"] by (force simp: list_all_iff)
qed (auto simp: list_all_iff list_ex_iff)

text \<open>The command handed to the driver has the command identifier of the profile and a JSON object with exactly the
  parameters of the request, each under its name; no null occurs anywhere in it, so no number was lost.\<close>
theorem accepted_command_payload:
  assumes "validate_command profile r = Inr op"
  shows "\<exists>c m. lookup_command profile (cr_command r) = Some c \<and>
    op = VO_Execute \<lparr>dc_command_id = pcmd_driver_command_id c, dc_payload = J_Object m\<rparr> (pcmd_risk_level c) (pcmd_preconditions c) \<and>
    map_of m = map_of (map (\<lambda>p. (cp_name p, value_to_json (cp_value p))) (cr_parameters r)) \<and> null_free (J_Object m)"
proof -
  let ?ps = "cr_parameters r"
  let ?m = "fold (\<lambda>p m. AList.update (cp_name p) (value_to_json (cp_value p)) m) ?ps []"
  obtain c where c: "lookup_command profile (cr_command r) = Some c" "distinct (map cp_name ?ps)"
      "\<forall>p\<in>set ?ps. \<exists>q. find (\<lambda>q. pd_name q = cp_name p) (pcmd_parameters c) = Some q \<and> parameter_accepted q (cp_value p)"
      "op = VO_Execute \<lparr>dc_command_id = pcmd_driver_command_id c, dc_payload = command_payload ?ps\<rparr>
               (pcmd_risk_level c) (pcmd_preconditions c)"
    using assms by (auto simp: validate_command_Inr)
  have "null_free (value_to_json (cp_value p))" if "p \<in> set ?ps" for p
    using c(3) that by (intro value_to_json_null_free) (auto simp: parameter_accepted_def)
  then have "null_free (J_Object ?m)"
    using set_fold_update[of cp_name "\<lambda>p. value_to_json (cp_value p)" ?ps "[]"] by (force simp: list_all_iff)
  moreover have "map_of ?m = map_of (map (\<lambda>p. (cp_name p, value_to_json (cp_value p))) ?ps)"
    using map_of_fold_update[OF c(2), of "\<lambda>p. value_to_json (cp_value p)" "[]"] by simp
  ultimately show ?thesis using c(1,4) by (auto simp: command_payload_def)
qed


section \<open>Examples\<close>

definition example_command_profile :: device_profile where
  "example_command_profile =
     \<lparr>dp_id = ''mill'', dp_vendor = ''v'', dp_family = ''f'', dp_models = [], dp_domain = DK_Cnc, dp_driver_id = ''modbus'',
      dp_properties = [],
      dp_commands =
        [\<lparr>pcmd_id = ''feed'', pcmd_driver_command_id = ''FEED'',
          pcmd_parameters =
            [\<lparr>pd_name = ''rate'', pd_data_type = DT_U16, pd_required = True, pd_min = None, pd_max = Some (V_U16 100)\<rparr>,
             \<lparr>pd_name = ''axes'', pd_data_type = DT_Array DT_U8, pd_required = False, pd_min = None, pd_max = None\<rparr>],
          pcmd_risk_level = Risk_High, pcmd_preconditions = []\<rparr>],
      dp_capabilities =
        \<lparr>pk_supported_properties = [], pk_supported_commands = [''feed''],
         pk_acquisition = \<lparr>ac_polling = None, ac_subscription = None, ac_events = None, ac_history = None\<rparr>,
         pk_limits = []\<rparr>\<rparr>"

definition example_request :: command_request where
  "example_request =
     \<lparr>cr_command = ''feed'',
      cr_parameters = [\<lparr>cp_name = ''axes'', cp_value = V_Array [V_I64 1, V_U8 2]\<rparr>, \<lparr>cp_name = ''rate'', cp_value = V_I32 50\<rparr>]\<rparr>"

lemma f64_lt_small:
  "\<bar>a\<bar> \<le> 2 ^ 53 \<Longrightarrow> \<bar>b\<bar> \<le> 2 ^ 53 \<Longrightarrow> f64_lt (f64_of_int a) (f64_of_int b) \<longleftrightarrow> a < b"
  using f64_of_int_small[of a] f64_of_int_small[of b] by (simp add: f64_lt_iff)

lemma example_command_accepted:
  "validate_command example_command_profile example_request =
     Inr (VO_Execute
       \<lparr>dc_command_id = ''FEED'', dc_payload = J_Object [(''axes'', J_Array [J_Int 1, J_Int 2]), (''rate'', J_Int 50)]\<rparr>
       Risk_High [])"
  by (simp add: validate_command_def example_command_profile_def example_request_def lookup_command_def first_missing_def
    check_parameter_def param_within_range_def violates_def value_to_i128_def value_to_f64_def is_numeric_type_def f64_lt_small
    scalar_representable_def is_integer_type_def is_signed_type_def is_unsigned_type_def command_payload_def)

theorem accepted_command_is_typed_witness:
  "\<exists>c\<in>set (dp_commands example_command_profile). pcmd_id c = ''feed'' \<and>
    (\<forall>p\<in>set (cr_parameters example_request). \<exists>q\<in>set (pcmd_parameters c).
       pd_name q = cp_name p \<and> carried (cp_value p) (pd_data_type q))"
proof -
  have "\<forall>c\<in>set (dp_commands example_command_profile). \<forall>q\<in>set (pcmd_parameters c). fields_distinct (pd_data_type q)"
    by (simp add: example_command_profile_def)
  from accepted_command_is_typed[OF example_command_accepted this] show ?thesis by (auto simp: example_request_def)
qed

theorem accepted_command_payload_witness:
  "\<exists>m. null_free (J_Object m) \<and> map_of m ''rate'' = Some (J_Int 50) \<and> map_of m ''axes'' = Some (J_Array [J_Int 1, J_Int 2])"
proof -
  obtain m where m: "map_of m = map_of (map (\<lambda>p. (cp_name p, value_to_json (cp_value p))) (cr_parameters example_request))"
      "null_free (J_Object m)"
    using accepted_command_payload[OF example_command_accepted] by blast
  show ?thesis using m(2) unfolding example_request_def by (intro exI[of _ m] conjI) (simp_all add: m(1) example_request_def)
qed


definition example_write_profile :: device_profile where
  "example_write_profile = example_command_profile\<lparr>dp_properties := [example_property DT_U64 DT_U64]\<rparr>"

theorem write_accepted_iff_witness:
  "validate_property_write example_write_profile [\<lparr>pwi_path = ''drive.speed'', pwi_value = V_U64 9007199254740993\<rparr>] =
     Inr (VO_Write [\<lparr>dwi_id = 0, dwi_address = ''1!40001'', dwi_value = RV_U64 9007199254740993\<rparr>] [''drive.speed''])"
proof -
  have l: "lookup_property example_write_profile ''drive.speed'' = Some (example_property DT_U64 DT_U64)"
    by (simp add: lookup_property_def example_write_profile_def example_property_def)
  have "pp_driver_address (example_property DT_U64 DT_U64) = ''1!40001''" by (simp add: example_property_def)
  then show ?thesis by (subst write_accepted_iff) (simp add: l example_encode)
qed

end
