(* ===== verification/Control_Engine.thy ===== *)
theory Control_Engine
  imports Control_Worker Control_Validate
begin

text \<open>
  \<^verbatim>\<open>crates/control-engine/src/engine.rs\<close> and \<^verbatim>\<open>catalog.rs\<close>: submission, cancellation, status and shutdown of the control
  engine. A call of \<^verbatim>\<open>submit\<close> is a task with a program point; a step goes from one await point or lock section to the
  next, so that concurrent submissions of one key, the workers and the shutdown interleave as the tasks do. An
  \<^verbatim>\<open>Arc<SharedResult>\<close>, a \<^verbatim>\<open>CancellationToken\<close> and an \<^verbatim>\<open>Arc<DeviceQueue>\<close> are numbers drawn from one counter. A submitted
  task runs to its end. The authorizer, the device catalog, the payload hash and the functions behind the audit
  summaries are an environment; clocks and the outcomes of journal, audit sink and precondition checker are arguments
  of the steps.
\<close>

section \<open>The device catalog\<close>

record device_info =
  di_enabled :: bool
  di_profile :: device_profile

type_synonym memory_catalog = "device_id \<rightharpoonup> device_info"

definition catalog_insert :: "device_id \<Rightarrow> device_info \<Rightarrow> memory_catalog \<Rightarrow> memory_catalog" where
  "catalog_insert d info c = c(d \<mapsto> info)"

definition insert_profile :: "device_id \<Rightarrow> device_profile \<Rightarrow> memory_catalog \<Rightarrow> memory_catalog" where
  "insert_profile d profile c = catalog_insert d \<lparr>di_enabled = True, di_profile = profile\<rparr> c"

definition insert_disabled :: "device_id \<Rightarrow> device_profile \<Rightarrow> memory_catalog \<Rightarrow> memory_catalog" where
  "insert_disabled d profile c = catalog_insert d \<lparr>di_enabled = False, di_profile = profile\<rparr> c"

section \<open>Environment and outcomes\<close>

record engine_env =
  ev_authorize :: "string \<Rightarrow> role \<Rightarrow> device_id \<Rightarrow> authorization_error + unit"
  ev_catalog :: "device_id \<Rightarrow> device_info option"
  ev_payload_hash :: "control_operation \<Rightarrow> string"
  ev_audit :: audit_env

record submission =
  sb_request :: control_request
  sb_subject :: string
  sb_source :: string

datatype submit_error = SE_Conflict journal_entry | SE_InvalidRequest string | SE_EngineClosed

datatype cancel_error = XE_NotFound | XE_EngineClosed | XE_Unauthorized string

datatype status_query = SQ_Unknown | SQ_Running | SQ_Settled control_result

datatype status_error = TE_Unauthorized string

text \<open>What \<^verbatim>\<open>submit\<close> returns: an error, a receipt that is ready, or a receipt that waits for a shared result.\<close>

datatype submit_outcome = SO_Error submit_error | SO_Ready control_result | SO_Pending nat

definition request_key :: "control_request \<Rightarrow> idempotency_key" where
  "request_key r = \<lparr>ik_namespace = rq_namespace r, ik_device_id = rq_device_id r, ik_request_id = rq_request_id r\<rparr>"

section \<open>Admission\<close>

text \<open>Steps 1 to 4 of \<^verbatim>\<open>submit\<close>: envelope, freshness, authorization, device.\<close>

datatype admission = AD_Error submit_error | AD_Refused string | AD_Admitted device_info

definition command_risk :: "engine_env \<Rightarrow> device_id \<Rightarrow> string \<Rightarrow> risk_level" where
  "command_risk env d command =
     (case ev_catalog env d of
        None \<Rightarrow> Risk_Critical
      | Some info \<Rightarrow> (case lookup_command (di_profile info) command of None \<Rightarrow> Risk_Critical | Some c \<Rightarrow> pcmd_risk_level c))"

definition submit_role :: "engine_env \<Rightarrow> control_policy \<Rightarrow> control_request \<Rightarrow> role" where
  "submit_role env policy r =
     (case rq_operation r of
        PropertyWrite _ \<Rightarrow> required_role policy OK_PropertyWrite
      | CommandExecute c \<Rightarrow> required_role policy (OK_Command (command_risk env (rq_device_id r) (cr_command c))))"

definition age_ms :: "timestamp_ns \<Rightarrow> timestamp_ns \<Rightarrow> int" where
  "age_ms later earlier = tdiv (sat_sub later earlier) 1000000"

definition admit :: "engine_env \<Rightarrow> control_policy \<Rightarrow> bool \<Rightarrow> timestamp_ns \<Rightarrow> submission \<Rightarrow> admission" where
  "admit env policy closed now sb =
     (let r = sb_request sb; max_age = as_i64 (max_request_age_ms policy) in
      if closed then AD_Error SE_EngineClosed
      else if rq_request_id r = [] then AD_Error (SE_InvalidRequest ''EMPTY_REQUEST_ID'')
      else if rq_timeout_ms r = 0 then AD_Error (SE_InvalidRequest ''INVALID_TIMEOUT'')
      else if max_age < age_ms now (rq_requested_at_ns r) then AD_Error (SE_InvalidRequest ''REQUEST_TOO_OLD'')
      else if max_age < age_ms (rq_requested_at_ns r) now then AD_Error (SE_InvalidRequest ''REQUEST_TOO_NEW'')
      else (case ev_authorize env (sb_subject sb) (submit_role env policy r) (rq_device_id r) of
              Inl (AuthorizationError code) \<Rightarrow> AD_Refused code
            | Inr _ \<Rightarrow>
                (case ev_catalog env (rq_device_id r) of
                   None \<Rightarrow> AD_Refused ''DEVICE_NOT_FOUND''
                 | Some info \<Rightarrow> if \<not> di_enabled info then AD_Refused ''DEVICE_DISABLED'' else AD_Admitted info)))"

section \<open>Results and audit\<close>

definition unexecuted_result :: "control_status \<Rightarrow> control_request \<Rightarrow> timestamp_ns \<Rightarrow> string \<Rightarrow> control_result" where
  "unexecuted_result status r now code =
     \<lparr>res_request_id = rq_request_id r, res_namespace = rq_namespace r, res_device_id = rq_device_id r,
      res_status = status, res_started_at_ns = None, res_completed_at_ns = Some now, res_result = None,
      res_error = Some (coded_error code)\<rparr>"

definition rejected_result :: "control_request \<Rightarrow> timestamp_ns \<Rightarrow> string \<Rightarrow> control_result" where
  "rejected_result = unexecuted_result CS_Rejected"

definition interrupted_result :: "control_request \<Rightarrow> timestamp_ns \<Rightarrow> string \<Rightarrow> control_result" where
  "interrupted_result = unexecuted_result CS_Indeterminate"

definition audit_meta_for :: "engine_env \<Rightarrow> control_request \<Rightarrow> risk_level option \<Rightarrow> timestamp_ns \<Rightarrow> audit_meta" where
  "audit_meta_for env r risk now =
     (let (target, parameters) = summarize_parameters (ev_audit env) (rq_operation r) in
      \<lparr>mt_operation = (case rq_operation r of PropertyWrite _ \<Rightarrow> AO_PropertyWrite | CommandExecute _ \<Rightarrow> AO_CommandExecute),
       mt_target = target, mt_parameters = parameters, mt_risk_level = risk, mt_queued_at_ns = now\<rparr>)"

definition reject_event :: "engine_env \<Rightarrow> submission \<Rightarrow> control_result \<Rightarrow> timestamp_ns \<Rightarrow> audit_event" where
  "reject_event env sb result now =
     (let r = sb_request sb; meta = audit_meta_for env r None now in
      build_event
        \<lparr>ac_user = sb_subject sb, ac_source = sb_source sb, ac_namespace = rq_namespace r,
         ac_device_id = rq_device_id r, ac_request_id = rq_request_id r\<rparr>
        (mt_operation meta) (mt_target meta) (mt_parameters meta) None
        \<lparr>ao_status = res_status result, ao_error_code = map_option ce_code (res_error result), ao_protocol_code = None,
         ao_duration_ms = 0, ao_occurred_at_ns = now\<rparr>)"

section \<open>State\<close>

text \<open>For whom a rejection is settled: nobody (\<^verbatim>\<open>reject_unregistered\<close>), the journal record alone
  (\<^verbatim>\<open>reject_orphan_record\<close>), the record and the shared result (\<^verbatim>\<open>reject_with_shared\<close>), or the branch of a closed queue.\<close>

datatype settle_for = SF_None | SF_Orphan | SF_Shared | SF_Closed

datatype act = A_Remove | A_Set control_result | A_Settled control_status

datatype task =
    TK_Start
  | TK_Register device_info
  | TK_Insert device_info string timestamp_ns timestamp_ns nat bool
  | TK_Decided device_info nat bool "journal_error + journal_decision"
  | TK_Prepare device_info nat
  | TK_Check validated_operation nat
  | TK_Deadline validated_operation nat
  | TK_Cooldown nat validated_operation nat nat audit_meta
  | TK_Push nat validated_operation nat nat audit_meta
  | TK_Pushed nat
  | TK_Reject settle_for string nat
  | TK_Closed nat
  | TK_Settle settle_for control_result nat
  | TK_Audit settle_for control_result nat
  | TK_Acts "act list" submit_outcome nat
  | TK_Done submit_outcome

record 'j engine =
  en_cx :: "'j engine_ctx"
  en_closed :: bool
  en_queues :: "device_id \<rightharpoonup> nat"
  en_devices :: "nat \<rightharpoonup> device"
  en_stopping :: "nat set"
  en_tasks :: "nat \<rightharpoonup> submission \<times> task"
  en_next :: nat

text \<open>\<^verbatim>\<open>ControlEngine::new\<close>: \<open>None\<close> is the panic on an invalid policy.\<close>

definition engine_new :: "control_policy \<Rightarrow> device_id list \<Rightarrow> 'j \<Rightarrow> 'j engine option" where
  "engine_new policy ids journal =
     (case policy_validate policy of
        Inl _ \<Rightarrow> None
      | Inr _ \<Rightarrow>
          Some \<lparr>en_cx =
                  \<lparr>cx_journal = journal, cx_active = Map.empty, cx_shared = Map.empty, cx_cancelled = {}, cx_sink = [],
                   cx_metrics =
                     \<lparr>mx_queue_depth = 0, mx_device_depth = (\<lambda>d. if d \<in> set ids then Some 0 else None),
                      mx_settled = (\<lambda>_. 0), mx_cooldown_entered = 0, mx_journal_settle_failed = 0\<rparr>,
                   cx_dispatched = []\<rparr>,
                en_closed = False, en_queues = Map.empty, en_devices = Map.empty, en_stopping = {},
                en_tasks = Map.empty, en_next = 0\<rparr>)"

definition get_or_create_queue :: "control_policy \<Rightarrow> device_id \<Rightarrow> 'j engine \<Rightarrow> nat \<times> 'j engine" where
  "get_or_create_queue policy d en =
     (case en_queues en d of
        Some q \<Rightarrow> (q, en)
      | None \<Rightarrow>
          (en_next en,
           en\<lparr>en_queues := (en_queues en)(d \<mapsto> en_next en),
              en_devices := (en_devices en)(en_next en \<mapsto> device_new (queue_capacity policy)),
              en_next := en_next en + 1\<rparr>))"


section \<open>Submission\<close>

text \<open>What the environment contributes to a step: a wall clock and a monotonic clock, the outcome of a disk write, of
  the bounded precondition check, of the bounded audit; or nothing.\<close>

datatype submit_choice =
    SC_Clock timestamp_ns nat
  | SC_Write write_outcome
  | SC_Check precondition_outcome
  | SC_Audit "record_attempt list" timestamp_ns
  | SC_Go

definition upd_cx :: "('j engine_ctx \<Rightarrow> 'j engine_ctx) \<Rightarrow> 'j engine \<Rightarrow> 'j engine" where
  "upd_cx f en = en\<lparr>en_cx := f (en_cx en)\<rparr>"

definition register_active :: "idempotency_key \<Rightarrow> 'j engine \<Rightarrow> (nat \<times> bool) \<times> 'j engine" where
  "register_active key en =
     (case cx_active (en_cx en) key of
        Some s \<Rightarrow> ((s, False), en)
      | None \<Rightarrow>
          ((en_next en, True),
           (upd_cx (\<lambda>cx. cx\<lparr>cx_active := (cx_active cx)(key \<mapsto> en_next en)\<rparr>) en)\<lparr>en_next := en_next en + 1\<rparr>))"

text \<open>The match on the decision of the journal.\<close>

definition decide ::
  "control_request \<Rightarrow> timestamp_ns \<Rightarrow> device_info \<Rightarrow> nat \<Rightarrow> bool \<Rightarrow> journal_error + journal_decision \<Rightarrow> task" where
  "decide r now info s fresh d =
     (case d of
        Inl _ \<Rightarrow> TK_Reject (if fresh then SF_Shared else SF_None) ''JOURNAL_UNAVAILABLE'' s
      | Inr (Duplicate entry) \<Rightarrow>
          (case je_result entry of
             Some result \<Rightarrow> TK_Acts (if fresh then [A_Remove] else []) (SO_Ready result) s
           | None \<Rightarrow>
               if je_status entry = CS_Running \<and> \<not> fresh then TK_Done (SO_Pending s)
               else let result = interrupted_result r now ''EXECUTION_INTERRUPTED'' in
                    TK_Acts (if fresh then [A_Set result, A_Remove] else []) (SO_Ready result) s)
      | Inr (Conflict existing) \<Rightarrow> TK_Acts (if fresh then [A_Remove] else []) (SO_Error (SE_Conflict existing)) s
      | Inr Inserted \<Rightarrow> if fresh then TK_Prepare info s else TK_Reject SF_Orphan ''IDEMPOTENCY_RACE'' s)"

text \<open>Validation, and whether the preconditions are to be checked.\<close>

definition prepare :: "control_policy \<Rightarrow> control_request \<Rightarrow> device_info \<Rightarrow> nat \<Rightarrow> task" where
  "prepare policy r info s =
     (case rq_operation r of
        PropertyWrite items \<Rightarrow>
          (case validate_property_write (di_profile info) items of
             Inl e \<Rightarrow> TK_Reject SF_Shared (validation_code e) s
           | Inr op \<Rightarrow> TK_Deadline op s)
      | CommandExecute c \<Rightarrow>
          (case validate_command (di_profile info) c of
             Inl e \<Rightarrow> TK_Reject SF_Shared (validation_code e) s
           | Inr op \<Rightarrow>
               if \<not> needs_check op then TK_Deadline op s
               else if \<not> precondition_checker policy then TK_Reject SF_Shared ''PRECONDITION_UNCONFIGURED'' s
               else TK_Check op s))"

definition submit_entry :: "submission \<Rightarrow> validated_operation \<Rightarrow> nat \<Rightarrow> nat \<Rightarrow> audit_meta \<Rightarrow> nat \<Rightarrow> queued_entry" where
  "submit_entry sb op s deadline meta token =
     \<lparr>qe_key = request_key (sb_request sb), qe_operation = op, qe_subject = sb_subject sb, qe_source = sb_source sb,
      qe_deadline = deadline, qe_cancel = token, qe_reply = s, qe_audit_meta = meta\<rparr>"

text \<open>The last call of \<^verbatim>\<open>submit\<close>: the entry goes to the queue.\<close>

definition push :: "control_policy \<Rightarrow> submission \<Rightarrow> nat \<Rightarrow> validated_operation \<Rightarrow> nat \<Rightarrow> nat \<Rightarrow> audit_meta \<Rightarrow> 'j engine
    \<Rightarrow> (task \<times> 'j engine) option" where
  "push policy sb q op s deadline meta en =
     (case en_devices en q of
        None \<Rightarrow> None
      | Some dv \<Rightarrow>
          (case device_enqueue policy (en_closed en) (submit_entry sb op s deadline meta (en_next en)) (dv, en_cx en) of
             Inr (dv', cx') \<Rightarrow>
               Some (TK_Pushed s,
                 en\<lparr>en_cx := cx', en_devices := (en_devices en)(q \<mapsto> dv'), en_next := en_next en + 1\<rparr>)
           | Inl (EE_Full _) \<Rightarrow> Some (TK_Reject SF_Shared ''QUEUE_FULL'' s, en)
           | Inl EE_Closed \<Rightarrow> Some (TK_Closed s, en)))"

text \<open>The journal part of a rejection. A failed write degrades the answer, except in the branch of a closed queue, whose
  answer is indeterminate already.\<close>

definition settle_rejection ::
  "'j journal_api \<Rightarrow> write_outcome \<Rightarrow> settle_for \<Rightarrow> idempotency_key \<Rightarrow> control_result \<Rightarrow> 'j engine_ctx
     \<Rightarrow> control_result \<times> 'j engine_ctx" where
  "settle_rejection api w sf key result cx =
     (let (r, cx') = settle_journal api (SI_Write w) key result cx in (if sf = SF_Closed then result else r, cx'))"

fun perform :: "idempotency_key \<Rightarrow> nat \<Rightarrow> act \<Rightarrow> 'j engine_ctx \<Rightarrow> 'j engine_ctx" where
  "perform key s A_Remove cx = remove_active key cx"
| "perform key s (A_Set result) cx = set_shared s result cx"
| "perform key s (A_Settled status) cx = cx\<lparr>cx_metrics := observe_settled status (cx_metrics cx)\<rparr>"

fun submit_step ::
  "engine_env \<Rightarrow> control_policy \<Rightarrow> 'j journal_api \<Rightarrow> submission \<Rightarrow> submit_choice \<Rightarrow> task \<Rightarrow> 'j engine
     \<Rightarrow> (task \<times> 'j engine) option" where
  "submit_step env policy api sb choice TK_Start en =
     (case choice of
        SC_Clock now t \<Rightarrow>
          (case admit env policy (en_closed en) now sb of
              AD_Error e \<Rightarrow> Some (TK_Done (SO_Error e), en)
            | AD_Refused code \<Rightarrow> Some (TK_Reject SF_None code 0, en)
            | AD_Admitted info \<Rightarrow> Some (TK_Register info, en))
      | _ \<Rightarrow> None)"
| "submit_step env policy api sb choice (TK_Register info) en =
     (case choice of
        SC_Clock now t \<Rightarrow>
          (let ((s, fresh), en') = register_active (request_key (sb_request sb)) en;
                expires = sat_add now (min (int (idempotency_retention policy)) (2 ^ 63 - 1))
            in Some (TK_Insert info (ev_payload_hash env (rq_operation (sb_request sb))) now expires s fresh, en'))
      | _ \<Rightarrow> None)"
| "submit_step env policy api sb choice (TK_Insert info hash now expires s fresh) en =
     (case choice of
        SC_Write w \<Rightarrow>
          (let (d, j) = ja_try_insert api w (request_key (sb_request sb)) hash now expires (cx_journal (en_cx en)) in
            Some (TK_Decided info s fresh d, upd_cx (\<lambda>cx. cx\<lparr>cx_journal := j\<rparr>) en))
      | _ \<Rightarrow> None)"
| "submit_step env policy api sb choice (TK_Decided info s fresh d) en =
     (case choice of
        SC_Clock now t \<Rightarrow>
          Some (decide (sb_request sb) now info s fresh d, en)
      | _ \<Rightarrow> None)"
| "submit_step env policy api sb choice (TK_Prepare info s) en =
     (case choice of
        SC_Go \<Rightarrow>
          Some (prepare policy (sb_request sb) info s, en)
      | _ \<Rightarrow> None)"
| "submit_step env policy api sb choice (TK_Check op s) en =
     (case choice of
        SC_Check outcome \<Rightarrow>
          (if outcome = PO_Unconfigured then None
            else case precondition_failure outcome of
              Some e \<Rightarrow> Some (TK_Reject SF_Shared (ce_code e) s, en)
            | None \<Rightarrow> Some (TK_Deadline op s, en))
      | _ \<Rightarrow> None)"
| "submit_step env policy api sb choice (TK_Deadline op s) en =
     (case choice of
        SC_Clock now t \<Rightarrow>
          (let r = sb_request sb;
                deadline = t + effective_timeout_ms policy (op_kind op) (rq_timeout_ms r) * 1000000;
                (q, en') = get_or_create_queue policy (rq_device_id r) en
            in Some (TK_Cooldown q op s deadline (audit_meta_for env r (op_risk_level op) now), en'))
      | _ \<Rightarrow> None)"
| "submit_step env policy api sb choice (TK_Cooldown q op s deadline meta) en =
     (case choice of
        SC_Clock now t \<Rightarrow>
          (case en_devices en q of
              None \<Rightarrow> None
            | Some dv \<Rightarrow>
                if in_cooldown t (dv_queue dv) then Some (TK_Reject SF_Shared ''DEVICE_COOLDOWN'' s, en)
                else Some (TK_Push q op s deadline meta, en))
      | _ \<Rightarrow> None)"
| "submit_step env policy api sb choice (TK_Push q op s deadline meta) en =
     (case choice of
        SC_Go \<Rightarrow>
          push policy sb q op s deadline meta en
      | _ \<Rightarrow> None)"
| "submit_step env policy api sb choice (TK_Pushed s) en =
     (case choice of
        SC_Go \<Rightarrow>
          Some (TK_Acts (if cx_shared (en_cx en) s \<noteq> None then [A_Remove] else []) (SO_Pending s) s, en)
      | _ \<Rightarrow> None)"
| "submit_step env policy api sb choice (TK_Reject sf code s) en =
     (case choice of
        SC_Clock now t \<Rightarrow>
          (let result = rejected_result (sb_request sb) now code in
            Some (if sf = SF_None then TK_Audit sf result s else TK_Settle sf result s, en))
      | _ \<Rightarrow> None)"
| "submit_step env policy api sb choice (TK_Closed s) en =
     (case choice of
        SC_Clock now t \<Rightarrow>
          Some (TK_Settle SF_Closed (interrupted_result (sb_request sb) now ''QUEUE_CLOSED'') s, en)
      | _ \<Rightarrow> None)"
| "submit_step env policy api sb choice (TK_Settle sf result s) en =
     (case choice of
        SC_Write w \<Rightarrow>
          (let (r, cx) = settle_rejection api w sf (request_key (sb_request sb)) result (en_cx en) in
            Some (if sf = SF_Closed then TK_Acts [A_Remove, A_Settled CS_Indeterminate, A_Set r] (SO_Error SE_EngineClosed) s
                  else TK_Audit sf r s, en\<lparr>en_cx := cx\<rparr>))
      | _ \<Rightarrow> None)"
| "submit_step env policy api sb choice (TK_Audit sf result s) en =
     (case choice of
        SC_Audit attempts now \<Rightarrow>
          Some (TK_Acts (A_Settled (res_status result) # (if sf = SF_Shared then [A_Remove, A_Set result] else [])) (SO_Ready result) s,
                 upd_cx (\<lambda>cx. cx\<lparr>cx_sink := snd (record_bounded attempts (reject_event env sb result now) (cx_sink cx))\<rparr>) en)
      | _ \<Rightarrow> None)"
| "submit_step env policy api sb choice (TK_Acts [] outcome s) en =
     (case choice of
        SC_Go \<Rightarrow>
          Some (TK_Done outcome, en)
      | _ \<Rightarrow> None)"
| "submit_step env policy api sb choice (TK_Acts (a # as) outcome s) en =
     (case choice of
        SC_Go \<Rightarrow>
          Some (TK_Acts as outcome s, upd_cx (perform (request_key (sb_request sb)) s a) en)
      | _ \<Rightarrow> None)"
| "submit_step env policy api sb choice (TK_Done outcome) en = None"

declare submit_step.simps [simp del]

section \<open>Cancellation, status and shutdown\<close>

definition engine_cancel ::
  "engine_env \<Rightarrow> control_policy \<Rightarrow> idempotency_key \<Rightarrow> string \<Rightarrow> 'j engine \<Rightarrow> (cancel_error + unit) \<times> 'j engine" where
  "engine_cancel env policy key subject en =
     (if en_closed en then (Inl XE_EngineClosed, en)
      else case Option.bind (en_queues en (ik_device_id key)) (en_devices en) of
        None \<Rightarrow> (Inl XE_NotFound, en)
      | Some dv \<Rightarrow>
          (case peek_kind key (dv_queue dv) of
             None \<Rightarrow> (Inl XE_NotFound, en)
           | Some kind \<Rightarrow>
               (case ev_authorize env subject (required_role policy kind) (ik_device_id key) of
                  Inl (AuthorizationError code) \<Rightarrow> (Inl (XE_Unauthorized code), en)
                | Inr _ \<Rightarrow>
                    (case queue_cancel key (dv_queue dv) (en_cx en) of
                       (CO_Marked, cx) \<Rightarrow> (Inr (), en\<lparr>en_cx := cx\<rparr>)
                     | (CO_NotFound, cx) \<Rightarrow> (Inl XE_NotFound, en\<lparr>en_cx := cx\<rparr>)
                     | (CO_Closed, cx) \<Rightarrow> (Inl XE_EngineClosed, en\<lparr>en_cx := cx\<rparr>)))))"

definition engine_status ::
  "engine_env \<Rightarrow> control_policy \<Rightarrow> 'j journal_api \<Rightarrow> compact_outcome \<Rightarrow> timestamp_ns \<Rightarrow> idempotency_key \<Rightarrow> string \<Rightarrow> 'j engine
     \<Rightarrow> (status_error + status_query) \<times> 'j engine" where
  "engine_status env policy api co now key subject en =
     (case ev_authorize env subject (control_status_required_role policy) (ik_device_id key) of
        Inl (AuthorizationError code) \<Rightarrow> (Inl (TE_Unauthorized code), en)
      | Inr _ \<Rightarrow>
          (let (n, j) = ja_purge_expired api co now (cx_journal (en_cx en));
               en' = upd_cx (\<lambda>cx. cx\<lparr>cx_journal := j\<rparr>) en in
           (Inr (case ja_get api key j of
                   Some entry \<Rightarrow> (case je_result entry of Some r \<Rightarrow> SQ_Settled r | None \<Rightarrow> SQ_Running)
                 | None \<Rightarrow> if cx_active (en_cx en) key \<noteq> None then SQ_Running else SQ_Unknown), en')))"

text \<open>\<^verbatim>\<open>shutdown\<close> closes the engine, takes the queues out of the map, and closes and joins each of them.\<close>

definition shutdown_close :: "'j engine \<Rightarrow> 'j engine" where
  "shutdown_close en = en\<lparr>en_closed := True\<rparr>"

definition shutdown_take :: "'j engine \<Rightarrow> 'j engine" where
  "shutdown_take en = en\<lparr>en_stopping := en_stopping en \<union> ran (en_queues en), en_queues := Map.empty\<rparr>"

definition shutdown_queue :: "nat \<Rightarrow> 'j engine \<Rightarrow> 'j engine option" where
  "shutdown_queue q en =
     (case en_devices en q of
        None \<Rightarrow> None
      | Some dv \<Rightarrow>
          if q \<in> en_stopping en \<and> dv_join dv = J_None then
            Some (en\<lparr>en_devices := (en_devices en)(q \<mapsto> dv\<lparr>dv_queue := queue_shutdown (dv_queue dv), dv_join := J_Waiting\<rparr>)\<rparr>)
          else None)"

end
