(* ===== verification/Control_System.thy ===== *)
theory Control_System
  imports Control_Engine
begin

text \<open>
  The control engine as one transition system: any number of concurrent submissions, the devices with their workers,
  cancellation, status queries and shutdown. Every device of the engine runs as the device system of
  \<open>Control_Worker\<close> allows, so that what is proved there of one device holds of the whole engine; and under one key at
  most one action is ever handed to the executor while the journal keeps the registration.
\<close>

section \<open>What the tasks of one device touch\<close>

definition settles :: "'j journal_api \<Rightarrow> 'j \<Rightarrow> 'j \<Rightarrow> bool" where
  "settles api j j' \<longleftrightarrow> j' = j \<or> (\<exists>w k r. j' = snd (ja_settle api w k r j))"

definition own_frame :: "'j journal_api \<Rightarrow> device \<times> 'j engine_ctx \<Rightarrow> device \<times> 'j engine_ctx \<Rightarrow> bool" where
  "own_frame api = (\<lambda>(dv, cx) (dv', cx').
     dv_ids dv' = dv_ids dv \<and> device_entries dv' \<subseteq> device_entries dv \<and>
     (\<forall>s. s \<notin> qe_reply ` device_entries dv \<longrightarrow> cx_shared cx' s = cx_shared cx s) \<and>
     (cx_dispatched cx' = cx_dispatched cx \<or>
      (\<exists>e\<in>device_entries dv. qe_reply e \<in> set (live_ids dv) \<and>
         cx_dispatched cx' = cx_dispatched cx @ [(qe_key e, qe_reply e)])) \<and>
     settles api (cx_journal cx) (cx_journal cx'))"

lemma settles_refl [simp]: "settles api j j"
  by (simp add: settles_def)

lemma settles_settle [simp]: "settles api j (snd (ja_settle api w k r j))"
  by (auto simp: settles_def)

lemma settle_begin_settles:
  assumes "settle_begin api io t e run cx = (r, cx')"
  shows "settles api (cx_journal cx) (cx_journal cx')"
proof -
  have "settles api (cx_journal cx) (cx_journal cx')"
    if "settle_journal api io key res cx = (r, cx')" for key res and cx :: "'a engine_ctx"
    using that by (cases "(api, io, key, res, cx)" rule: settle_journal.cases)
      (auto split: prod.splits sum.splits dest!: arg_cong[where f = snd])
  from this[OF assms[unfolded settle_begin_def]] show ?thesis by simp
qed

lemma own_frame_plain:
  assumes "dv_ids dv' = dv_ids dv" "device_entries dv' \<subseteq> device_entries dv" "cx_shared cx' = cx_shared cx"
    "cx_dispatched cx' = cx_dispatched cx" "settles api (cx_journal cx) (cx_journal cx')"
  shows "own_frame api (dv, cx) (dv', cx')"
  using assms by (simp add: own_frame_def)

lemma after_run_frame:
  assumes "pc_entries (dv_pc dv) = {e}" "after_run policy t e run (dv, cx) = (dv', cx')"
  shows "own_frame api (dv, cx) (dv', cx')"
proof -
  have "dv_pc dv' = PC_Settle e run K_Running" "dv_join dv' = dv_join dv" "dv_ids dv' = dv_ids dv"
      "all_entries (dv_queue dv') = all_entries (dv_queue dv)" "qi_draining (dv_queue dv') = qi_draining (dv_queue dv)"
      "qi_running (dv_queue dv') = qi_running (dv_queue dv)"
      "cx_shared cx' = cx_shared cx" "cx_dispatched cx' = cx_dispatched cx" "cx_journal cx' = cx_journal cx"
    using assms(2) by (auto simp: after_run_def split: if_splits)
  with assms(1) show ?thesis
    by (intro own_frame_plain) (simp_all add: device_entries_def, auto simp: pc_entries_def)
qed

lemma phase_a_entries:
  assumes "phase_a c (dv_queue dv) = (p, q)"
  shows "device_entries (dv\<lparr>dv_queue := q, dv_pc := p\<rparr>) \<subseteq> device_entries dv"
proof -
  define q1 where "q1 = close_and_move c (dv_queue dv)"
  have q: "all_entries q = all_entries q1" "set (qi_draining q) = set (qi_draining q1)" "qi_running q = qi_running (dv_queue dv)"
    using assms by (auto simp: phase_a_def q1_def[symmetric] track_def Let_def split: if_splits list.splits)
      (auto simp: q1_def)
  have p: "pc_entries p \<subseteq> set (qi_draining q1)"
    using assms by (auto simp: phase_a_def q1_def[symmetric] Let_def pc_entries_def split: if_splits list.splits)
  have "set (all_entries q1) \<union> set (qi_draining q1) \<subseteq> set (all_entries (dv_queue dv)) \<union> set (qi_draining (dv_queue dv))"
    unfolding q1_def by (cases rule: close_and_move_cases[of c "dv_queue dv"]) auto
  with p q show ?thesis by (auto simp: device_entries_def)
qed

lemma worker_frame:
  assumes "worker_rel policy api c (dv, cx) (dv', cx')" and inv: "truthful_inv c dv cx"
  shows "own_frame api (dv, cx) (dv', cx')"
  using assms(1)
proof cases
  case (r_start os q)
  have "qi_running (dv_queue dv) = None" "qi_draining (dv_queue dv) = []"
    using truthful_clean[OF inv] r_start(3) by (simp_all add: clean_def)
  with r_start show ?thesis by (intro own_frame_plain) (auto simp: adopt_def device_entries_def pc_entries_def)
next
  case r_adopt_done
  then show ?thesis by (intro own_frame_plain) (auto simp: device_entries_def pc_entries_def)
next
  case (r_adopt_skip e run rest)
  then show ?thesis using truthful_clean[OF inv] by (simp add: clean_def)
next
  case (r_adopt e run rest)
  then show ?thesis using truthful_clean[OF inv] by (simp add: clean_def)
next
  case (r_drain p q)
  then show ?thesis using phase_a_entries[OF r_drain(4)] by (intro own_frame_plain) auto
next
  case (r_pick_none t now q)
  then show ?thesis by (intro own_frame_plain) (auto simp: device_entries_def pc_entries_def dest!: pick_NoneD)
next
  case (r_pick t now e k q)
  note pk = pick_SomeD[OF r_pick(4)]
  have "set (all_entries (dv_queue dv)) = insert e (set (all_entries q))"
    using arg_cong[OF pk(1), of set_mset] by simp
  with r_pick pk show ?thesis by (intro own_frame_plain) (auto simp: device_entries_def pc_entries_def)
next
  case r_wake
  then show ?thesis by (intro own_frame_plain) (auto simp: device_entries_def pc_entries_def)
next
  case (r_picked e k p q)
  then show ?thesis
    by (intro own_frame_plain; cases k) (auto simp: device_entries_def pc_entries_def track_def)
next
  case (r_not_started e run t)
  then show ?thesis using after_run_frame[of dv e policy t run cx dv' cx'] by (auto simp: pc_entries_def)
next
  case (r_poll e)
  then show ?thesis by (intro own_frame_plain) (auto simp: device_entries_def pc_entries_def)
next
  case (r_checked e o')
  then show ?thesis by (intro own_frame_plain) (auto simp: device_entries_def pc_entries_def)
next
  case (r_dispatch e)
  then have "e \<in> device_entries dv" "qe_reply e \<in> set (live_ids dv)"
    by (auto simp: device_entries_def pc_entries_def live_ids_def)
  with r_dispatch show ?thesis by (auto simp: own_frame_def device_entries_def pc_entries_def)
next
  case (r_executor_panic e base wo eo)
  then show ?thesis by (intro own_frame_plain) (auto simp: device_entries_def pc_entries_def)
next
  case (r_ran e checked run t)
  then show ?thesis using after_run_frame[of dv e policy t run cx dv' cx'] by (auto simp: pc_entries_def)
next
  case (r_settle e run k io completed r)
  note f = settle_begin_frame[OF r_settle(3)] settle_begin_settles[OF r_settle(3)]
  with r_settle show ?thesis by (intro own_frame_plain) (auto simp: device_entries_def pc_entries_def)
next
  case (r_tracked e r completed rest attempts)
  have "set (qi_draining (untrack cx' (dv_queue dv))) \<subseteq> set (qi_draining (dv_queue dv))"
    by (auto simp: untrack_def dest: set_dropWhileD)
  with r_tracked show ?thesis by (auto simp: own_frame_def device_entries_def pc_entries_def untrack_def)
next
  case (r_finished e r completed attempts)
  then show ?thesis by (auto simp: own_frame_def device_entries_def pc_entries_def)
qed

lemma join_frame:
  assumes "join_step api choice (dv, cx) = Some (dv', cx')"
  shows "own_frame api (dv, cx) (dv', cx')"
proof (cases "dv_join dv")
  case J_Waiting
  with assms show ?thesis
    by (intro own_frame_plain)
      (auto simp: join_step.simps device_entries_def join_entries_def split: join_choice.splits if_splits)
next
  case J_Abandon
  then obtain es q where ab: "abandon (dv_queue dv) = (es, q)" "dv' = dv\<lparr>dv_queue := q, dv_join := J_Settling es\<rparr>" "cx' = cx"
    using assms by (cases choice) (auto simp: join_step.simps split: prod.splits)
  have "fst ` set es = set_option (qi_running (dv_queue dv)) \<union> set (all_entries (dv_queue dv)) \<union> set (qi_draining (dv_queue dv))"
    using ab(1) by (auto simp: abandon_def image_Un image_image split: option.splits)
  with ab show ?thesis
    by (intro own_frame_plain) (auto simp: device_entries_def join_entries_def abandon_def)
next
  case (J_Settling es)
  show ?thesis
  proof (cases es)
    case Nil
    with J_Settling assms show ?thesis
      by (intro own_frame_plain) (auto simp: join_step.simps device_entries_def join_entries_def split: join_choice.splits)
  next
    case (Cons x rest)
    then obtain e run io audit t where c: "es = (e, run) # rest" and dv': "dv' = dv\<lparr>dv_join := J_Settling rest\<rparr>"
        and cx': "cx' = (if is_set cx e then cx else settle_entry api io audit t e run cx)"
      using J_Settling assms by (cases x; cases choice) (auto simp: join_step.simps)
    obtain r cx1 where b: "settle_begin api io t e run cx = (r, cx1)" by (cases "settle_begin api io t e run cx")
    have "e \<in> device_entries dv" using J_Settling c by (auto simp: device_entries_def join_entries_def)
    moreover have "device_entries dv' \<subseteq> device_entries dv"
      using J_Settling c dv' by (auto simp: device_entries_def join_entries_def)
    ultimately show ?thesis
      using cx' dv' settle_begin_frame[OF b] settle_begin_settles[OF b]
      by (auto simp: own_frame_def settle_entry_def b)
  qed
qed (use assms in \<open>auto simp: join_step.simps\<close>)

lemma kill_frame: "own_frame api (dv, cx) (dv\<lparr>dv_pc := PC_Dead\<rparr>, kill_journal api w (dv_pc dv) cx)"
proof (rule own_frame_plain)
  show "settles api (cx_journal cx) (cx_journal (kill_journal api w (dv_pc dv) cx))"
    by (cases "(api, w, dv_pc dv, cx)" rule: kill_journal.cases)
      (auto intro: settle_begin_settles[OF prod.collapse[symmetric]])
qed (auto simp: device_entries_def pc_entries_def)


section \<open>The transition system\<close>

definition set_device :: "nat \<Rightarrow> device \<Rightarrow> 'j engine_ctx \<Rightarrow> 'j engine \<Rightarrow> 'j engine" where
  "set_device q dv cx en = en\<lparr>en_cx := cx, en_devices := (en_devices en)(q \<mapsto> dv)\<rparr>"

definition set_task :: "nat \<Rightarrow> submission \<Rightarrow> task \<Rightarrow> 'j engine \<Rightarrow> 'j engine" where
  "set_task i sb tk en = en\<lparr>en_tasks := (en_tasks en)(i \<mapsto> (sb, tk))\<rparr>"

lemma set_task_simps [simp]:
  "en_cx (set_task i sb tk en) = en_cx en" "en_closed (set_task i sb tk en) = en_closed en"
  "en_devices (set_task i sb tk en) = en_devices en" "en_next (set_task i sb tk en) = en_next en"
  "en_queues (set_task i sb tk en) = en_queues en" "en_stopping (set_task i sb tk en) = en_stopping en"
  "en_tasks (set_task i sb tk en) = (en_tasks en)(i \<mapsto> (sb, tk))"
  by (simp_all add: set_task_def)

lemma set_device_simps [simp]:
  "en_cx (set_device q dv cx en) = cx" "en_closed (set_device q dv cx en) = en_closed en"
  "en_devices (set_device q dv cx en) = (en_devices en)(q \<mapsto> dv)" "en_next (set_device q dv cx en) = en_next en"
  "en_queues (set_device q dv cx en) = en_queues en" "en_stopping (set_device q dv cx en) = en_stopping en"
  "en_tasks (set_device q dv cx en) = en_tasks en"
  by (simp_all add: set_device_def)

text \<open>The clock with which the next step of a task asks the journal.\<close>

fun journal_clock :: "task \<Rightarrow> timestamp_ns option" where
  "journal_clock (TK_Insert _ _ now _ _ _) = Some now"
| "journal_clock _ = None"

text \<open>A step is labelled with the clock handed to the journal, if any.\<close>

inductive engine_step ::
  "engine_env \<Rightarrow> control_policy \<Rightarrow> 'j journal_api \<Rightarrow> bool \<Rightarrow> timestamp_ns option \<Rightarrow> 'j engine \<Rightarrow> 'j engine \<Rightarrow> bool"
  for env policy api panics where
  e_submit: "en_tasks en i = None \<Longrightarrow> engine_step env policy api panics None en (set_task i sb TK_Start en)"
| e_task: "en_tasks en i = Some (sb, tk) \<Longrightarrow> submit_step env policy api sb choice tk en = Some (tk', en') \<Longrightarrow>
    engine_step env policy api panics (journal_clock tk) en (set_task i sb tk' en')"
| e_worker: "en_devices en q = Some dv \<Longrightarrow> worker_step policy api (en_closed en) choice (dv, en_cx en) = Some (dv', cx') \<Longrightarrow>
    engine_step env policy api panics None en (set_device q dv' cx' en)"
| e_join: "en_devices en q = Some dv \<Longrightarrow> join_step api choice (dv, en_cx en) = Some (dv', cx') \<Longrightarrow>
    engine_step env policy api panics None en (set_device q dv' cx' en)"
| e_kill: "en_devices en q = Some dv \<Longrightarrow> dv_aborted dv \<Longrightarrow> at_await (dv_pc dv) \<Longrightarrow>
    engine_step env policy api panics None en
      (set_device q (dv\<lparr>dv_pc := PC_Dead\<rparr>) (kill_journal api w (dv_pc dv) (en_cx en)) en)"
| e_panic: "en_devices en q = Some dv \<Longrightarrow> panics \<Longrightarrow> may_panic (dv_pc dv) \<Longrightarrow>
    engine_step env policy api panics None en
      (set_device q (dv\<lparr>dv_pc := PC_Dead\<rparr>) (kill_journal api w (dv_pc dv) (en_cx en)) en)"
| e_respawn: "en_devices en q = Some dv \<Longrightarrow> \<not> en_closed en \<Longrightarrow> dv_pc dv = PC_Dead \<Longrightarrow>
    engine_step env policy api panics None en (set_device q (ensure_worker dv) (en_cx en) en)"
| e_cancel: "engine_cancel env policy key subject en = (res, en') \<Longrightarrow> engine_step env policy api panics None en en'"
| e_status: "engine_status env policy api co now key subject en = (res, en') \<Longrightarrow>
    engine_step env policy api panics (Some now) en en'"
| e_close: "engine_step env policy api panics None en (shutdown_close en)"
| e_take: "en_closed en \<Longrightarrow> engine_step env policy api panics None en (shutdown_take en)"
| e_stop: "en_closed en \<Longrightarrow> shutdown_queue q en = Some en' \<Longrightarrow> engine_step env policy api panics None en en'"

text \<open>The states reached by steps whose clocks the predicate \<open>P\<close> allows for the journal they meet.\<close>

inductive engine_reach ::
  "engine_env \<Rightarrow> control_policy \<Rightarrow> 'j journal_api \<Rightarrow> bool \<Rightarrow> (timestamp_ns \<Rightarrow> 'j \<Rightarrow> bool) \<Rightarrow> 'j \<Rightarrow> 'j engine \<Rightarrow> bool"
  for env policy api panics P j where
  g_init: "engine_new policy ids j = Some en \<Longrightarrow> engine_reach env policy api panics P j en"
| g_step: "engine_reach env policy api panics P j en \<Longrightarrow> engine_step env policy api panics clk en en' \<Longrightarrow>
    (case clk of None \<Rightarrow> True | Some t \<Rightarrow> P t (cx_journal (en_cx en))) \<Longrightarrow>
    engine_reach env policy api panics P j en'"

section \<open>Ownership\<close>

text \<open>The shared result a task may still write: that of a registration it made itself.\<close>

fun owned :: "task \<Rightarrow> nat option" where
  "owned (TK_Insert _ _ _ _ s fresh) = (if fresh then Some s else None)"
| "owned (TK_Decided _ s fresh _) = (if fresh then Some s else None)"
| "owned (TK_Prepare _ s) = Some s"
| "owned (TK_Check _ s) = Some s"
| "owned (TK_Deadline _ s) = Some s"
| "owned (TK_Cooldown _ _ s _ _) = Some s"
| "owned (TK_Push _ _ s _ _) = Some s"
| "owned (TK_Closed s) = Some s"
| "owned (TK_Reject sf _ s) = (if sf \<in> {SF_Shared, SF_Closed} then Some s else None)"
| "owned (TK_Settle sf _ s) = (if sf \<in> {SF_Shared, SF_Closed} then Some s else None)"
| "owned (TK_Audit sf _ s) = (if sf = SF_Shared then Some s else None)"
| "owned (TK_Acts as _ s) = (if \<exists>r. A_Set r \<in> set as then Some s else None)"
| "owned _ = None"

fun is_acts :: "task \<Rightarrow> bool" where
  "is_acts (TK_Acts _ _ _) = True"
| "is_acts _ = False"

fun task_ops :: "task \<Rightarrow> validated_operation set" where
  "task_ops (TK_Check op _) = {op}"
| "task_ops (TK_Deadline op _) = {op}"
| "task_ops (TK_Cooldown _ op _ _ _) = {op}"
| "task_ops (TK_Push _ op _ _ _) = {op}"
| "task_ops _ = {}"

definition all_ids :: "'j engine \<Rightarrow> nat set" where
  "all_ids en = (\<Union>dv\<in>ran (en_devices en). dv_ids dv)"

definition task_ok :: "'j engine \<Rightarrow> task \<Rightarrow> bool" where
  "task_ok en tk \<longleftrightarrow>
     (\<forall>s. owned tk = Some s \<longrightarrow> s < en_next en \<and> s \<notin> all_ids en \<and> (\<not> is_acts tk \<longrightarrow> cx_shared (en_cx en) s = None)) \<and>
     (\<forall>op\<in>task_ops tk. op_wf op)"

definition tasks_inv :: "'j engine \<Rightarrow> bool" where
  "tasks_inv en \<longleftrightarrow>
     (\<forall>i sb tk. en_tasks en i = Some (sb, tk) \<longrightarrow> task_ok en tk) \<and>
     (\<forall>i j sb tk sb' tk' s. en_tasks en i = Some (sb, tk) \<longrightarrow> en_tasks en j = Some (sb', tk') \<longrightarrow>
        owned tk = Some s \<longrightarrow> owned tk' = Some s \<longrightarrow> i = j)"

definition devices_inv :: "control_policy \<Rightarrow> 'j journal_api \<Rightarrow> 'j engine \<Rightarrow> bool" where
  "devices_inv policy api en \<longleftrightarrow>
     (\<forall>q dv. en_devices en q = Some dv \<longrightarrow> q < en_next en \<and> dv_ids dv \<subseteq> {..<en_next en} \<and>
        device_reach policy api False (en_closed en, dv, en_cx en)) \<and>
     (\<forall>q q' dv dv'. en_devices en q = Some dv \<longrightarrow> en_devices en q' = Some dv' \<longrightarrow> q \<noteq> q' \<longrightarrow> dv_ids dv \<inter> dv_ids dv' = {}) \<and>
     dispatched_ids (en_cx en) \<subseteq> all_ids en \<and>
     (\<forall>s. cx_shared (en_cx en) s \<noteq> None \<longrightarrow> s < en_next en)"

lemma devices_invD:
  assumes "devices_inv policy api en"
  shows "en_devices en q = Some dv \<Longrightarrow> q < en_next en"
    and "en_devices en q = Some dv \<Longrightarrow> s \<in> dv_ids dv \<Longrightarrow> s < en_next en"
    and "en_devices en q = Some dv \<Longrightarrow> device_reach policy api False (en_closed en, dv, en_cx en)"
    and "en_devices en q = Some dv \<Longrightarrow> en_devices en q' = Some dv' \<Longrightarrow> q \<noteq> q' \<Longrightarrow> dv_ids dv \<inter> dv_ids dv' = {}"
    and "dispatched_ids (en_cx en) \<subseteq> all_ids en"
    and "cx_shared (en_cx en) s \<noteq> None \<Longrightarrow> s < en_next en"
  using assms unfolding devices_inv_def by blast+

lemma devices_invI:
  assumes "\<And>q dv. en_devices en q = Some dv \<Longrightarrow> q < en_next en"
    and "\<And>q dv s. en_devices en q = Some dv \<Longrightarrow> s \<in> dv_ids dv \<Longrightarrow> s < en_next en"
    and "\<And>q dv. en_devices en q = Some dv \<Longrightarrow> device_reach policy api False (en_closed en, dv, en_cx en)"
    and "\<And>q q' dv dv'. en_devices en q = Some dv \<Longrightarrow> en_devices en q' = Some dv' \<Longrightarrow> q \<noteq> q' \<Longrightarrow> dv_ids dv \<inter> dv_ids dv' = {}"
    and "dispatched_ids (en_cx en) \<subseteq> all_ids en"
    and "\<And>s. cx_shared (en_cx en) s \<noteq> None \<Longrightarrow> s < en_next en"
  shows "devices_inv policy api en"
  unfolding devices_inv_def using assms by blast

lemma all_idsE:
  assumes "s \<in> all_ids en"
  obtains q dv where "en_devices en q = Some dv" "s \<in> dv_ids dv"
  using assms by (auto simp: all_ids_def ran_def)

lemma all_ids_upd:
  assumes "en_devices en q = Some dv" "dv_ids dv \<subseteq> dv_ids dv'" "en_devices en' = (en_devices en)(q \<mapsto> dv')"
  shows "all_ids en' = dv_ids dv' \<union> all_ids en"
proof (intro equalityI subsetI)
  fix s
  assume "s \<in> all_ids en'"
  then show "s \<in> dv_ids dv' \<union> all_ids en"
    using assms(3) by (auto simp: all_ids_def ran_def split: if_splits)
next
  fix s
  assume s: "s \<in> dv_ids dv' \<union> all_ids en"
  show "s \<in> all_ids en'"
  proof (cases "s \<in> dv_ids dv'")
    case True
    then show ?thesis using assms(3) by (auto simp: all_ids_def ran_def)
  next
    case False
    then obtain p x where p: "en_devices en p = Some x" "s \<in> dv_ids x" using s by (blast elim: all_idsE)
    then have "p \<noteq> q" using False assms(1,2) by auto
    then have "en_devices en' p = Some x" using p(1) assms(3) by simp
    then show ?thesis using p(2) by (auto simp: all_ids_def ran_def)
  qed
qed

lemma devices_reach_other:
  assumes inv: "devices_inv policy api en" and dev: "en_devices en q = Some dv"
    and "\<And>s. s \<in> all_ids en \<Longrightarrow> cx_shared cx' s = cx_shared (en_cx en) s"
    and "dispatched_ids cx' = dispatched_ids (en_cx en)"
  shows "device_reach policy api False (en_closed en, dv, cx')"
proof -
  have "dv_ids dv \<subseteq> all_ids en" using dev by (auto simp: all_ids_def ran_def)
  then have "device_step policy api False (en_closed en, dv, en_cx en) (en_closed en, dv, cx')"
    using assms(3,4) by (intro d_other) auto
  then show ?thesis using inv dev by (auto simp: devices_inv_def intro: d_step)
qed

text \<open>A task step that leaves the devices alone and writes at most the shared result the task owns.\<close>

lemma inv_task:
  assumes t: "tasks_inv en" and d: "devices_inv policy api en" and i: "en_tasks en i = Some (sb, tk)"
    and same: "en_devices en' = en_devices en" "en_closed en' = en_closed en" "en_tasks en' = en_tasks en"
    and nxt: "en_next en \<le> en_next en'" and disp: "cx_dispatched (en_cx en') = cx_dispatched (en_cx en)"
    and sh: "\<And>s. cx_shared (en_cx en') s \<noteq> cx_shared (en_cx en) s \<Longrightarrow> owned tk = Some s \<and> is_acts tk"
    and own: "\<And>s. owned tk' = Some s \<Longrightarrow> owned tk = Some s \<or> en_next en \<le> s \<and> s < en_next en'"
    and acts: "is_acts tk \<Longrightarrow> is_acts tk' \<or> owned tk' = None" and ops: "\<forall>op\<in>task_ops tk'. op_wf op"
  shows "tasks_inv (set_task i sb tk' en') \<and> devices_inv policy api (set_task i sb tk' en')"
proof
  have ids: "all_ids (set_task i sb tk' en') = all_ids en" by (simp add: all_ids_def same)
  have low: "s < en_next en" if "s \<in> all_ids en" for s
    using that by (rule all_idsE) (rule devices_invD(2)[OF d])
  have unset: "cx_shared (en_cx en) s = None" if "en_next en \<le> s" for s
    using devices_invD(6)[OF d, of s] that by (cases "cx_shared (en_cx en) s") auto
  have ok: "task_ok en tk" using t i by (auto simp: tasks_inv_def)
  have keep: "cx_shared (en_cx en') s = cx_shared (en_cx en) s" if "s \<in> all_ids en" for s
  proof (rule ccontr)
    assume "\<not> ?thesis"
    from sh[OF this] ok that show False by (simp add: task_ok_def)
  qed
  show "devices_inv policy api (set_task i sb tk' en')"
  proof -
    have dd: "dispatched_ids (en_cx en') = dispatched_ids (en_cx en)" by (simp add: dispatched_ids_def disp)
    have reach: "device_reach policy api False (en_closed en, dv, en_cx en')" if "en_devices en q = Some dv" for q dv
      using devices_reach_other[OF d that keep dd] .
    have low': "s < en_next en'" if "cx_shared (en_cx en') s \<noteq> None" for s
    proof (cases "cx_shared (en_cx en') s = cx_shared (en_cx en) s")
      case True
      then show ?thesis using devices_invD(6)[OF d, of s] that nxt by simp
    next
      case False
      then show ?thesis using sh[OF False] ok nxt by (simp add: task_ok_def)
    qed
    show ?thesis
    proof (rule devices_invI)
      show "dispatched_ids (en_cx (set_task i sb tk' en')) \<subseteq> all_ids (set_task i sb tk' en')"
        unfolding ids using devices_invD(5)[OF d] dd by simp
    next
      fix q dv
      assume q: "en_devices (set_task i sb tk' en') q = Some dv"
      show "q < en_next (set_task i sb tk' en')" using devices_invD(1)[OF d, of q dv] q nxt by (simp add: same)
      show "device_reach policy api False (en_closed (set_task i sb tk' en'), dv, en_cx (set_task i sb tk' en'))"
        using reach[of q dv] q by (simp add: same)
      show "s < en_next (set_task i sb tk' en')" if "s \<in> dv_ids dv" for s
        using devices_invD(2)[OF d, of q dv s] q that nxt by (simp add: same)
      show "dv_ids dv \<inter> dv_ids dv' = {}" if "en_devices (set_task i sb tk' en') q' = Some dv'" "q \<noteq> q'" for q' dv'
        using devices_invD(4)[OF d, of q dv q' dv'] q that by (simp add: same)
    qed (simp add: low')
  qed
  show "tasks_inv (set_task i sb tk' en')"
  proof -
    let ?en = "set_task i sb tk' en'"
    have new: "task_ok ?en tk'"
    proof -
      have "s < en_next en' \<and> s \<notin> all_ids en \<and> (\<not> is_acts tk' \<longrightarrow> cx_shared (en_cx en') s = None)" if o': "owned tk' = Some s" for s
      proof (cases "owned tk = Some s")
        case True
        then have o: "s < en_next en" "s \<notin> all_ids en" "\<not> is_acts tk \<Longrightarrow> cx_shared (en_cx en) s = None"
          using ok by (auto simp: task_ok_def)
        have "cx_shared (en_cx en') s = None" if "\<not> is_acts tk'"
        proof -
          have "\<not> is_acts tk" using acts that o' by auto
          then show ?thesis using o(3) sh[of s] by fastforce
        qed
        then show ?thesis using o nxt by simp
      next
        case False
        then have s: "en_next en \<le> s" "s < en_next en'" using own[OF o'] by auto
        then have "cx_shared (en_cx en') s = None" using unset[OF s(1)] sh[of s] False by fastforce
        then show ?thesis using s low[of s] by auto
      qed
      then show ?thesis using ops ids by (simp add: task_ok_def)
    qed
    have other: "task_ok ?en tk2" if j: "j \<noteq> i" "en_tasks en j = Some (sb2, tk2)" for j sb2 tk2
    proof -
      have "task_ok en tk2" using t j by (auto simp: tasks_inv_def)
      moreover have "cx_shared (en_cx en') s = cx_shared (en_cx en) s" if "owned tk2 = Some s" for s
      proof (rule ccontr)
        assume "\<not> ?thesis"
        from sh[OF this] that show False using t i j unfolding tasks_inv_def by metis
      qed
      ultimately show ?thesis using ids nxt by (simp add: task_ok_def) (meson less_le_trans)
    qed
    have "owned tk2 \<noteq> Some s" if j: "j \<noteq> i" "en_tasks en j = Some (sb2, tk2)" "owned tk' = Some s" for j sb2 tk2 s
    proof
      assume o2: "owned tk2 = Some s"
      have "s < en_next en" using t j(2) o2 by (auto simp: tasks_inv_def task_ok_def)
      then have "owned tk = Some s" using own[OF j(3)] by auto
      then show False using t i j(1,2) o2 unfolding tasks_inv_def by metis
    qed
    then show ?thesis
      using new other t unfolding tasks_inv_def by (simp add: same) blast
  qed
qed


text \<open>A device acts: only its own results and its own dispatches change.\<close>

lemma inv_device:
  assumes t: "tasks_inv en" and d: "devices_inv policy api en" and q: "en_devices en q = Some dv"
    and frame: "own_frame api (dv, en_cx en) (dv', cx')"
    and step: "device_step policy api False (en_closed en, dv, en_cx en) (en_closed en, dv', cx')"
  shows "tasks_inv (set_device q dv' cx' en) \<and> devices_inv policy api (set_device q dv' cx' en)"
proof
  note reach = devices_invD(3)[OF d q]
  have ent: "qe_reply ` device_entries dv \<subseteq> dv_ids dv"
    using device_reach_truthful[OF reach] by (simp add: truthful_inv_def)
  have dids: "dv_ids dv' = dv_ids dv" using frame by (simp add: own_frame_def)
  have sub: "dv_ids dv \<subseteq> all_ids en" using q by (auto simp: all_ids_def ran_def)
  have sh: "cx_shared cx' s = cx_shared (en_cx en) s" if "s \<notin> dv_ids dv" for s
  proof -
    have "s \<notin> qe_reply ` device_entries dv" using ent that by blast
    then show ?thesis using frame by (simp add: own_frame_def)
  qed
  have "cx_dispatched cx' = cx_dispatched (en_cx en) \<or>
      (\<exists>e\<in>device_entries dv. cx_dispatched cx' = cx_dispatched (en_cx en) @ [(qe_key e, qe_reply e)])"
    using frame by (auto simp: own_frame_def)
  then have "dispatched_ids cx' = dispatched_ids (en_cx en) \<or> (\<exists>u\<in>dv_ids dv. dispatched_ids cx' = insert u (dispatched_ids (en_cx en)))"
  proof (elim disjE bexE)
    fix e
    assume "e \<in> device_entries dv" "cx_dispatched cx' = cx_dispatched (en_cx en) @ [(qe_key e, qe_reply e)]"
    then have "qe_reply e \<in> dv_ids dv" "dispatched_ids cx' = insert (qe_reply e) (dispatched_ids (en_cx en))"
      using ent by (auto simp: dispatched_ids_def)
    then show ?thesis by blast
  qed (simp add: dispatched_ids_def)
  then have disp: "dispatched_ids (en_cx en) \<subseteq> dispatched_ids cx'" "dispatched_ids cx' \<subseteq> dispatched_ids (en_cx en) \<union> dv_ids dv"
    by auto
  have ids: "all_ids (set_device q dv' cx' en) = all_ids en"
    using all_ids_upd[OF q, of dv' "set_device q dv' cx' en"] dids sub by auto
  show "devices_inv policy api (set_device q dv' cx' en)"
  proof (rule devices_invI)
    fix p x
    assume p: "en_devices (set_device q dv' cx' en) p = Some x"
    then have old: "\<exists>y. en_devices en p = Some y \<and> dv_ids y = dv_ids x" using q dids by (auto split: if_splits)
    show "p < en_next (set_device q dv' cx' en)" using old devices_invD(1)[OF d] by auto
    show "s < en_next (set_device q dv' cx' en)" if "s \<in> dv_ids x" for s
      using old that devices_invD(2)[OF d] by (metis set_device_simps(4))
    show "dv_ids x \<inter> dv_ids x' = {}" if p': "en_devices (set_device q dv' cx' en) p' = Some x'" "p \<noteq> p'" for p' x'
    proof -
      have "\<exists>y. en_devices en p' = Some y \<and> dv_ids y = dv_ids x'" using q dids p' by (auto split: if_splits)
      then show ?thesis using old devices_invD(4)[OF d] p'(2) by metis
    qed
    show "device_reach policy api False (en_closed (set_device q dv' cx' en), x, en_cx (set_device q dv' cx' en))"
    proof (cases "p = q")
      case True
      then show ?thesis using p d_step[OF reach step] by simp
    next
      case False
      then have px: "en_devices en p = Some x" using p by simp
      have "dv_ids x \<inter> dv_ids dv = {}" by (rule devices_invD(4)[OF d px q False])
      then have "\<forall>s\<in>dv_ids x. cx_shared cx' s = cx_shared (en_cx en) s \<and> (s \<in> dispatched_ids cx' \<longleftrightarrow> s \<in> dispatched_ids (en_cx en))"
        using sh disp by blast
      then show ?thesis using d_step[OF devices_invD(3)[OF d px] d_other] by simp
    qed
  next
    show "dispatched_ids (en_cx (set_device q dv' cx' en)) \<subseteq> all_ids (set_device q dv' cx' en)"
      using ids disp sub devices_invD(5)[OF d] by auto
    show "s < en_next (set_device q dv' cx' en)" if "cx_shared (en_cx (set_device q dv' cx' en)) s \<noteq> None" for s
      using that sh[of s] devices_invD(6)[OF d, of s] devices_invD(2)[OF d q, of s] by (cases "s \<in> dv_ids dv") auto
  qed
  have "task_ok (set_device q dv' cx' en) tk" if "task_ok en tk" for tk
  proof -
    have "cx_shared cx' s = cx_shared (en_cx en) s" if "s \<notin> all_ids en" for s using sh[of s] sub that by blast
    then show ?thesis using that by (simp add: task_ok_def ids)
  qed
  then show "tasks_inv (set_device q dv' cx' en)" using t by (simp add: tasks_inv_def)
qed

text \<open>The whole state moves to a context with the same results and dispatches.\<close>

lemma inv_context:
  assumes t: "tasks_inv en" and d: "devices_inv policy api en"
    and same: "en_devices en' = en_devices en" "en_next en' = en_next en" "en_tasks en' = en_tasks en"
    and c: "en_closed en' = en_closed en \<or> en_closed en'"
    and cx: "cx_shared (en_cx en') = cx_shared (en_cx en)" "cx_dispatched (en_cx en') = cx_dispatched (en_cx en)"
  shows "tasks_inv en' \<and> devices_inv policy api en'"
proof
  have ids: "all_ids en' = all_ids en" by (simp add: all_ids_def same)
  have dd: "dispatched_ids (en_cx en') = dispatched_ids (en_cx en)" by (simp add: dispatched_ids_def cx)
  have reach: "device_reach policy api False (en_closed en', dv, en_cx en')" if "en_devices en q = Some dv" for q dv
  proof -
    have "device_reach policy api False (en_closed en, dv, en_cx en')"
      by (rule devices_reach_other[OF d that]) (simp_all add: cx dd)
    then show ?thesis using c d_step[OF _ d_close] by auto
  qed
  show "devices_inv policy api en'"
    using devices_invD(1,2,4)[OF d] devices_invD(5,6)[OF d] reach
    by (intro devices_invI) (simp_all add: same cx dd ids)
  show "tasks_inv en'"
    using t by (simp add: tasks_inv_def task_ok_def ids same cx)
qed


text \<open>A new queue, and an entry pushed to a queue.\<close>

lemma inv_new_queue:
  assumes t: "tasks_inv en" and d: "devices_inv policy api en"
    and en': "en' = en\<lparr>en_queues := qs, en_devices := (en_devices en)(en_next en \<mapsto> device_new (queue_capacity policy)),
      en_next := en_next en + 1\<rparr>"
  shows "tasks_inv en' \<and> devices_inv policy api en'"
proof
  have new: "en_devices en (en_next en) = None" using devices_invD(1)[OF d] by (metis nat_less_le not_None_eq)
  have ids: "all_ids en' = all_ids en"
    using new by (simp add: all_ids_def en' ran_map_upd device_new_def)
  have "device_reach policy api False (False, device_new (queue_capacity policy), en_cx en)" by (rule d_init)
  then have init: "device_reach policy api False (en_closed en, device_new (queue_capacity policy), en_cx en)"
    by (cases "en_closed en") (auto intro: d_step d_close)
  show "devices_inv policy api en'"
  proof (rule devices_invI)
    fix p x
    assume p: "en_devices en' p = Some x"
    show "p < en_next en'" using p devices_invD(1)[OF d, of p x] by (auto simp: en' split: if_splits)
    show "s < en_next en'" if "s \<in> dv_ids x" for s
      using p that devices_invD(2)[OF d, of p x s] by (auto simp: en' device_new_def split: if_splits)
    show "device_reach policy api False (en_closed en', x, en_cx en')"
      using p init devices_invD(3)[OF d, of p x] by (auto simp: en' split: if_splits)
    show "dv_ids x \<inter> dv_ids x' = {}" if "en_devices en' p' = Some x'" "p \<noteq> p'" for p' x'
      using p that devices_invD(4)[OF d, of p x p' x'] by (auto simp: en' device_new_def split: if_splits)
  next
    show "dispatched_ids (en_cx en') \<subseteq> all_ids en'" using devices_invD(5)[OF d] ids by (simp add: en')
    show "s < en_next en'" if "cx_shared (en_cx en') s \<noteq> None" for s
      using that devices_invD(6)[OF d, of s] by (simp add: en')
  qed
  have "task_ok en' tk" if "task_ok en tk" for tk using that ids by (auto simp: task_ok_def en')
  then show "tasks_inv en'" using t by (auto simp: tasks_inv_def en')
qed

lemma inv_push:
  assumes t: "tasks_inv en" and d: "devices_inv policy api en" and i: "en_tasks en i = Some (sb, tk)"
    and tk: "owned tk = Some s" "\<not> is_acts tk" "op_wf op"
    and q: "en_devices en q = Some dv"
    and enq: "device_enqueue policy (en_closed en) (submit_entry sb op s deadline meta token) (dv, en_cx en) = Inr (dv', cx')"
    and own: "owned tk' = None" "task_ops tk' = {}"
    and en': "en' = en\<lparr>en_cx := cx', en_devices := (en_devices en)(q \<mapsto> dv'), en_next := en_next en + 1\<rparr>"
  shows "tasks_inv (set_task i sb tk' en') \<and> devices_inv policy api (set_task i sb tk' en')"
proof
  let ?e = "submit_entry sb op s deadline meta token"
  have ok: "s < en_next en" "s \<notin> all_ids en" "cx_shared (en_cx en) s = None"
    using t i tk(1,2) by (auto simp: tasks_inv_def task_ok_def)
  have e: "qe_reply ?e = s" "qe_operation ?e = op" by (simp_all add: submit_entry_def)
  have dv': "dv_ids dv' = insert s (dv_ids dv)"
    using enq by (auto simp: device_enqueue_def result_simps ensure_worker_def e split: if_splits)
  have cx': "cx_shared cx' = cx_shared (en_cx en)" "cx_dispatched cx' = cx_dispatched (en_cx en)"
    using enq by (auto simp: device_enqueue_def result_simps)
  have dd: "dispatched_ids cx' = dispatched_ids (en_cx en)" by (simp add: dispatched_ids_def cx')
  have nd: "s \<notin> dispatched_ids (en_cx en)" "s \<notin> dv_ids dv"
    using ok(2) devices_invD(5)[OF d] q by (auto simp: all_ids_def ran_def)
  have step: "device_step policy api False (en_closed en, dv, en_cx en) (en_closed en, dv', cx')"
    by (rule d_enqueue[OF enq]) (use ok nd tk(3) in \<open>simp_all add: e\<close>)
  have ids: "all_ids (set_task i sb tk' en') = insert s (all_ids en)"
  proof -
    have "dv_ids dv \<subseteq> all_ids en" using q by (auto simp: all_ids_def ran_def)
    moreover have "all_ids (set_task i sb tk' en') = dv_ids dv' \<union> all_ids en"
      by (rule all_ids_upd[OF q]) (auto simp: dv' en')
    ultimately show ?thesis using dv' by auto
  qed
  have apart: "s \<notin> dv_ids x" if "en_devices en p = Some x" for p x
    using ok(2) that by (auto simp: all_ids_def ran_def)
  show "devices_inv policy api (set_task i sb tk' en')"
  proof (rule devices_invI)
    fix p x
    assume p: "en_devices (set_task i sb tk' en') p = Some x"
    then have old: "\<exists>y. en_devices en p = Some y \<and> dv_ids x = (if p = q then insert s (dv_ids y) else dv_ids y)"
      using q dv' by (auto simp: en' split: if_splits)
    show "p < en_next (set_task i sb tk' en')" using old devices_invD(1)[OF d] by (fastforce simp: en')
    show "u < en_next (set_task i sb tk' en')" if "u \<in> dv_ids x" for u
      using old that devices_invD(2)[OF d, of p _ u] ok(1) by (auto simp: en' split: if_splits)
    show "dv_ids x \<inter> dv_ids x' = {}" if p': "en_devices (set_task i sb tk' en') p' = Some x'" "p \<noteq> p'" for p' x'
    proof -
      obtain y where y: "en_devices en p = Some y" "dv_ids x = (if p = q then insert s (dv_ids y) else dv_ids y)"
        using old by blast
      obtain y' where y': "en_devices en p' = Some y'" "dv_ids x' = (if p' = q then insert s (dv_ids y') else dv_ids y')"
        using q dv' p' by (auto simp: en' split: if_splits)
      show ?thesis
        using y(2) y'(2) p'(2) devices_invD(4)[OF d y(1) y'(1) p'(2)] apart[OF y(1)] apart[OF y'(1)] by (auto split: if_splits)
    qed
    show "device_reach policy api False (en_closed (set_task i sb tk' en'), x, en_cx (set_task i sb tk' en'))"
    proof (cases "p = q")
      case True
      then show ?thesis using p d_step[OF devices_invD(3)[OF d q] step] by (simp add: en')
    next
      case False
      then have px: "en_devices en p = Some x" using p by (simp add: en')
      show ?thesis using devices_reach_other[OF d px, of cx'] by (simp add: en' cx' dd)
    qed
  next
    show "dispatched_ids (en_cx (set_task i sb tk' en')) \<subseteq> all_ids (set_task i sb tk' en')"
      unfolding ids using devices_invD(5)[OF d] by (auto simp: en' dd)
    show "u < en_next (set_task i sb tk' en')" if "cx_shared (en_cx (set_task i sb tk' en')) u \<noteq> None" for u
      using that devices_invD(6)[OF d, of u] by (simp add: en' cx')
  qed
  have other: "task_ok (set_task i sb tk' en') tk2" if j: "j \<noteq> i" "en_tasks en j = Some (sb2, tk2)" for j sb2 tk2
  proof -
    have "task_ok en tk2" using t j by (auto simp: tasks_inv_def)
    moreover have "owned tk2 \<noteq> Some s" using t i j tk(1) unfolding tasks_inv_def by metis
    ultimately show ?thesis unfolding task_ok_def ids by (auto simp: en' cx')
  qed
  have "task_ok (set_task i sb tk' en') tk'" using own by (simp add: task_ok_def)
  then show "tasks_inv (set_task i sb tk' en')"
    using t other own unfolding tasks_inv_def by (simp add: en')
qed


section \<open>Every step keeps the invariant\<close>

lemma validated_wf:
  assumes "prepare policy r info s = tk" "op \<in> task_ops tk"
  shows "op_wf op"
proof (cases "rq_operation r")
  case (PropertyWrite items)
  then have "validate_property_write (di_profile info) items = Inr op"
    using assms by (auto simp: prepare_def split: sum.splits)
  then show ?thesis unfolding validate_property_write_def
    by (auto simp: res_bind_eq_Inr validate_write_items_iff split: if_splits)
next
  case (CommandExecute c)
  then have "validate_command (di_profile info) c = Inr op"
    using assms by (auto simp: prepare_def split: sum.splits if_splits)
  then show ?thesis by (auto simp: validate_command_Inr)
qed

lemma prepare_owned: "owned (prepare policy r info s) = Some s" "\<not> is_acts (prepare policy r info s)"
  by (auto simp: prepare_def split: control_operation.splits sum.splits)

lemma decide_owned: "owned (decide r now info s fresh d) = Some u \<Longrightarrow> fresh \<and> u = s" "task_ops (decide r now info s fresh d) = {}"
  by (auto simp: decide_def Let_def split: sum.splits journal_decision.splits option.splits if_splits)

lemma settle_rejection_frame:
  assumes "settle_rejection api w sf key r cx = (r', cx')"
  shows "cx_shared cx' = cx_shared cx" "cx_dispatched cx' = cx_dispatched cx" "settles api (cx_journal cx) (cx_journal cx')"
proof -
  obtain r1 where j: "settle_journal api (SI_Write w) key r cx = (r1, cx')"
    using assms by (auto simp: settle_rejection_def split: prod.splits)
  from settle_journal_frame[OF j] show "cx_shared cx' = cx_shared cx" "cx_dispatched cx' = cx_dispatched cx" by simp_all
  show "settles api (cx_journal cx) (cx_journal cx')"
    using j by (auto split: prod.splits sum.splits dest!: arg_cong[where f = snd])
qed

lemma perform_frame:
  "cx_dispatched (perform key s a cx) = cx_dispatched cx" "cx_journal (perform key s a cx) = cx_journal cx"
  "cx_shared (perform key s a cx) u \<noteq> cx_shared cx u \<Longrightarrow> u = s \<and> (\<exists>r. a = A_Set r)"
  by (cases a; auto simp: remove_active_def set_shared_def split: if_splits)+

lemma register_active_cases:
  assumes "register_active key en = ((s, fresh), en')"
  shows "fresh \<longleftrightarrow> cx_active (en_cx en) key = None" "fresh \<Longrightarrow> s = en_next en \<and> en_next en' = en_next en + 1"
    "en_next en \<le> en_next en'" "en_devices en' = en_devices en" "en_closed en' = en_closed en" "en_tasks en' = en_tasks en"
    "cx_shared (en_cx en') = cx_shared (en_cx en)" "cx_dispatched (en_cx en') = cx_dispatched (en_cx en)"
    "cx_journal (en_cx en') = cx_journal (en_cx en)"
  using assms by (auto simp: register_active_def upd_cx_def split: option.splits)


lemma submit_step_inv:
  assumes t: "tasks_inv en" and d: "devices_inv policy api en" and i: "en_tasks en i = Some (sb, tk)"
    and step: "submit_step env policy api sb choice tk en = Some (tk', en')"
  shows "tasks_inv (set_task i sb tk' en') \<and> devices_inv policy api (set_task i sb tk' en')"
proof -
  note plain = inv_task[OF t d i, where tk' = tk' and en' = en']
  have ops: "\<forall>op\<in>task_ops tk. op_wf op" using t i by (auto simp: tasks_inv_def task_ok_def)
  show ?thesis
  proof (cases tk)
    case TK_Start
    with step show ?thesis
      by (intro plain) (auto simp: submit_step.simps split: submit_choice.splits admission.splits)
  next
    case (TK_Register info)
    with step obtain now t0 s fresh where r: "register_active (request_key (sb_request sb)) en = ((s, fresh), en')"
        "tk' = TK_Insert info (ev_payload_hash env (rq_operation (sb_request sb))) now
          (sat_add now (min (int (idempotency_retention policy)) (2 ^ 63 - 1))) s fresh"
      by (cases choice) (auto simp: submit_step.simps Let_def split: prod.splits)
    note c = register_active_cases[OF r(1)]
    show ?thesis by (rule plain) (use c r(2) TK_Register in \<open>auto split: if_splits\<close>)
  next
    case (TK_Insert info hash now expires s fresh)
    with step show ?thesis
      by (intro plain) (auto simp: submit_step.simps upd_cx_def split: submit_choice.splits prod.splits if_splits)
  next
    case (TK_Decided info s fresh dec)
    with step show ?thesis
      by (intro plain) (auto simp: submit_step.simps decide_owned(2) split: submit_choice.splits dest: decide_owned(1))
  next
    case (TK_Prepare info s)
    with step have tk': "tk' = prepare policy (sb_request sb) info s" "en' = en"
      by (auto simp: submit_step.simps split: submit_choice.splits)
    show ?thesis
      by (rule plain) (use TK_Prepare prepare_owned[of policy "sb_request sb" info s] validated_wf[OF tk'(1)[symmetric]] in
        \<open>auto simp: tk'(2) tk'(1)[symmetric]\<close>)
  next
    case (TK_Check op s)
    with step ops show ?thesis
      by (intro plain) (auto simp: submit_step.simps split: submit_choice.splits option.splits if_splits)
  next
    case (TK_Deadline op s)
    with step obtain now t0 q dl meta where q: "get_or_create_queue policy (rq_device_id (sb_request sb)) en = (q, en')"
        "tk' = TK_Cooldown q op s dl meta"
      by (cases choice) (auto simp: submit_step.simps Let_def split: prod.splits)
    show ?thesis
    proof (cases "en_queues en (rq_device_id (sb_request sb))")
      case (Some p)
      then show ?thesis
        by (intro plain) (use q TK_Deadline ops in \<open>auto simp: get_or_create_queue_def\<close>)
    next
      case None
      then have en': "en' = en\<lparr>en_queues := (en_queues en)(rq_device_id (sb_request sb) \<mapsto> en_next en),
          en_devices := (en_devices en)(en_next en \<mapsto> device_new (queue_capacity policy)), en_next := en_next en + 1\<rparr>"
        using q(1) by (auto simp: get_or_create_queue_def)
      from inv_new_queue[OF t d en'] have t': "tasks_inv en'" and d': "devices_inv policy api en'" by simp_all
      have i': "en_tasks en' i = Some (sb, tk)" using i en' by simp
      show ?thesis by (rule inv_task[OF t' d' i']) (use q(2) TK_Deadline ops in auto)
    qed
  next
    case (TK_Cooldown q op s dl meta)
    with step ops show ?thesis
      by (intro plain) (auto simp: submit_step.simps split: submit_choice.splits option.splits if_splits)
  next
    case (TK_Push q op s dl meta)
    with step have p: "push policy sb q op s dl meta en = Some (tk', en')"
      by (auto simp: submit_step.simps split: submit_choice.splits)
    then obtain dv where dv: "en_devices en q = Some dv" by (auto simp: push_def split: option.splits)
    show ?thesis
    proof (cases "device_enqueue policy (en_closed en) (submit_entry sb op s dl meta (en_next en)) (dv, en_cx en)")
      case (Inl e)
      then show ?thesis
        by (intro plain; cases e) (use p dv TK_Push in \<open>auto simp: push_def\<close>)
    next
      case (Inr r)
      then obtain dv' cx' where r: "r = (dv', cx')" by (cases r)
      have "tk' = TK_Pushed s" "en' = en\<lparr>en_cx := cx', en_devices := (en_devices en)(q \<mapsto> dv'), en_next := en_next en + 1\<rparr>"
        using p dv Inr r by (auto simp: push_def)
      then show ?thesis
        using inv_push[OF t d i _ _ _ dv, of s op dl meta "en_next en" dv' cx' tk' en'] Inr r TK_Push ops by simp
    qed
  next
    case (TK_Pushed s)
    with step show ?thesis
      by (intro plain) (auto simp: submit_step.simps split: submit_choice.splits if_splits)
  next
    case (TK_Reject sf code s)
    with step show ?thesis
      by (intro plain) (auto simp: submit_step.simps Let_def split: submit_choice.splits if_splits)
  next
    case (TK_Closed s)
    with step show ?thesis
      by (intro plain) (auto simp: submit_step.simps split: submit_choice.splits if_splits)
  next
    case (TK_Settle sf result s)
    with step obtain w r cx where r: "settle_rejection api w sf (request_key (sb_request sb)) result (en_cx en) = (r, cx)"
        "en' = en\<lparr>en_cx := cx\<rparr>"
        "tk' = (if sf = SF_Closed then TK_Acts [A_Remove, A_Settled CS_Indeterminate, A_Set r] (SO_Error SE_EngineClosed) s
          else TK_Audit sf r s)"
      by (cases choice) (auto simp: submit_step.simps split: prod.splits)
    show ?thesis
      by (rule plain) (use settle_rejection_frame[OF r(1)] r(2,3) TK_Settle in \<open>auto split: if_splits\<close>)
  next
    case (TK_Audit sf result s)
    with step show ?thesis
      by (intro plain) (auto simp: submit_step.simps upd_cx_def split: submit_choice.splits if_splits)
  next
    case (TK_Acts as outcome s)
    show ?thesis
    proof (cases as)
      case Nil
      with TK_Acts step show ?thesis
        by (intro plain) (auto simp: submit_step.simps split: submit_choice.splits)
    next
      case (Cons a rest)
      with TK_Acts step have e: "tk' = TK_Acts rest outcome s" "en' = upd_cx (perform (request_key (sb_request sb)) s a) en"
        by (auto simp: submit_step.simps split: submit_choice.splits)
      show ?thesis
      proof (rule plain)
        fix u
        assume "cx_shared (en_cx en') u \<noteq> cx_shared (en_cx en) u"
        then have "u = s \<and> (\<exists>r. a = A_Set r)" using perform_frame(3) e(2) by (fastforce simp: upd_cx_def)
        then show "owned tk = Some u \<and> is_acts tk" using TK_Acts Cons by auto
      qed (use e TK_Acts Cons perform_frame(1) in \<open>auto simp: upd_cx_def split: if_splits\<close>)
    qed
  next
    case (TK_Done outcome)
    with step show ?thesis by (simp add: submit_step.simps)
  qed
qed


lemma engine_cancel_frame:
  assumes "engine_cancel env policy key subject en = (res, en')"
  shows "\<exists>cx'. en' = en\<lparr>en_cx := cx'\<rparr> \<and> cx_shared cx' = cx_shared (en_cx en) \<and> cx_dispatched cx' = cx_dispatched (en_cx en) \<and>
    cx_journal cx' = cx_journal (en_cx en)"
proof -
  have frame: "cx_shared cx' = cx_shared cx \<and> cx_dispatched cx' = cx_dispatched cx \<and> cx_journal cx' = cx_journal cx"
    if "queue_cancel key q cx = (out, cx')" for q out cx' and cx :: "'a engine_ctx"
    using that by (auto simp: queue_cancel_def cancel_token_def split: if_splits option.splits)
  have same: "\<exists>cx'. en = en\<lparr>en_cx := cx'\<rparr> \<and> cx_shared cx' = cx_shared (en_cx en) \<and>
      cx_dispatched cx' = cx_dispatched (en_cx en) \<and> cx_journal cx' = cx_journal (en_cx en)"
    by (rule exI[of _ "en_cx en"]) simp
  show ?thesis
    using assms same frame
    by (auto simp: engine_cancel_def split: if_splits option.splits sum.splits authorization_error.splits prod.splits
      cancel_outcome.splits)
qed

lemma engine_status_frame:
  assumes "engine_status env policy api co now key subject en = (res, en')"
  shows "en' = en \<or> en' = upd_cx (\<lambda>cx. cx\<lparr>cx_journal := snd (ja_purge_expired api co now (cx_journal (en_cx en)))\<rparr>) en"
  using assms by (auto simp: engine_status_def Let_def split: sum.splits authorization_error.splits prod.splits)

lemma ensure_worker_frame: "own_frame api (dv, cx) (ensure_worker dv, cx)"
  by (intro own_frame_plain) (auto simp: ensure_worker_def device_entries_def pc_entries_def)

lemma shutdown_frame:
  "own_frame api (dv, cx) (dv\<lparr>dv_queue := queue_shutdown (dv_queue dv), dv_join := J_Waiting\<rparr>, cx)"
  by (intro own_frame_plain) (auto simp: device_entries_def join_entries_def queue_shutdown_def all_entries_def)

lemma shutdown_queue_device:
  assumes "shutdown_queue q en = Some en'"
  shows "\<exists>dv. en_devices en q = Some dv \<and> dv_join dv = J_None \<and>
    en' = set_device q (dv\<lparr>dv_queue := queue_shutdown (dv_queue dv), dv_join := J_Waiting\<rparr>) (en_cx en) en"
  using assms by (auto simp: shutdown_queue_def set_device_def split: option.splits if_splits)

lemma engine_step_inv:
  assumes "engine_step env policy api False clk en en'" and t: "tasks_inv en" and d: "devices_inv policy api en"
  shows "tasks_inv en' \<and> devices_inv policy api en'"
  using assms(1)
proof cases
  case (e_submit i sb)
  have ids: "all_ids (set_task i sb TK_Start en) = all_ids en" by (simp add: all_ids_def)
  have "devices_inv policy api (set_task i sb TK_Start en)"
    using d unfolding devices_inv_def ids by simp
  moreover have "tasks_inv (set_task i sb TK_Start en)"
    using t unfolding tasks_inv_def task_ok_def ids by simp
  ultimately show ?thesis using e_submit by simp
next
  case (e_task i sb tk choice tk' en1)
  then show ?thesis using submit_step_inv[OF t d] by simp
next
  case (e_worker q dv choice dv' cx')
  have "truthful_inv (en_closed en) dv (en_cx en)" by (rule device_reach_truthful[OF devices_invD(3)[OF d e_worker(3)]])
  from worker_frame[OF worker_step_rel[OF e_worker(4)] this] show ?thesis
    using inv_device[OF t d e_worker(3) _ d_work[OF e_worker(4)]] e_worker(2) by simp
next
  case (e_join q dv choice dv' cx')
  from join_frame[OF e_join(4)] show ?thesis
    using inv_device[OF t d e_join(3) _ d_join[OF e_join(4)]] e_join(2) by simp
next
  case (e_kill q dv w)
  show ?thesis unfolding e_kill(2) by (rule inv_device[OF t d e_kill(3) kill_frame d_kill[OF e_kill(4,5)]])
next
  case (e_respawn q dv)
  then show ?thesis
    using inv_device[OF t d e_respawn(3) ensure_worker_frame d_respawn[OF e_respawn(4,5)]] by simp
next
  case (e_cancel key subject res)
  from engine_cancel_frame[OF e_cancel(2)] show ?thesis
    by (elim exE conjE) (rule inv_context[OF t d]; simp)
next
  case (e_status co now key subject res)
  from engine_status_frame[OF e_status(2)] show ?thesis
  proof
    assume "en' = en"
    then show ?thesis using t d by simp
  next
    assume "en' = upd_cx (\<lambda>cx. cx\<lparr>cx_journal := snd (ja_purge_expired api co now (cx_journal (en_cx en)))\<rparr>) en"
    then show ?thesis by (intro inv_context[OF t d]) (simp_all add: upd_cx_def)
  qed
next
  case e_close
  then show ?thesis by (intro inv_context[OF t d]) (simp_all add: shutdown_close_def)
next
  case e_take
  then show ?thesis by (intro inv_context[OF t d]) (simp_all add: shutdown_take_def)
next
  case (e_stop q)
  then obtain dv where q: "en_devices en q = Some dv" "dv_join dv = J_None"
      "en' = set_device q (dv\<lparr>dv_queue := queue_shutdown (dv_queue dv), dv_join := J_Waiting\<rparr>) (en_cx en) en"
    using shutdown_queue_device by blast
  let ?dv = "dv\<lparr>dv_queue := queue_shutdown (dv_queue dv), dv_join := J_Waiting\<rparr>"
  have "device_step policy api False (en_closed en, dv, en_cx en) (en_closed en, ?dv, en_cx en)"
    using d_shutdown[OF q(2)] e_stop(2) by simp
  then show ?thesis using inv_device[OF t d q(1) shutdown_frame] q(3) by simp
qed simp_all

lemma engine_reach_inv:
  assumes "engine_reach env policy api False P j en"
  shows "tasks_inv en \<and> devices_inv policy api en"
  using assms
proof induction
  case (g_init ids en)
  then show ?case
    by (auto simp: engine_new_def tasks_inv_def devices_inv_def dispatched_ids_def split: sum.splits)
next
  case (g_step en clk en')
  then show ?case using engine_step_inv by blast
qed

section \<open>The engine is a composition of its devices\<close>

text \<open>C32: Whatever the tasks of the engine do, as long as nothing panics, each of its devices goes through the steps of the single-device system: the
  receipts of different devices are disjoint, nobody else writes them, and a receipt is pushed to one queue at most. So
  a property that holds in all states one device reaches without panics holds of every device of the engine.\<close>
theorem engine_refines_devices:
  assumes "engine_reach env policy api False P j en" and "en_devices en q = Some dv"
  shows "device_reach policy api False (en_closed en, dv, en_cx en) \<and> dv_ids dv \<subseteq> {..<en_next en} \<and>
    (\<forall>q' dv'. en_devices en q' = Some dv' \<longrightarrow> q' \<noteq> q \<longrightarrow> dv_ids dv' \<inter> dv_ids dv = {})"
proof -
  have d: "devices_inv policy api en" using engine_reach_inv[OF assms(1)] by simp
  show ?thesis using devices_invD(2-4)[OF d] assms(2) by blast
qed

text \<open>C33: If no worker panics, then in every reachable state of the engine a shared result that denies the execution
  (rejected, cancelled, timed out before the start) belongs to a request the executor was never called for: neither the
  rejections made by the engine itself nor those of the queues are false.\<close>
theorem engine_denial_is_true:
  assumes "engine_reach env policy api False P j en"
    and "cx_shared (en_cx en) s = Some r" and "denies_execution (res_status r)"
  shows "s \<notin> dispatched_ids (en_cx en)"
proof
  assume s: "s \<in> dispatched_ids (en_cx en)"
  have d: "devices_inv policy api en" using engine_reach_inv[OF assms(1)] by simp
  obtain q dv where q: "en_devices en q = Some dv" "s \<in> dv_ids dv" using devices_invD(5)[OF d] s by (blast elim: all_idsE)
  have "truthful_inv (en_closed en) dv (en_cx en)" by (rule device_reach_truthful[OF devices_invD(3)[OF d q(1)]])
  then show False using q(2) s assms(2,3) by (auto simp: truthful_inv_def denied_ids_def)
qed


section \<open>One action per key\<close>

text \<open>The tasks that hold the right to execute: they made the registration, in the registry and in the journal.\<close>

fun executing :: "task \<Rightarrow> nat option" where
  "executing (TK_Decided _ s fresh d) = (if fresh \<and> d = Inr Inserted then Some s else None)"
| "executing (TK_Prepare _ s) = Some s"
| "executing (TK_Check _ s) = Some s"
| "executing (TK_Deadline _ s) = Some s"
| "executing (TK_Cooldown _ _ s _ _) = Some s"
| "executing (TK_Push _ _ s _ _) = Some s"
| "executing _ = None"

definition task_grants :: "'j engine \<Rightarrow> (idempotency_key \<times> nat) set" where
  "task_grants en = {(request_key (sb_request sb), s) | i sb tk s. en_tasks en i = Some (sb, tk) \<and> executing tk = Some s}"

definition queue_grants :: "'j engine \<Rightarrow> (idempotency_key \<times> nat) set" where
  "queue_grants en = {(qe_key e, qe_reply e) | q dv e. en_devices en q = Some dv \<and> e \<in> device_entries dv}"

definition granted :: "'j engine \<Rightarrow> (idempotency_key \<times> nat) set" where
  "granted en = task_grants en \<union> queue_grants en \<union> set (cx_dispatched (en_cx en))"

text \<open>No entry of the journal has expired at time \<open>t\<close>.\<close>

definition unexpired_at :: "'j journal_api \<Rightarrow> timestamp_ns \<Rightarrow> 'j \<Rightarrow> bool" where
  "unexpired_at api t j \<longleftrightarrow> (\<forall>k e. ja_get api k j = Some e \<longrightarrow> t \<le> je_expires_at_ns e)"

definition once_inv :: "'j journal_api \<Rightarrow> ('j \<Rightarrow> bool) \<Rightarrow> 'j engine \<Rightarrow> bool" where
  "once_inv api jwf en \<longleftrightarrow>
     jwf (cx_journal (en_cx en)) \<and>
     (\<forall>k s. (k, s) \<in> granted en \<longrightarrow> ja_get api k (cx_journal (en_cx en)) \<noteq> None) \<and>
     (\<forall>k s s'. (k, s) \<in> granted en \<longrightarrow> (k, s') \<in> granted en \<longrightarrow> s = s') \<and>
     distinct (map snd (cx_dispatched (en_cx en)))"

lemma once_invD:
  assumes "once_inv api jwf en"
  shows "jwf (cx_journal (en_cx en))"
    and "(k, s) \<in> granted en \<Longrightarrow> ja_get api k (cx_journal (en_cx en)) \<noteq> None"
    and "(k, s) \<in> granted en \<Longrightarrow> (k, s') \<in> granted en \<Longrightarrow> s = s'"
    and "distinct (map snd (cx_dispatched (en_cx en)))"
  using assms unfolding once_inv_def by blast+

lemma once_keep:
  assumes inv: "once_inv api jwf en" and "granted en' \<subseteq> granted en" and "jwf (cx_journal (en_cx en'))"
    and "\<And>k. ja_get api k (cx_journal (en_cx en)) \<noteq> None \<Longrightarrow> ja_get api k (cx_journal (en_cx en')) \<noteq> None"
    and "distinct (map snd (cx_dispatched (en_cx en')))"
  shows "once_inv api jwf en'"
  unfolding once_inv_def using assms(2-5) once_invD(2,3)[OF inv] by blast

lemma task_grants_set:
  assumes "en_tasks en i = Some (sb, tk)"
  shows "task_grants (set_task i sb tk' en') \<subseteq>
    {(request_key (sb_request sb), s) | s. executing tk' = Some s} \<union> task_grants en'"
  by (auto simp: task_grants_def split: if_splits)

lemma granted_task:
  assumes i: "en_tasks en i = Some (sb, tk)" and same: "en_tasks en' = en_tasks en"
    and q: "queue_grants en' \<subseteq> granted en" and d: "cx_dispatched (en_cx en') = cx_dispatched (en_cx en)"
    and ex: "\<And>s. executing tk' = Some s \<Longrightarrow> executing tk = Some s"
  shows "granted (set_task i sb tk' en') \<subseteq> granted en"
proof -
  have "task_grants (set_task i sb tk' en') \<subseteq> task_grants en"
    using i ex by (fastforce simp: task_grants_def same split: if_splits)
  moreover have "queue_grants (set_task i sb tk' en') = queue_grants en'" by (simp add: queue_grants_def)
  ultimately show ?thesis using q d by (auto simp: granted_def)
qed

lemma queue_grants_device:
  assumes "en_devices en q = Some dv" "device_entries dv' \<subseteq> device_entries dv"
  shows "queue_grants (set_device q dv' cx en) \<subseteq> queue_grants en"
  using assms by (fastforce simp: queue_grants_def split: if_splits)

lemma decide_executing:
  "executing (decide r now info s fresh d) = Some u \<Longrightarrow> fresh \<and> d = Inr Inserted \<and> u = s"
  by (auto simp: decide_def Let_def split: sum.splits journal_decision.splits option.splits if_splits)

lemma prepare_executing: "executing (prepare policy r info s) = Some u \<Longrightarrow> u = s"
  by (auto simp: prepare_def split: control_operation.splits sum.splits if_splits)

lemma push_executing:
  assumes "push policy sb q op s dl meta en = Some (tk', en')"
  shows "executing tk' = None" "en_tasks en' = en_tasks en" "cx_dispatched (en_cx en') = cx_dispatched (en_cx en)"
    "cx_journal (en_cx en') = cx_journal (en_cx en)"
    "queue_grants en' \<subseteq> insert (request_key (sb_request sb), s) (queue_grants en)"
proof -
  obtain dv where dv: "en_devices en q = Some dv" using assms by (auto simp: push_def split: option.splits)
  let ?e = "submit_entry sb op s dl meta (en_next en)"
  have "executing tk' = None \<and> en_tasks en' = en_tasks en \<and> cx_dispatched (en_cx en') = cx_dispatched (en_cx en) \<and>
      cx_journal (en_cx en') = cx_journal (en_cx en) \<and>
      queue_grants en' \<subseteq> insert (request_key (sb_request sb), s) (queue_grants en)"
  proof (cases "device_enqueue policy (en_closed en) ?e (dv, en_cx en)")
    case (Inl e)
    then show ?thesis using assms dv by (cases e) (auto simp: push_def)
  next
    case (Inr r)
    then obtain dv' cx' where r: "r = (dv', cx')" by (cases r)
    then obtain qu where qu: "enqueue policy (en_closed en) ?e (dv_queue dv) = Inr qu"
        and dv': "dv' = ensure_worker (dv\<lparr>dv_queue := qu, dv_ids := insert (qe_reply ?e) (dv_ids dv)\<rparr>)"
        and cx': "cx' = (en_cx en)\<lparr>cx_metrics := observe_enqueued (ik_device_id (qe_key ?e)) (cx_metrics (en_cx en))\<rparr>"
      using Inr by (auto simp: device_enqueue_def result_simps)
    note f = enqueue_InrD[OF qu]
    have s: "set (all_entries qu) = insert ?e (set (all_entries (dv_queue dv)))"
      using arg_cong[OF f(3), of set_mset] by simp
    have "device_entries dv' \<subseteq> insert ?e (device_entries dv)"
      unfolding dv' ensure_worker_def by (auto simp: device_entries_def pc_entries_def s f(4,5))
    moreover have "qe_key ?e = request_key (sb_request sb)" "qe_reply ?e = s" by (simp_all add: submit_entry_def)
    moreover have "tk' = TK_Pushed s" "en' = en\<lparr>en_cx := cx', en_devices := (en_devices en)(q \<mapsto> dv'), en_next := en_next en + 1\<rparr>"
      using assms dv Inr r by (auto simp: push_def)
    ultimately show ?thesis using dv cx' by (fastforce simp: queue_grants_def split: if_splits)
  qed
  then show "executing tk' = None" "en_tasks en' = en_tasks en" "cx_dispatched (en_cx en') = cx_dispatched (en_cx en)"
    "cx_journal (en_cx en') = cx_journal (en_cx en)"
    "queue_grants en' \<subseteq> insert (request_key (sb_request sb), s) (queue_grants en)" by blast+
qed

context control_journal
begin

lemma settles_keeps:
  assumes "settles api j j'" "wf j"
  shows "wf j'" "ja_get api k j \<noteq> None \<Longrightarrow> ja_get api k j' \<noteq> None"
proof -
  have "wf j' \<and> (ja_get api k j \<noteq> None \<longrightarrow> ja_get api k j' \<noteq> None)"
  proof (cases "j' = j")
    case False
    then obtain w k0 r where j': "j' = snd (ja_settle api w k0 r j)" using assms(1) by (auto simp: settles_def)
    obtain res where "ja_settle api w k0 r j = (res, j')" using j' by (cases "ja_settle api w k0 r j") auto
    from settle_get[OF assms(2) this, of k] show ?thesis using wf_settle[OF assms(2), of w k0 r] j' by auto
  qed (use assms in simp)
  then show "wf j'" "ja_get api k j \<noteq> None \<Longrightarrow> ja_get api k j' \<noteq> None" by blast+
qed

lemma insert_keeps:
  assumes "ja_try_insert api w k h c x j = (d, j')" "wf j"
  shows "wf j'" "ja_get api k' j \<noteq> None \<Longrightarrow> ja_get api k' j' \<noteq> None"
    "d = Inr Inserted \<Longrightarrow> ja_get api k j' \<noteq> None"
    "d = Inr Inserted \<Longrightarrow> unexpired_at api c j \<Longrightarrow> ja_get api k j = None"
proof -
  show "wf j'" using wf_insert[OF assms(2), of w k h c x] assms(1) by simp
  have live: "d = Inr (if je_payload_hash e = h then Duplicate e else Conflict e) \<and> j' = j"
    if "ja_get api k j = Some e" "c \<le> je_expires_at_ns e" for e
    using insert_live[OF assms(2) that, of w h x] assms(1) by simp
  show "ja_get api k j = None" if "d = Inr Inserted" "unexpired_at api c j"
    using live that by (cases "ja_get api k j") (auto simp: unexpired_at_def split: if_splits)
  consider "live_at c (ja_get api k j)" | "\<not> live_at c (ja_get api k j)" by blast
  then have "(ja_get api k' j \<noteq> None \<longrightarrow> ja_get api k' j' \<noteq> None) \<and> (d = Inr Inserted \<longrightarrow> ja_get api k j' \<noteq> None)"
  proof cases
    case 1
    then show ?thesis using live by (auto simp: live_at_def split: option.splits if_splits)
  next
    case 2
    show ?thesis
      using insert_absent[OF assms(2) 2 assms(1), of k'] insert_absent[OF assms(2) 2 assms(1), of k] by auto
  qed
  then show "ja_get api k' j \<noteq> None \<Longrightarrow> ja_get api k' j' \<noteq> None" "d = Inr Inserted \<Longrightarrow> ja_get api k j' \<noteq> None" by blast+
qed

end


lemma device_entries_new [simp]: "device_entries (device_new n) = {}"
  by (simp add: device_new_def queue_new_def device_entries_def all_entries_def priorities_def pc_entries_def join_entries_def)

lemma queue_grants_cx [simp]: "queue_grants (en\<lparr>en_cx := cx\<rparr>) = queue_grants en"
  by (simp add: queue_grants_def)

context control_journal
begin

lemma once_device:
  assumes inv: "once_inv api wf en" and q: "en_devices en q = Some dv" and tr: "truthful_inv c dv (en_cx en)"
    and frame: "own_frame api (dv, en_cx en) (dv', cx')"
  shows "once_inv api wf (set_device q dv' cx' en)"
proof (rule once_keep[OF inv])
  note w = once_invD(1)[OF inv]
  have j: "settles api (cx_journal (en_cx en)) (cx_journal cx')" using frame by (simp add: own_frame_def)
  show "wf (cx_journal (en_cx (set_device q dv' cx' en)))" using settles_keeps(1)[OF j w] by simp
  show "ja_get api k (cx_journal (en_cx (set_device q dv' cx' en))) \<noteq> None" if "ja_get api k (cx_journal (en_cx en)) \<noteq> None" for k
    using settles_keeps(2)[OF j w that] by simp
  have sub: "queue_grants (set_device q dv' cx' en) \<subseteq> queue_grants en"
    using frame by (intro queue_grants_device[OF q]) (simp add: own_frame_def)
  have t: "task_grants (set_device q dv' cx' en) = task_grants en" by (simp add: task_grants_def)
  consider "cx_dispatched cx' = cx_dispatched (en_cx en)"
    | e where "e \<in> device_entries dv" "qe_reply e \<in> set (live_ids dv)"
        "cx_dispatched cx' = cx_dispatched (en_cx en) @ [(qe_key e, qe_reply e)]"
    using frame by (auto simp: own_frame_def)
  then have "granted (set_device q dv' cx' en) \<subseteq> granted en \<and> distinct (map snd (cx_dispatched cx'))"
  proof cases
    case 1
    then show ?thesis using sub t once_invD(4)[OF inv] by (auto simp: granted_def)
  next
    case (2 e)
    have "(qe_key e, qe_reply e) \<in> queue_grants en" using q 2(1) by (auto simp: queue_grants_def)
    moreover have "qe_reply e \<notin> dispatched_ids (en_cx en)" using tr 2(2) by (auto simp: truthful_inv_def)
    ultimately show ?thesis
      using sub t 2(3) once_invD(4)[OF inv] by (auto simp: granted_def dispatched_ids_def)
  qed
  then show "granted (set_device q dv' cx' en) \<subseteq> granted en" "distinct (map snd (cx_dispatched (en_cx (set_device q dv' cx' en))))"
    by simp_all
qed

lemma once_task:
  assumes inv: "once_inv api wf en" and i: "en_tasks en i = Some (sb, tk)"
    and same: "en_tasks en' = en_tasks en" "cx_dispatched (en_cx en') = cx_dispatched (en_cx en)"
    and q: "queue_grants en' \<subseteq> granted en"
    and ex: "\<And>s. executing tk' = Some s \<Longrightarrow> executing tk = Some s"
    and j: "settles api (cx_journal (en_cx en)) (cx_journal (en_cx en'))"
  shows "once_inv api wf (set_task i sb tk' en')"
proof (rule once_keep[OF inv granted_task[OF i same(1) q same(2) ex]])
  note w = once_invD(1)[OF inv]
  show "wf (cx_journal (en_cx (set_task i sb tk' en')))" using settles_keeps(1)[OF j w] by simp
  show "ja_get api k (cx_journal (en_cx (set_task i sb tk' en'))) \<noteq> None" if "ja_get api k (cx_journal (en_cx en)) \<noteq> None" for k
    using settles_keeps(2)[OF j w that] by simp
qed (use once_invD(4)[OF inv] same in simp_all)

text \<open>The registration: the only step that grants.\<close>

lemma once_insert:
  assumes inv: "once_inv api wf en" and i: "en_tasks en i = Some (sb, TK_Insert info hash now expires s fresh)"
    and ins: "ja_try_insert api w (request_key (sb_request sb)) hash now expires (cx_journal (en_cx en)) = (d, j')"
    and un: "unexpired_at api now (cx_journal (en_cx en))"
  shows "once_inv api wf (set_task i sb (TK_Decided info s fresh d) (upd_cx (\<lambda>cx. cx\<lparr>cx_journal := j'\<rparr>) en))"
proof -
  let ?k = "request_key (sb_request sb)" and ?tk = "TK_Decided info s fresh d"
  let ?en = "upd_cx (\<lambda>cx. cx\<lparr>cx_journal := j'\<rparr>) en"
  note w = once_invD(1)[OF inv]
  have jx: "cx_journal (en_cx (set_task i sb ?tk ?en)) = j'" "cx_dispatched (en_cx (set_task i sb ?tk ?en)) = cx_dispatched (en_cx en)"
    by (simp_all add: upd_cx_def)
  have sub: "granted (set_task i sb ?tk ?en) \<subseteq> (if fresh \<and> d = Inr Inserted then insert (?k, s) (granted en) else granted en)"
    by (auto simp: granted_def task_grants_def queue_grants_def upd_cx_def split: if_splits)
  have keep: "ja_get api k j' \<noteq> None" if "ja_get api k (cx_journal (en_cx en)) \<noteq> None" for k
    using insert_keeps(2)[OF ins w that] .
  show ?thesis
  proof (cases "fresh \<and> d = Inr Inserted")
    case True
    have none: "(?k, u) \<notin> granted en" for u
      using insert_keeps(4)[OF ins w _ un] True once_invD(2)[OF inv] by blast
    have sub': "granted (set_task i sb ?tk ?en) \<subseteq> insert (?k, s) (granted en)" using sub True by simp
    show ?thesis
      unfolding once_inv_def jx
    proof (intro conjI allI impI)
      show "wf j'" by (rule insert_keeps(1)[OF ins w])
      show "ja_get api k j' \<noteq> None" if "(k, u) \<in> granted (set_task i sb ?tk ?en)" for k u
        using that sub' keep once_invD(2)[OF inv] insert_keeps(3)[OF ins w] True by auto
      show "u = u'" if "(k, u) \<in> granted (set_task i sb ?tk ?en)" "(k, u') \<in> granted (set_task i sb ?tk ?en)" for k u u'
        using that sub' none once_invD(3)[OF inv] by blast
      show "distinct (map snd (cx_dispatched (en_cx en)))" by (rule once_invD(4)[OF inv])
    qed
  next
    case False
    show ?thesis
      by (rule once_keep[OF inv]) (use False sub keep insert_keeps(1)[OF ins w] once_invD(4)[OF inv] jx in auto)
  qed
qed

lemma once_submit:
  assumes inv: "once_inv api wf en" and i: "en_tasks en i = Some (sb, tk)"
    and step: "submit_step env policy api sb choice tk en = Some (tk', en')"
    and un: "\<And>t. journal_clock tk = Some t \<Longrightarrow> unexpired_at api t (cx_journal (en_cx en))"
  shows "once_inv api wf (set_task i sb tk' en')"
proof -
  note plain = once_task[OF inv i, where tk' = tk' and en' = en']
  have qg: "queue_grants en \<subseteq> granted en" by (auto simp: granted_def)
  show ?thesis
  proof (cases tk)
    case TK_Start
    with step qg show ?thesis
      by (intro plain) (auto simp: submit_step.simps split: submit_choice.splits admission.splits)
  next
    case (TK_Register info)
    with step obtain now t0 s fresh where r: "register_active (request_key (sb_request sb)) en = ((s, fresh), en')"
        "executing tk' = None"
      by (cases choice) (auto simp: submit_step.simps Let_def split: prod.splits)
    note c = register_active_cases[OF r(1)]
    have "queue_grants en' = queue_grants en" by (simp add: queue_grants_def c)
    then show ?thesis by (intro plain) (use c r(2) qg in auto)
  next
    case (TK_Insert info hash now expires s fresh)
    with step obtain w d j' where r: "ja_try_insert api w (request_key (sb_request sb)) hash now expires (cx_journal (en_cx en)) = (d, j')"
        "tk' = TK_Decided info s fresh d" "en' = upd_cx (\<lambda>cx. cx\<lparr>cx_journal := j'\<rparr>) en"
      by (cases choice) (auto simp: submit_step.simps split: prod.splits)
    show ?thesis unfolding r(2,3) using once_insert[OF inv i[unfolded TK_Insert] r(1)] un TK_Insert by simp
  next
    case (TK_Decided info s fresh dec)
    with step qg show ?thesis
      by (intro plain) (auto simp: submit_step.simps split: submit_choice.splits dest: decide_executing)
  next
    case (TK_Prepare info s)
    with step qg show ?thesis
      by (intro plain) (auto simp: submit_step.simps split: submit_choice.splits dest: prepare_executing)
  next
    case (TK_Check op s)
    with step qg show ?thesis
      by (intro plain) (auto simp: submit_step.simps split: submit_choice.splits option.splits if_splits)
  next
    case (TK_Deadline op s)
    with step obtain q dl meta where q: "get_or_create_queue policy (rq_device_id (sb_request sb)) en = (q, en')"
        "tk' = TK_Cooldown q op s dl meta"
      by (cases choice) (auto simp: submit_step.simps Let_def split: prod.splits)
    have "queue_grants en' \<subseteq> queue_grants en"
      using q(1) by (fastforce simp: get_or_create_queue_def queue_grants_def split: option.splits if_splits)
    with q qg show ?thesis
      by (intro plain) (use TK_Deadline in \<open>auto simp: get_or_create_queue_def split: option.splits\<close>)
  next
    case (TK_Cooldown q op s dl meta)
    with step qg show ?thesis
      by (intro plain) (auto simp: submit_step.simps split: submit_choice.splits option.splits if_splits)
  next
    case (TK_Push q op s dl meta)
    with step have p: "push policy sb q op s dl meta en = Some (tk', en')"
      by (auto simp: submit_step.simps split: submit_choice.splits)
    note f = push_executing[OF p]
    have "executing tk = Some s" using TK_Push by simp
    with i have "(request_key (sb_request sb), s) \<in> task_grants en" unfolding task_grants_def by blast
    then have "(request_key (sb_request sb), s) \<in> granted en" by (simp add: granted_def)
    then show ?thesis by (intro plain) (use f qg in auto)
  next
    case (TK_Settle sf result s)
    with step obtain w r cx where r: "settle_rejection api w sf (request_key (sb_request sb)) result (en_cx en) = (r, cx)"
        "en' = en\<lparr>en_cx := cx\<rparr>" "executing tk' = None"
      by (cases choice) (auto simp: submit_step.simps split: prod.splits if_splits)
    show ?thesis
      by (intro plain) (use settle_rejection_frame[OF r(1)] r(2,3) qg in auto)
  next
    case (TK_Acts as outcome s)
    with step qg show ?thesis
      by (intro plain; cases as)
        (auto simp: submit_step.simps upd_cx_def perform_frame split: submit_choice.splits)
  next
    case (TK_Pushed s)
    with step qg show ?thesis by (intro plain) (auto simp: submit_step.simps split: submit_choice.splits)
  next
    case (TK_Reject sf code s)
    with step qg show ?thesis by (intro plain) (auto simp: submit_step.simps Let_def split: submit_choice.splits if_splits)
  next
    case (TK_Closed s)
    with step qg show ?thesis by (intro plain) (auto simp: submit_step.simps split: submit_choice.splits)
  next
    case (TK_Audit sf result s)
    with step qg show ?thesis by (intro plain) (auto simp: submit_step.simps upd_cx_def split: submit_choice.splits)
  next
    case (TK_Done outcome)
    with step show ?thesis by (simp add: submit_step.simps)
  qed
qed

end


context control_journal
begin

lemma once_context:
  assumes inv: "once_inv api wf en" and "en_tasks en' = en_tasks en" "en_devices en' = en_devices en"
    "cx_dispatched (en_cx en') = cx_dispatched (en_cx en)" "cx_journal (en_cx en') = cx_journal (en_cx en)"
  shows "once_inv api wf en'"
proof -
  have g: "granted en' = granted en" by (simp add: granted_def task_grants_def queue_grants_def assms(2-4))
  show ?thesis using inv unfolding once_inv_def g assms(4,5) .
qed

lemma once_step:
  assumes "engine_step env policy api False clk en en'" and inv: "once_inv api wf en"
    and d: "devices_inv policy api en"
    and un: "\<And>t. clk = Some t \<Longrightarrow> unexpired_at api t (cx_journal (en_cx en))"
  shows "once_inv api wf en'"
  using assms(1)
proof cases
  case (e_submit i sb)
  have "granted (set_task i sb TK_Start en) \<subseteq> granted en"
    by (auto simp: granted_def task_grants_def queue_grants_def split: if_splits)
  then show ?thesis unfolding e_submit by (rule once_keep[OF inv]) (use once_invD(1,4)[OF inv] in auto)
next
  case (e_task i sb tk choice tk' en1)
  then show ?thesis using once_submit[OF inv e_task(3,4)] un by simp
next
  case (e_worker q dv choice dv' cx')
  have tr: "truthful_inv (en_closed en) dv (en_cx en)" by (rule device_reach_truthful[OF devices_invD(3)[OF d e_worker(3)]])
  from once_device[OF inv e_worker(3) tr worker_frame[OF worker_step_rel[OF e_worker(4)] tr]] e_worker(2) show ?thesis by simp
next
  case (e_join q dv choice dv' cx')
  have tr: "truthful_inv (en_closed en) dv (en_cx en)" by (rule device_reach_truthful[OF devices_invD(3)[OF d e_join(3)]])
  from once_device[OF inv e_join(3) tr join_frame[OF e_join(4)]] e_join(2) show ?thesis by simp
next
  case (e_kill q dv w)
  have tr: "truthful_inv (en_closed en) dv (en_cx en)" by (rule device_reach_truthful[OF devices_invD(3)[OF d e_kill(3)]])
  show ?thesis unfolding e_kill(2) by (rule once_device[OF inv e_kill(3) tr kill_frame])
next
  case (e_respawn q dv)
  have tr: "truthful_inv (en_closed en) dv (en_cx en)" by (rule device_reach_truthful[OF devices_invD(3)[OF d e_respawn(3)]])
  from once_device[OF inv e_respawn(3) tr ensure_worker_frame] e_respawn(2) show ?thesis by simp
next
  case (e_cancel key subject res)
  from engine_cancel_frame[OF e_cancel(2)] show ?thesis
    by (elim exE conjE) (rule once_context[OF inv]; simp)
next
  case (e_status co now key subject res)
  from engine_status_frame[OF e_status(2)] show ?thesis
  proof
    assume "en' = en"
    then show ?thesis using inv by simp
  next
    let ?j = "cx_journal (en_cx en)"
    assume en': "en' = upd_cx (\<lambda>cx. cx\<lparr>cx_journal := snd (ja_purge_expired api co now ?j)\<rparr>) en"
    obtain n j' where p: "ja_purge_expired api co now ?j = (n, j')" by (cases "ja_purge_expired api co now ?j")
    have get: "ja_get api k j' = ja_get api k ?j" for k
      using purge_get[OF once_invD(1)[OF inv] p, of k] un[of now] e_status(1)
      by (cases "ja_get api k ?j") (auto simp: unexpired_at_def live_at_def)
    have "wf j'" using wf_purge[OF once_invD(1)[OF inv], of co now] p by simp
    have g: "granted en' = granted en" "cx_dispatched (en_cx en') = cx_dispatched (en_cx en)" "cx_journal (en_cx en') = j'"
      by (simp_all add: granted_def task_grants_def queue_grants_def en' upd_cx_def p)
    show ?thesis using once_invD(2-4)[OF inv] \<open>wf j'\<close> unfolding once_inv_def g get by blast
  qed
next
  case e_close
  then show ?thesis by (intro once_context[OF inv]) (simp_all add: shutdown_close_def)
next
  case e_take
  then show ?thesis by (intro once_context[OF inv]) (simp_all add: shutdown_take_def)
next
  case (e_stop q)
  then obtain dv where q: "en_devices en q = Some dv"
      "en' = set_device q (dv\<lparr>dv_queue := queue_shutdown (dv_queue dv), dv_join := J_Waiting\<rparr>) (en_cx en) en"
    using shutdown_queue_device by blast
  have tr: "truthful_inv (en_closed en) dv (en_cx en)" by (rule device_reach_truthful[OF devices_invD(3)[OF d q(1)]])
  from once_device[OF inv q(1) tr shutdown_frame] q(2) show ?thesis by simp
qed simp_all

lemma once_reach:
  assumes "engine_reach env policy api False (unexpired_at api) j en" and "wf j"
  shows "once_inv api wf en"
  using assms(1)
proof induction
  case (g_init ids en)
  with assms(2) show ?case
    by (auto simp: engine_new_def once_inv_def granted_def task_grants_def queue_grants_def split: sum.splits)
next
  case (g_step en clk en')
  then show ?case
    using once_step[OF g_step(2) g_step(4)] engine_reach_inv[OF g_step(1)] by (cases clk) auto
qed

lemma each_key_once:
  assumes "engine_reach env policy api False (unexpired_at api) j en" and "wf j"
  shows "distinct (map fst (cx_dispatched (en_cx en)))"
proof -
  let ?d = "cx_dispatched (en_cx en)"
  note inv = once_reach[OF assms]
  have "distinct ?d" using once_invD(4)[OF inv] by (simp add: distinct_map)
  moreover have "inj_on fst (set ?d)"
  proof (rule inj_onI)
    fix x y
    assume xy: "x \<in> set ?d" "y \<in> set ?d" "fst x = fst y"
    obtain k s k' s' where p: "x = (k, s)" "y = (k', s')" by (cases x; cases y)
    then have "(k, s) \<in> granted en" "(k, s') \<in> granted en" using xy by (simp_all add: granted_def)
    from once_invD(3)[OF inv this] xy(3) p show "x = y" by simp
  qed
  ultimately show ?thesis by (simp add: distinct_map)
qed

end

text \<open>C1: In runs without panics, and as long as no entry of the journal expires, the engine with the file journal hands at most
  one action to the executor under each idempotency key, whatever the interleaving of concurrent and repeated submissions, journal
  failures, cancellations and the shutdown.\<close>
theorem one_action_per_key:
  assumes "engine_reach env policy file_api False (unexpired_at file_api) j en" and "file_wf j"
  shows "distinct (map fst (cx_dispatched (en_cx en)))"
  by (rule filej.each_key_once[OF assms])

end
