(* ===== verification/Control_Approval.thy ===== *)
theory Control_Approval
  imports Control_System
begin

text \<open>
  Which requests reach the executor: every action handed to it, and every entry of a queue, comes from a submission whose
  subject is authorized for the role the operation needs, whose device is enabled, and whose operation passed the
  validation against the profile of that device.
\<close>

section \<open>Approval\<close>

text \<open>What the admission has found out about a submission.\<close>

definition admitted :: "engine_env \<Rightarrow> control_policy \<Rightarrow> submission \<Rightarrow> device_info \<Rightarrow> bool" where
  "admitted env policy sb info \<longleftrightarrow>
     rq_request_id (sb_request sb) \<noteq> [] \<and>
     ev_authorize env (sb_subject sb) (submit_role env policy (sb_request sb)) (rq_device_id (sb_request sb)) = Inr () \<and>
     ev_catalog env (rq_device_id (sb_request sb)) = Some info \<and> di_enabled info"

definition validates :: "submission \<Rightarrow> device_info \<Rightarrow> validated_operation \<Rightarrow> bool" where
  "validates sb info op \<longleftrightarrow>
     (case rq_operation (sb_request sb) of
        PropertyWrite items \<Rightarrow> validate_property_write (di_profile info) items = Inr op
      | CommandExecute c \<Rightarrow> validate_command (di_profile info) c = Inr op)"

definition approved :: "engine_env \<Rightarrow> control_policy \<Rightarrow> submission \<Rightarrow> validated_operation \<Rightarrow> bool" where
  "approved env policy sb op \<longleftrightarrow> (\<exists>info. admitted env policy sb info \<and> validates sb info op)"

fun approved_task :: "engine_env \<Rightarrow> control_policy \<Rightarrow> submission \<Rightarrow> task \<Rightarrow> bool" where
  "approved_task env policy sb (TK_Register info) = admitted env policy sb info"
| "approved_task env policy sb (TK_Insert info _ _ _ _ _) = admitted env policy sb info"
| "approved_task env policy sb (TK_Decided info _ _ _) = admitted env policy sb info"
| "approved_task env policy sb (TK_Prepare info _) = admitted env policy sb info"
| "approved_task env policy sb (TK_Check op _) = approved env policy sb op"
| "approved_task env policy sb (TK_Deadline op _) = approved env policy sb op"
| "approved_task env policy sb (TK_Cooldown _ op _ _ _) = approved env policy sb op"
| "approved_task env policy sb (TK_Push _ op _ _ _) = approved env policy sb op"
| "approved_task env policy sb _ = True"

definition submitted :: "'j engine \<Rightarrow> submission set" where
  "submitted en = {sb. \<exists>i tk. en_tasks en i = Some (sb, tk)}"

definition entries_of :: "'j engine \<Rightarrow> queued_entry set" where
  "entries_of en = (\<Union>dv\<in>ran (en_devices en). device_entries dv)"

definition from_approved :: "engine_env \<Rightarrow> control_policy \<Rightarrow> submission set \<Rightarrow> queued_entry \<Rightarrow> bool" where
  "from_approved env policy sbs e \<longleftrightarrow>
     (\<exists>sb\<in>sbs. qe_key e = request_key (sb_request sb) \<and> qe_subject e = sb_subject sb \<and> approved env policy sb (qe_operation e))"

definition approval_inv :: "engine_env \<Rightarrow> control_policy \<Rightarrow> 'j engine \<Rightarrow> bool" where
  "approval_inv env policy en \<longleftrightarrow>
     (\<forall>i sb tk. en_tasks en i = Some (sb, tk) \<longrightarrow> approved_task env policy sb tk) \<and>
     (\<forall>e\<in>entries_of en. from_approved env policy (submitted en) e) \<and>
     (\<forall>(k, s)\<in>set (cx_dispatched (en_cx en)).
        \<exists>sb\<in>submitted en. k = request_key (sb_request sb) \<and> (\<exists>op. approved env policy sb op))"

lemma from_approved_mono: "from_approved env policy A e \<Longrightarrow> A \<subseteq> B \<Longrightarrow> from_approved env policy B e"
  by (auto simp: from_approved_def)

lemma entries_ofI: "en_devices en q = Some dv \<Longrightarrow> e \<in> device_entries dv \<Longrightarrow> e \<in> entries_of en"
  by (auto simp: entries_of_def ran_def)

lemma entries_update:
  assumes "en_devices en' = (en_devices en)(q \<mapsto> dv')"
  shows "entries_of en' \<subseteq> device_entries dv' \<union> entries_of en"
  using assms by (auto simp: entries_of_def ran_def split: if_splits)

text \<open>Steps that leave the dispatched actions alone.\<close>

lemma approval_keep:
  assumes inv: "approval_inv env policy en"
    and t: "\<And>i sb tk. en_tasks en' i = Some (sb, tk) \<Longrightarrow> approved_task env policy sb tk"
    and s: "submitted en \<subseteq> submitted en'"
    and e: "\<And>e. e \<in> entries_of en' \<Longrightarrow> e \<in> entries_of en \<or> from_approved env policy (submitted en') e"
    and d: "\<And>k r. (k, r) \<in> set (cx_dispatched (en_cx en')) \<Longrightarrow>
      (k, r) \<in> set (cx_dispatched (en_cx en)) \<or> (\<exists>e\<in>entries_of en. k = qe_key e)"
  shows "approval_inv env policy en'"
  unfolding approval_inv_def
proof (intro conjI allI impI ballI)
  fix e
  assume "e \<in> entries_of en'"
  from e[OF this] show "from_approved env policy (submitted en') e"
    using inv s from_approved_mono by (auto simp: approval_inv_def)
next
  fix x
  assume "x \<in> set (cx_dispatched (en_cx en'))"
  then obtain k r where x: "x = (k, r)" "(k, r) \<in> set (cx_dispatched (en_cx en'))" by (metis prod.exhaust)
  from d[OF x(2)] have "\<exists>sb\<in>submitted en'. k = request_key (sb_request sb) \<and> (\<exists>op. approved env policy sb op)"
  proof
    assume "\<exists>e\<in>entries_of en. k = qe_key e"
    then obtain e where "e \<in> entries_of en" "k = qe_key e" by blast
    moreover from this have "from_approved env policy (submitted en) e" using inv by (simp add: approval_inv_def)
    ultimately show ?thesis using s by (auto simp: from_approved_def)
  qed (use inv s in \<open>fastforce simp: approval_inv_def\<close>)
  then show "case x of (k, s) \<Rightarrow> \<exists>sb\<in>submitted en'. k = request_key (sb_request sb) \<and> (\<exists>op. approved env policy sb op)"
    using x(1) by simp
qed (use t in blast)

lemma approval_device:
  assumes inv: "approval_inv env policy en" and q: "en_devices en q = Some dv"
    and frame: "own_frame api (dv, en_cx en) (dv', cx')"
  shows "approval_inv env policy (set_device q dv' cx' en)"
proof (rule approval_keep[OF inv])
  show "approved_task env policy sb tk" if "en_tasks (set_device q dv' cx' en) i = Some (sb, tk)" for i sb tk
    using inv that by (simp add: approval_inv_def)
  show "submitted en \<subseteq> submitted (set_device q dv' cx' en)" by (simp add: submitted_def)
  have sub: "device_entries dv' \<subseteq> device_entries dv" using frame by (simp add: own_frame_def)
  show "e \<in> entries_of en \<or> from_approved env policy (submitted (set_device q dv' cx' en)) e"
    if "e \<in> entries_of (set_device q dv' cx' en)" for e
    using that sub entries_update[of "set_device q dv' cx' en" en q dv'] entries_ofI[OF q] by auto
  show "(k, r) \<in> set (cx_dispatched (en_cx en)) \<or> (\<exists>e\<in>entries_of en. k = qe_key e)"
    if "(k, r) \<in> set (cx_dispatched (en_cx (set_device q dv' cx' en)))" for k r
    using that frame entries_ofI[OF q] by (auto simp: own_frame_def)
qed

lemma approval_context:
  assumes "approval_inv env policy en" "en_devices en' = en_devices en" "en_tasks en' = en_tasks en"
    "cx_dispatched (en_cx en') = cx_dispatched (en_cx en)"
  shows "approval_inv env policy en'"
  using assms by (simp add: approval_inv_def entries_of_def submitted_def)

section \<open>Submissions\<close>

lemma admit_admitted: "admit env policy closed now sb = AD_Admitted info \<Longrightarrow> admitted env policy sb info"
  by (auto simp: admit_def admitted_def Let_def split: if_splits sum.splits authorization_error.splits option.splits)

lemma decide_approved:
  "admitted env policy sb info \<Longrightarrow> approved_task env policy sb (decide (sb_request sb) now info s fresh d)"
  by (auto simp: decide_def Let_def split: sum.splits journal_decision.splits option.splits)

lemma prepare_approved:
  "admitted env policy sb info \<Longrightarrow> approved_task env policy sb (prepare policy (sb_request sb) info s)"
  by (auto simp: prepare_def approved_def validates_def split: control_operation.splits sum.splits)

lemma push_entries:
  assumes "push policy sb q op s dl meta en = Some (tk', en')"
  shows "en_tasks en' = en_tasks en" "approved_task env policy' sb tk'" "cx_dispatched (en_cx en') = cx_dispatched (en_cx en)"
    "entries_of en' \<subseteq> insert (submit_entry sb op s dl meta (en_next en)) (entries_of en)"
proof -
  obtain dv where dv: "en_devices en q = Some dv" using assms by (auto simp: push_def split: option.splits)
  let ?e = "submit_entry sb op s dl meta (en_next en)"
  have "approved_task env policy' sb tk' \<and> entries_of en' \<subseteq> insert ?e (entries_of en)"
  proof (cases "device_enqueue policy (en_closed en) ?e (dv, en_cx en)")
    case (Inl e)
    then show ?thesis using assms dv by (cases e) (auto simp: push_def)
  next
    case (Inr r)
    then obtain qu dv' cx' where r: "r = (dv', cx')" and qu: "enqueue policy (en_closed en) ?e (dv_queue dv) = Inr qu"
        and dv': "dv' = ensure_worker (dv\<lparr>dv_queue := qu, dv_ids := insert (qe_reply ?e) (dv_ids dv)\<rparr>)"
      by (auto simp: device_enqueue_def result_simps)
    have "set (all_entries qu) = insert ?e (set (all_entries (dv_queue dv)))"
      using arg_cong[OF enqueue_InrD(3)[OF qu], of set_mset] by simp
    then have "device_entries dv' \<subseteq> insert ?e (device_entries dv)"
      unfolding dv' ensure_worker_def using enqueue_InrD(4,5)[OF qu] by (auto simp: device_entries_def pc_entries_def)
    moreover have "tk' = TK_Pushed s" "en_devices en' = (en_devices en)(q \<mapsto> dv')"
      using assms dv Inr r by (auto simp: push_def)
    ultimately show ?thesis using entries_update[of en' en q dv'] entries_ofI[OF dv] by auto
  qed
  then show "approved_task env policy' sb tk'" "entries_of en' \<subseteq> insert ?e (entries_of en)" by simp_all
  show "en_tasks en' = en_tasks en" "cx_dispatched (en_cx en') = cx_dispatched (en_cx en)"
    by (fact push_executing(2,3)[OF assms])+
qed

lemma submit_approved:
  assumes "submit_step env policy api sb choice tk en = Some (tk', en')" and a: "approved_task env policy sb tk"
  shows "approved_task env policy sb tk' \<and> en_tasks en' = en_tasks en \<and> cx_dispatched (en_cx en') = cx_dispatched (en_cx en) \<and>
    (\<forall>e\<in>entries_of en'. e \<in> entries_of en \<or> from_approved env policy {sb} e)"
proof (cases tk)
  case TK_Start
  with assms show ?thesis
    by (auto simp: submit_step.simps dest: admit_admitted split: submit_choice.splits admission.splits)
next
  case (TK_Register info)
  with assms obtain now t0 s fresh where r: "register_active (request_key (sb_request sb)) en = ((s, fresh), en')"
      "approved_task env policy sb tk'"
    by (cases choice) (auto simp: submit_step.simps Let_def split: prod.splits)
  then show ?thesis using register_active_cases[OF r(1)] by (auto simp: entries_of_def)
next
  case (TK_Insert info hash now expires s fresh)
  with assms show ?thesis by (cases choice) (auto simp: submit_step.simps entries_of_def upd_cx_def split: prod.splits)
next
  case (TK_Decided info s fresh d)
  with assms show ?thesis by (cases choice) (auto simp: submit_step.simps decide_approved)
next
  case (TK_Prepare info s)
  with assms show ?thesis by (cases choice) (auto simp: submit_step.simps prepare_approved)
next
  case (TK_Deadline op s)
  with assms obtain q dl meta where q: "get_or_create_queue policy (rq_device_id (sb_request sb)) en = (q, en')"
      "tk' = TK_Cooldown q op s dl meta"
    by (cases choice) (auto simp: submit_step.simps Let_def split: prod.splits)
  have "entries_of en' \<subseteq> entries_of en"
    using q(1) entries_update[of en' en "en_next en" "device_new (queue_capacity policy)"]
    by (auto simp: get_or_create_queue_def split: option.splits)
  then show ?thesis
    using q TK_Deadline a by (auto simp: get_or_create_queue_def split: option.splits)
next
  case (TK_Push q op s dl meta)
  with assms have p: "push policy sb q op s dl meta en = Some (tk', en')" by (cases choice) (auto simp: submit_step.simps)
  have "from_approved env policy {sb} (submit_entry sb op s dl meta (en_next en))"
    using TK_Push a by (simp add: from_approved_def submit_entry_def)
  then show ?thesis using push_entries[OF p] by blast
next
  case (TK_Settle sf result s)
  with assms obtain w r cx where r: "settle_rejection api w sf (request_key (sb_request sb)) result (en_cx en) = (r, cx)"
      "en' = en\<lparr>en_cx := cx\<rparr>" "approved_task env policy sb tk'"
    by (cases choice) (auto simp: submit_step.simps split: prod.splits if_splits)
  with settle_rejection_frame[OF r(1)] show ?thesis by (auto simp: entries_of_def)
next
  case (TK_Acts as outcome s)
  with assms show ?thesis
    by (cases choice; cases as) (auto simp: submit_step.simps upd_cx_def entries_of_def perform_frame)
qed (use assms in \<open>auto simp: submit_step.simps Let_def upd_cx_def entries_of_def
  split: submit_choice.splits option.splits if_splits\<close>)

lemma approval_task:
  assumes inv: "approval_inv env policy en" and i: "en_tasks en i = Some (sb, tk)"
    and step: "submit_step env policy api sb choice tk en = Some (tk', en')"
  shows "approval_inv env policy (set_task i sb tk' en')"
proof -
  have "approved_task env policy sb tk" using inv i by (auto simp: approval_inv_def)
  note f = submit_approved[OF step this]
  have sub: "submitted (set_task i sb tk' en') = submitted en"
    using f i by (auto simp: submitted_def split: if_splits) (metis prod.inject option.inject)
  have "sb \<in> submitted en" using i by (auto simp: submitted_def)
  then have mono: "from_approved env policy {sb} e \<Longrightarrow> from_approved env policy (submitted en) e" for e
    by (rule_tac from_approved_mono) auto
  have ent: "entries_of (set_task i sb tk' en') = entries_of en'" by (simp add: entries_of_def)
  show ?thesis
  proof (rule approval_keep[OF inv])
    show "approved_task env policy sb' x" if "en_tasks (set_task i sb tk' en') k = Some (sb', x)" for k sb' x
      using that f inv by (auto simp: approval_inv_def split: if_splits)
    show "e \<in> entries_of en \<or> from_approved env policy (submitted (set_task i sb tk' en')) e"
      if "e \<in> entries_of (set_task i sb tk' en')" for e
      using that f mono[of e] unfolding ent sub by blast
  qed (use f sub in auto)
qed

lemma approval_step:
  assumes "engine_step env policy api False clk en en'" and inv: "approval_inv env policy en"
    and d: "devices_inv policy api en"
  shows "approval_inv env policy en'"
  using assms(1)
proof cases
  case (e_submit i sb)
  have "submitted en \<subseteq> submitted (set_task i sb TK_Start en)"
  proof
    fix x
    assume "x \<in> submitted en"
    then obtain k tk where "en_tasks en k = Some (x, tk)" by (auto simp: submitted_def)
    moreover from this have "k \<noteq> i" using e_submit(3) by auto
    ultimately have "en_tasks (set_task i sb TK_Start en) k = Some (x, tk)" by simp
    then show "x \<in> submitted (set_task i sb TK_Start en)" unfolding submitted_def by blast
  qed
  then show ?thesis
    unfolding e_submit(2) by (rule approval_keep[OF inv, rotated])
      (use inv in \<open>auto simp: entries_of_def approval_inv_def split: if_splits\<close>)
next
  case (e_task i sb tk choice tk' en1)
  then show ?thesis using approval_task[OF inv] by simp
next
  case (e_worker q dv choice dv' cx')
  have "truthful_inv (en_closed en) dv (en_cx en)" by (rule device_reach_truthful[OF devices_invD(3)[OF d e_worker(3)]])
  from worker_frame[OF worker_step_rel[OF e_worker(4)] this] show ?thesis
    unfolding e_worker(2) by (rule approval_device[OF inv e_worker(3)])
next
  case (e_join q dv choice dv' cx')
  from join_frame[OF e_join(4)] show ?thesis unfolding e_join(2) by (rule approval_device[OF inv e_join(3)])
next
  case (e_kill q dv w)
  show ?thesis unfolding e_kill(2) by (rule approval_device[OF inv e_kill(3) kill_frame])
next
  case (e_respawn q dv)
  then show ?thesis using approval_device[OF inv e_respawn(3) ensure_worker_frame] by simp
next
  case (e_cancel key subject res)
  from engine_cancel_frame[OF e_cancel(2)] show ?thesis
    by (elim exE conjE) (rule approval_context[OF inv]; simp)
next
  case (e_status co now key subject res)
  from engine_status_frame[OF e_status(2)] show ?thesis
    using inv by (auto intro: approval_context[OF inv] simp: upd_cx_def)
next
  case (e_stop q)
  from shutdown_queue_device[OF e_stop(3)] show ?thesis
    using approval_device[OF inv _ shutdown_frame] by blast
qed (auto intro: approval_context[OF inv] simp: shutdown_close_def shutdown_take_def)

lemma approval_reach:
  assumes "engine_reach env policy api False P j en"
  shows "approval_inv env policy en"
  using assms
proof induction
  case (g_init ids en)
  then show ?case
    by (auto simp: engine_new_def approval_inv_def entries_of_def split: sum.splits)
next
  case (g_step en clk en')
  then show ?case using approval_step[OF g_step(2)] engine_reach_inv[OF g_step(1)] by simp
qed

text \<open>C31: In runs without panics, under an authorizer and a catalog that do not change, every action the executor was ever
  asked for belongs to a submission that was made, under its key, by a subject
  the authorizer accepts for the role the policy demands of that operation, on an enabled device of the catalog, and
  whose operation the validation against the profile of the device accepts; and what waits in a queue is that validated
  operation.\<close>
theorem executor_only_for_approved:
  assumes "engine_reach env policy api False P j en"
  shows "((k, s) \<in> set (cx_dispatched (en_cx en)) \<longrightarrow>
            (\<exists>i sb tk op. en_tasks en i = Some (sb, tk) \<and> k = request_key (sb_request sb) \<and> approved env policy sb op)) \<and>
         (en_devices en q = Some dv \<longrightarrow> e \<in> device_entries dv \<longrightarrow>
            (\<exists>i sb tk. en_tasks en i = Some (sb, tk) \<and> qe_key e = request_key (sb_request sb) \<and> qe_subject e = sb_subject sb \<and>
               approved env policy sb (qe_operation e)))"
proof (intro conjI impI)
  note inv = approval_reach[OF assms, unfolded approval_inv_def]
  show "\<exists>i sb tk op. en_tasks en i = Some (sb, tk) \<and> k = request_key (sb_request sb) \<and> approved env policy sb op"
    if "(k, s) \<in> set (cx_dispatched (en_cx en))"
    using inv that by (fastforce simp: submitted_def)
  show "\<exists>i sb tk. en_tasks en i = Some (sb, tk) \<and> qe_key e = request_key (sb_request sb) \<and> qe_subject e = sb_subject sb \<and>
      approved env policy sb (qe_operation e)"
    if "en_devices en q = Some dv" "e \<in> device_entries dv"
    using inv entries_ofI[OF that] by (fastforce simp: submitted_def from_approved_def)
qed

end
