(* ===== verification/Control_Trace.thy ===== *)
theory Control_Trace
  imports Control_Approval
begin

text \<open>
  Runs of the control engine: an executable driver for its steps, examples that exercise the whole chain from
  submission to the executor, and the run in which a waiting duplicate is forgotten.
\<close>

section \<open>Driving the engine\<close>

datatype trace_choice =
    TR_Submit nat submission
  | TR_Task nat submit_choice
  | TR_Worker nat worker_choice

text \<open>One step; \<open>chk\<close> decides whether the journal may be asked at a time.\<close>

fun drive_step ::
  "engine_env \<Rightarrow> control_policy \<Rightarrow> 'j journal_api \<Rightarrow> (timestamp_ns \<Rightarrow> 'j \<Rightarrow> bool) \<Rightarrow> trace_choice \<Rightarrow> 'j engine \<Rightarrow> 'j engine option" where
  "drive_step env policy api chk (TR_Submit i sb) en =
     (if en_tasks en i = None then Some (set_task i sb TK_Start en) else None)"
| "drive_step env policy api chk (TR_Task i c) en =
     (case en_tasks en i of
        None \<Rightarrow> None
      | Some (sb, tk) \<Rightarrow>
          (case journal_clock tk of
             None \<Rightarrow> map_option (\<lambda>(tk', en'). set_task i sb tk' en') (submit_step env policy api sb c tk en)
           | Some t \<Rightarrow>
               if chk t (cx_journal (en_cx en))
               then map_option (\<lambda>(tk', en'). set_task i sb tk' en') (submit_step env policy api sb c tk en) else None))"
| "drive_step env policy api chk (TR_Worker q c) en =
     (case en_devices en q of
        None \<Rightarrow> None
      | Some dv \<Rightarrow>
          map_option (\<lambda>(dv', cx'). set_device q dv' cx' en) (worker_step policy api (en_closed en) c (dv, en_cx en)))"

fun drive ::
  "engine_env \<Rightarrow> control_policy \<Rightarrow> 'j journal_api \<Rightarrow> (timestamp_ns \<Rightarrow> 'j \<Rightarrow> bool) \<Rightarrow> trace_choice list \<Rightarrow> 'j engine \<Rightarrow> 'j engine option" where
  "drive env policy api chk [] en = Some en"
| "drive env policy api chk (c # cs) en = Option.bind (drive_step env policy api chk c en) (drive env policy api chk cs)"

lemma drive_step_reach:
  assumes r: "engine_reach env policy api panics P j en" and s: "drive_step env policy api chk c en = Some en'"
    and chk: "\<And>t j. chk t j \<Longrightarrow> P t j"
  shows "engine_reach env policy api panics P j en'"
proof (cases c)
  case (TR_Submit i sb)
  with s have "engine_step env policy api panics None en en'" by (auto intro: e_submit split: if_splits)
  then show ?thesis by (rule g_step[OF r]) simp
next
  case (TR_Task i x)
  then obtain sb tk tk' en1 where t: "en_tasks en i = Some (sb, tk)" "submit_step env policy api sb x tk en = Some (tk', en1)"
      "en' = set_task i sb tk' en1" "case journal_clock tk of None \<Rightarrow> True | Some t \<Rightarrow> chk t (cx_journal (en_cx en))"
    using s by (auto split: option.splits prod.splits if_splits)
  have "engine_step env policy api panics (journal_clock tk) en en'" unfolding t(3) by (rule e_task[OF t(1,2)])
  then show ?thesis by (rule g_step[OF r]) (use t(4) chk in \<open>auto split: option.splits\<close>)
next
  case (TR_Worker q x)
  with s have "engine_step env policy api panics None en en'" by (auto intro: e_worker split: option.splits)
  then show ?thesis by (rule g_step[OF r]) simp
qed

lemma drive_reach:
  assumes "engine_reach env policy api panics P j en" and "drive env policy api chk cs en = Some en'"
    and "\<And>t j. chk t j \<Longrightarrow> P t j"
  shows "engine_reach env policy api panics P j en'"
  using assms(1,2)
proof (induction cs arbitrary: en)
  case (Cons c cs)
  then obtain en1 where "drive_step env policy api chk c en = Some en1" "drive env policy api chk cs en1 = Some en'"
    by (auto simp: bind_eq_Some_conv)
  with Cons.IH[OF drive_step_reach[OF Cons.prems(1) _ assms(3)]] show ?case by blast
qed simp

definition file_chk :: "timestamp_ns \<Rightarrow> file_journal \<Rightarrow> bool" where
  "file_chk t j \<longleftrightarrow> list_all (\<lambda>(k, e). t \<le> je_expires_at_ns e) (fj_entries j)"

lemma file_chk_unexpired: "file_chk t j \<Longrightarrow> unexpired_at file_api t j"
  by (auto simp: file_chk_def unexpired_at_def file_api_def file_get_def list_all_iff dest!: map_of_SomeD)

section \<open>An example engine\<close>

definition ping_profile :: device_profile where
  "ping_profile =
     example_command_profile\<lparr>dp_commands :=
       [\<lparr>pcmd_id = ''ping'', pcmd_driver_command_id = ''PING'', pcmd_parameters = [], pcmd_risk_level = Risk_Low,
         pcmd_preconditions = []\<rparr>]\<rparr>"

text \<open>Everybody is authorized; the hash tells the empty write from everything else.\<close>

definition example_env :: engine_env where
  "example_env =
     \<lparr>ev_authorize = (\<lambda>_ _ _. Inr ()), ev_catalog = insert_profile ''m1'' ping_profile Map.empty,
      ev_payload_hash = (\<lambda>op. case op of PropertyWrite [] \<Rightarrow> ''a'' | _ \<Rightarrow> ''b''),
      ev_audit = \<lparr>au_sha256 = (\<lambda>_. []), au_salt = [], au_show_f32 = (\<lambda>_. []), au_show_f64 = (\<lambda>_. [])\<rparr>\<rparr>"

definition example_submission :: "string \<Rightarrow> control_operation \<Rightarrow> submission" where
  "example_submission ident op =
     \<lparr>sb_request = \<lparr>rq_request_id = ident, rq_namespace = ''ns'', rq_device_id = ''m1'', rq_requested_at_ns = 0,
        rq_timeout_ms = 1000, rq_operation = op\<rparr>,
      sb_subject = ''op'', sb_source = ''test''\<rparr>"

definition example_file :: file_journal where
  "example_file = empty_file_journal"

definition example_engine :: "file_journal engine" where
  "example_engine = the (engine_new default_policy [] example_file)"

abbreviation ping :: control_operation where
  "ping \<equiv> CommandExecute \<lparr>cr_command = ''ping'', cr_parameters = []\<rparr>"

text \<open>A command that reaches the executor, and an empty write that is rejected.\<close>

definition ping_trace :: "trace_choice list" where
  "ping_trace =
     [TR_Submit 0 (example_submission ''r1'' ping), TR_Task 0 (SC_Clock 0 0), TR_Task 0 (SC_Clock 0 0), TR_Task 0 (SC_Write W_Done),
      TR_Task 0 (SC_Clock 0 0), TR_Task 0 SC_Go, TR_Task 0 (SC_Clock 0 0), TR_Task 0 (SC_Clock 0 0), TR_Task 0 SC_Go,
      TR_Worker 1 (WC_Tick 0 0), TR_Worker 1 (WC_Tick 0 0), TR_Worker 1 (WC_Tick 0 0), TR_Worker 1 (WC_Tick 0 0),
      TR_Worker 1 (WC_Tick 0 0), TR_Worker 1 WC_Poll, TR_Worker 1 WC_Dispatch,
      TR_Submit 1 (example_submission ''r2'' (PropertyWrite [])), TR_Task 1 (SC_Clock 0 0), TR_Task 1 (SC_Clock 0 0),
      TR_Task 1 (SC_Write W_Done), TR_Task 1 (SC_Clock 0 0), TR_Task 1 SC_Go, TR_Task 1 (SC_Clock 0 0), TR_Task 1 (SC_Write W_Done),
      TR_Task 1 (SC_Audit [RA_Done] 0), TR_Task 1 SC_Go, TR_Task 1 SC_Go, TR_Task 1 SC_Go, TR_Task 1 SC_Go]"

lemma example_engine_new:
  "engine_new default_policy [] example_file = Some example_engine"
  by (simp add: example_engine_def engine_new_def default_policy_def policy_validate_def ALL_RISK_LEVELS_def)

lemma example_engine_eq:
  "example_engine =
     \<lparr>en_cx =
        \<lparr>cx_journal = \<lparr>fj_disk = \<lparr>df_lines = [], df_open = False\<rparr>, fj_detached = None, fj_entries = []\<rparr>,
         cx_active = Map.empty, cx_shared = Map.empty, cx_cancelled = {}, cx_sink = [],
         cx_metrics =
           \<lparr>mx_queue_depth = 0, mx_device_depth = Map.empty, mx_settled = (\<lambda>_. 0), mx_cooldown_entered = 0,
            mx_journal_settle_failed = 0\<rparr>,
         cx_dispatched = []\<rparr>,
      en_closed = False, en_queues = Map.empty, en_devices = Map.empty, en_stopping = {}, en_tasks = Map.empty, en_next = 0\<rparr>"
  using example_engine_new
  by (simp add: engine_new_def default_policy_def policy_validate_def ALL_RISK_LEVELS_def example_file_def empty_file_journal_def)

lemmas trace_defs = example_engine_eq default_policy_def ns_per_day_def example_env_def example_submission_def ping_profile_def example_command_profile_def set_task_def set_device_def
  submit_step.simps admit_def age_ms_def tdiv_def sat_sub_def sat_add_def sat_i64_def as_i64_def submit_role_def command_risk_def
  insert_profile_def catalog_insert_def lookup_command_def register_active_def request_key_def upd_cx_def decide_def prepare_def
  validate_command_def validate_property_write_def file_api_def file_try_insert_def fresh_entry_def write_record_def write_disk_def append_line_def file_chk_def
  first_missing_def command_payload_def get_or_create_queue_def audit_meta_for_def effective_timeout_ms_def
  Let_def in_cooldown_def device_new_def queue_new_def push_def device_enqueue_def submit_entry_def enqueue_def ensure_worker_def observe_enqueued_def
  worker_step.simps adopt_def phase_a_def close_and_move_def pick_def select_priority_def priorities_def effective_priority_def better_def
  clamp_def is_cancelled_def rejected_result_def unexecuted_result_def settle_rejection_def file_settle_def settle_journal_entry_def
  reject_event_def build_event_def record_bounded_def remove_active_def set_shared_def observe_settled_def coded_error_def

abbreviation ping_key :: idempotency_key where
  "ping_key \<equiv> \<lparr>ik_namespace = ''ns'', ik_device_id = ''m1'', ik_request_id = ''r1''\<rparr>"

lemma ping_run_eval:
  "case drive example_env default_policy file_api file_chk ping_trace example_engine of
     None \<Rightarrow> False
   | Some en \<Rightarrow>
       cx_dispatched (en_cx en) = [(ping_key, 0)] \<and> en_devices en 1 \<noteq> None \<and>
       map_option res_status (cx_shared (en_cx en) 3) = Some CS_Rejected"
  by (simp add: ping_trace_def trace_defs)

text \<open>The run reaches the executor for the first request and rejects the second.\<close>

lemma ping_run:
  obtains en dv r where "engine_reach example_env default_policy file_api False (unexpired_at file_api) example_file en"
    "cx_dispatched (en_cx en) = [(ping_key, 0)]" "en_devices en 1 = Some dv"
    "cx_shared (en_cx en) 3 = Some r" "res_status r = CS_Rejected"
proof -
  obtain en where d: "drive example_env default_policy file_api file_chk ping_trace example_engine = Some en"
      and s: "cx_dispatched (en_cx en) = [(ping_key, 0)]" "en_devices en 1 \<noteq> None"
        "map_option res_status (cx_shared (en_cx en) 3) = Some CS_Rejected"
    using ping_run_eval by (auto split: option.splits)
  have "engine_reach example_env default_policy file_api False (unexpired_at file_api) example_file en"
    by (rule drive_reach[OF g_init[OF example_engine_new] d]) (rule file_chk_unexpired)
  with s that show thesis by auto
qed

theorem engine_refines_devices_witness:
  "\<exists>en dv. engine_reach example_env default_policy file_api False (unexpired_at file_api) example_file en \<and>
     en_devices en 1 = Some dv \<and> cx_dispatched (en_cx en) = [(ping_key, 0)] \<and>
     device_reach default_policy file_api False (en_closed en, dv, en_cx en)"
proof (rule ping_run)
  fix en dv
  assume r: "engine_reach example_env default_policy file_api False (unexpired_at file_api) example_file en"
    "cx_dispatched (en_cx en) = [(ping_key, 0)]" "en_devices en 1 = Some dv"
  from engine_refines_devices[OF r(1,3)] r show ?thesis by blast
qed

theorem engine_denial_is_true_witness:
  "\<exists>en r. engine_reach example_env default_policy file_api False (unexpired_at file_api) example_file en \<and>
     cx_shared (en_cx en) 3 = Some r \<and> denies_execution (res_status r) \<and> 3 \<notin> dispatched_ids (en_cx en)"
proof (rule ping_run)
  fix en dv r
  assume r: "engine_reach example_env default_policy file_api False (unexpired_at file_api) example_file en"
    "cx_shared (en_cx en) 3 = Some r" "res_status r = CS_Rejected"
  then have "denies_execution (res_status r)" by (simp add: denies_execution_def)
  with engine_denial_is_true[OF r(1,2)] r show ?thesis by blast
qed

theorem one_action_per_key_witness:
  "file_wf example_file \<and>
   (\<exists>en. engine_reach example_env default_policy file_api False (unexpired_at file_api) example_file en \<and>
      cx_dispatched (en_cx en) = [(ping_key, 0)] \<and> distinct (map fst (cx_dispatched (en_cx en))))"
proof
  show w: "file_wf example_file" by (simp add: example_file_def empty_file_journal_def)
  show "\<exists>en. engine_reach example_env default_policy file_api False (unexpired_at file_api) example_file en \<and>
      cx_dispatched (en_cx en) = [(ping_key, 0)] \<and> distinct (map fst (cx_dispatched (en_cx en)))"
  proof (rule ping_run)
    fix en
    assume r: "engine_reach example_env default_policy file_api False (unexpired_at file_api) example_file en"
      "cx_dispatched (en_cx en) = [(ping_key, 0)]"
    from one_action_per_key[OF r(1) w] r show ?thesis by blast
  qed
qed

theorem executor_only_for_approved_witness:
  "\<exists>en i sb tk op. engine_reach example_env default_policy file_api False (unexpired_at file_api) example_file en \<and>
     (ping_key, 0) \<in> set (cx_dispatched (en_cx en)) \<and> en_tasks en i = Some (sb, tk) \<and>
     ping_key = request_key (sb_request sb) \<and> approved example_env default_policy sb op"
proof (rule ping_run)
  fix en
  assume r: "engine_reach example_env default_policy file_api False (unexpired_at file_api) example_file en"
    "cx_dispatched (en_cx en) = [(ping_key, 0)]"
  then have k: "(ping_key, 0) \<in> set (cx_dispatched (en_cx en))" by simp
  from executor_only_for_approved[OF r(1), THEN conjunct1, rule_format, OF k] r(1) k show ?thesis by blast
qed

section \<open>A forgotten duplicate\<close>

text \<open>A shared result nobody will write: it belongs to no queue, and no task owns it.\<close>

definition abandoned :: "nat \<Rightarrow> 'j engine \<Rightarrow> bool" where
  "abandoned s en \<longleftrightarrow>
     s < en_next en \<and> s \<notin> all_ids en \<and> cx_shared (en_cx en) s = None \<and>
     (\<forall>i sb tk. en_tasks en i = Some (sb, tk) \<longrightarrow> owned tk \<noteq> Some s)"

lemma all_ids_update:
  assumes "en_devices en' = (en_devices en)(q \<mapsto> dv')"
  shows "all_ids en' \<subseteq> dv_ids dv' \<union> all_ids en"
  using assms by (auto simp: all_ids_def ran_def split: if_splits)

lemma push_frame:
  assumes "push policy sb q op s deadline meta en = Some (tk', en')"
  shows "en_tasks en' = en_tasks en" "en_next en \<le> en_next en'" "cx_shared (en_cx en') = cx_shared (en_cx en)"
    "all_ids en' \<subseteq> insert s (all_ids en)" "owned tk' = Some u \<Longrightarrow> u = s"
proof -
  obtain dv where dv: "en_devices en q = Some dv" using assms by (auto simp: push_def split: option.splits)
  let ?e = "submit_entry sb op s deadline meta (en_next en)"
  have ids: "dv_ids dv \<subseteq> all_ids en" using dv by (auto simp: all_ids_def ran_def)
  consider (kept) "en' = en" "owned tk' = Some s"
    | (pushed) dv' cx' where "device_enqueue policy (en_closed en) ?e (dv, en_cx en) = Inr (dv', cx')" "tk' = TK_Pushed s"
        "en' = en\<lparr>en_cx := cx', en_devices := (en_devices en)(q \<mapsto> dv'), en_next := en_next en + 1\<rparr>"
    using assms dv by (auto simp: push_def split: sum.splits enqueue_error.splits)
  then have "en_tasks en' = en_tasks en \<and> en_next en \<le> en_next en' \<and> cx_shared (en_cx en') = cx_shared (en_cx en) \<and>
      all_ids en' \<subseteq> insert s (all_ids en) \<and> (owned tk' = Some u \<longrightarrow> u = s)"
  proof cases
    case pushed
    then have "dv_ids dv' = insert s (dv_ids dv)" "cx_shared cx' = cx_shared (en_cx en)"
      by (auto simp: device_enqueue_def result_simps ensure_worker_def submit_entry_def split: if_splits)
    then show ?thesis using pushed all_ids_update[of en' en q dv'] ids by auto
  qed auto
  then show "en_tasks en' = en_tasks en" "en_next en \<le> en_next en'" "cx_shared (en_cx en') = cx_shared (en_cx en)"
    "all_ids en' \<subseteq> insert s (all_ids en)" "owned tk' = Some u \<Longrightarrow> u = s" by blast+
qed

lemma perform_keeps:
  "u \<noteq> s \<Longrightarrow> cx_shared (perform key s a cx) u = cx_shared cx u"
  "\<forall>r. A_Set r \<noteq> a \<Longrightarrow> cx_shared (perform key s a cx) = cx_shared cx"
  by (cases a; auto simp: remove_active_def set_shared_def)+

text \<open>A step of a submission touches only the shared result it owns, and owns at most a new one after it.\<close>

lemma submit_step_frame:
  assumes "submit_step env policy api sb choice tk en = Some (tk', en')"
  shows "en_tasks en' = en_tasks en \<and> en_next en \<le> en_next en' \<and>
    (\<forall>s. owned tk \<noteq> Some s \<longrightarrow> s < en_next en \<longrightarrow> s \<notin> all_ids en \<longrightarrow>
       owned tk' \<noteq> Some s \<and> s \<notin> all_ids en' \<and> cx_shared (en_cx en') s = cx_shared (en_cx en) s)"
proof (cases tk)
  case (TK_Register info)
  with assms obtain now t0 s fresh where r: "register_active (request_key (sb_request sb)) en = ((s, fresh), en')"
      "owned tk' = (if fresh then Some s else None)"
    by (cases choice) (auto simp: submit_step.simps Let_def split: prod.splits)
  note c = register_active_cases[OF r(1)]
  then show ?thesis using r(2) by (auto simp: all_ids_def)
next
  case (TK_Insert info hash now expires s fresh)
  with assms show ?thesis by (cases choice) (auto simp: submit_step.simps all_ids_def upd_cx_def split: prod.splits)
next
  case (TK_Decided info s fresh d)
  with assms show ?thesis by (cases choice) (auto simp: submit_step.simps dest: decide_owned(1))
next
  case (TK_Prepare info s)
  with assms show ?thesis by (cases choice) (auto simp: submit_step.simps prepare_owned)
next
  case (TK_Deadline op s)
  with assms obtain q dl meta where q: "get_or_create_queue policy (rq_device_id (sb_request sb)) en = (q, en')"
      "tk' = TK_Cooldown q op s dl meta"
    by (cases choice) (auto simp: submit_step.simps Let_def split: prod.splits)
  have "all_ids en' \<subseteq> all_ids en"
    using q(1) all_ids_update[of en' en "en_next en" "device_new (queue_capacity policy)"]
    by (auto simp: get_or_create_queue_def device_new_def split: option.splits)
  then show ?thesis
    using q TK_Deadline by (auto simp: get_or_create_queue_def split: option.splits)
next
  case (TK_Push q op s dl meta)
  with assms have "push policy sb q op s dl meta en = Some (tk', en')" by (cases choice) (auto simp: submit_step.simps)
  from push_frame[OF this] TK_Push show ?thesis by auto
next
  case (TK_Settle sf result s)
  with assms obtain w r cx where r: "settle_rejection api w sf (request_key (sb_request sb)) result (en_cx en) = (r, cx)"
      "en' = en\<lparr>en_cx := cx\<rparr>" "owned tk' = Some u \<Longrightarrow> owned tk = Some u" for u
    by (cases choice) (auto simp: submit_step.simps split: prod.splits if_splits)
  with settle_rejection_frame[OF r(1)] show ?thesis by (auto simp: all_ids_def)
next
  case (TK_Acts as outcome s)
  with assms show ?thesis
    by (cases choice; cases as)
      (auto simp: submit_step.simps upd_cx_def all_ids_def perform_keeps simp del: perform.simps split: if_splits)
qed (use assms in \<open>auto simp: submit_step.simps Let_def upd_cx_def all_ids_def
  split: submit_choice.splits admission.splits option.splits if_splits\<close>)

lemma abandoned_device:
  assumes a: "abandoned s en" and d: "devices_inv policy api en" and q: "en_devices en q = Some dv"
    and frame: "own_frame api (dv, en_cx en) (dv', cx')"
  shows "abandoned s (set_device q dv' cx' en)"
proof -
  have "qe_reply ` device_entries dv \<subseteq> dv_ids dv"
    using device_reach_truthful[OF devices_invD(3)[OF d q]] by (simp add: truthful_inv_def)
  moreover have ids: "dv_ids dv \<subseteq> all_ids en" using q by (auto simp: all_ids_def ran_def)
  ultimately have "s \<notin> qe_reply ` device_entries dv" using a by (auto simp: abandoned_def)
  then have "cx_shared cx' s = cx_shared (en_cx en) s" "dv_ids dv' = dv_ids dv"
    using frame by (simp_all add: own_frame_def)
  moreover have "all_ids (set_device q dv' cx' en) \<subseteq> dv_ids dv' \<union> all_ids en" by (rule all_ids_update) simp
  ultimately show ?thesis using a ids by (auto simp: abandoned_def)
qed

lemma abandoned_context:
  assumes "abandoned s en" "en_devices en' = en_devices en" "en_tasks en' = en_tasks en" "en_next en' = en_next en"
    "cx_shared (en_cx en') = cx_shared (en_cx en)"
  shows "abandoned s en'"
  using assms by (simp add: abandoned_def all_ids_def)

lemma abandoned_step:
  assumes "engine_step env policy api False clk en en'" and a: "abandoned s en" and d: "devices_inv policy api en"
  shows "abandoned s en'"
  using assms(1)
proof cases
  case (e_submit i sb)
  then show ?thesis using a by (auto simp: abandoned_def all_ids_def)
next
  case (e_task i sb tk choice tk' en1)
  have "all_ids (set_task i sb tk' en1) = all_ids en1" by (simp add: all_ids_def)
  moreover have "owned tk \<noteq> Some s" using a e_task(3) by (auto simp: abandoned_def)
  ultimately show ?thesis using submit_step_frame[OF e_task(4)] a e_task(2) by (auto simp: abandoned_def)
next
  case (e_worker q dv choice dv' cx')
  have "truthful_inv (en_closed en) dv (en_cx en)" by (rule device_reach_truthful[OF devices_invD(3)[OF d e_worker(3)]])
  from worker_frame[OF worker_step_rel[OF e_worker(4)] this] show ?thesis
    unfolding e_worker(2) by (rule abandoned_device[OF a d e_worker(3)])
next
  case (e_join q dv choice dv' cx')
  from join_frame[OF e_join(4)] show ?thesis unfolding e_join(2) by (rule abandoned_device[OF a d e_join(3)])
next
  case (e_kill q dv w)
  show ?thesis unfolding e_kill(2) by (rule abandoned_device[OF a d e_kill(3) kill_frame])
next
  case (e_respawn q dv)
  show ?thesis unfolding e_respawn(2) by (rule abandoned_device[OF a d e_respawn(3) ensure_worker_frame])
next
  case (e_cancel key subject res)
  from engine_cancel_frame[OF e_cancel(2)] show ?thesis
    by (elim exE conjE) (rule abandoned_context[OF a]; simp)
next
  case (e_status co now key subject res)
  from engine_status_frame[OF e_status(2)] show ?thesis
    using a by (auto intro: abandoned_context[OF a] simp: upd_cx_def)
next
  case (e_stop q)
  from shutdown_queue_device[OF e_stop(3)] show ?thesis using abandoned_device[OF a d _ shutdown_frame] by blast
qed (auto intro: abandoned_context[OF a] simp: shutdown_close_def shutdown_take_def)

text \<open>No continuation of the run, whatever the clocks, fills in the shared result.\<close>

definition never_answered :: "engine_env \<Rightarrow> control_policy \<Rightarrow> 'j journal_api \<Rightarrow> nat \<Rightarrow> 'j engine \<Rightarrow> bool" where
  "never_answered env policy api s en \<longleftrightarrow>
     (\<forall>en'. (\<lambda>a b. \<exists>clk. engine_step env policy api False clk a b)\<^sup>*\<^sup>* en en' \<longrightarrow> cx_shared (en_cx en') s = None)"

lemma abandoned_never_answered:
  assumes r: "engine_reach env policy api False P j en" and a: "abandoned s en"
  shows "never_answered env policy api s en"
  unfolding never_answered_def
proof (intro allI impI)
  fix en'
  assume "(\<lambda>a b. \<exists>clk. engine_step env policy api False clk a b)\<^sup>*\<^sup>* en en'"
  then have "abandoned s en' \<and> tasks_inv en' \<and> devices_inv policy api en'"
  proof induction
    case base
    show ?case using a engine_reach_inv[OF r] by simp
  next
    case (step y z)
    then show ?case using abandoned_step engine_step_inv by blast
  qed
  then show "cx_shared (en_cx en') s = None" by (simp add: abandoned_def)
qed

text \<open>The first task's rejection is not persisted; the second registers a fresh shared result, on which the third waits
  when the second meets a conflict.\<close>

definition conflict_trace :: "trace_choice list" where
  "conflict_trace =
     [TR_Submit 0 (example_submission ''r1'' (PropertyWrite [])), TR_Task 0 (SC_Clock 0 0), TR_Task 0 (SC_Clock 0 0),
      TR_Task 0 (SC_Write W_Done), TR_Task 0 (SC_Clock 0 0), TR_Task 0 SC_Go, TR_Task 0 (SC_Clock 0 0),
      TR_Task 0 (SC_Write W_Nothing), TR_Task 0 (SC_Audit [RA_Done] 0), TR_Task 0 SC_Go, TR_Task 0 SC_Go, TR_Task 0 SC_Go,
      TR_Task 0 SC_Go,
      TR_Submit 1 (example_submission ''r1'' ping), TR_Task 1 (SC_Clock 0 0), TR_Task 1 (SC_Clock 0 0),
      TR_Submit 2 (example_submission ''r1'' (PropertyWrite [])), TR_Task 2 (SC_Clock 0 0), TR_Task 2 (SC_Clock 0 0),
      TR_Task 2 (SC_Write W_Done), TR_Task 2 (SC_Clock 0 0),
      TR_Task 1 (SC_Write W_Done), TR_Task 1 (SC_Clock 0 0), TR_Task 1 SC_Go, TR_Task 1 SC_Go]"

lemma conflict_run_eval:
  "case drive example_env default_policy file_api file_chk conflict_trace example_engine of
     None \<Rightarrow> False
   | Some en \<Rightarrow>
       map_option snd (en_tasks en 2) = Some (TK_Done (SO_Pending 1)) \<and> abandoned 1 en \<and> cx_active (en_cx en) ping_key = None"
  by (simp add: conflict_trace_def trace_defs abandoned_def all_ids_def)

text \<open>C34: A repeated request can wait for ever. The engine reaches a state in which a submission has returned a receipt that
  waits on a shared result, yet no continuation ever fills it in: the submission that had registered it met a conflicting
  payload, took the registration back and returned its error without writing the shared result.\<close>
theorem conflict_strands_duplicate:
  "\<exists>en sb. engine_reach example_env default_policy file_api False (unexpired_at file_api) example_file en \<and>
     en_tasks en 2 = Some (sb, TK_Done (SO_Pending 1)) \<and> never_answered example_env default_policy file_api 1 en"
proof -
  obtain en where d: "drive example_env default_policy file_api file_chk conflict_trace example_engine = Some en"
      and s: "map_option snd (en_tasks en 2) = Some (TK_Done (SO_Pending 1))" "abandoned 1 en"
    using conflict_run_eval by (auto split: option.splits)
  have r: "engine_reach example_env default_policy file_api False (unexpired_at file_api) example_file en"
    by (rule drive_reach[OF g_init[OF example_engine_new] d]) (rule file_chk_unexpired)
  from abandoned_never_answered[OF r s(2)] r s(1) show ?thesis by auto
qed

end
