(* ===== verification/Domain_Model.thy ===== *)
theory Domain_Model
  imports Profile_Convert
begin

text \<open>
  \<^verbatim>\<open>crates/domain-model\<close> and \<^verbatim>\<open>crates/observation-model/src/observation.rs\<close>: the last step of a read, which checks that the
  semantic path belongs to the domain of the device and assembles the observation. A string is the list of its bytes, so
  that \<^verbatim>\<open>len()\<close> is its length. The messages of a quality are not modelled.
\<close>

section \<open>Observations\<close>

record observation =
  ob_observation_id :: string
  ob_device_id :: string
  ob_path :: property_path
  ob_value :: "sem_value option"
  ob_quality :: quality
  ob_source_timestamp_ns :: "timestamp_ns option"
  ob_ingest_timestamp_ns :: timestamp_ns
  ob_sequence :: nat
  ob_metadata :: "(string \<times> string) list"

section \<open>Domains\<close>

fun standard_prefix :: "domain_kind \<Rightarrow> string" where
  "standard_prefix DK_Plc = ''plc''"
| "standard_prefix DK_Cnc = ''cnc''"
| "standard_prefix DK_Robot = ''robot''"
| "standard_prefix DK_Drive = ''drive''"
| "standard_prefix DK_Servo = ''servo''"
| "standard_prefix DK_Meter = ''meter''"
| "standard_prefix DK_Sensor = ''sensor''"
| "standard_prefix DK_Instrument = ''instrument''"
| "standard_prefix DK_Machine = ''machine''"
| "standard_prefix DK_PowerDevice = ''power_device''"
| "standard_prefix DK_BuildingDevice = ''building_device''"
| "standard_prefix (DK_Custom _) = ''custom''"

definition first_segment :: "string \<Rightarrow> string" where
  "first_segment path = takeWhile (\<lambda>c. c \<noteq> CHR ''.'') path"

datatype domain_error = DE_PathPrefix domain_kind property_path | DE_EmptyCollectorSession

definition validate_domain_path :: "domain_kind \<Rightarrow> property_path \<Rightarrow> domain_error + unit" where
  "validate_domain_path d path = (if first_segment path = standard_prefix d then Inr () else Inl (DE_PathPrefix d path))"

section \<open>Assembling an observation\<close>

text \<open>\<^verbatim>\<open>format!("{}:{device_id}:{}:{path}:{sequence}:{session}", device_id.len(), path.len())\<close>.\<close>

definition observation_id :: "string \<Rightarrow> property_path \<Rightarrow> nat \<Rightarrow> string \<Rightarrow> string" where
  "observation_id device path sequence session =
     nat_to_string (length device) @ '':'' @ device @ '':'' @ nat_to_string (length path) @ '':'' @ path @ '':'' @
     nat_to_string sequence @ '':'' @ session"

definition build_observation ::
  "string \<Rightarrow> domain_kind \<Rightarrow> property_path \<Rightarrow> decoded_read \<Rightarrow> timestamp_ns option \<Rightarrow> timestamp_ns \<Rightarrow> nat \<Rightarrow> string
     \<Rightarrow> domain_error + observation" where
  "build_observation device domain path decoded source_ts ingest_ts sequence session =
     (if session = [] then Inl DE_EmptyCollectorSession
      else res_bind (validate_domain_path domain path) (\<lambda>_.
        Inr \<lparr>ob_observation_id = observation_id device path sequence session, ob_device_id = device, ob_path = path,
             ob_value = dr_value decoded, ob_quality = dr_quality decoded, ob_source_timestamp_ns = source_ts,
             ob_ingest_timestamp_ns = ingest_ts, ob_sequence = sequence, ob_metadata = []\<rparr>))"

section \<open>Identifiers are unambiguous\<close>

declare nat_to_string.simps [simp del]

text \<open>A text that starts with a decimal length, a colon and as many bytes can be taken apart in one way only.\<close>

definition prefixed :: "string \<Rightarrow> string" where
  "prefixed s = nat_to_string (length s) @ CHR '':'' # s"

lemma colon_not_in_number: "CHR '':'' \<notin> set (nat_to_string n)"
  by (rule not_in_nat_to_string) simp

lemma number_then_colon_inj:
  assumes "nat_to_string m @ CHR '':'' # x = nat_to_string n @ CHR '':'' # y"
  shows "m = n \<and> x = y"
proof -
  have sp: "split_once (CHR '':'') (nat_to_string k @ CHR '':'' # z) = Some (nat_to_string k, z)" for k z
    by (rule split_once_append) (rule colon_not_in_number)
  from sp[of m x] sp[of n y] have e: "nat_to_string m = nat_to_string n" "x = y" unfolding assms by simp_all
  have "Some m = parse_uint (max m n) (nat_to_string m)" by simp
  also have "\<dots> = Some n" unfolding e(1) by simp
  finally show ?thesis using e(2) by simp
qed

lemma prefixed_inj:
  assumes "prefixed s @ x = prefixed t @ y"
  shows "s = t \<and> x = y"
proof -
  have "nat_to_string (length s) @ CHR '':'' # (s @ x) = nat_to_string (length t) @ CHR '':'' # (t @ y)"
    using assms by (simp add: prefixed_def)
  from number_then_colon_inj[OF this] show ?thesis by auto
qed

lemma observation_id_prefixed:
  "observation_id d p n s = prefixed d @ CHR '':'' # prefixed p @ CHR '':'' # nat_to_string n @ CHR '':'' # s"
  by (simp add: observation_id_def prefixed_def)

lemma observation_id_inj:
  assumes "observation_id d p n s = observation_id d' p' n' s'"
  shows "d = d' \<and> p = p' \<and> n = n' \<and> s = s'"
proof -
  from assms[unfolded observation_id_prefixed] have d: "d = d'"
      "CHR '':'' # prefixed p @ CHR '':'' # nat_to_string n @ CHR '':'' # s =
       CHR '':'' # prefixed p' @ CHR '':'' # nat_to_string n' @ CHR '':'' # s'"
    using prefixed_inj by blast+
  from d(2) have "prefixed p @ CHR '':'' # nat_to_string n @ CHR '':'' # s =
      prefixed p' @ CHR '':'' # nat_to_string n' @ CHR '':'' # s'" by simp
  from prefixed_inj[OF this] have p: "p = p'"
      "CHR '':'' # nat_to_string n @ CHR '':'' # s = CHR '':'' # nat_to_string n' @ CHR '':'' # s'" by blast+
  then have "nat_to_string n @ CHR '':'' # s = nat_to_string n' @ CHR '':'' # s'" by simp
  from number_then_colon_inj[OF this] d p show ?thesis by simp
qed

end
