(* ===== verification/Data_Pipeline.thy ===== *)
theory Data_Pipeline
  imports Domain_Model "HOL-Library.Multiset"
begin

text \<open>
  \<^verbatim>\<open>crates/data-pipeline\<close>: observations are collected per device and leave as numbered batches. The task of the pipeline is
  a step relation: each branch of its \<^verbatim>\<open>select!\<close> is a step, and so is each batch of the drain at shutdown. A \<^verbatim>\<open>HashMap\<close>
  is visited in an order the step chooses. The input channel is a list; the output channel records what was sent. The
  lists of accepted, received and dropped data are kept for the theorems only.
\<close>

section \<open>Configuration\<close>

record pipeline_config =
  pf_collector_session_id :: string
  pf_site_id :: string
  pf_max_batch_size :: nat
  pf_flush_interval_ns :: nat
  pf_input_capacity :: nat
  pf_drain_timeout_ns :: nat

definition BUFFER_BATCH_MULTIPLIER :: nat where
  "BUFFER_BATCH_MULTIPLIER = 16"

datatype pipeline_config_error =
    EmptySiteId | EmptyCollectorSessionId | ZeroBatchSize | BatchSizeOverflow | ZeroFlushInterval | ZeroInputCapacity | ZeroDrainTimeout

definition pipeline_config_validate :: "pipeline_config \<Rightarrow> pipeline_config_error + unit" where
  "pipeline_config_validate c =
     (if pf_site_id c = [] then Inl EmptySiteId
      else if pf_collector_session_id c = [] then Inl EmptyCollectorSessionId
      else if pf_max_batch_size c = 0 then Inl ZeroBatchSize
      else if 2 ^ 64 \<le> pf_max_batch_size c * BUFFER_BATCH_MULTIPLIER then Inl BatchSizeOverflow
      else if pf_flush_interval_ns c = 0 then Inl ZeroFlushInterval
      else if pf_input_capacity c = 0 then Inl ZeroInputCapacity
      else if pf_drain_timeout_ns c = 0 then Inl ZeroDrainTimeout
      else Inr ())"

definition pipeline_config_new :: "string \<Rightarrow> string \<Rightarrow> pipeline_config" where
  "pipeline_config_new site session =
     \<lparr>pf_collector_session_id = session, pf_site_id = site, pf_max_batch_size = 1000, pf_flush_interval_ns = 10 ^ 9,
      pf_input_capacity = 4096, pf_drain_timeout_ns = 5 * 10 ^ 9\<rparr>"

section \<open>Batches\<close>

definition TELEMETRY_SCHEMA :: string where
  "TELEMETRY_SCHEMA = ''forgelink.telemetry.v1''"

record observation_batch =
  bt_schema :: string
  bt_message_id :: string
  bt_site_id :: string
  bt_device_id :: string
  bt_sequence :: nat
  bt_sent_at_ns :: nat
  bt_replayed :: bool
  bt_observations :: "observation list"

text \<open>\<^verbatim>\<open>format!("{}:{session}{}:{device_id}{sequence}", session.len(), device_id.len())\<close>.\<close>

definition message_id :: "string \<Rightarrow> string \<Rightarrow> nat \<Rightarrow> string" where
  "message_id session device sequence =
     nat_to_string (length session) @ '':'' @ session @ nat_to_string (length device) @ '':'' @ device @ nat_to_string sequence"

definition batch_new :: "pipeline_config \<Rightarrow> string \<Rightarrow> nat \<Rightarrow> nat \<Rightarrow> observation list \<Rightarrow> observation_batch" where
  "batch_new c device sequence now observations =
     \<lparr>bt_schema = TELEMETRY_SCHEMA, bt_message_id = message_id (pf_collector_session_id c) device sequence,
      bt_site_id = pf_site_id c, bt_device_id = device, bt_sequence = sequence, bt_sent_at_ns = now, bt_replayed = False,
      bt_observations = observations\<rparr>"

section \<open>State\<close>

record pending_batch =
  pb_sequence :: nat
  pb_observations :: "observation list"

record drain_stats =
  ds_batches_emitted :: nat
  ds_observations_emitted :: nat
  ds_batches_dropped :: nat
  ds_observations_dropped :: nat

record pipeline_metrics =
  pm_batches_flushed :: nat
  pm_observations :: nat

datatype pipeline_pc = PL_Run | PL_Drain | PL_Closing | PL_Done | PL_Cancelled

record pipeline =
  pl_pc :: pipeline_pc
  pl_input :: "observation list"
  pl_pending :: "string \<rightharpoonup> pending_batch"
  pl_device_sequence :: "string \<rightharpoonup> nat"
  pl_outbox :: "observation_batch list"
  pl_buffered :: nat
  pl_stats :: drain_stats
  pl_metrics :: pipeline_metrics
  pl_output :: "observation_batch list"
  pl_accepted :: "observation list"
  pl_received :: "observation list"
  pl_dropped :: "observation_batch list"

definition pipeline_spawn :: "pipeline_config \<Rightarrow> pipeline_config_error + pipeline" where
  "pipeline_spawn c =
     res_bind (pipeline_config_validate c) (\<lambda>_.
       Inr \<lparr>pl_pc = PL_Run, pl_input = [], pl_pending = Map.empty, pl_device_sequence = Map.empty, pl_outbox = [],
            pl_buffered = 0, pl_stats = \<lparr>ds_batches_emitted = 0, ds_observations_emitted = 0, ds_batches_dropped = 0,
            ds_observations_dropped = 0\<rparr>, pl_metrics = \<lparr>pm_batches_flushed = 0, pm_observations = 0\<rparr>, pl_output = [],
            pl_accepted = [], pl_received = [], pl_dropped = []\<rparr>)"

definition buffer_limit :: "pipeline_config \<Rightarrow> nat" where
  "buffer_limit c = pf_max_batch_size c * BUFFER_BATCH_MULTIPLIER"

section \<open>Aggregation\<close>

text \<open>\<^verbatim>\<open>device_sequence.entry(device_id).or_insert(0)\<close>, and the entry of the device in \<^verbatim>\<open>pending\<close>.\<close>

definition aggregate_observation :: "observation \<Rightarrow> pipeline \<Rightarrow> pipeline" where
  "aggregate_observation o' p =
     (let d = ob_device_id o' in
      case pl_pending p d of
        Some e \<Rightarrow> p\<lparr>pl_pending := (pl_pending p)(d \<mapsto> e\<lparr>pb_observations := pb_observations e @ [o']\<rparr>)\<rparr>
      | None \<Rightarrow>
          (let sq = (case pl_device_sequence p d of Some n \<Rightarrow> n | None \<Rightarrow> 0) in
           p\<lparr>pl_device_sequence := (pl_device_sequence p)(d \<mapsto> sq),
             pl_pending := (pl_pending p)(d \<mapsto> \<lparr>pb_sequence = sq, pb_observations = [o']\<rparr>)\<rparr>))"

text \<open>The branch that receives one observation: a full batch goes to the outbox at once.\<close>

definition receive_observation :: "pipeline_config \<Rightarrow> nat \<Rightarrow> observation \<Rightarrow> pipeline \<Rightarrow> pipeline" where
  "receive_observation c now o' p =
     (let d = ob_device_id o'; p1 = aggregate_observation o' (p\<lparr>pl_buffered := pl_buffered p + 1\<rparr>) in
      case pl_pending p1 d of
        None \<Rightarrow> p1
      | Some e \<Rightarrow>
          if pf_max_batch_size c \<le> length (pb_observations e) then
            p1\<lparr>pl_pending := (pl_pending p1)(d := None),
               pl_outbox := pl_outbox p1 @ [batch_new c d (pb_sequence e) now (pb_observations e)],
               pl_device_sequence := (pl_device_sequence p1)(d := map_option Suc (pl_device_sequence p1 d))\<rparr>
          else p1)"

text \<open>The chunks of one device. A batch size of zero, which the validation refuses, would loop.\<close>

function chunk_batches :: "pipeline_config \<Rightarrow> (nat \<Rightarrow> nat) \<Rightarrow> string \<Rightarrow> nat \<Rightarrow> observation list \<Rightarrow> observation_batch list" where
  "chunk_batches c now d sequence obs =
     (if obs = [] \<or> pf_max_batch_size c = 0 then []
      else batch_new c d sequence (now sequence) (take (pf_max_batch_size c) obs)
             # chunk_batches c now d (Suc sequence) (drop (pf_max_batch_size c) obs))"
  by pat_completeness auto
termination by (relation "measure (\<lambda>(c, now, d, sequence, obs). length obs)") auto

declare chunk_batches.simps [simp del]

text \<open>One round of \<^verbatim>\<open>for device_id in device_ids\<close>.\<close>

definition flush_device :: "pipeline_config \<Rightarrow> (nat \<Rightarrow> nat) \<Rightarrow> string \<Rightarrow> pipeline \<Rightarrow> pipeline" where
  "flush_device c now d p =
     (case pl_pending p d of
        None \<Rightarrow> p
      | Some e \<Rightarrow>
          (let bs = chunk_batches c now d (pb_sequence e) (pb_observations e) in
           p\<lparr>pl_pending := (pl_pending p)(d := None), pl_outbox := pl_outbox p @ bs,
             pl_device_sequence := (pl_device_sequence p)(d := map_option (\<lambda>_. pb_sequence e + length bs) (pl_device_sequence p d))\<rparr>))"

definition flush_pending_to_outbox :: "pipeline_config \<Rightarrow> (nat \<Rightarrow> nat) \<Rightarrow> string list \<Rightarrow> pipeline \<Rightarrow> pipeline" where
  "flush_pending_to_outbox c now order p = fold (flush_device c now) order p"

section \<open>Output\<close>

definition observe_batch_emitted :: "nat \<Rightarrow> pipeline_metrics \<Rightarrow> pipeline_metrics" where
  "observe_batch_emitted n m = \<lparr>pm_batches_flushed = pm_batches_flushed m + 1, pm_observations = pm_observations m + n\<rparr>"

text \<open>A batch for which the output channel gave a permit.\<close>

definition emit_batch :: "observation_batch \<Rightarrow> pipeline \<Rightarrow> pipeline" where
  "emit_batch b p =
     (let n = length (bt_observations b); st = pl_stats p in
      p\<lparr>pl_output := pl_output p @ [b],
        pl_stats := st\<lparr>ds_batches_emitted := ds_batches_emitted st + 1,
          ds_observations_emitted := ds_observations_emitted st + n\<rparr>,
        pl_metrics := observe_batch_emitted n (pl_metrics p)\<rparr>)"

definition observation_count :: "observation_batch list \<Rightarrow> nat" where
  "observation_count bs = (\<Sum>b\<leftarrow>bs. length (bt_observations b))"

text \<open>\<^verbatim>\<open>drop_outbox_rest\<close>, and the settlement of \<^verbatim>\<open>terminate_on_output_closed\<close>.\<close>

definition drop_outbox_rest :: "pipeline \<Rightarrow> pipeline" where
  "drop_outbox_rest p =
     (let st = pl_stats p in
      p\<lparr>pl_outbox := [], pl_dropped := pl_dropped p @ pl_outbox p,
        pl_stats := st\<lparr>ds_batches_dropped := ds_batches_dropped st + length (pl_outbox p),
          ds_observations_dropped := ds_observations_dropped st + observation_count (pl_outbox p)\<rparr>\<rparr>)"

section \<open>The task\<close>

text \<open>What the environment contributes: an observation sent in, the clock and the order in which a map is visited, and
  what the channels and the shutdown signal do.\<close>

datatype pipe_choice =
    PX_Ingest observation
  | PX_Receive nat
  | PX_Tick "nat \<Rightarrow> nat" "string list"
  | PX_Emit
  | PX_Cancel
  | PX_Shutdown "nat \<Rightarrow> nat" "string list"
  | PX_OutputClosed
  | PX_Closed "nat \<Rightarrow> nat" "string list"
  | PX_DrainSend
  | PX_DrainStop

text \<open>\<^verbatim>\<open>try_recv\<close> until the channel is empty.\<close>

definition collect_input :: "pipeline \<Rightarrow> pipeline" where
  "collect_input p = (fold aggregate_observation (pl_input p) p)\<lparr>pl_input := [], pl_received := pl_received p @ pl_input p\<rparr>"

text \<open>Leaving the loop without draining drops everything the task holds.\<close>

definition cancel :: "pipeline \<Rightarrow> pipeline" where
  "cancel p = p\<lparr>pl_pc := PL_Cancelled, pl_input := [], pl_pending := Map.empty, pl_outbox := [], pl_buffered := 0\<rparr>"

definition visits :: "string list \<Rightarrow> pipeline \<Rightarrow> bool" where
  "visits order p \<longleftrightarrow> distinct order \<and> set order = dom (pl_pending p)"

text \<open>\<^verbatim>\<open>shutdown\<close> consumes the handle, so that nothing is sent in while the task drains; a sender that holds a permit when the
  output closes still completes.\<close>

fun pipe_step :: "pipeline_config \<Rightarrow> pipe_choice \<Rightarrow> pipeline \<Rightarrow> pipeline option" where
  "pipe_step c (PX_Ingest o') p =
     (if pl_pc p \<in> {PL_Run, PL_Closing} \<and> length (pl_input p) < pf_input_capacity c then
        Some (p\<lparr>pl_input := pl_input p @ [o'], pl_accepted := pl_accepted p @ [o']\<rparr>)
      else None)"
| "pipe_step c (PX_Receive now) p =
     (case pl_input p of
        [] \<Rightarrow> None
      | o' # rest \<Rightarrow>
          if pl_pc p = PL_Run \<and> pl_buffered p < buffer_limit c then
            Some (receive_observation c now o' (p\<lparr>pl_input := rest, pl_received := pl_received p @ [o']\<rparr>))
          else None)"
| "pipe_step c (PX_Tick now order) p =
     (if pl_pc p = PL_Run \<and> visits order p then Some (flush_pending_to_outbox c now order p) else None)"
| "pipe_step c PX_Emit p =
     (case pl_outbox p of
        [] \<Rightarrow> None
      | b # bs \<Rightarrow>
          if pl_pc p = PL_Run then
            Some (emit_batch b (p\<lparr>pl_outbox := bs, pl_buffered := pl_buffered p - length (bt_observations b)\<rparr>))
          else None)"
| "pipe_step c PX_Cancel p = (if pl_pc p = PL_Run then Some (cancel p) else None)"
| "pipe_step c (PX_Shutdown now order) p =
     (let p1 = collect_input p in
      if pl_pc p = PL_Run \<and> visits order p1 then Some ((flush_pending_to_outbox c now order p1)\<lparr>pl_pc := PL_Drain\<rparr>) else None)"
| "pipe_step c PX_OutputClosed p = (if pl_pc p = PL_Run then Some (p\<lparr>pl_pc := PL_Closing\<rparr>) else None)"
| "pipe_step c (PX_Closed now order) p =
     (let p1 = collect_input p in
      if pl_pc p = PL_Closing \<and> visits order p1 then
        Some ((drop_outbox_rest (flush_pending_to_outbox c now order p1))\<lparr>pl_pc := PL_Done\<rparr>)
      else None)"
| "pipe_step c PX_DrainSend p =
     (if pl_pc p = PL_Drain then
        (case pl_outbox p of
           [] \<Rightarrow> Some (p\<lparr>pl_pc := PL_Done\<rparr>)
         | b # bs \<Rightarrow> Some (emit_batch b (p\<lparr>pl_outbox := bs\<rparr>)))
      else None)"
| "pipe_step c PX_DrainStop p =
     (if pl_pc p = PL_Drain then Some ((drop_outbox_rest p)\<lparr>pl_pc := PL_Done\<rparr>) else None)"

inductive pipe_reach :: "pipeline_config \<Rightarrow> pipeline \<Rightarrow> bool" for c where
  pr_spawn: "pipeline_spawn c = Inr p \<Longrightarrow> pipe_reach c p"
| pr_step: "pipe_reach c p \<Longrightarrow> pipe_step c x p = Some p' \<Longrightarrow> pipe_reach c p'"

section \<open>The invariant\<close>

definition dev_batches :: "string \<Rightarrow> observation_batch list \<Rightarrow> observation_batch list" where
  "dev_batches d bs = filter (\<lambda>b. bt_device_id b = d) bs"

definition dev_observations :: "string \<Rightarrow> observation_batch list \<Rightarrow> observation list" where
  "dev_observations d bs = concat (map bt_observations (dev_batches d bs))"

definition pending_of :: "pipeline \<Rightarrow> string \<Rightarrow> observation list" where
  "pending_of p d = (case pl_pending p d of None \<Rightarrow> [] | Some e \<Rightarrow> pb_observations e)"

definition next_sequence :: "pipeline \<Rightarrow> string \<Rightarrow> nat" where
  "next_sequence p d = (case pl_device_sequence p d of None \<Rightarrow> 0 | Some n \<Rightarrow> n)"

text \<open>All batches that were ever made, in the order in which they were made.\<close>

definition batches_made :: "pipeline \<Rightarrow> observation_batch list" where
  "batches_made p = pl_output p @ pl_dropped p @ pl_outbox p"

definition batch_ok :: "pipeline_config \<Rightarrow> observation_batch \<Rightarrow> bool" where
  "batch_ok c b \<longleftrightarrow>
     b = batch_new c (bt_device_id b) (bt_sequence b) (bt_sent_at_ns b) (bt_observations b) \<and>
     bt_observations b \<noteq> [] \<and> length (bt_observations b) \<le> pf_max_batch_size c \<and>
     list_all (\<lambda>o'. ob_device_id o' = bt_device_id b) (bt_observations b)"

definition core_inv :: "pipeline_config \<Rightarrow> pipeline \<Rightarrow> bool" where
  "core_inv c p \<longleftrightarrow>
     (\<forall>d. dev_observations d (batches_made p) @ pending_of p d = filter (\<lambda>o'. ob_device_id o' = d) (pl_received p)) \<and>
     (\<forall>d. map bt_sequence (dev_batches d (batches_made p)) = [0..<next_sequence p d]) \<and>
     (\<forall>d e. pl_pending p d = Some e \<longrightarrow>
        pb_sequence e = next_sequence p d \<and> pb_observations e \<noteq> [] \<and> pl_device_sequence p d \<noteq> None) \<and>
     list_all (batch_ok c) (batches_made p)"

lemma core_invD:
  assumes "core_inv c p"
  shows "dev_observations d (batches_made p) @ pending_of p d = filter (\<lambda>o'. ob_device_id o' = d) (pl_received p)"
    and "map bt_sequence (dev_batches d (batches_made p)) = [0..<next_sequence p d]"
    and "pl_pending p d = Some e \<Longrightarrow> pb_sequence e = next_sequence p d"
    and "pl_pending p d = Some e \<Longrightarrow> pb_observations e \<noteq> []"
    and "pl_pending p d = Some e \<Longrightarrow> pl_device_sequence p d \<noteq> None"
    and "b \<in> set (batches_made p) \<Longrightarrow> batch_ok c b"
  using assms by (auto simp: core_inv_def list_all_iff)

lemma dev_simps [simp]:
  "dev_batches d [] = []" "dev_batches d (xs @ ys) = dev_batches d xs @ dev_batches d ys"
  "dev_observations d [] = []" "dev_observations d (xs @ ys) = dev_observations d xs @ dev_observations d ys"
  by (simp_all add: dev_batches_def dev_observations_def)

lemma core_cong:
  assumes "batches_made p' = batches_made p" "pl_pending p' = pl_pending p" "pl_device_sequence p' = pl_device_sequence p"
    "pl_received p' = pl_received p" "core_inv c p"
  shows "core_inv c p'"
  using assms by (simp add: core_inv_def pending_of_def next_sequence_def)

lemma pending_device:
  assumes "core_inv c p" "pl_pending p d = Some e" "o' \<in> set (pb_observations e)"
  shows "ob_device_id o' = d"
proof -
  have "o' \<in> set (dev_observations d (batches_made p) @ pending_of p d)" using assms by (simp add: pending_of_def)
  then show ?thesis unfolding core_invD(1)[OF assms(1)] by simp
qed

text \<open>The pending data of a device become batches.\<close>

lemma core_move:
  assumes inv: "core_inv c p" and e: "pl_pending p d = Some e"
    and obs: "concat (map bt_observations bs) = pb_observations e"
    and sq: "map bt_sequence bs = [pb_sequence e..<pb_sequence e + length bs]"
    and dev: "\<forall>b\<in>set bs. bt_device_id b = d \<and> batch_ok c b"
    and p': "pl_pending p' = (pl_pending p)(d := None)" "batches_made p' = batches_made p @ bs"
      "pl_device_sequence p' = (pl_device_sequence p)(d \<mapsto> pb_sequence e + length bs)" "pl_received p' = pl_received p"
  shows "core_inv c p'"
proof -
  have own: "dev_batches d bs = bs" "dev_observations d bs = pb_observations e"
    using dev obs by (simp_all add: dev_batches_def dev_observations_def filter_id_conv)
  have other: "dev_batches d' bs = []" "dev_observations d' bs = []" if "d' \<noteq> d" for d'
    using that dev by (auto simp: dev_batches_def dev_observations_def filter_empty_conv)
  have n: "pb_sequence e = next_sequence p d" by (rule core_invD(3)[OF inv e])
  have "dev_observations d' (batches_made p') @ pending_of p' d' = filter (\<lambda>o'. ob_device_id o' = d') (pl_received p')" for d'
    using core_invD(1)[OF inv, of d'] own other[of d'] e by (cases "d' = d") (simp_all add: p' pending_of_def)
  moreover have "map bt_sequence (dev_batches d' (batches_made p')) = [0..<next_sequence p' d']" for d'
    using core_invD(2)[OF inv, of d'] own other[of d'] sq
    by (cases "d' = d") (simp_all add: p' next_sequence_def n[unfolded next_sequence_def] upt_add_eq_append[symmetric])
  moreover have "pb_sequence e' = next_sequence p' d' \<and> pb_observations e' \<noteq> [] \<and> pl_device_sequence p' d' \<noteq> None"
    if "pl_pending p' d' = Some e'" for d' e'
    using that core_invD(3-5)[OF inv, of d' e'] by (auto simp: p' next_sequence_def split: if_splits)
  ultimately show ?thesis
    using dev core_invD(6)[OF inv] by (auto simp: core_inv_def p'(2) list_all_iff)
qed

lemma chunk_batches_facts:
  assumes "pf_max_batch_size c > 0" and "\<forall>o'\<in>set obs. ob_device_id o' = d"
  shows "concat (map bt_observations (chunk_batches c now d sq obs)) = obs"
    and "map bt_sequence (chunk_batches c now d sq obs) = [sq..<sq + length (chunk_batches c now d sq obs)]"
    and "\<forall>b\<in>set (chunk_batches c now d sq obs). bt_device_id b = d \<and> batch_ok c b"
  using assms
proof (induction c now d sq obs rule: chunk_batches.induct)
  case (1 c now d sq obs)
  have rest: "\<forall>o'\<in>set (drop (pf_max_batch_size c) obs). ob_device_id o' = d" if "\<forall>o'\<in>set obs. ob_device_id o' = d"
    using that by (auto dest: in_set_dropD)
  {
    case 1
    show ?case
      by (subst chunk_batches.simps) (use 1(1) "1.IH"(1)[OF _ 1(1) rest[OF 1(2)]] in \<open>auto simp: batch_new_def\<close>)
  next
    case 2
    show ?case
      by (subst (1 2) chunk_batches.simps)
        (use "1.IH"(2)[OF _ 2(1) rest[OF 2(2)]] in \<open>auto simp: batch_new_def upt_conv_Cons simp del: upt_Suc\<close>)
  next
    case 3
    show ?case
      by (subst chunk_batches.simps)
        (use "1.IH"(3)[OF _ 3(1) rest[OF 3(2)]] 3 in \<open>auto simp: batch_new_def batch_ok_def list_all_iff dest: in_set_takeD\<close>)
  }
qed

lemma core_flush_device:
  assumes inv: "core_inv c p" and m: "pf_max_batch_size c > 0"
  shows "core_inv c (flush_device c now d p)"
proof (cases "pl_pending p d")
  case (Some e)
  have "\<forall>o'\<in>set (pb_observations e). ob_device_id o' = d" using pending_device[OF inv Some] by blast
  note f = chunk_batches_facts[OF m this, of now "pb_sequence e"]
  show ?thesis
    by (rule core_move[OF inv Some f])
      (use core_invD(5)[OF inv Some] in \<open>auto simp: flush_device_def Some Let_def batches_made_def map_option_case\<close>)
qed (use inv in \<open>simp add: flush_device_def\<close>)

lemma core_flush:
  "core_inv c p \<Longrightarrow> pf_max_batch_size c > 0 \<Longrightarrow> core_inv c (flush_pending_to_outbox c now order p)"
  unfolding flush_pending_to_outbox_def by (induction order arbitrary: p) (simp_all add: core_flush_device)

lemma core_aggregate:
  assumes inv: "core_inv c p"
  shows "core_inv c ((aggregate_observation o' p)\<lparr>pl_received := pl_received p @ [o']\<rparr>)"
proof -
  let ?d = "ob_device_id o'" and ?p = "(aggregate_observation o' p)\<lparr>pl_received := pl_received p @ [o']\<rparr>"
  have made: "batches_made ?p = batches_made p"
    by (simp add: aggregate_observation_def batches_made_def Let_def split: option.splits)
  have nx: "next_sequence ?p d = next_sequence p d" for d
    by (auto simp: aggregate_observation_def next_sequence_def Let_def split: option.splits)
  have pend: "pending_of ?p d = pending_of p d @ (if d = ?d then [o'] else [])" for d
    by (auto simp: aggregate_observation_def pending_of_def Let_def split: option.splits)
  have sq: "pb_sequence e = next_sequence ?p d \<and> pb_observations e \<noteq> [] \<and> pl_device_sequence ?p d \<noteq> None"
    if "pl_pending ?p d = Some e" for d e
    using that core_invD(3-5)[OF inv, of d] unfolding nx
    by (auto simp: aggregate_observation_def next_sequence_def Let_def split: option.splits if_splits)
  show ?thesis
    unfolding core_inv_def made
    using core_invD(1,2)[OF inv] core_invD(6)[OF inv] sq
    by (auto simp: nx pend list_all_iff simp flip: append_assoc)
qed

section \<open>Counting\<close>

lemma count_by_device:
  assumes "list_all (batch_ok c) bs"
  shows "count (mset (concat (map bt_observations bs))) x = count (mset (dev_observations (ob_device_id x) bs)) x"
  using assms
proof (induction bs)
  case (Cons b bs)
  have "count (mset (bt_observations b)) x = 0" if "bt_device_id b \<noteq> ob_device_id x"
    using that Cons.prems by (auto simp: batch_ok_def list_all_iff count_eq_zero_iff)
  with Cons show ?case by (auto simp: dev_observations_def dev_batches_def)
qed simp

lemma observation_count_concat: "observation_count bs = size (mset (concat (map bt_observations bs)))"
  by (simp add: observation_count_def length_concat comp_def)

lemma observation_count_simps [simp]:
  "observation_count [] = 0" "observation_count (b # bs) = length (bt_observations b) + observation_count bs"
  "observation_count (xs @ ys) = observation_count xs + observation_count ys"
  by (simp_all add: observation_count_def)

lemma made_within_received:
  assumes inv: "core_inv c p"
  shows "observation_count (batches_made p) \<le> length (pl_received p)"
    and "(\<And>d. pending_of p d = []) \<Longrightarrow> observation_count (batches_made p) = length (pl_received p)"
proof -
  let ?all = "mset (concat (map bt_observations (batches_made p)))"
  have ok: "list_all (batch_ok c) (batches_made p)" using inv by (simp add: core_inv_def)
  have cnt: "count (mset (pl_received p)) x =
      count ?all x + count (mset (pending_of p (ob_device_id x))) x" for x
  proof -
    have "count (mset (pl_received p)) x = count (mset (filter (\<lambda>o'. ob_device_id o' = ob_device_id x) (pl_received p))) x"
      by simp
    also have "\<dots> = count (mset (dev_observations (ob_device_id x) (batches_made p) @ pending_of p (ob_device_id x))) x"
      unfolding core_invD(1)[OF inv] ..
    finally show ?thesis by (simp add: count_by_device[OF ok])
  qed
  have "?all \<subseteq># mset (pl_received p)" by (rule mset_subset_eqI) (simp add: cnt)
  then show "observation_count (batches_made p) \<le> length (pl_received p)"
    using size_mset_mono by (fastforce simp: observation_count_concat simp del: mset_concat)
  assume "\<And>d. pending_of p d = []"
  then have "mset (pl_received p) = ?all" by (intro multiset_eqI) (simp add: cnt del: mset_concat)
  then show "observation_count (batches_made p) = length (pl_received p)"
    by (metis observation_count_concat size_mset)
qed

section \<open>Reachable states\<close>

definition stats_ok :: "pipeline \<Rightarrow> bool" where
  "stats_ok p \<longleftrightarrow>
     ds_batches_emitted (pl_stats p) = length (pl_output p) \<and> ds_observations_emitted (pl_stats p) = observation_count (pl_output p) \<and>
     ds_batches_dropped (pl_stats p) = length (pl_dropped p) \<and> ds_observations_dropped (pl_stats p) = observation_count (pl_dropped p) \<and>
     pl_metrics p = \<lparr>pm_batches_flushed = length (pl_output p), pm_observations = observation_count (pl_output p)\<rparr>"

definition phase_ok :: "pipeline_config \<Rightarrow> pipeline \<Rightarrow> bool" where
  "phase_ok c p \<longleftrightarrow>
     (case pl_pc p of
        PL_Run \<Rightarrow> pl_dropped p = [] \<and> pl_buffered p + observation_count (pl_output p) = length (pl_received p) \<and>
          pl_buffered p \<le> buffer_limit c \<and> (\<forall>d. length (pending_of p d) < pf_max_batch_size c)
      | PL_Drain \<Rightarrow> pl_dropped p = [] \<and> (\<forall>d. pending_of p d = []) \<and> pl_input p = []
      | PL_Closing \<Rightarrow> pl_dropped p = []
      | PL_Done \<Rightarrow> pl_outbox p = [] \<and> (\<forall>d. pending_of p d = []) \<and> pl_input p = []
      | PL_Cancelled \<Rightarrow> False)"

definition pipe_inv :: "pipeline_config \<Rightarrow> pipeline \<Rightarrow> bool" where
  "pipe_inv c p \<longleftrightarrow> core_inv c p \<and> pl_received p @ pl_input p = pl_accepted p \<and> stats_ok p \<and> phase_ok c p"

lemma aggregate_frame [simp]:
  "pl_input (aggregate_observation o' p) = pl_input p" "pl_received (aggregate_observation o' p) = pl_received p"
  "pl_accepted (aggregate_observation o' p) = pl_accepted p" "pl_outbox (aggregate_observation o' p) = pl_outbox p"
  "pl_output (aggregate_observation o' p) = pl_output p" "pl_dropped (aggregate_observation o' p) = pl_dropped p"
  "pl_stats (aggregate_observation o' p) = pl_stats p" "pl_metrics (aggregate_observation o' p) = pl_metrics p"
  "pl_buffered (aggregate_observation o' p) = pl_buffered p" "pl_pc (aggregate_observation o' p) = pl_pc p"
  by (simp_all add: aggregate_observation_def Let_def split: option.splits)

lemma flush_device_frame [simp]:
  "pl_input (flush_device c now d p) = pl_input p" "pl_received (flush_device c now d p) = pl_received p"
  "pl_accepted (flush_device c now d p) = pl_accepted p" "pl_output (flush_device c now d p) = pl_output p"
  "pl_dropped (flush_device c now d p) = pl_dropped p" "pl_stats (flush_device c now d p) = pl_stats p"
  "pl_metrics (flush_device c now d p) = pl_metrics p" "pl_buffered (flush_device c now d p) = pl_buffered p"
  "pl_pc (flush_device c now d p) = pl_pc p" "pl_pending (flush_device c now d p) = (pl_pending p)(d := None)"
  by (auto simp: flush_device_def Let_def split: option.splits)

lemma flush_frame [simp]:
  "pl_input (flush_pending_to_outbox c now order p) = pl_input p"
  "pl_received (flush_pending_to_outbox c now order p) = pl_received p"
  "pl_accepted (flush_pending_to_outbox c now order p) = pl_accepted p"
  "pl_output (flush_pending_to_outbox c now order p) = pl_output p"
  "pl_dropped (flush_pending_to_outbox c now order p) = pl_dropped p"
  "pl_stats (flush_pending_to_outbox c now order p) = pl_stats p"
  "pl_metrics (flush_pending_to_outbox c now order p) = pl_metrics p"
  "pl_buffered (flush_pending_to_outbox c now order p) = pl_buffered p"
  "pl_pc (flush_pending_to_outbox c now order p) = pl_pc p"
  unfolding flush_pending_to_outbox_def by (induction order arbitrary: p) simp_all

lemma flush_pending: "pl_pending (flush_pending_to_outbox c now order p) d = (if d \<in> set order then None else pl_pending p d)"
  unfolding flush_pending_to_outbox_def by (induction order arbitrary: p) auto

lemma flush_empties: "visits order p \<Longrightarrow> pending_of (flush_pending_to_outbox c now order p) d = []"
  by (auto simp: pending_of_def flush_pending visits_def domIff split: option.splits)

lemma stats_cong:
  "stats_ok p \<Longrightarrow> pl_stats p' = pl_stats p \<Longrightarrow> pl_output p' = pl_output p \<Longrightarrow> pl_dropped p' = pl_dropped p \<Longrightarrow>
   pl_metrics p' = pl_metrics p \<Longrightarrow> stats_ok p'"
  by (simp add: stats_ok_def)

lemma aggregate_upd:
  "aggregate_observation o' (p\<lparr>pl_received := r\<rparr>) = (aggregate_observation o' p)\<lparr>pl_received := r\<rparr>"
  "aggregate_observation o' (p\<lparr>pl_input := i\<rparr>) = (aggregate_observation o' p)\<lparr>pl_input := i\<rparr>"
  "aggregate_observation o' (p\<lparr>pl_buffered := n\<rparr>) = (aggregate_observation o' p)\<lparr>pl_buffered := n\<rparr>"
  by (simp_all add: aggregate_observation_def Let_def split: option.splits)

lemma fold_aggregate_upd:
  "fold aggregate_observation os (p\<lparr>pl_received := r\<rparr>) = (fold aggregate_observation os p)\<lparr>pl_received := r\<rparr>"
  by (induction os arbitrary: p) (simp_all add: aggregate_upd)

lemma fold_aggregate_frame [simp]:
  "pl_received (fold aggregate_observation os p) = pl_received p" "pl_accepted (fold aggregate_observation os p) = pl_accepted p"
  "pl_output (fold aggregate_observation os p) = pl_output p" "pl_dropped (fold aggregate_observation os p) = pl_dropped p"
  "pl_stats (fold aggregate_observation os p) = pl_stats p" "pl_metrics (fold aggregate_observation os p) = pl_metrics p"
  "pl_pc (fold aggregate_observation os p) = pl_pc p" "pl_outbox (fold aggregate_observation os p) = pl_outbox p"
  by (induction os arbitrary: p) simp_all

lemma core_fold:
  "core_inv c p \<Longrightarrow> core_inv c ((fold aggregate_observation os p)\<lparr>pl_received := pl_received p @ os\<rparr>)"
proof (induction os arbitrary: p)
  case (Cons o' os)
  from Cons.IH[OF core_aggregate[OF Cons.prems, of o']] show ?case by (simp add: fold_aggregate_upd)
qed simp

lemma core_collect: "core_inv c p \<Longrightarrow> core_inv c (collect_input p)"
  by (rule core_cong[OF _ _ _ _ core_fold[of c p "pl_input p"]]) (simp_all add: collect_input_def batches_made_def)

lemma pipe_invD:
  assumes "pipe_inv c p"
  shows "core_inv c p" "pl_received p @ pl_input p = pl_accepted p" "stats_ok p" "phase_ok c p"
  using assms by (simp_all add: pipe_inv_def)

lemma receive_inv:
  assumes inv: "pipe_inv c p" and m: "pf_max_batch_size c > 0" and run: "pl_pc p = PL_Run" "pl_buffered p < buffer_limit c"
    and i: "pl_input p = o' # rest"
  shows "pipe_inv c (receive_observation c now o' (p\<lparr>pl_input := rest, pl_received := pl_received p @ [o']\<rparr>))"
proof -
  let ?d = "ob_device_id o'"
  define p1 where "p1 = aggregate_observation o' (p\<lparr>pl_input := rest, pl_received := pl_received p @ [o'], pl_buffered := Suc (pl_buffered p)\<rparr>)"
  have core: "core_inv c p1"
    by (rule core_cong[OF _ _ _ _ core_aggregate[OF pipe_invD(1)[OF inv], of o']])
      (simp_all add: p1_def aggregate_upd batches_made_def)
  have ph: "pl_dropped p = []" "pl_buffered p + observation_count (pl_output p) = length (pl_received p)"
      "length (pending_of p d) < pf_max_batch_size c" for d
    using pipe_invD(4)[OF inv] run(1) by (auto simp: phase_ok_def)
  have pend: "pending_of p1 d = pending_of p d @ (if d = ?d then [o'] else [])" for d
    by (auto simp: p1_def aggregate_observation_def pending_of_def Let_def split: option.splits)
  obtain e where e: "pl_pending p1 ?d = Some e"
    using pend[of ?d] by (cases "pl_pending p1 ?d") (auto simp: pending_of_def)
  have le: "length (pb_observations e) = Suc (length (pending_of p ?d))" using pend[of ?d] e by (simp add: pending_of_def)
  have st: "stats_ok p1" by (rule stats_cong[OF pipe_invD(3)[OF inv]]) (simp_all add: p1_def)
  have acc: "pl_received p1 @ pl_input p1 = pl_accepted p1" using pipe_invD(2)[OF inv] i by (simp add: p1_def)
  show ?thesis
  proof (cases "pf_max_batch_size c \<le> length (pb_observations e)")
    case True
    let ?b = "batch_new c ?d (pb_sequence e) now (pb_observations e)"
    let ?p = "p1\<lparr>pl_pending := (pl_pending p1)(?d := None), pl_outbox := pl_outbox p1 @ [?b],
        pl_device_sequence := (pl_device_sequence p1)(?d := map_option Suc (pl_device_sequence p1 ?d))\<rparr>"
    have r: "receive_observation c now o' (p\<lparr>pl_input := rest, pl_received := pl_received p @ [o']\<rparr>) = ?p"
      using e True by (simp add: receive_observation_def Let_def p1_def[symmetric])
    have "batch_ok c ?b"
      using pending_device[OF core e] core_invD(4)[OF core e] le ph(3)[of ?d] by (auto simp: batch_ok_def batch_new_def list_all_iff)
    moreover have "pl_device_sequence p1 ?d = Some (pb_sequence e)"
      using core_invD(3,5)[OF core e] by (auto simp: next_sequence_def)
    ultimately have "core_inv c ?p"
      by (intro core_move[OF core e, of "[?b]"]) (auto simp: batch_new_def batches_made_def)
    moreover have "stats_ok ?p" by (rule stats_cong[OF st]) simp_all
    moreover have "phase_ok c ?p"
      using run ph pend m by (auto simp: phase_ok_def p1_def pending_of_def)
    ultimately show ?thesis using acc by (simp add: pipe_inv_def r)
  next
    case False
    then have r: "receive_observation c now o' (p\<lparr>pl_input := rest, pl_received := pl_received p @ [o']\<rparr>) = p1"
      using e by (simp add: receive_observation_def Let_def p1_def[symmetric])
    have "phase_ok c p1" using run ph pend False le by (auto simp: phase_ok_def p1_def pending_of_def)
    then show ?thesis using core st acc by (simp add: pipe_inv_def r)
  qed
qed

lemma emit_inv:
  assumes inv: "pipe_inv c p" and o': "pl_outbox p = b # bs" and pc: "pl_pc p \<in> {PL_Run, PL_Drain}"
    and n: "n = (if pl_pc p = PL_Run then pl_buffered p - length (bt_observations b) else pl_buffered p)"
  shows "pipe_inv c (emit_batch b (p\<lparr>pl_outbox := bs, pl_buffered := n\<rparr>))"
proof -
  let ?p = "emit_batch b (p\<lparr>pl_outbox := bs, pl_buffered := n\<rparr>)"
  have dr: "pl_dropped p = []" using pipe_invD(4)[OF inv] pc by (auto simp: phase_ok_def)
  have core: "core_inv c ?p"
    by (rule core_cong[OF _ _ _ _ pipe_invD(1)[OF inv]]) (simp_all add: emit_batch_def Let_def batches_made_def o' dr)
  have "observation_count (pl_output p) + length (bt_observations b) \<le> length (pl_received p)"
    using made_within_received(1)[OF pipe_invD(1)[OF inv]] by (simp add: batches_made_def o' dr)
  then have "phase_ok c ?p"
    using pipe_invD(4)[OF inv] pc n by (auto simp: phase_ok_def emit_batch_def Let_def pending_of_def)
  moreover have "stats_ok ?p"
    using pipe_invD(3)[OF inv] by (simp add: stats_ok_def emit_batch_def Let_def observe_batch_emitted_def)
  ultimately show ?thesis using core pipe_invD(2)[OF inv] by (simp add: pipe_inv_def emit_batch_def Let_def)
qed

lemma drop_inv:
  assumes core: "core_inv c p" and acc: "pl_received p @ pl_input p = pl_accepted p" and st: "stats_ok p"
    and pend: "\<And>d. pending_of p d = []" and input: "pl_input p = []"
  shows "pipe_inv c ((drop_outbox_rest p)\<lparr>pl_pc := PL_Done\<rparr>)"
proof -
  let ?p = "(drop_outbox_rest p)\<lparr>pl_pc := PL_Done\<rparr>"
  have "core_inv c ?p"
    by (rule core_cong[OF _ _ _ _ core]) (simp_all add: drop_outbox_rest_def Let_def batches_made_def)
  moreover have "stats_ok ?p" using st by (simp add: stats_ok_def drop_outbox_rest_def Let_def)
  moreover have "phase_ok c ?p" using pend input by (simp add: phase_ok_def drop_outbox_rest_def Let_def pending_of_def)
  ultimately show ?thesis using acc by (simp add: pipe_inv_def drop_outbox_rest_def Let_def)
qed

lemma flush_inv:
  assumes core: "core_inv c p" and m: "pf_max_batch_size c > 0" and v: "visits order p" and st: "stats_ok p"
  shows "core_inv c (flush_pending_to_outbox c now order p)" "stats_ok (flush_pending_to_outbox c now order p)"
    "pending_of (flush_pending_to_outbox c now order p) d = []"
  using core_flush[OF core m] flush_empties[OF v] stats_cong[OF st] by auto

lemma collect_frame [simp]:
  "pl_accepted (collect_input p) = pl_accepted p" "pl_pc (collect_input p) = pl_pc p" "pl_dropped (collect_input p) = pl_dropped p"
  "pl_input (collect_input p) = []" "pl_received (collect_input p) = pl_received p @ pl_input p"
  by (simp_all add: collect_input_def)

lemma collect_stats: "stats_ok p \<Longrightarrow> stats_ok (collect_input p)"
  by (erule stats_cong) (simp_all add: collect_input_def)

lemma pipe_step_inv:
  assumes inv: "pipe_inv c p" and m: "pf_max_batch_size c > 0" and s: "pipe_step c x p = Some p'" and x: "x \<noteq> PX_Cancel"
  shows "pipe_inv c p'"
proof (cases x)
  case (PX_Ingest o')
  then have p': "p' = p\<lparr>pl_input := pl_input p @ [o'], pl_accepted := pl_accepted p @ [o']\<rparr>" "pl_pc p \<in> {PL_Run, PL_Closing}"
    using s by (auto split: if_splits)
  have "core_inv c p'" by (rule core_cong[OF _ _ _ _ pipe_invD(1)[OF inv]]) (simp_all add: p' batches_made_def)
  then show ?thesis
    using pipe_invD(2-4)[OF inv] p'(2) by (auto simp: pipe_inv_def p'(1) stats_ok_def phase_ok_def pending_of_def simp flip: append_assoc)
next
  case (PX_Receive now)
  with s receive_inv[OF inv m] show ?thesis by (auto split: list.splits if_splits)
next
  case (PX_Tick now order)
  then have p': "p' = flush_pending_to_outbox c now order p" and v: "visits order p" and pc: "pl_pc p = PL_Run"
    using s by (auto split: if_splits)
  note f = flush_inv[OF pipe_invD(1)[OF inv] m v pipe_invD(3)[OF inv], of now]
  show ?thesis using f pipe_invD(2,4)[OF inv] pc m by (simp add: pipe_inv_def p' phase_ok_def)
next
  case PX_Emit
  with s obtain b bs where "pl_outbox p = b # bs" "pl_pc p = PL_Run"
      "p' = emit_batch b (p\<lparr>pl_outbox := bs, pl_buffered := pl_buffered p - length (bt_observations b)\<rparr>)"
    by (auto split: list.splits if_splits)
  then show ?thesis using emit_inv[OF inv, of b bs] by simp
next
  case PX_Cancel
  with x show ?thesis by simp
next
  case PX_OutputClosed
  then have p': "p' = p\<lparr>pl_pc := PL_Closing\<rparr>" "pl_pc p = PL_Run" using s by (auto split: if_splits)
  have "core_inv c p'" by (rule core_cong[OF _ _ _ _ pipe_invD(1)[OF inv]]) (simp_all add: p' batches_made_def)
  then show ?thesis using pipe_invD(2-4)[OF inv] p' by (simp add: pipe_inv_def stats_ok_def phase_ok_def)
next
  case (PX_Shutdown now order)
  let ?p = "flush_pending_to_outbox c now order (collect_input p)"
  have p': "p' = ?p\<lparr>pl_pc := PL_Drain\<rparr>" "pl_pc p = PL_Run" and v: "visits order (collect_input p)"
    using s PX_Shutdown by (auto simp: Let_def split: if_splits)
  note f = flush_inv[OF core_collect[OF pipe_invD(1)[OF inv]] m v collect_stats[OF pipe_invD(3)[OF inv]], of now]
  have "core_inv c p'" by (rule core_cong[OF _ _ _ _ f(1)]) (simp_all add: p' batches_made_def)
  moreover have "pl_dropped p = []" using pipe_invD(4)[OF inv] p'(2) by (simp add: phase_ok_def)
  then have "phase_ok c p'" using f(3) by (simp add: p' phase_ok_def pending_of_def)
  ultimately show ?thesis using f(2) pipe_invD(2)[OF inv] by (simp add: pipe_inv_def p' stats_ok_def)
next
  case (PX_Closed now order)
  let ?p = "flush_pending_to_outbox c now order (collect_input p)"
  have p': "p' = (drop_outbox_rest ?p)\<lparr>pl_pc := PL_Done\<rparr>" and v: "visits order (collect_input p)"
    using s PX_Closed by (auto simp: Let_def split: if_splits)
  note f = flush_inv[OF core_collect[OF pipe_invD(1)[OF inv]] m v collect_stats[OF pipe_invD(3)[OF inv]], of now]
  show ?thesis unfolding p' by (rule drop_inv) (use f pipe_invD(2)[OF inv] in simp_all)
next
  case PX_DrainSend
  then have pc: "pl_pc p = PL_Drain" using s by (auto split: if_splits)
  show ?thesis
  proof (cases "pl_outbox p")
    case Nil
    then have p': "p' = p\<lparr>pl_pc := PL_Done\<rparr>" using s PX_DrainSend pc by simp
    have "core_inv c p'" by (rule core_cong[OF _ _ _ _ pipe_invD(1)[OF inv]]) (simp_all add: p' batches_made_def)
    then show ?thesis
      using pipe_invD(2-4)[OF inv] pc Nil by (simp add: pipe_inv_def p' stats_ok_def phase_ok_def pending_of_def)
  next
    case (Cons b bs)
    then have "p' = emit_batch b (p\<lparr>pl_outbox := bs, pl_buffered := pl_buffered p\<rparr>)" using s PX_DrainSend pc by simp
    then show ?thesis using emit_inv[OF inv Cons, of "pl_buffered p"] pc by simp
  qed
next
  case PX_DrainStop
  then have p': "p' = (drop_outbox_rest p)\<lparr>pl_pc := PL_Done\<rparr>" "pl_pc p = PL_Drain" using s by (auto split: if_splits)
  show ?thesis
    unfolding p' by (rule drop_inv) (use pipe_invD[OF inv] p'(2) in \<open>simp_all add: phase_ok_def\<close>)
qed

lemma pipeline_spawn_ok: "pipeline_spawn c = Inr p \<Longrightarrow> pf_max_batch_size c > 0"
  by (auto simp: pipeline_spawn_def pipeline_config_validate_def split: if_splits)

lemma pipe_reach_size: "pipe_reach c p \<Longrightarrow> pf_max_batch_size c > 0"
  by (induction rule: pipe_reach.induct) (auto dest: pipeline_spawn_ok)

text \<open>A cancelled pipeline is what a running one leaves behind.\<close>

lemma pipe_reach_inv: "pipe_reach c p \<Longrightarrow> pipe_inv c p \<or> (\<exists>q. pipe_inv c q \<and> pl_pc q = PL_Run \<and> p = cancel q)"
proof (induction rule: pipe_reach.induct)
  case (pr_spawn p)
  then show ?case
    using pipeline_spawn_ok[OF pr_spawn]
    by (auto simp: pipeline_spawn_def result_simps pipe_inv_def core_inv_def stats_ok_def phase_ok_def batches_made_def pending_of_def
        next_sequence_def)
next
  case (pr_step p x p')
  note m = pipe_reach_size[OF pr_step(1)]
  from pr_step(3) show ?case
  proof
    assume inv: "pipe_inv c p"
    show ?case
    proof (cases "x = PX_Cancel")
      case True
      then show ?thesis using inv pr_step(2) by (auto split: if_splits)
    next
      case False
      then show ?thesis using pipe_step_inv[OF inv m pr_step(2)] by blast
    qed
  next
    assume "\<exists>q. pipe_inv c q \<and> pl_pc q = PL_Run \<and> p = cancel q"
    then have "pl_pc p = PL_Cancelled" by (auto simp: cancel_def)
    then show ?case using pr_step(2) by (cases x) (auto simp: Let_def split: list.splits)
  qed
qed

lemma pipe_reach_cases:
  assumes "pipe_reach c p"
  obtains "pipe_inv c p" "pl_pc p \<noteq> PL_Cancelled" | q where "pipe_inv c q" "pl_pc q = PL_Run" "p = cancel q"
  using pipe_reach_inv[OF assms] pipe_invD(4)[of c p] by (auto simp: phase_ok_def split: pipeline_pc.splits)

section \<open>Message identifiers\<close>

lemma message_id_prefixed: "message_id s d n = prefixed s @ prefixed d @ nat_to_string n"
  by (simp add: message_id_def prefixed_def)

lemma message_id_inj:
  assumes "message_id s d n = message_id s' d' n'"
  shows "s = s' \<and> d = d' \<and> n = n'"
proof -
  from assms[unfolded message_id_prefixed] have s: "s = s'" "prefixed d @ nat_to_string n = prefixed d' @ nat_to_string n'"
    using prefixed_inj by blast+
  from prefixed_inj[OF s(2)] have d: "d = d'" "nat_to_string n = nat_to_string n'" by blast+
  then have "nat_to_string n @ CHR '':'' # [] = nat_to_string n' @ CHR '':'' # []" by simp
  from number_then_colon_inj[OF this] s d show ?thesis by simp
qed

lemma distinct_by_device:
  assumes "\<And>d. distinct (map f (filter (\<lambda>x. g x = d) xs))"
  shows "distinct (map (\<lambda>x. (g x, f x)) xs)"
  using assms
proof (induction xs)
  case (Cons x xs)
  have "distinct (map f (filter (\<lambda>y. g y = d) xs))" for d
    using Cons.prems[of d] by (auto split: if_splits)
  moreover have "f x \<notin> f ` set (filter (\<lambda>y. g y = g x) xs)" using Cons.prems[of "g x"] by simp
  then have "(g x, f x) \<notin> (\<lambda>x. (g x, f x)) ` set xs" by auto
  ultimately show ?case using Cons.IH by simp
qed simp

lemma made_messages_distinct:
  assumes inv: "core_inv c p"
  shows "distinct (map bt_message_id (batches_made p))"
proof -
  let ?g = "\<lambda>(d, n). message_id (pf_collector_session_id c) d n"
  have "distinct (map (\<lambda>b. (bt_device_id b, bt_sequence b)) (batches_made p))"
    by (rule distinct_by_device) (use core_invD(2)[OF inv] in \<open>simp add: dev_batches_def\<close>)
  moreover have "inj_on ?g A" for A by (auto intro!: inj_onI dest: message_id_inj)
  ultimately have "distinct (map ?g (map (\<lambda>b. (bt_device_id b, bt_sequence b)) (batches_made p)))"
    by (simp only: distinct_map[where f = ?g])
  moreover have "bt_message_id b = ?g (bt_device_id b, bt_sequence b)" if "b \<in> set (batches_made p)" for b
  proof -
    have "b = batch_new c (bt_device_id b) (bt_sequence b) (bt_sent_at_ns b) (bt_observations b)"
      using core_invD(6)[OF inv that] by (simp add: batch_ok_def)
    then have "bt_message_id b = bt_message_id (batch_new c (bt_device_id b) (bt_sequence b) (bt_sent_at_ns b) (bt_observations b))"
      by (rule arg_cong)
    then show ?thesis by (simp add: batch_new_def)
  qed
  ultimately show ?thesis by (simp add: comp_def cong: map_cong)
qed

section \<open>Properties\<close>

text \<open>What a pipeline that was not cancelled holds of a device.\<close>

lemma running_conserves:
  assumes inv: "pipe_inv c p"
  shows "dev_observations d (pl_output p @ pl_dropped p @ pl_outbox p) @ pending_of p d =
      filter (\<lambda>o'. ob_device_id o' = d) (pl_received p)"
    and "map bt_sequence (dev_batches d (pl_output p @ pl_dropped p @ pl_outbox p)) = [0..<next_sequence p d]"
    and "distinct (map bt_message_id (pl_output p @ pl_dropped p @ pl_outbox p))"
  using core_invD(1,2)[OF pipe_invD(1)[OF inv], of d] made_messages_distinct[OF pipe_invD(1)[OF inv]]
  unfolding batches_made_def by blast+

lemma upt_prefix: "xs @ ys = [0..<n] \<Longrightarrow> xs = [0..<length xs]"
  by (metis append_eq_conv_conj le_add1 length_append length_upt minus_nat.diff_0 take_upt add_0)

text \<open>C5: The batches that are sent out for a device carry its observations in the order of their arrival, without a gap and
  without a duplicate: together they are an initial part of what was received for it, and what was received is an initial part
  of what was accepted. Unless the pipeline is cancelled, which discards what it holds, every observation received for the
  device is in a batch sent out, in a batch dropped, in the outbox or pending, in this order; nothing is dropped before the
  pipeline has ended (its output closed, or the time to drain ran out), and then nothing accepted is left in the input channel.
  The batches of a device are numbered 0, 1, 2, ..., and no two batches have the same message identifier.\<close>
theorem pipeline_conserves:
  assumes "pipe_reach c p"
  shows "(\<exists>rest. dev_observations d (pl_output p) @ rest = filter (\<lambda>o'. ob_device_id o' = d) (pl_received p)) \<and>
    (\<exists>rest. pl_received p @ rest = pl_accepted p) \<and>
    (pl_pc p \<noteq> PL_Cancelled \<longrightarrow>
       dev_observations d (pl_output p @ pl_dropped p @ pl_outbox p) @ pending_of p d =
         filter (\<lambda>o'. ob_device_id o' = d) (pl_received p) \<and>
       pl_received p @ pl_input p = pl_accepted p) \<and>
    (pl_dropped p \<noteq> [] \<longrightarrow> pl_pc p = PL_Done) \<and> (pl_pc p = PL_Done \<longrightarrow> pl_input p = []) \<and>
    (\<exists>n. map bt_sequence (dev_batches d (pl_output p @ pl_dropped p @ pl_outbox p)) = [0..<n]) \<and>
    distinct (map bt_message_id (pl_output p @ pl_dropped p @ pl_outbox p))"
  using assms
proof (cases rule: pipe_reach_cases)
  case 1
  have "pl_dropped p \<noteq> [] \<longrightarrow> pl_pc p = PL_Done" "pl_pc p = PL_Done \<longrightarrow> pl_input p = []"
    using pipe_invD(4)[OF 1(1)] by (auto simp: phase_ok_def split: pipeline_pc.splits)
  moreover have "\<exists>rest. dev_observations d (pl_output p) @ rest = filter (\<lambda>o'. ob_device_id o' = d) (pl_received p)"
    unfolding running_conserves(1)[OF 1(1), symmetric] by simp
  ultimately show ?thesis using running_conserves(1,2)[OF 1(1), of d] running_conserves(3)[OF 1(1)] pipe_invD(2)[OF 1(1)] by blast
next
  case (2 q)
  have dr: "pl_dropped q = []" using pipe_invD(4)[OF 2(1)] 2(2) by (simp add: phase_ok_def)
  note q = running_conserves(1,2)[OF 2(1), of d, unfolded dr, simplified] running_conserves(3)[OF 2(1), unfolded dr, simplified]
  have "map bt_sequence (dev_batches d (pl_output q)) @ map bt_sequence (dev_batches d (pl_outbox q)) = [0..<next_sequence q d]"
    using q(2) by simp
  from upt_prefix[OF this] have "\<exists>n. map bt_sequence (dev_batches d (pl_output q)) = [0..<n]" by blast
  moreover have "\<exists>rest. dev_observations d (pl_output q) @ rest = filter (\<lambda>o'. ob_device_id o' = d) (pl_received q)"
    unfolding q(1)[symmetric] by simp
  ultimately show ?thesis using q(3) pipe_invD(2)[OF 2(1)] dr by (auto simp: 2(3) cancel_def)
qed

text \<open>C40: The pipeline is bounded and its account is complete. Every batch has between one observation and the maximal
  number. While the pipeline runs, at most sixteen times the maximal batch size of observations are received and not yet
  sent out, the counter of buffered observations is exactly their number, and sending the next batch cannot make it
  negative. When it has ended other than by cancellation nothing is left, and the observations counted as sent out and
  as dropped add up to those received.\<close>
theorem pipeline_bounded_and_accounted:
  assumes "pipe_reach c p"
  shows "list_all (\<lambda>b. 0 < length (bt_observations b) \<and> length (bt_observations b) \<le> pf_max_batch_size c)
      (pl_output p @ pl_dropped p @ pl_outbox p) \<and>
    (pl_pc p = PL_Run \<longrightarrow>
       pl_buffered p = length (pl_received p) - observation_count (pl_output p) \<and> pl_buffered p \<le> 16 * pf_max_batch_size c \<and>
       (\<forall>b bs. pl_outbox p = b # bs \<longrightarrow> length (bt_observations b) \<le> pl_buffered p)) \<and>
    (pl_pc p = PL_Done \<longrightarrow>
       pl_outbox p = [] \<and> (\<forall>d. pending_of p d = []) \<and>
       ds_observations_emitted (pl_stats p) + ds_observations_dropped (pl_stats p) = length (pl_received p))"
  using assms
proof (cases rule: pipe_reach_cases)
  case (2 q)
  then show ?thesis
    using pipe_invD(1)[OF 2(1)] pipe_invD(4)[OF 2(1)]
    by (auto simp: cancel_def core_inv_def batches_made_def batch_ok_def list_all_iff phase_ok_def)
next
  case 1
  note inv = 1(1)
  note core = pipe_invD(1)[OF inv] and ph = pipe_invD(4)[OF inv, unfolded phase_ok_def] and st = pipe_invD(3)[OF inv]
  show ?thesis
  proof (intro conjI impI allI)
    show "list_all (\<lambda>b. 0 < length (bt_observations b) \<and> length (bt_observations b) \<le> pf_max_batch_size c)
        (pl_output p @ pl_dropped p @ pl_outbox p)"
      using core by (auto simp: core_inv_def batches_made_def batch_ok_def list_all_iff)
    {
      assume run: "pl_pc p = PL_Run"
      show "pl_buffered p = length (pl_received p) - observation_count (pl_output p)" "pl_buffered p \<le> 16 * pf_max_batch_size c"
        using ph run by (auto simp: buffer_limit_def BUFFER_BATCH_MULTIPLIER_def)
      fix b bs
      assume "pl_outbox p = b # bs"
      then show "length (bt_observations b) \<le> pl_buffered p"
        using made_within_received(1)[OF core] ph run by (simp add: batches_made_def)
    next
      assume "pl_pc p = PL_Done"
      then show "pl_outbox p = []" "pending_of p d = []"
          "ds_observations_emitted (pl_stats p) + ds_observations_dropped (pl_stats p) = length (pl_received p)" for d
        using ph made_within_received(2)[OF core] st by (auto simp: batches_made_def stats_ok_def)
    }
  qed
qed

definition example_observation :: "string \<Rightarrow> nat \<Rightarrow> observation" where
  "example_observation d n =
     \<lparr>ob_observation_id = [], ob_device_id = d, ob_path = ''cnc.load'', ob_value = None,
      ob_quality = \<lparr>ql_level = QL_Bad, ql_reason = QR_Timeout, ql_protocol_code = None\<rparr>, ob_source_timestamp_ns = None,
      ob_ingest_timestamp_ns = 0, ob_sequence = n, ob_metadata = []\<rparr>"

definition example_pipeline :: pipeline_config where
  "example_pipeline = (pipeline_config_new ''site'' ''s'')\<lparr>pf_max_batch_size := 2\<rparr>"

fun pipe_run :: "pipeline_config \<Rightarrow> pipe_choice list \<Rightarrow> pipeline \<Rightarrow> pipeline option" where
  "pipe_run c [] p = Some p"
| "pipe_run c (x # xs) p = Option.bind (pipe_step c x p) (pipe_run c xs)"

lemma pipe_run_reach: "pipe_reach c p \<Longrightarrow> pipe_run c xs p = Some p' \<Longrightarrow> pipe_reach c p'"
  by (induction xs arbitrary: p) (auto simp: bind_eq_Some_conv intro: pr_step)

definition example_pipe_trace :: "pipe_choice list" where
  "example_pipe_trace =
     [PX_Ingest (example_observation ''a'' 0), PX_Ingest (example_observation ''b'' 0), PX_Ingest (example_observation ''a'' 1),
      PX_Receive 0, PX_Receive 0, PX_Receive 0, PX_Emit, PX_Ingest (example_observation ''a'' 2),
      PX_Shutdown (\<lambda>_. 0) [''b'', ''a''], PX_DrainSend, PX_DrainStop]"

lemmas pipe_eval = example_pipeline_def pipeline_config_new_def example_pipe_trace_def example_observation_def buffer_limit_def
  BUFFER_BATCH_MULTIPLIER_def receive_observation_def aggregate_observation_def batch_new_def emit_batch_def collect_input_def
  visits_def flush_pending_to_outbox_def flush_device_def drop_outbox_rest_def Let_def

lemma example_spawn:
  "pipeline_spawn example_pipeline =
     Inr \<lparr>pl_pc = PL_Run, pl_input = [], pl_pending = Map.empty, pl_device_sequence = Map.empty, pl_outbox = [],
       pl_buffered = 0, pl_stats = \<lparr>ds_batches_emitted = 0, ds_observations_emitted = 0, ds_batches_dropped = 0,
       ds_observations_dropped = 0\<rparr>, pl_metrics = \<lparr>pm_batches_flushed = 0, pm_observations = 0\<rparr>, pl_output = [],
       pl_accepted = [], pl_received = [], pl_dropped = []\<rparr>"
  by (simp add: pipeline_spawn_def pipeline_config_validate_def pipe_eval)

definition trace_summary :: "pipeline \<Rightarrow> pipeline_pc \<times> (string \<times> nat list) list \<times> (string \<times> nat list) list" where
  "trace_summary p =
     (let f = map (\<lambda>b. (bt_device_id b, map ob_sequence (bt_observations b))) in (pl_pc p, f (pl_output p), f (pl_dropped p)))"

lemma example_pipe_eval:
  "map_option trace_summary (pipe_run example_pipeline example_pipe_trace (projr (pipeline_spawn example_pipeline))) =
     Some (PL_Done, [(''a'', [0, 1]), (''b'', [0])], [(''a'', [2])])"
  unfolding example_spawn by (simp add: pipe_eval chunk_batches.simps trace_summary_def insert_commute)

lemma example_pipe_run:
  obtains p where "pipe_reach example_pipeline p" "pl_pc p = PL_Done"
    "map (\<lambda>b. (bt_device_id b, map ob_sequence (bt_observations b))) (pl_output p) = [(''a'', [0, 1]), (''b'', [0])]"
proof -
  obtain p where r: "pipe_run example_pipeline example_pipe_trace (projr (pipeline_spawn example_pipeline)) = Some p"
      and s: "trace_summary p = (PL_Done, [(''a'', [0, 1]), (''b'', [0])], [(''a'', [2])])"
    using example_pipe_eval by auto
  have "pipe_reach example_pipeline (projr (pipeline_spawn example_pipeline))"
    by (rule pr_spawn) (simp add: example_spawn)
  from pipe_run_reach[OF this r] show thesis by (rule that) (use s in \<open>simp_all add: trace_summary_def Let_def\<close>)
qed

theorem pipeline_conserves_witness:
  "\<exists>p rest. pipe_reach example_pipeline p \<and> pl_pc p = PL_Done \<and> map bt_device_id (pl_output p) = [''a'', ''b''] \<and>
     dev_observations ''a'' (pl_output p) @ rest = filter (\<lambda>o'. ob_device_id o' = ''a'') (pl_received p) \<and>
     pl_received p = pl_accepted p"
proof (rule example_pipe_run)
  fix p
  assume p: "pipe_reach example_pipeline p" "pl_pc p = PL_Done"
    "map (\<lambda>b. (bt_device_id b, map ob_sequence (bt_observations b))) (pl_output p) = [(''a'', [0, 1]), (''b'', [0])]"
  have d: "map bt_device_id (pl_output p) = [''a'', ''b'']" using arg_cong[OF p(3), of "map fst"] by (simp add: comp_def)
  note c = pipeline_conserves[OF p(1), of "''a''"]
  obtain rest where r: "dev_observations ''a'' (pl_output p) @ rest = filter (\<lambda>o'. ob_device_id o' = ''a'') (pl_received p)"
    using c by (elim conjE exE)
  have "pl_received p = pl_accepted p" using c p(2) by (elim conjE) simp
  then show ?thesis by (intro exI[of _ p] exI[of _ rest] conjI p(1,2) d r)
qed

theorem pipeline_bounded_and_accounted_witness:
  "\<exists>p. pipe_reach example_pipeline p \<and> pl_pc p = PL_Done \<and>
     ds_observations_emitted (pl_stats p) + ds_observations_dropped (pl_stats p) = length (pl_received p)"
proof (rule example_pipe_run)
  fix p
  assume p: "pipe_reach example_pipeline p" "pl_pc p = PL_Done"
  with pipeline_bounded_and_accounted[OF p(1)] show ?thesis by blast
qed

end
