(* ===== verification/Local_Buffer.thy ===== *)
theory Local_Buffer
  imports Data_Pipeline "HOL-Library.AList"
begin

text \<open>
  \<^verbatim>\<open>crates/local-buffer\<close>: the store-and-forward buffer between the pipeline and the broker. A batch is a row of a table
  until the broker acknowledges it; a window of rows is held in memory, waiting to be sent or in flight.

  SQLite is not part of the repository: the statements of the worker are the operations of a record \<open>db_api\<close>, and the locale
  \<open>wal_db\<close> states what the worker relies on. An operation may fail; a failed one leaves the table as it was. The
  serialization of a batch is a parameter as well. A \<^verbatim>\<open>oneshot\<close> channel is a number; which receivers are gone and which
  deliveries are confirmed is an argument of the steps. The answers are recorded. Log lines are not modelled, of the metrics
  the gauges and counters.
\<close>

section \<open>Configuration, errors, records\<close>

datatype capacity_policy = Backpressure | Reject

record buffer_config =
  lc_db_path :: string
  lc_memory_records :: nat
  lc_disk_max_bytes :: nat
  lc_retention_ns :: nat
  lc_capacity_policy :: capacity_policy

datatype capacity_kind = CK_Memory | CK_Disk

datatype buffer_error =
    BE_InvalidConfig string
  | BE_InvalidBatch
  | BE_CapacityExceeded capacity_kind nat nat nat
  | BE_Corrupt
  | BE_Db
  | BE_Closed
  | BE_WorkerFailed

definition buffer_config_validate :: "buffer_config \<Rightarrow> buffer_error + unit" where
  "buffer_config_validate c =
     (if lc_db_path c = [] then Inl (BE_InvalidConfig ''db_path'')
      else if lc_memory_records c = 0 then Inl (BE_InvalidConfig ''memory_records'')
      else if lc_disk_max_bytes c = 0 then Inl (BE_InvalidConfig ''disk_max_bytes'')
      else if lc_retention_ns c = 0 then Inl (BE_InvalidConfig ''retention'')
      else if 2 ^ 63 \<le> lc_retention_ns c then Inl (BE_InvalidConfig ''retention'')
      else Inr ())"

record mem_record =
  mr_local_seq :: int
  mr_message_id :: string
  mr_topic :: string
  mr_payload :: bytes
  mr_created_at_ns :: int
  mr_sent_count :: nat

definition FIXED_OVERHEAD_PER_RECORD :: nat where
  "FIXED_OVERHEAD_PER_RECORD = 512"

definition MAX_WAITERS_PER_RECORD :: nat where
  "MAX_WAITERS_PER_RECORD = 1024"

definition record_cost :: "mem_record \<Rightarrow> nat" where
  "record_cost r = length (mr_payload r) + length (mr_topic r) + length (mr_message_id r) + FIXED_OVERHEAD_PER_RECORD"

text \<open>A segment of a topic. A byte of a multi-byte character is neither a separator nor a control character.\<close>

definition segment_ok :: "string \<Rightarrow> bool" where
  "segment_ok s \<longleftrightarrow>
     s \<noteq> [] \<and> list_all (\<lambda>ch. ch \<notin> {CHR ''/'', CHR ''+'', CHR ''#''}) s \<and>
     list_all (\<lambda>ch. \<not> ((of_char ch :: nat) \<le> 31 \<or> (of_char ch :: nat) = 127)) s"

definition telemetry_topic :: "observation_batch \<Rightarrow> buffer_error + string" where
  "telemetry_topic b =
     (let topic = ''forgelink/v1/telemetry/'' @ bt_site_id b @ ''/'' @ bt_device_id b in
      if \<not> segment_ok (bt_site_id b) \<or> \<not> segment_ok (bt_device_id b) then Inl BE_InvalidBatch
      else if 65535 < length topic then Inl BE_InvalidBatch
      else Inr topic)"

record batch_codec =
  cd_to_vec :: "observation_batch \<Rightarrow> bytes option"
  cd_from_slice :: "bytes \<Rightarrow> observation_batch option"

section \<open>The database\<close>

text \<open>What \<^verbatim>\<open>open_db\<close> asks about the schema: \<^verbatim>\<open>user_version\<close>, the existence of the table, its columns (name, type, not null,
  default, primary key), the unique index on \<^verbatim>\<open>message_id\<close> alone, and the statement that created the table.\<close>

record schema_view =
  sv_user_version :: int
  sv_has_table :: bool
  sv_columns :: "(string \<times> string \<times> bool \<times> string option \<times> bool) list"
  sv_unique_ok :: bool
  sv_ddl :: string

record recovery =
  rv_max_seq :: int
  rv_bytes :: nat
  rv_count :: nat

text \<open>\<open>db_rows\<close> is the content of the table in the order of \<^verbatim>\<open>local_seq\<close>; no code reads it. The others are the statements.\<close>

record 'd db_api =
  db_rows :: "'d \<Rightarrow> mem_record list"
  db_schema :: "('d, buffer_error, schema_view) st"
  db_create :: "('d, buffer_error, unit) st"
  db_recover :: "('d, buffer_error, recovery) st"
  db_first :: "nat \<Rightarrow> ('d, buffer_error, mem_record list) st"
  db_page :: "int \<Rightarrow> nat \<Rightarrow> ('d, buffer_error, mem_record list) st"
  db_find :: "string \<Rightarrow> ('d, buffer_error, int option) st"
  db_insert :: "mem_record \<Rightarrow> ('d, buffer_error, int) st"
  db_update_sent :: "int \<Rightarrow> nat \<Rightarrow> ('d, buffer_error, unit) st"
  db_delete :: "int \<Rightarrow> ('d, buffer_error, nat) st"
  db_delete_all :: "int list \<Rightarrow> ('d, buffer_error, unit) st"

definition to_ascii_uppercase :: "string \<Rightarrow> string" where
  "to_ascii_uppercase s =
     map (\<lambda>ch. if 97 \<le> (of_char ch :: nat) \<and> (of_char ch :: nat) \<le> 122 then char_of ((of_char ch :: nat) - 32) else ch) s"

fun contains :: "string \<Rightarrow> string \<Rightarrow> bool" where
  "contains [] pat \<longleftrightarrow> pat = []"
| "contains (ch # s) pat \<longleftrightarrow> take (length pat) (ch # s) = pat \<or> contains s pat"

definition expected_columns :: "(string \<times> string \<times> bool \<times> string option \<times> bool) list" where
  "expected_columns =
     [(''local_seq'', ''INTEGER'', False, None, True), (''message_id'', ''TEXT'', True, None, False),
      (''topic'', ''TEXT'', True, None, False), (''payload'', ''BLOB'', True, None, False),
      (''created_at_ns'', ''INTEGER'', True, None, False), (''sent_count'', ''INTEGER'', True, Some ''0'', False)]"

text \<open>The schema of an existing table; \<open>Inr True\<close> asks for the table to be created.\<close>

definition check_schema :: "schema_view \<Rightarrow> buffer_error + bool" where
  "check_schema v =
     (if sv_user_version v = 0 then (if sv_has_table v then Inl BE_Corrupt else Inr True)
      else if sv_user_version v = 1 then
        (let actual = map_of (rev (map (\<lambda>(name, ty, rest). (name, (to_ascii_uppercase ty, rest))) (sv_columns v))) in
         if \<not> sv_has_table v then Inl BE_Corrupt
         else if length (remdups (map fst (sv_columns v))) \<noteq> length expected_columns then Inl BE_Corrupt
         else if \<not> list_all (\<lambda>(name, spec). actual name = Some spec) expected_columns then Inl BE_Corrupt
         else if \<not> sv_unique_ok v then Inl BE_Corrupt
         else if \<not> contains (to_ascii_uppercase (sv_ddl v)) ''AUTOINCREMENT'' then Inl BE_Corrupt
         else Inr False)
      else Inl BE_Corrupt)"

section \<open>State of the worker\<close>

datatype buffer_answer =
    AN_Push nat string "buffer_error + unit"
  | AN_Next nat "buffer_error + (int \<times> string \<times> observation_batch) option"
  | AN_Done nat "buffer_error + unit"

record pending_push =
  pu_record :: mem_record
  pu_replies :: "nat list"

record wal_metrics =
  wm_inflight :: int
  wm_disk_bytes :: nat
  wm_ack_dropped :: nat
  wm_replayed :: nat

text \<open>At the top of the loop, at the receive, emptying the closed channel before the given shutdown is answered, or ended.\<close>

datatype buffer_pc = BP_Top | BP_Recv | BP_Closing nat | BP_Exit

text \<open>\<open>bf_acked\<close> and \<open>bf_answers\<close> are kept for the theorems only.\<close>

record 'd buffer =
  bf_pc :: buffer_pc
  bf_db :: 'd
  bf_mem :: "mem_record list"
  bf_inflight :: "(int \<times> mem_record) list"
  bf_pending_push :: "pending_push list"
  bf_last_loaded_seq :: int
  bf_recover_watermark :: int
  bf_load_error :: "buffer_error option"
  bf_bytes :: nat
  bf_pending_confirm :: "(int \<times> nat) list"
  bf_metrics :: wal_metrics
  bf_acked :: "int set"
  bf_answers :: "buffer_answer list"

definition U64_MAX :: nat where
  "U64_MAX = 2 ^ 64 - 1"

definition sat_add_u64 :: "nat \<Rightarrow> nat \<Rightarrow> nat" where
  "sat_add_u64 a b = min (a + b) U64_MAX"

definition answer :: "buffer_answer \<Rightarrow> 'd buffer \<Rightarrow> 'd buffer" where
  "answer a st = st\<lparr>bf_answers := bf_answers st @ [a]\<rparr>"

section \<open>Metrics\<close>

definition observe_persisted :: "nat \<Rightarrow> wal_metrics \<Rightarrow> wal_metrics" where
  "observe_persisted cost m = m\<lparr>wm_inflight := wm_inflight m + 1, wm_disk_bytes := wm_disk_bytes m + cost\<rparr>"

definition observe_restored :: "nat \<Rightarrow> nat \<Rightarrow> wal_metrics \<Rightarrow> wal_metrics" where
  "observe_restored n bytes m = m\<lparr>wm_inflight := int n, wm_disk_bytes := bytes\<rparr>"

definition observe_expired :: "nat \<Rightarrow> nat \<Rightarrow> wal_metrics \<Rightarrow> wal_metrics" where
  "observe_expired n bytes m =
     m\<lparr>wm_inflight := wm_inflight m - int n, wm_disk_bytes := wm_disk_bytes m - bytes, wm_ack_dropped := wm_ack_dropped m + n\<rparr>"

definition observe_acked :: "nat \<Rightarrow> wal_metrics \<Rightarrow> wal_metrics" where
  "observe_acked cost m = m\<lparr>wm_inflight := wm_inflight m - 1, wm_disk_bytes := wm_disk_bytes m - cost\<rparr>"

definition observe_capacity_rejected :: "nat \<Rightarrow> wal_metrics \<Rightarrow> wal_metrics" where
  "observe_capacity_rejected n m = m\<lparr>wm_ack_dropped := wm_ack_dropped m + n\<rparr>"

definition observe_replayed :: "wal_metrics \<Rightarrow> wal_metrics" where
  "observe_replayed m = m\<lparr>wm_replayed := wm_replayed m + 1\<rparr>"

definition upd_metrics :: "(wal_metrics \<Rightarrow> wal_metrics) \<Rightarrow> 'd buffer \<Rightarrow> 'd buffer" where
  "upd_metrics f st = st\<lparr>bf_metrics := f (bf_metrics st)\<rparr>"

section \<open>Opening\<close>

definition open_db :: "'d db_api \<Rightarrow> buffer_config \<Rightarrow> ('d, buffer_error, mem_record list \<times> int \<times> recovery) st" where
  "open_db db c =
     st_bind (db_schema db) (\<lambda>v.
     st_bind (st_lift (check_schema v)) (\<lambda>fresh.
     st_bind (if fresh then db_create db else st_lift (Inr ())) (\<lambda>_.
     st_bind (db_recover db) (\<lambda>rv.
     st_bind (db_first db (lc_memory_records c)) (\<lambda>records.
     st_lift (Inr (records, if records = [] then 0 else mr_local_seq (last records), rv)))))))"

text \<open>\<^verbatim>\<open>LocalBuffer::open\<close>: validation, the database, and the start of \<^verbatim>\<open>worker_loop\<close>.\<close>

definition buffer_open :: "'d db_api \<Rightarrow> buffer_config \<Rightarrow> 'd \<Rightarrow> buffer_error + 'd buffer" where
  "buffer_open db c d =
     res_bind (buffer_config_validate c) (\<lambda>_.
       case open_db db c d of
         (Inl e, _) \<Rightarrow> Inl e
       | (Inr (records, last_loaded, rv), d') \<Rightarrow>
           Inr \<lparr>bf_pc = BP_Top, bf_db = d', bf_mem = records, bf_inflight = [], bf_pending_push = [],
                bf_last_loaded_seq = last_loaded, bf_recover_watermark = rv_max_seq rv, bf_load_error = None,
                bf_bytes = rv_bytes rv, bf_pending_confirm = [],
                bf_metrics = observe_restored (rv_count rv) (rv_bytes rv)
                  \<lparr>wm_inflight = 0, wm_disk_bytes = 0, wm_ack_dropped = 0, wm_replayed = 0\<rparr>,
                bf_acked = {}, bf_answers = []\<rparr>)"

section \<open>The window\<close>

definition held :: "'d buffer \<Rightarrow> nat" where
  "held st = length (bf_mem st) + length (bf_inflight st)"

definition held_records :: "'d buffer \<Rightarrow> mem_record list" where
  "held_records st = bf_mem st @ map snd (bf_inflight st)"

definition water_mark :: "'d buffer \<Rightarrow> int" where
  "water_mark st =
     (case map mr_local_seq (held_records st) of [] \<Rightarrow> bf_last_loaded_seq st | s # ss \<Rightarrow> fold max ss s)"

definition load_more :: "'d db_api \<Rightarrow> buffer_config \<Rightarrow> 'd buffer \<Rightarrow> (buffer_error + bool) \<times> 'd buffer" where
  "load_more db c st =
     (if lc_memory_records c \<le> held st then (Inr False, st)
      else case db_page db (water_mark st) (lc_memory_records c - held st) (bf_db st) of
        (Inl e, d) \<Rightarrow> (Inl e, st\<lparr>bf_db := d\<rparr>)
      | (Inr [], d) \<Rightarrow> (Inr True, st\<lparr>bf_db := d\<rparr>)
      | (Inr rs, d) \<Rightarrow>
          (Inr True, st\<lparr>bf_db := d, bf_last_loaded_seq := mr_local_seq (last rs), bf_mem := bf_mem st @ rs\<rparr>))"

text \<open>Into the queue before the first record with a greater number.\<close>

definition insert_by_seq :: "mem_record \<Rightarrow> mem_record list \<Rightarrow> mem_record list" where
  "insert_by_seq r rs =
     takeWhile (\<lambda>x. \<not> mr_local_seq r < mr_local_seq x) rs @ r # dropWhile (\<lambda>x. \<not> mr_local_seq r < mr_local_seq x) rs"

definition handle_requeue :: "int \<Rightarrow> 'd buffer \<Rightarrow> 'd buffer" where
  "handle_requeue s st =
     (case map_of (bf_inflight st) s of
        None \<Rightarrow> st
      | Some r \<Rightarrow> st\<lparr>bf_inflight := AList.delete s (bf_inflight st), bf_mem := insert_by_seq r (bf_mem st)\<rparr>)"

text \<open>\<^verbatim>\<open>Vec::swap_remove\<close>.\<close>

definition swap_remove :: "nat \<Rightarrow> 'a list \<Rightarrow> 'a list" where
  "swap_remove i xs = butlast (xs[i := last xs])"

datatype delivery = DL_Waiting | DL_Confirmed | DL_Closed

lemma handle_requeue_confirm [simp]: "bf_pending_confirm (handle_requeue s st) = bf_pending_confirm st"
  by (simp add: handle_requeue_def split: option.splits)

function check_confirms :: "(nat \<Rightarrow> delivery) \<Rightarrow> nat \<Rightarrow> 'd buffer \<Rightarrow> bool \<times> 'd buffer" where
  "check_confirms dlv i st =
     (if length (bf_pending_confirm st) \<le> i then (False, st)
      else let (s, ch) = bf_pending_confirm st ! i;
               st1 = st\<lparr>bf_pending_confirm := swap_remove i (bf_pending_confirm st)\<rparr> in
           case dlv ch of
             DL_Confirmed \<Rightarrow> check_confirms dlv i st1
           | DL_Closed \<Rightarrow> (True, snd (check_confirms dlv i (handle_requeue s st1)))
           | DL_Waiting \<Rightarrow> check_confirms dlv (Suc i) st)"
  by pat_completeness auto
termination
  by (relation "measure (\<lambda>(dlv, i, st). length (bf_pending_confirm st) - i)") (auto simp: swap_remove_def)

declare check_confirms.simps [simp del]

definition check_pending_confirm :: "(nat \<Rightarrow> delivery) \<Rightarrow> 'd buffer \<Rightarrow> bool \<times> 'd buffer" where
  "check_pending_confirm dlv st = check_confirms dlv 0 st"

definition cleanup_expired :: "'d db_api \<Rightarrow> int \<Rightarrow> 'd buffer \<Rightarrow> (buffer_error + nat \<times> nat) \<times> 'd buffer" where
  "cleanup_expired db cutoff st =
     (let expired = filter (\<lambda>r. mr_created_at_ns r < cutoff) (bf_mem st) in
      if expired = [] then (Inr (0, 0), st)
      else case db_delete_all db (map mr_local_seq expired) (bf_db st) of
        (Inl e, d) \<Rightarrow> (Inl e, st\<lparr>bf_db := d\<rparr>)
      | (Inr _, d) \<Rightarrow>
          (let n = sum_list (map record_cost expired) in
           (Inr (length expired, n),
            st\<lparr>bf_db := d, bf_mem := filter (\<lambda>r. mr_local_seq r \<notin> mr_local_seq ` set expired) (bf_mem st),
               bf_bytes := bf_bytes st - n\<rparr>)))"

section \<open>Storing\<close>

definition capacity_full :: "buffer_config \<Rightarrow> nat \<Rightarrow> 'd buffer \<Rightarrow> bool" where
  "capacity_full c requested st \<longleftrightarrow> lc_disk_max_bytes c < sat_add_u64 (bf_bytes st) requested"

text \<open>\<^verbatim>\<open>insert_record_timed\<close> and what both callers do when it succeeds.\<close>

definition store_record :: "'d db_api \<Rightarrow> buffer_config \<Rightarrow> mem_record \<Rightarrow> 'd buffer \<Rightarrow> (buffer_error + unit) \<times> 'd buffer" where
  "store_record db c r st =
     (case db_insert db r (bf_db st) of
        (Inl e, d) \<Rightarrow> (Inl e, st\<lparr>bf_db := d\<rparr>)
      | (Inr s, d) \<Rightarrow>
          (let r' = r\<lparr>mr_local_seq := s\<rparr>;
               st1 = upd_metrics (observe_persisted (record_cost r)) (st\<lparr>bf_db := d\<rparr>);
               st2 = st1\<lparr>bf_bytes := sat_add_u64 (bf_bytes st1) (record_cost r')\<rparr> in
           (Inr (), if bf_load_error st2 = None \<and> held st2 < lc_memory_records c then st2\<lparr>bf_mem := bf_mem st2 @ [r']\<rparr> else st2)))"

lemma store_record_pending [simp]: "bf_pending_push (snd (store_record db c r st)) = bf_pending_push st"
  by (simp add: store_record_def upd_metrics_def Let_def split: prod.splits sum.splits)

lemma store_record_pendingD: "(x, st1) = store_record db c r st \<Longrightarrow> bf_pending_push st1 = bf_pending_push st"
  by (metis snd_conv store_record_pending)

definition answer_all :: "string \<Rightarrow> buffer_error + unit \<Rightarrow> nat list \<Rightarrow> 'd buffer \<Rightarrow> 'd buffer" where
  "answer_all m res ids st = fold (\<lambda>i. answer (AN_Push i m res)) ids st"

lemma answer_all_eq: "answer_all m res ids st = st\<lparr>bf_answers := bf_answers st @ map (\<lambda>i. AN_Push i m res) ids\<rparr>"
  unfolding answer_all_def by (induction ids arbitrary: st) (simp_all add: answer_def)

function flush_pending_push :: "'d db_api \<Rightarrow> buffer_config \<Rightarrow> 'd buffer \<Rightarrow> nat \<times> 'd buffer" where
  "flush_pending_push db c st =
     (case bf_pending_push st of
        [] \<Rightarrow> (0, st)
      | p # rest \<Rightarrow>
          if capacity_full c (record_cost (pu_record p)) st then (0, st)
          else (case store_record db c (pu_record p) (st\<lparr>bf_pending_push := rest\<rparr>) of
             (Inr _, st1) \<Rightarrow>
               (case flush_pending_push db c (answer_all (mr_message_id (pu_record p)) (Inr ()) (pu_replies p) st1) of
                  (n, st2) \<Rightarrow> (Suc n, st2))
           | (Inl e, st1) \<Rightarrow>
               flush_pending_push db c (answer_all (mr_message_id (pu_record p)) (Inl e) (pu_replies p) st1)))"
  by pat_completeness auto
termination
  by (relation "measure (\<lambda>(db, c, st). length (bf_pending_push st))") (auto simp: answer_all_eq dest!: store_record_pendingD)

declare flush_pending_push.simps [simp del]

text \<open>\<^verbatim>\<open>prune_cancelled_waiters\<close>: \<open>gone\<close> are the reply channels whose receiver was dropped.\<close>

definition prune_cancelled_waiters :: "nat set \<Rightarrow> 'd buffer \<Rightarrow> 'd buffer" where
  "prune_cancelled_waiters gone st =
     st\<lparr>bf_pending_push :=
         filter (\<lambda>p. pu_replies p \<noteq> []) (map (\<lambda>p. p\<lparr>pu_replies := filter (\<lambda>i. i \<notin> gone) (pu_replies p)\<rparr>) (bf_pending_push st))\<rparr>"

text \<open>A request for a message that waits for space joins the waiters of that message.\<close>

fun add_waiter :: "string \<Rightarrow> nat \<Rightarrow> pending_push list \<Rightarrow> pending_push list" where
  "add_waiter m reply [] = []"
| "add_waiter m reply (p # ps) =
     (if mr_message_id (pu_record p) = m then p\<lparr>pu_replies := pu_replies p @ [reply]\<rparr> # ps else p # add_waiter m reply ps)"

definition push_new :: "'d db_api \<Rightarrow> buffer_config \<Rightarrow> nat \<Rightarrow> mem_record \<Rightarrow> 'd buffer \<Rightarrow> 'd buffer" where
  "push_new db c reply r st =
     (let m = mr_message_id r; requested = record_cost r;
          full = BE_CapacityExceeded CK_Disk (lc_disk_max_bytes c) (bf_bytes st) requested;
          refused = answer (AN_Push reply m (Inl full)) (upd_metrics (observe_capacity_rejected 1) st) in
      if lc_disk_max_bytes c < requested then refused
      else if capacity_full c requested st then
        (if lc_memory_records c \<le> length (bf_pending_push st) then refused
         else case lc_capacity_policy c of
           Reject \<Rightarrow> refused
         | Backpressure \<Rightarrow> st\<lparr>bf_pending_push := bf_pending_push st @ [\<lparr>pu_record = r, pu_replies = [reply]\<rparr>]\<rparr>)
      else (case store_record db c r st of (res, st1) \<Rightarrow> answer (AN_Push reply m res) st1))"

definition push_inner ::
  "'d db_api \<Rightarrow> batch_codec \<Rightarrow> buffer_config \<Rightarrow> int \<Rightarrow> observation_batch \<Rightarrow> nat \<Rightarrow> 'd buffer \<Rightarrow> 'd buffer" where
  "push_inner db cd c now b reply st =
     (let m = bt_message_id b in
      case telemetry_topic b of
        Inl e \<Rightarrow> answer (AN_Push reply m (Inl e)) st
      | Inr topic \<Rightarrow>
          (case cd_to_vec cd b of
             None \<Rightarrow> answer (AN_Push reply m (Inl BE_InvalidBatch)) st
           | Some payload \<Rightarrow>
               (let r = \<lparr>mr_local_seq = 0, mr_message_id = m, mr_topic = topic, mr_payload = payload, mr_created_at_ns = now,
                         mr_sent_count = 0\<rparr> in
                if list_ex (\<lambda>(s, x). mr_message_id x = m) (bf_inflight st) then answer (AN_Push reply m (Inr ())) st
                else case find (\<lambda>p. mr_message_id (pu_record p) = m) (bf_pending_push st) of
                  Some p \<Rightarrow>
                    if MAX_WAITERS_PER_RECORD \<le> length (pu_replies p) then
                      answer (AN_Push reply m (Inl (BE_CapacityExceeded CK_Memory MAX_WAITERS_PER_RECORD (length (pu_replies p)) 1))) st
                    else st\<lparr>bf_pending_push := add_waiter m reply (bf_pending_push st)\<rparr>
                | None \<Rightarrow>
                    (case db_find db m (bf_db st) of
                       (Inl e, d) \<Rightarrow> answer (AN_Push reply m (Inl e)) (st\<lparr>bf_db := d\<rparr>)
                     | (Inr (Some _), d) \<Rightarrow> answer (AN_Push reply m (Inr ())) (st\<lparr>bf_db := d\<rparr>)
                     | (Inr None, d) \<Rightarrow> push_new db c reply r (st\<lparr>bf_db := d\<rparr>)))))"

section \<open>Sending\<close>

definition handle_next ::
  "'d db_api \<Rightarrow> batch_codec \<Rightarrow> 'd buffer \<Rightarrow> (buffer_error + (int \<times> string \<times> observation_batch) option) \<times> 'd buffer" where
  "handle_next db cd st =
     (case bf_mem st of
        [] \<Rightarrow> (case bf_load_error st of Some e \<Rightarrow> (Inl e, st) | None \<Rightarrow> (Inr None, st))
      | r # rest \<Rightarrow>
          (case cd_from_slice cd (mr_payload r) of
             None \<Rightarrow> (Inl BE_Db, st)
           | Some b \<Rightarrow>
               (let replay = mr_sent_count r > 0 \<or> mr_local_seq r \<le> bf_recover_watermark st;
                    st1 = (if replay then upd_metrics observe_replayed st else st);
                    n = mr_sent_count r + 1 in
                case db_update_sent db (mr_local_seq r) n (bf_db st1) of
                  (Inl e, d) \<Rightarrow> (Inl e, st1\<lparr>bf_db := d\<rparr>)
                | (Inr _, d) \<Rightarrow>
                    (Inr (Some (mr_local_seq r, mr_topic r, if replay then b\<lparr>bt_replayed := True\<rparr> else b)),
                     st1\<lparr>bf_db := d, bf_mem := rest,
                         bf_inflight := AList.update (mr_local_seq r) (r\<lparr>mr_sent_count := n\<rparr>) (bf_inflight st1)\<rparr>))))"

definition handle_ack :: "'d db_api \<Rightarrow> int \<Rightarrow> 'd buffer \<Rightarrow> (buffer_error + unit) \<times> 'd buffer" where
  "handle_ack db s st =
     (case db_delete db s (bf_db st) of
        (Inl e, d) \<Rightarrow> (Inl e, st\<lparr>bf_db := d\<rparr>)
      | (Inr deleted, d) \<Rightarrow>
          (let st1 = st\<lparr>bf_db := d, bf_acked := (if deleted > 0 then insert s (bf_acked st) else bf_acked st)\<rparr> in
           (Inr (),
            case (if deleted > 0 then map_of (bf_inflight st1) s else None) of
              None \<Rightarrow> st1
            | Some r \<Rightarrow>
                upd_metrics (observe_acked (record_cost r))
                  (st1\<lparr>bf_inflight := AList.delete s (bf_inflight st1), bf_bytes := bf_bytes st1 - record_cost r\<rparr>))))"

section \<open>The loop of the worker\<close>

datatype buffer_cmd =
    CM_Push observation_batch nat
  | CM_Next nat nat
  | CM_Ack int nat
  | CM_Requeue int nat
  | CM_Shutdown nat

text \<open>One pass from the top of the loop to the receive; the result tells whether there was progress.\<close>

definition upkeep :: "'d db_api \<Rightarrow> buffer_config \<Rightarrow> (nat \<Rightarrow> delivery) \<Rightarrow> int \<Rightarrow> 'd buffer \<Rightarrow> bool \<times> 'd buffer" where
  "upkeep db c dlv now st =
     (let (requeued, st1) = check_pending_confirm dlv st;
          (cleaned, st2) = cleanup_expired db (now - int (lc_retention_ns c)) st1;
          (expired, st3) = (case cleaned of
             Inl e \<Rightarrow> (0, st2) | Inr (n, bytes) \<Rightarrow> (n, upd_metrics (observe_expired n bytes) st2));
          (loaded, st4) = load_more db c st3;
          st5 = (case loaded of Inl e \<Rightarrow> st4\<lparr>bf_load_error := Some e\<rparr> | Inr True \<Rightarrow> st4\<lparr>bf_load_error := None\<rparr> | Inr False \<Rightarrow> st4);
          (flushed, st6) = flush_pending_push db c st5
      in (requeued \<or> 0 < expired \<or> 0 < flushed, st6))"

definition finish_next :: "nat set \<Rightarrow> nat \<Rightarrow> nat \<Rightarrow>
    (buffer_error + (int \<times> string \<times> observation_batch) option) \<times> 'd buffer \<Rightarrow> 'd buffer" where
  "finish_next gone reply delivered = (\<lambda>(res, st).
     case res of
       Inr (Some (s, _, _)) \<Rightarrow>
         if reply \<in> gone then handle_requeue s st
         else answer (AN_Next reply res) (st\<lparr>bf_pending_confirm := bf_pending_confirm st @ [(s, delivered)]\<rparr>)
     | _ \<Rightarrow> answer (AN_Next reply res) st)"

definition shutdown_answers :: "'d buffer \<Rightarrow> 'd buffer" where
  "shutdown_answers st =
     (fold (\<lambda>p. answer_all (mr_message_id (pu_record p)) (Inl BE_Closed) (pu_replies p)) (bf_pending_push st) st)\<lparr>bf_pending_push := []\<rparr>"

definition handle_cmd ::
  "'d db_api \<Rightarrow> batch_codec \<Rightarrow> buffer_config \<Rightarrow> nat set \<Rightarrow> int \<Rightarrow> buffer_cmd \<Rightarrow> 'd buffer \<Rightarrow> 'd buffer" where
  "handle_cmd db cd c gone now cmd st =
     (case cmd of
        CM_Push b reply \<Rightarrow> push_inner db cd c now b reply (prune_cancelled_waiters gone st)
      | CM_Next reply delivered \<Rightarrow> finish_next gone reply delivered (handle_next db cd st)
      | CM_Ack s reply \<Rightarrow> (case handle_ack db s st of (res, st1) \<Rightarrow> answer (AN_Done reply res) st1)
      | CM_Requeue s reply \<Rightarrow> answer (AN_Done reply (Inr ())) (handle_requeue s st)
      | CM_Shutdown reply \<Rightarrow> (shutdown_answers st)\<lparr>bf_pc := BP_Closing reply\<rparr>)"

text \<open>A command that is left in the channel at the shutdown.\<close>

definition reject_cmd :: "buffer_cmd \<Rightarrow> 'd buffer \<Rightarrow> 'd buffer" where
  "reject_cmd cmd =
     answer (case cmd of
        CM_Push b reply \<Rightarrow> AN_Push reply (bt_message_id b) (Inl BE_Closed)
      | CM_Next reply delivered \<Rightarrow> AN_Next reply (Inl BE_Closed)
      | CM_Ack s reply \<Rightarrow> AN_Done reply (Inl BE_Closed)
      | CM_Requeue s reply \<Rightarrow> AN_Done reply (Inl BE_Closed)
      | CM_Shutdown reply \<Rightarrow> AN_Done reply (Inr ()))"

datatype buffer_choice =
    BX_Upkeep "nat \<Rightarrow> delivery" int
  | BX_Cmd "nat \<Rightarrow> delivery" "nat set" int buffer_cmd
  | BX_Timeout
  | BX_Disconnected
  | BX_Left buffer_cmd
  | BX_Closed

fun buffer_step :: "'d db_api \<Rightarrow> batch_codec \<Rightarrow> buffer_config \<Rightarrow> buffer_choice \<Rightarrow> 'd buffer \<Rightarrow> 'd buffer option" where
  "buffer_step db cd c (BX_Upkeep dlv now) st =
     (if bf_pc st = BP_Top then
        (case upkeep db c dlv now st of (progress, st') \<Rightarrow> Some (if progress then st' else st'\<lparr>bf_pc := BP_Recv\<rparr>))
      else None)"
| "buffer_step db cd c (BX_Cmd dlv gone now cmd) st =
     (if bf_pc st = BP_Recv then
        Some (handle_cmd db cd c gone now cmd (snd (check_pending_confirm dlv (st\<lparr>bf_pc := BP_Top\<rparr>))))
      else None)"
| "buffer_step db cd c BX_Timeout st = (if bf_pc st = BP_Recv then Some (st\<lparr>bf_pc := BP_Top\<rparr>) else None)"
| "buffer_step db cd c BX_Disconnected st = (if bf_pc st = BP_Recv then Some (st\<lparr>bf_pc := BP_Exit\<rparr>) else None)"
| "buffer_step db cd c (BX_Left cmd) st = (case bf_pc st of BP_Closing reply \<Rightarrow> Some (reject_cmd cmd st) | _ \<Rightarrow> None)"
| "buffer_step db cd c BX_Closed st =
     (case bf_pc st of BP_Closing reply \<Rightarrow> Some (answer (AN_Done reply (Inr ())) (st\<lparr>bf_pc := BP_Exit\<rparr>)) | _ \<Rightarrow> None)"

inductive buffer_reach :: "'d db_api \<Rightarrow> batch_codec \<Rightarrow> buffer_config \<Rightarrow> 'd \<Rightarrow> 'd buffer \<Rightarrow> bool" for db cd c d where
  br_open: "buffer_open db c d = Inr st \<Longrightarrow> buffer_reach db cd c d st"
| br_step: "buffer_reach db cd c d st \<Longrightarrow> buffer_step db cd c x st = Some st' \<Longrightarrow> buffer_reach db cd c d st'"

end
