(* ===== verification/Buffer_Window.thy ===== *)
theory Buffer_Window
  imports Local_Buffer
begin

text \<open>
  What the worker of the local buffer relies on in the database, as the locale \<open>wal_db\<close>, and the invariant of its window:
  the records held in memory are the oldest unacknowledged ones, in order, and never more than configured.
\<close>

section \<open>The database\<close>

definition same_table :: "'d db_api \<Rightarrow> ('d \<Rightarrow> int) \<Rightarrow> 'd \<Rightarrow> 'd \<Rightarrow> bool" where
  "same_table db high d d' \<longleftrightarrow> db_rows db d' = db_rows db d \<and> high d' = high d"

text \<open>\<open>high\<close> is the greatest number ever given to a row (\<^verbatim>\<open>AUTOINCREMENT\<close> does not reuse numbers), \<open>text_length\<close> the SQL
  function \<^verbatim>\<open>length\<close> on texts, which counts characters.\<close>

locale wal_db =
  fixes db :: "'d db_api" and high :: "'d \<Rightarrow> int" and text_length :: "string \<Rightarrow> nat"
  assumes rows_sorted: "sorted_wrt (<) (map mr_local_seq (db_rows db d))"
    and rows_range: "r \<in> set (db_rows db d) \<Longrightarrow> 0 < mr_local_seq r \<and> mr_local_seq r \<le> high d"
    and high_nonneg: "0 \<le> high d"
    and text_length_le: "text_length s \<le> length s"
    and schema_keeps: "db_schema db d = (v, d') \<Longrightarrow> same_table db high d d'"
    and create_keeps: "db_create db d = (u, d') \<Longrightarrow> same_table db high d d'"
    and recover_keeps: "db_recover db d = (rv, d') \<Longrightarrow> same_table db high d d'"
    and recover_ok: "db_recover db d = (Inr rv', d') \<Longrightarrow>
      rv_max_seq rv' = (if db_rows db d = [] then 0 else mr_local_seq (last (db_rows db d))) \<and>
      rv_bytes rv' = (\<Sum>r\<leftarrow>db_rows db d. length (mr_payload r) + text_length (mr_topic r) + text_length (mr_message_id r) +
        FIXED_OVERHEAD_PER_RECORD) \<and>
      rv_count rv' = length (db_rows db d)"
    and first_keeps: "db_first db n d = (rs, d') \<Longrightarrow> same_table db high d d'"
    and first_ok: "db_first db n d = (Inr rs', d') \<Longrightarrow> rs' = take n (db_rows db d)"
    and page_keeps: "db_page db w n d = (rs, d') \<Longrightarrow> same_table db high d d'"
    and page_ok: "db_page db w n d = (Inr rs', d') \<Longrightarrow> rs' = take n (filter (\<lambda>r. w < mr_local_seq r) (db_rows db d))"
    and find_keeps: "db_find db m d = (x, d') \<Longrightarrow> same_table db high d d'"
    and find_ok: "db_find db m d = (Inr x', d') \<Longrightarrow> x' \<noteq> None \<longleftrightarrow> m \<in> mr_message_id ` set (db_rows db d)"
    and insert_fails: "db_insert db r d = (Inl e, d') \<Longrightarrow> same_table db high d d'"
    and insert_ok: "db_insert db r d = (Inr s', d') \<Longrightarrow>
      high d < s' \<and> high d' = s' \<and> db_rows db d' = db_rows db d @ [r\<lparr>mr_local_seq := s'\<rparr>]"
    and update_fails: "db_update_sent db q n d = (Inl e, d') \<Longrightarrow> same_table db high d d'"
    and update_ok: "db_update_sent db q n d = (Inr u', d') \<Longrightarrow>
      db_rows db d' = map (\<lambda>r. if mr_local_seq r = q then r\<lparr>mr_sent_count := n\<rparr> else r) (db_rows db d) \<and> high d' = high d"
    and delete_fails: "db_delete db q d = (Inl e, d') \<Longrightarrow> same_table db high d d'"
    and delete_ok: "db_delete db q d = (Inr k, d') \<Longrightarrow>
      db_rows db d' = filter (\<lambda>r. mr_local_seq r \<noteq> q) (db_rows db d) \<and> high d' = high d \<and>
      (0 < k \<longleftrightarrow> q \<in> mr_local_seq ` set (db_rows db d))"
    and delete_all_fails: "db_delete_all db qs d = (Inl e, d') \<Longrightarrow> same_table db high d d'"
    and delete_all_ok: "db_delete_all db qs d = (Inr u', d') \<Longrightarrow>
      db_rows db d' = filter (\<lambda>r. mr_local_seq r \<notin> set qs) (db_rows db d) \<and> high d' = high d"

section \<open>The invariant\<close>

abbreviation rows_of :: "'d db_api \<Rightarrow> 'd buffer \<Rightarrow> mem_record list" where
  "rows_of db st \<equiv> db_rows db (bf_db st)"

abbreviation held_seqs :: "'d buffer \<Rightarrow> int set" where
  "held_seqs st \<equiv> mr_local_seq ` set (held_records st)"

text \<open>Two records that differ at most in how often they were sent.\<close>

definition same_content :: "mem_record \<Rightarrow> mem_record \<Rightarrow> bool" where
  "same_content r x \<longleftrightarrow> r\<lparr>mr_sent_count := 0\<rparr> = x\<lparr>mr_sent_count := 0\<rparr>"

definition window_inv :: "'d db_api \<Rightarrow> ('d \<Rightarrow> int) \<Rightarrow> buffer_config \<Rightarrow> 'd buffer \<Rightarrow> bool" where
  "window_inv db high c st \<longleftrightarrow>
     sorted_wrt (<) (map mr_local_seq (bf_mem st)) \<and>
     distinct (map mr_local_seq (held_records st)) \<and>
     (\<forall>(s, r)\<in>set (bf_inflight st). mr_local_seq r = s) \<and>
     held st \<le> lc_memory_records c \<and>
     (\<forall>r\<in>set (held_records st). mr_local_seq r \<le> high (bf_db st) \<and>
        (mr_local_seq r \<in> bf_acked st \<or> (\<exists>x\<in>set (rows_of db st). same_content r x))) \<and>
     (\<forall>s\<in>bf_acked st. s \<le> high (bf_db st) \<and> s \<notin> mr_local_seq ` set (rows_of db st)) \<and>
     bf_last_loaded_seq st \<le> high (bf_db st) \<and>
     (\<forall>x\<in>set (rows_of db st). mr_local_seq x \<notin> held_seqs st \<longrightarrow>
        bf_last_loaded_seq st < mr_local_seq x \<and> (\<forall>s\<in>held_seqs st. s < mr_local_seq x))"

text \<open>The window is full, or nothing is left on disk that is not in it, or the last attempt to load has failed.\<close>

definition caught_up :: "'d db_api \<Rightarrow> buffer_config \<Rightarrow> 'd buffer \<Rightarrow> bool" where
  "caught_up db c st \<longleftrightarrow>
     bf_load_error st \<noteq> None \<or> held st = lc_memory_records c \<or> mr_local_seq ` set (rows_of db st) \<subseteq> held_seqs st"

lemma window_invD:
  assumes "window_inv db high c st"
  shows "sorted_wrt (<) (map mr_local_seq (bf_mem st))" and "distinct (map mr_local_seq (held_records st))"
    and "(s, r) \<in> set (bf_inflight st) \<Longrightarrow> mr_local_seq r = s" and "held st \<le> lc_memory_records c"
    and "r \<in> set (held_records st) \<Longrightarrow> mr_local_seq r \<le> high (bf_db st)"
    and "r \<in> set (held_records st) \<Longrightarrow> mr_local_seq r \<notin> bf_acked st \<Longrightarrow> \<exists>x\<in>set (rows_of db st). same_content r x"
    and "s \<in> bf_acked st \<Longrightarrow> s \<le> high (bf_db st)" and "s \<in> bf_acked st \<Longrightarrow> s \<notin> mr_local_seq ` set (rows_of db st)"
    and "bf_last_loaded_seq st \<le> high (bf_db st)"
    and "x \<in> set (rows_of db st) \<Longrightarrow> mr_local_seq x \<notin> held_seqs st \<Longrightarrow> bf_last_loaded_seq st < mr_local_seq x"
    and "x \<in> set (rows_of db st) \<Longrightarrow> mr_local_seq x \<notin> held_seqs st \<Longrightarrow> s \<in> held_seqs st \<Longrightarrow> s < mr_local_seq x"
  using assms by (auto simp: window_inv_def)

lemma window_invI:
  assumes "sorted_wrt (<) (map mr_local_seq (bf_mem st))" and "distinct (map mr_local_seq (held_records st))"
    and "\<And>s r. (s, r) \<in> set (bf_inflight st) \<Longrightarrow> mr_local_seq r = s" and "held st \<le> lc_memory_records c"
    and "\<And>r. r \<in> set (held_records st) \<Longrightarrow> mr_local_seq r \<le> high (bf_db st)"
    and "\<And>r. r \<in> set (held_records st) \<Longrightarrow> mr_local_seq r \<notin> bf_acked st \<Longrightarrow> \<exists>x\<in>set (rows_of db st). same_content r x"
    and "\<And>s. s \<in> bf_acked st \<Longrightarrow> s \<le> high (bf_db st)" and "\<And>s. s \<in> bf_acked st \<Longrightarrow> s \<notin> mr_local_seq ` set (rows_of db st)"
    and "bf_last_loaded_seq st \<le> high (bf_db st)"
    and "\<And>x. x \<in> set (rows_of db st) \<Longrightarrow> mr_local_seq x \<notin> held_seqs st \<Longrightarrow> bf_last_loaded_seq st < mr_local_seq x"
    and "\<And>x s. x \<in> set (rows_of db st) \<Longrightarrow> mr_local_seq x \<notin> held_seqs st \<Longrightarrow> s \<in> held_seqs st \<Longrightarrow> s < mr_local_seq x"
  shows "window_inv db high c st"
  unfolding window_inv_def using assms by (intro conjI ballI impI) (blast | auto)+

lemma same_content_seq: "same_content r x \<Longrightarrow> mr_local_seq x = mr_local_seq r"
  unfolding same_content_def by (metis mem_record.select_convs(1) mem_record.surjective mem_record.update_convs(6))

lemma same_content_refl [simp]: "same_content r r" "same_content (r\<lparr>mr_sent_count := n\<rparr>) r" "same_content r (r\<lparr>mr_sent_count := n\<rparr>)"
  by (simp_all add: same_content_def)

lemma same_content_trans: "same_content r x \<Longrightarrow> same_content x y \<Longrightarrow> same_content r y"
  by (simp add: same_content_def)

lemma held_length: "held st = length (held_records st)"
  by (simp add: held_def held_records_def)

lemma mset_insert_by_seq: "mset (insert_by_seq r rs) = add_mset r (mset rs)"
proof -
  have "mset (takeWhile P rs @ dropWhile P rs) = mset rs" for P by simp
  then show ?thesis unfolding insert_by_seq_def by (metis (no_types) mset.simps(2) mset_append union_mset_add_mset_right)
qed

lemma sorted_insert_by_seq:
  assumes "sorted_wrt (<) (map mr_local_seq rs)" "mr_local_seq r \<notin> mr_local_seq ` set rs"
  shows "sorted_wrt (<) (map mr_local_seq (insert_by_seq r rs))"
  using assms
proof (induction rs)
  case (Cons x rs)
  have "set (insert_by_seq r rs) = insert r (set rs)"
    using arg_cong[OF mset_insert_by_seq, of set_mset r rs] by simp
  with Cons show ?case by (auto simp: insert_by_seq_def dest: set_takeWhileD set_dropWhileD)
qed (simp add: insert_by_seq_def)

text \<open>A record that goes back to the queue.\<close>

lemma mset_delete_alist:
  assumes "distinct (map fst al)" "map_of al s = Some r"
  shows "add_mset r (mset (map snd (AList.delete s al))) = mset (map snd al)"
  using assms
proof (induction al)
  case (Cons x al)
  show ?case
  proof (cases "fst x = s")
    case True
    with Cons.prems have "filter (\<lambda>(k, _). s \<noteq> k) al = al" by (intro filter_True) (auto simp: rev_image_eqI)
    with True Cons.prems show ?thesis by (cases x) (simp add: AList.delete_eq)
  next
    case False
    with Cons show ?thesis by (cases x) (auto simp: AList.delete_eq)
  qed
qed simp

lemma window_frame:
  assumes "window_inv db high c st" "bf_mem st' = bf_mem st" "bf_inflight st' = bf_inflight st"
    and "bf_last_loaded_seq st' = bf_last_loaded_seq st" "bf_acked st' = bf_acked st" "same_table db high (bf_db st) (bf_db st')"
  shows "window_inv db high c st'"
  using assms by (simp add: window_inv_def same_table_def held_records_def held_def)

lemma caught_up_frame:
  assumes "caught_up db c st" "held_records st' = held_records st" "db_rows db (bf_db st') = db_rows db (bf_db st)"
    and "bf_load_error st' = bf_load_error st"
  shows "caught_up db c st'"
  using assms by (simp add: caught_up_def held_length)

lemma same_table_refl [simp]: "same_table db high d d"
  by (simp add: same_table_def)

lemma window_inflight_distinct:
  assumes "window_inv db high c st"
  shows "distinct (map fst (bf_inflight st))" and "fst ` set (bf_inflight st) = mr_local_seq ` set (map snd (bf_inflight st))"
proof -
  have eq: "map fst (bf_inflight st) = map mr_local_seq (map snd (bf_inflight st))"
    using window_invD(3)[OF assms] by auto
  show "distinct (map fst (bf_inflight st))"
    unfolding eq using window_invD(2)[OF assms] by (simp add: held_records_def)
  show "fst ` set (bf_inflight st) = mr_local_seq ` set (map snd (bf_inflight st))"
    using arg_cong[OF eq, of set] by (simp add: image_image)
qed

text \<open>A change of place inside the window, or of the counters in the window and in the table.\<close>

lemma window_recount:
  assumes inv: "window_inv db high c st"
    and seqs: "mset (map mr_local_seq (held_records st')) = mset (map mr_local_seq (held_records st))"
    and mem: "sorted_wrt (<) (map mr_local_seq (bf_mem st'))" and inflight: "\<And>s r. (s, r) \<in> set (bf_inflight st') \<Longrightarrow> mr_local_seq r = s"
    and held: "\<And>r. r \<in> set (held_records st') \<Longrightarrow> \<exists>q\<in>set (held_records st). same_content r q"
    and table: "\<And>x. x \<in> set (rows_of db st) \<Longrightarrow> \<exists>y\<in>set (rows_of db st'). same_content x y"
    and rows: "map mr_local_seq (rows_of db st') = map mr_local_seq (rows_of db st)" "high (bf_db st') = high (bf_db st)"
    and last: "bf_last_loaded_seq st' = bf_last_loaded_seq st" and acked: "bf_acked st' = bf_acked st"
  shows "window_inv db high c st'"
proof -
  note D = window_invD[OF inv]
  have hs: "held_seqs st' = held_seqs st" using mset_eq_setD[OF seqs] by simp
  have rs: "mr_local_seq ` set (rows_of db st') = mr_local_seq ` set (rows_of db st)" using arg_cong[OF rows(1), of set] by simp
  show ?thesis
  proof (rule window_invI, goal_cases)
    case 2
    show ?case using D(2) mset_eq_imp_distinct_iff[OF seqs] by simp
  next
    case 4
    show ?case using D(4) mset_eq_length[OF seqs] by (simp add: held_length)
  next
    case (5 r)
    with held D(5) same_content_seq show ?case unfolding rows(2) by metis
  next
    case (6 r)
    then obtain q where "q \<in> set (held_records st)" "same_content r q" using held by blast
    then show ?case using D(6)[of q] table 6(2) same_content_seq[of r q] same_content_trans unfolding acked by metis
  next
    case (10 x)
    then obtain y where "y \<in> set (rows_of db st)" "mr_local_seq y = mr_local_seq x" using rs by (metis imageE imageI)
    then show ?case using D(10)[of y] 10 by (simp add: hs last)
  next
    case (11 x s)
    then obtain y where "y \<in> set (rows_of db st)" "mr_local_seq y = mr_local_seq x" using rs by (metis imageE imageI)
    then show ?case using D(11)[of y s] 11 by (simp add: hs)
  qed (use mem inflight D rows last acked rs in auto)
qed

lemma window_permute:
  assumes "window_inv db high c st" "mset (held_records st') = mset (held_records st)"
    and "sorted_wrt (<) (map mr_local_seq (bf_mem st'))" "\<And>s r. (s, r) \<in> set (bf_inflight st') \<Longrightarrow> mr_local_seq r = s"
    and "bf_last_loaded_seq st' = bf_last_loaded_seq st" "bf_acked st' = bf_acked st" "same_table db high (bf_db st) (bf_db st')"
  shows "window_inv db high c st'"
proof (rule window_recount[OF assms(1)])
  show "mset (map mr_local_seq (held_records st')) = mset (map mr_local_seq (held_records st))"
    using assms(2) by simp
qed (use assms mset_eq_setD[OF assms(2)] in \<open>auto simp: same_table_def intro: same_content_refl(1)\<close>)

lemma handle_requeue_held:
  assumes "distinct (map fst (bf_inflight st))"
  shows "mset (held_records (handle_requeue s st)) = mset (held_records st)"
  using mset_delete_alist[OF assms]
  by (auto simp: handle_requeue_def held_records_def mset_insert_by_seq split: option.splits simp flip: union_mset_add_mset_right)

lemma handle_requeue_frame [simp]:
  "bf_db (handle_requeue s st) = bf_db st" "bf_last_loaded_seq (handle_requeue s st) = bf_last_loaded_seq st"
  "bf_acked (handle_requeue s st) = bf_acked st" "bf_load_error (handle_requeue s st) = bf_load_error st"
  "bf_bytes (handle_requeue s st) = bf_bytes st" "bf_pending_push (handle_requeue s st) = bf_pending_push st"
  "bf_pc (handle_requeue s st) = bf_pc st" "bf_answers (handle_requeue s st) = bf_answers st"
  "bf_recover_watermark (handle_requeue s st) = bf_recover_watermark st"
  by (simp_all add: handle_requeue_def split: option.splits)

lemma handle_requeue_window:
  assumes "window_inv db high c st"
  shows "window_inv db high c (handle_requeue s st)"
proof (cases "map_of (bf_inflight st) s")
  case None
  with assms show ?thesis by (simp add: handle_requeue_def)
next
  case (Some r)
  then have r: "(s, r) \<in> set (bf_inflight st)" by (rule map_of_SomeD)
  with window_invD(3)[OF assms] have s: "mr_local_seq r = s" by simp
  have "mr_local_seq r \<notin> mr_local_seq ` set (bf_mem st)"
    using window_invD(2)[OF assms] r by (force simp: held_records_def)
  then have "sorted_wrt (<) (map mr_local_seq (bf_mem (handle_requeue s st)))"
    using window_invD(1)[OF assms] Some by (simp add: handle_requeue_def sorted_insert_by_seq)
  moreover have "mr_local_seq x = q" if "(q, x) \<in> set (bf_inflight (handle_requeue s st))" for q x
    using that window_invD(3)[OF assms] Some by (auto simp: handle_requeue_def AList.delete_eq)
  ultimately show ?thesis
    using handle_requeue_held[OF window_inflight_distinct(1)[OF assms]] by (intro window_permute[OF assms]) simp_all
qed

text \<open>Confirmed or dropped deliveries. Whatever every requeue keeps is kept.\<close>

lemma check_confirms_induct_inv:
  assumes "P st" "\<And>st s. P st \<Longrightarrow> P (handle_requeue s st)" "\<And>st cs. P st \<Longrightarrow> P (st\<lparr>bf_pending_confirm := cs\<rparr>)"
  shows "P (snd (check_confirms dlv i st))"
  using assms(1)
proof (induction dlv i st rule: check_confirms.induct)
  case (1 dlv i st)
  then show ?case
    by (subst check_confirms.simps) (auto simp: Let_def assms(2,3) split: prod.splits delivery.splits)
qed

lemma check_pending_confirm_frame [simp]:
  "bf_db (snd (check_pending_confirm dlv st)) = bf_db st"
  "bf_last_loaded_seq (snd (check_pending_confirm dlv st)) = bf_last_loaded_seq st"
  "bf_acked (snd (check_pending_confirm dlv st)) = bf_acked st" "bf_load_error (snd (check_pending_confirm dlv st)) = bf_load_error st"
  "bf_bytes (snd (check_pending_confirm dlv st)) = bf_bytes st"
  "bf_pending_push (snd (check_pending_confirm dlv st)) = bf_pending_push st"
  "bf_pc (snd (check_pending_confirm dlv st)) = bf_pc st" "bf_answers (snd (check_pending_confirm dlv st)) = bf_answers st"
  "bf_recover_watermark (snd (check_pending_confirm dlv st)) = bf_recover_watermark st"
  unfolding check_pending_confirm_def
  by (rule check_confirms_induct_inv[where P = "\<lambda>x. bf_db x = bf_db st"]
      check_confirms_induct_inv[where P = "\<lambda>x. bf_last_loaded_seq x = bf_last_loaded_seq st"]
      check_confirms_induct_inv[where P = "\<lambda>x. bf_acked x = bf_acked st"]
      check_confirms_induct_inv[where P = "\<lambda>x. bf_load_error x = bf_load_error st"]
      check_confirms_induct_inv[where P = "\<lambda>x. bf_bytes x = bf_bytes st"]
      check_confirms_induct_inv[where P = "\<lambda>x. bf_pending_push x = bf_pending_push st"]
      check_confirms_induct_inv[where P = "\<lambda>x. bf_pc x = bf_pc st"]
      check_confirms_induct_inv[where P = "\<lambda>x. bf_answers x = bf_answers st"]
      check_confirms_induct_inv[where P = "\<lambda>x. bf_recover_watermark x = bf_recover_watermark st"]; simp)+

lemma check_pending_confirm_window:
  assumes "window_inv db high c st"
  shows "window_inv db high c (snd (check_pending_confirm dlv st))"
    and "mset (held_records (snd (check_pending_confirm dlv st))) = mset (held_records st)"
proof -
  have "window_inv db high c (snd (check_pending_confirm dlv st)) \<and>
      mset (held_records (snd (check_pending_confirm dlv st))) = mset (held_records st)"
    unfolding check_pending_confirm_def
  proof (rule check_confirms_induct_inv, goal_cases)
    case (2 st' s)
    then show ?case
      using handle_requeue_window handle_requeue_held[OF window_inflight_distinct(1)] by metis
  next
    case (3 st' cs)
    then show ?case by (auto intro: window_frame simp: held_records_def)
  qed (use assms in simp)
  then show "window_inv db high c (snd (check_pending_confirm dlv st))"
    and "mset (held_records (snd (check_pending_confirm dlv st))) = mset (held_records st)" by auto
qed

section \<open>The operations keep the invariant\<close>

context wal_db
begin

lemma table_fails:
  "db_schema db d = (v, d') \<Longrightarrow> same_table db high d d'" "db_create db d = (u, d') \<Longrightarrow> same_table db high d d'"
  "db_recover db d = (rv, d') \<Longrightarrow> same_table db high d d'" "db_first db n d = (rs, d') \<Longrightarrow> same_table db high d d'"
  "db_page db w n d = (rs, d') \<Longrightarrow> same_table db high d d'" "db_find db m d = (x, d') \<Longrightarrow> same_table db high d d'"
  "db_insert db r d = (Inl e, d') \<Longrightarrow> same_table db high d d'" "db_update_sent db q n d = (Inl e, d') \<Longrightarrow> same_table db high d d'"
  "db_delete db q d = (Inl e, d') \<Longrightarrow> same_table db high d d'" "db_delete_all db qs d = (Inl e, d') \<Longrightarrow> same_table db high d d'"
  by (fact schema_keeps create_keeps recover_keeps first_keeps page_keeps find_keeps insert_fails update_fails delete_fails
      delete_all_fails)+

lemma rows_distinct: "distinct (map mr_local_seq (db_rows db d))"
  using rows_sorted[of d] by (simp add: strict_sorted_iff)

lemma rows_same_seq: "x \<in> set (db_rows db d) \<Longrightarrow> y \<in> set (db_rows db d) \<Longrightarrow> mr_local_seq x = mr_local_seq y \<Longrightarrow> x = y"
  using rows_distinct[of d] by (simp add: distinct_map inj_on_def)

lemma store_record_failed:
  assumes "store_record db c r st = (Inl e, st')"
  shows "\<exists>d. st' = st\<lparr>bf_db := d\<rparr> \<and> same_table db high (bf_db st) d"
  using assms insert_fails by (fastforce simp: store_record_def Let_def split: prod.splits sum.splits)

lemma store_record_stored:
  assumes "store_record db c r st = (Inr u, st')"
  obtains s where "high (bf_db st) < s" "high (bf_db st') = s" "rows_of db st' = rows_of db st @ [r\<lparr>mr_local_seq := s\<rparr>]"
    and "bf_mem st' =
      (if bf_load_error st = None \<and> held st < lc_memory_records c then bf_mem st @ [r\<lparr>mr_local_seq := s\<rparr>] else bf_mem st)"
    and "bf_inflight st' = bf_inflight st" "bf_last_loaded_seq st' = bf_last_loaded_seq st" "bf_acked st' = bf_acked st"
    and "bf_load_error st' = bf_load_error st" "bf_bytes st' = sat_add_u64 (bf_bytes st) (record_cost r)"
    and "bf_pending_push st' = bf_pending_push st" "bf_pc st' = bf_pc st" "bf_answers st' = bf_answers st"
proof -
  obtain s d where ins: "db_insert db r (bf_db st) = (Inr s, d)"
    using assms by (auto simp: store_record_def split: prod.splits sum.splits)
  note ok = insert_ok[OF ins]
  have cost: "record_cost (r\<lparr>mr_local_seq := s\<rparr>) = record_cost r" by (simp add: record_cost_def)
  have st': "st' = snd (store_record db c r st)" using assms by simp
  show thesis
    by (rule that[of s]) (use ok in \<open>simp_all add: st' store_record_def ins upd_metrics_def Let_def held_def cost\<close>)
qed

lemma store_record_window:
  assumes inv: "window_inv db high c st" and up: "caught_up db c st" and store: "store_record db c r st = (res, st')"
  shows "window_inv db high c st' \<and> caught_up db c st'"
proof (cases res)
  case (Inl e)
  with store store_record_failed obtain d where "st' = st\<lparr>bf_db := d\<rparr>" "same_table db high (bf_db st) d" by blast
  then show ?thesis
    using window_frame[OF inv, of st'] caught_up_frame[OF up, of st'] by (simp add: same_table_def held_records_def)
next
  case (Inr u)
  obtain s where ok: "high (bf_db st) < s" "high (bf_db st') = s" "rows_of db st' = rows_of db st @ [r\<lparr>mr_local_seq := s\<rparr>]"
      "bf_mem st' =
        (if bf_load_error st = None \<and> held st < lc_memory_records c then bf_mem st @ [r\<lparr>mr_local_seq := s\<rparr>] else bf_mem st)"
      "bf_inflight st' = bf_inflight st" "bf_last_loaded_seq st' = bf_last_loaded_seq st" "bf_acked st' = bf_acked st"
      "bf_load_error st' = bf_load_error st"
    using store unfolding Inr by (rule store_record_stored) blast
  have old: "mr_local_seq x < s" if "x \<in> set (held_records st)" for x using window_invD(5)[OF inv that] ok(1) by simp
  have acked: "q < s" if "q \<in> bf_acked st" for q using window_invD(7)[OF inv that] ok(1) by simp
  note D = window_invD[OF inv]
  show ?thesis
  proof (cases "bf_load_error st = None \<and> held st < lc_memory_records c")
    case True
    with up have all: "mr_local_seq ` set (rows_of db st) \<subseteq> held_seqs st" by (auto simp: caught_up_def)
    have hr: "held_records st' = bf_mem st @ r\<lparr>mr_local_seq := s\<rparr> # map snd (bf_inflight st)"
      using True ok by (simp add: held_records_def)
    have hs: "set (held_records st') = insert (r\<lparr>mr_local_seq := s\<rparr>) (set (held_records st))"
      unfolding hr by (auto simp: held_records_def)
    have "window_inv db high c st'"
    proof (rule window_invI, goal_cases)
      case 1
      then show ?case using D(1) old True ok(4) by (auto simp: sorted_wrt_append held_records_def)
    next
      case 2
      have "s \<notin> mr_local_seq ` set (bf_mem st)" "s \<notin> mr_local_seq ` snd ` set (bf_inflight st)"
        using old by (force simp: held_records_def)+
      then show ?case using D(2) unfolding hr by (auto simp: held_records_def)
    next
      case (3 q x)
      then show ?case using D(3) ok(5) by simp
    next
      case 4
      then show ?case using True ok(4,5) by (simp add: held_def)
    next
      case (5 x)
      then show ?case using old ok(2) by (auto simp: hs less_imp_le)
    next
      case (6 x)
      then show ?case using D(6)[of x] ok(3,7) by (auto simp: hs)
    next
      case (7 q)
      then show ?case using acked[of q] ok by simp
    next
      case (8 q)
      then show ?case using acked[of q] D(8)[of q] ok by auto
    next
      case 9
      then show ?case using D(9) ok by simp
    qed (use all ok(3) hs in auto)
    moreover have "caught_up db c st'" using all ok(3) hs by (auto simp: caught_up_def)
    ultimately show ?thesis ..
  next
    case False
    then have mem: "bf_mem st' = bf_mem st" using ok(4) by auto
    then have hr: "held_records st' = held_records st" "held st' = held st" using ok by (simp_all add: held_records_def held_def)
    have "window_inv db high c st'"
    proof (rule window_invI, goal_cases)
      case (8 q)
      then show ?case using acked[of q] D(8)[of q] ok by auto
    next
      case (10 x)
      then show ?case using D(9,10) ok hr by auto
    next
      case (11 x q)
      then show ?case using D(11)[of x q] ok hr old by auto
    next
      case (6 x)
      then show ?case using D(6)[of x] ok hr by auto
    next
      case (5 x)
      then show ?case using old[of x] ok hr by simp
    next
      case (7 q)
      then show ?case using acked[of q] ok by simp
    qed (use D ok hr mem in auto)
    moreover have "caught_up db c st'"
      using False D(4) ok(8) by (auto simp: caught_up_def hr)
    ultimately show ?thesis ..
  qed
qed

end

lemma water_mark_Max: "held_records st \<noteq> [] \<Longrightarrow> water_mark st = Max (held_seqs st)"
proof (cases "held_records st")
  case (Cons r rs)
  have "Max (set (mr_local_seq r # map mr_local_seq rs)) = fold max (map mr_local_seq rs) (mr_local_seq r)"
    by (rule Max.set_eq_fold)
  then show ?thesis using Cons by (simp add: water_mark_def)
qed simp

lemma water_mark_unheld:
  assumes inv: "window_inv db high c st" and "x \<in> set (rows_of db st)"
  shows "water_mark st < mr_local_seq x \<longleftrightarrow> mr_local_seq x \<notin> held_seqs st"
proof (cases "held_records st")
  case Nil
  then show ?thesis using window_invD(10)[OF inv assms(2)] by (simp add: water_mark_def)
next
  case (Cons r rs)
  then have wm: "water_mark st = Max (held_seqs st)" by (intro water_mark_Max) simp
  have fin: "finite (held_seqs st)" "held_seqs st \<noteq> {}" using Cons by auto
  show ?thesis using window_invD(11)[OF inv assms(2)] fin by (auto simp: wm Max_less_iff simp del: image_eqI)
qed

text \<open>The rows outside the window, in order.\<close>

definition unheld_rows :: "'d db_api \<Rightarrow> 'd buffer \<Rightarrow> mem_record list" where
  "unheld_rows db st = filter (\<lambda>x. mr_local_seq x \<notin> held_seqs st) (rows_of db st)"

context wal_db
begin

lemma unheld_rows_sorted: "sorted_wrt (\<lambda>x y. mr_local_seq x < mr_local_seq y) (unheld_rows db st)"
  unfolding unheld_rows_def using rows_sorted[of "bf_db st"] by (simp add: sorted_wrt_map sorted_wrt_filter)

lemma load_more_result:
  assumes inv: "window_inv db high c st" and load: "load_more db c st = (Inr b, st')"
  defines "rs \<equiv> take (lc_memory_records c - held st) (unheld_rows db st)"
  shows "\<exists>d. same_table db high (bf_db st) d \<and> st' = st\<lparr>bf_db := d, bf_mem := bf_mem st @ rs,
    bf_last_loaded_seq := (if rs = [] then bf_last_loaded_seq st else mr_local_seq (last rs))\<rparr>"
proof (cases "lc_memory_records c \<le> held st")
  case True
  then have "st' = st" using load by (simp add: load_more_def)
  then show ?thesis using True by (intro exI[of _ "bf_db st"]) (simp add: rs_def)
next
  case room: False
  obtain x d where page: "db_page db (water_mark st) (lc_memory_records c - held st) (bf_db st) = (x, d)" by force
  have "filter (\<lambda>r. water_mark st < mr_local_seq r) (rows_of db st) = unheld_rows db st"
    unfolding unheld_rows_def by (rule filter_cong[OF refl]) (rule water_mark_unheld[OF inv])
  then have "x = Inr rs" if "\<not> isl x"
    using that page by (cases x) (auto simp: rs_def dest: page_ok)
  then show ?thesis
    using load page room page_keeps[OF page] by (intro exI[of _ d]) (auto simp: load_more_def split: sum.splits list.splits)
qed

lemma load_more_failed:
  assumes "load_more db c st = (Inl e, st')"
  shows "\<exists>d. same_table db high (bf_db st) d \<and> st' = st\<lparr>bf_db := d\<rparr>"
  using assms by (fastforce simp: load_more_def dest: page_keeps split: if_splits prod.splits sum.splits list.splits)

text \<open>The first rows outside the window come into it.\<close>

lemma window_extend:
  assumes inv: "window_inv db high c st" and n: "n \<le> lc_memory_records c - held st"
    and st': "st' = st\<lparr>bf_db := d, bf_mem := bf_mem st @ rs,
      bf_last_loaded_seq := (if rs = [] then bf_last_loaded_seq st else mr_local_seq (last rs))\<rparr>"
    and rs: "rs = take n (unheld_rows db st)" and table: "same_table db high (bf_db st) d"
  shows "window_inv db high c st'" and "unheld_rows db st' = drop n (unheld_rows db st)"
proof -
  note D = window_invD[OF inv]
  have rows: "rows_of db st' = rows_of db st" "high (bf_db st') = high (bf_db st)" "bf_acked st' = bf_acked st"
    using table by (simp_all add: st' same_table_def)
  have hs: "set (held_records st') = set (held_records st) \<union> set rs" by (auto simp: st' held_records_def)
  have split: "unheld_rows db st = rs @ drop n (unheld_rows db st)" by (simp add: rs)
  have order: "sorted_wrt (\<lambda>x y. mr_local_seq x < mr_local_seq y) rs"
      "\<And>x y. x \<in> set rs \<Longrightarrow> y \<in> set (drop n (unheld_rows db st)) \<Longrightarrow> mr_local_seq x < mr_local_seq y"
    using unheld_rows_sorted[of st] split by (metis sorted_wrt_append)+
  have new: "x \<in> set (rows_of db st)" "mr_local_seq x \<notin> held_seqs st" if "x \<in> set (unheld_rows db st)" for x
    using that by (auto simp: unheld_rows_def)
  have in_rs: "x \<in> set (unheld_rows db st)" if "x \<in> set rs" for x using that by (auto simp: rs dest: in_set_takeD)
  have "unheld_rows db st' = filter (\<lambda>x. mr_local_seq x \<notin> mr_local_seq ` set rs) (unheld_rows db st)"
    by (auto simp: unheld_rows_def rows hs image_Un intro: filter_cong)
  also have "\<dots> = filter (\<lambda>x. mr_local_seq x \<notin> mr_local_seq ` set rs) (rs @ drop n (unheld_rows db st))"
    using split by simp
  also have "\<dots> = drop n (unheld_rows db st)"
    using order(2) by (fastforce simp: filter_empty_conv intro!: filter_True)
  finally show left: "unheld_rows db st' = drop n (unheld_rows db st)" .
  have outside: "x \<in> set (drop n (unheld_rows db st))" if "x \<in> set (rows_of db st')" "mr_local_seq x \<notin> held_seqs st'" for x
    using that unfolding left[symmetric] by (simp add: unheld_rows_def)
  show "window_inv db high c st'"
  proof (rule window_invI, goal_cases)
    case 1
    then show ?case using D(1,11) order(1) new in_rs by (auto simp: st' sorted_wrt_append sorted_wrt_map held_records_def)
  next
    case 2
    have "held_seqs st \<inter> mr_local_seq ` set rs = {}" using new(2) in_rs by (intro equals0I) (metis IntD1 IntD2 imageE)
    moreover have "distinct (map mr_local_seq rs)" using order(1) by (simp add: strict_sorted_iff flip: sorted_wrt_map)
    moreover have "distinct (map mr_local_seq (held_records st')) \<longleftrightarrow> distinct (map mr_local_seq (held_records st @ rs))"
      by (rule mset_eq_imp_distinct_iff) (simp add: st' held_records_def)
    ultimately show ?case using D(2) by simp
  next
    case 4
    then show ?case using D(4) n by (simp add: st' held_def rs)
  next
    case (5 x)
    then show ?case using D(5) new in_rs rows rows_range[of x "bf_db st"] by (auto simp: hs)
  next
    case (6 x)
    then show ?case using D(6)[of x] new(1)[of x] in_rs hs rows same_content_refl(1)[of x] by (metis UnE)
  next
    case 9
    have "rs \<noteq> [] \<Longrightarrow> last rs \<in> set (rows_of db st)" using new(1) in_rs last_in_set by blast
    then show ?case using D(9) rows rows_range[of "last rs" "bf_db st"] by (auto simp: st')
  next
    case (10 x)
    note out = outside[OF 10]
    then show ?case using order(2)[OF _ out] D(10)[of x] new[of x] in_set_dropD[OF out] by (auto simp: st')
  next
    case (11 x q)
    note out = outside[OF 11(1,2)]
    then show ?case using order(2)[OF _ out] D(11)[of x q] new[of x] in_set_dropD[OF out] 11(3) hs by auto
  qed (use D rows in \<open>auto simp: st'\<close>)
qed

lemma load_more_window:
  assumes inv: "window_inv db high c st" and load: "load_more db c st = (res, st')"
  shows "window_inv db high c st'"
    and "\<not> isl res \<Longrightarrow> held st' = lc_memory_records c \<or> mr_local_seq ` set (rows_of db st') \<subseteq> held_seqs st'"
proof -
  have "window_inv db high c st' \<and>
    (\<not> isl res \<longrightarrow> held st' = lc_memory_records c \<or> mr_local_seq ` set (rows_of db st') \<subseteq> held_seqs st')"
  proof (cases res)
    case (Inl e)
    then obtain d where "same_table db high (bf_db st) d" "st' = st\<lparr>bf_db := d\<rparr>" using load load_more_failed by blast
    then show ?thesis using window_frame[OF inv, of st'] Inl by simp
  next
    case (Inr b)
    define n where "n = lc_memory_records c - held st"
    obtain d where d: "same_table db high (bf_db st) d" and st': "st' = st\<lparr>bf_db := d, bf_mem := bf_mem st @ take n (unheld_rows db st),
        bf_last_loaded_seq := (if take n (unheld_rows db st) = [] then bf_last_loaded_seq st else mr_local_seq (last (take n (unheld_rows db st))))\<rparr>"
      using load_more_result[OF inv load[unfolded Inr]] unfolding n_def by blast
    note ext = window_extend[OF inv _ st' refl d]
    have inv': "window_inv db high c st'" by (rule ext(1)) (simp add: n_def)
    moreover have "held st' = lc_memory_records c \<or> mr_local_seq ` set (rows_of db st') \<subseteq> held_seqs st'"
    proof (cases "n < length (unheld_rows db st)")
      case True
      then show ?thesis using window_invD(4)[OF inv] by (simp add: st' held_def n_def)
    next
      case False
      then have "unheld_rows db st' = []" using ext(2) by (simp add: n_def)
      then show ?thesis by (auto simp: unheld_rows_def filter_empty_conv)
    qed
    ultimately show ?thesis by blast
  qed
  then show "window_inv db high c st'"
    and "\<not> isl res \<Longrightarrow> held st' = lc_memory_records c \<or> mr_local_seq ` set (rows_of db st') \<subseteq> held_seqs st'" by auto
qed

end

text \<open>Records leave the window and the table.\<close>

lemma window_shrink:
  assumes inv: "window_inv db high c st"
    and mem: "bf_mem st' = filter P (bf_mem st)" and inflight: "bf_inflight st' = filter Q (bf_inflight st)"
    and rows: "set (rows_of db st') \<subseteq> set (rows_of db st)" "high (bf_db st') = high (bf_db st)"
    and last: "bf_last_loaded_seq st' = bf_last_loaded_seq st" and acked: "bf_acked st \<subseteq> bf_acked st'"
    and gone: "\<And>x. x \<in> set (rows_of db st) \<Longrightarrow> x \<notin> set (rows_of db st') \<Longrightarrow> mr_local_seq x \<in> held_seqs st' \<Longrightarrow> mr_local_seq x \<in> bf_acked st'"
    and new: "\<And>s. s \<in> bf_acked st' \<Longrightarrow> s \<le> high (bf_db st) \<and> s \<notin> mr_local_seq ` set (rows_of db st')"
    and kept: "\<And>x. x \<in> set (rows_of db st') \<Longrightarrow> mr_local_seq x \<notin> held_seqs st' \<Longrightarrow> mr_local_seq x \<notin> held_seqs st"
  shows "window_inv db high c st'"
proof -
  note D = window_invD[OF inv]
  have sub: "set (held_records st') \<subseteq> set (held_records st)" by (auto simp: held_records_def mem inflight)
  show ?thesis
  proof (rule window_invI, goal_cases)
    case 1
    show ?case using D(1) unfolding mem by (simp add: sorted_wrt_map sorted_wrt_filter)
  next
    case 2
    show ?case using D(2) by (auto simp: held_records_def mem inflight distinct_map_filter)
  next
    case 4
    have "held st' \<le> held st" by (simp add: held_def mem inflight add_mono)
    with D(4) show ?case by simp
  next
    case (6 r)
    then have "r \<in> set (held_records st)" "mr_local_seq r \<notin> bf_acked st" using sub acked by auto
    then obtain x where x: "x \<in> set (rows_of db st)" "same_content r x" using D(6) by blast
    then show ?case using gone[of x] 6 same_content_seq[of r x] by (metis image_eqI)
  next
    case (11 x s)
    then show ?case using D(11)[of x s] kept[of x] rows(1) sub by blast
  qed (use D sub new rows last kept in \<open>auto simp: inflight\<close>)
qed

context wal_db
begin

lemma cleanup_expired_window:
  assumes inv: "window_inv db high c st" and run: "cleanup_expired db cutoff st = (res, st')"
  shows "window_inv db high c st'"
proof (cases "filter (\<lambda>r. mr_created_at_ns r < cutoff) (bf_mem st) = []")
  case True
  with inv run show ?thesis by (simp add: cleanup_expired_def)
next
  case False
  define ex where "ex = filter (\<lambda>r. mr_created_at_ns r < cutoff) (bf_mem st)"
  obtain rr d where del: "db_delete_all db (map mr_local_seq ex) (bf_db st) = (rr, d)" by force
  show ?thesis
  proof (cases rr)
    case (Inl e)
    then have "st' = st\<lparr>bf_db := d\<rparr>" using False run del by (simp add: cleanup_expired_def ex_def)
    then show ?thesis using window_frame[OF inv, of st'] delete_all_fails del Inl by simp
  next
    case (Inr u)
    have st': "st' = st\<lparr>bf_db := d, bf_mem := filter (\<lambda>r. mr_local_seq r \<notin> mr_local_seq ` set ex) (bf_mem st),
        bf_bytes := bf_bytes st - sum_list (map record_cost ex)\<rparr>"
      using False run del Inr by (simp add: cleanup_expired_def ex_def Let_def)
    have rows: "db_rows db d = filter (\<lambda>r. mr_local_seq r \<notin> mr_local_seq ` set ex) (rows_of db st)" "high d = high (bf_db st)"
      using delete_all_ok del Inr by auto
    have ex: "mr_local_seq x \<notin> held_seqs st'" if "x \<in> set ex" for x
    proof -
      have "mr_local_seq x \<notin> mr_local_seq ` snd ` set (bf_inflight st)"
        using window_invD(2)[OF inv] that by (auto simp: held_records_def ex_def image_image)
      moreover have "mr_local_seq x \<notin> mr_local_seq ` set (bf_mem st')" using imageI[OF that, of mr_local_seq] by (auto simp: st')
      ultimately show ?thesis by (simp add: held_records_def image_Un) (simp add: st')
    qed
    show ?thesis
    proof (rule window_shrink[OF inv])
      show "bf_inflight st' = filter (\<lambda>_. True) (bf_inflight st)" by (simp add: st')
      show "bf_mem st' = filter (\<lambda>r. mr_local_seq r \<notin> mr_local_seq ` set ex) (bf_mem st)" by (simp add: st')
    next
      fix x assume "x \<in> set (rows_of db st)" "x \<notin> set (rows_of db st')" "mr_local_seq x \<in> held_seqs st'"
      then have "mr_local_seq x \<in> mr_local_seq ` set ex" by (simp add: st' rows)
      with ex \<open>mr_local_seq x \<in> held_seqs st'\<close> show "mr_local_seq x \<in> bf_acked st'" by (metis imageE)
    next
      fix s assume "s \<in> bf_acked st'"
      then show "s \<le> high (bf_db st) \<and> s \<notin> mr_local_seq ` set (rows_of db st')"
        using window_invD(7,8)[OF inv, of s] by (auto simp: st' rows)
    next
      fix x assume "x \<in> set (rows_of db st')" "mr_local_seq x \<notin> held_seqs st'"
      then show "mr_local_seq x \<notin> held_seqs st" by (auto simp: st' rows held_records_def)
    qed (auto simp: st' rows)
  qed
qed

lemma handle_ack_window:
  assumes inv: "window_inv db high c st" and run: "handle_ack db s st = (res, st')"
  shows "window_inv db high c st'"
proof -
  obtain rr d where del: "db_delete db s (bf_db st) = (rr, d)" by force
  show ?thesis
  proof (cases rr)
    case (Inl e)
    then have "st' = st\<lparr>bf_db := d\<rparr>" using run del by (simp add: handle_ack_def)
    then show ?thesis using window_frame[OF inv, of st'] delete_fails del Inl by simp
  next
    case (Inr k)
    have ok: "db_rows db d = filter (\<lambda>r. mr_local_seq r \<noteq> s) (rows_of db st)" "high d = high (bf_db st)"
        "0 < k \<longleftrightarrow> s \<in> mr_local_seq ` set (rows_of db st)"
      using delete_ok del Inr by auto
    have st': "bf_db st' = d" "bf_mem st' = filter (\<lambda>_. True) (bf_mem st)"
        "bf_inflight st' = filter (\<lambda>(q, r). q = s \<longrightarrow> k = 0) (bf_inflight st)"
        "bf_last_loaded_seq st' = bf_last_loaded_seq st" "bf_acked st' = (if 0 < k then insert s (bf_acked st) else bf_acked st)"
      using run del Inr
      by (auto simp: handle_ack_def upd_metrics_def Let_def AList.delete_eq map_of_eq_None_iff rev_image_eqI
          split: option.splits if_splits intro!: filter_True[symmetric] filter_cong)
    show ?thesis
    proof (rule window_shrink[OF inv st'(2,3)])
      fix x assume "x \<in> set (rows_of db st)" "x \<notin> set (rows_of db st')"
      then show "mr_local_seq x \<in> bf_acked st'" using ok by (auto simp: st')
    next
      fix q assume "q \<in> bf_acked st'"
      then show "q \<le> high (bf_db st) \<and> q \<notin> mr_local_seq ` set (rows_of db st')"
        using window_invD(7,8)[OF inv, of q] ok(3) rows_range[of _ "bf_db st"] by (auto simp: st' ok(1) split: if_splits)
    next
      fix x assume x: "x \<in> set (rows_of db st')" "mr_local_seq x \<notin> held_seqs st'"
      then have "mr_local_seq x \<noteq> s" by (simp add: st' ok)
      with x(2) window_invD(3)[OF inv] show "mr_local_seq x \<notin> held_seqs st"
        by (force simp: held_records_def st'(2,3))
    qed (auto simp: st' ok)
  qed
qed

end

lemma alist_update_new: "k \<notin> fst ` set al \<Longrightarrow> AList.update k v al = al @ [(k, v)]"
  by (induction al) auto

lemma window_fields:
  "window_inv db high c (st\<lparr>bf_answers := a\<rparr>) = window_inv db high c st"
  "window_inv db high c (st\<lparr>bf_metrics := m\<rparr>) = window_inv db high c st"
  "window_inv db high c (st\<lparr>bf_pending_push := ps\<rparr>) = window_inv db high c st"
  "window_inv db high c (st\<lparr>bf_pending_confirm := pc\<rparr>) = window_inv db high c st"
  "window_inv db high c (st\<lparr>bf_pc := p\<rparr>) = window_inv db high c st"
  "window_inv db high c (st\<lparr>bf_load_error := le\<rparr>) = window_inv db high c st"
  "window_inv db high c (st\<lparr>bf_bytes := n\<rparr>) = window_inv db high c st"
  by (simp_all add: window_inv_def held_def held_records_def)

lemma caught_up_fields:
  "caught_up db c (st\<lparr>bf_answers := a\<rparr>) = caught_up db c st"
  "caught_up db c (st\<lparr>bf_metrics := m\<rparr>) = caught_up db c st"
  "caught_up db c (st\<lparr>bf_pending_push := ps\<rparr>) = caught_up db c st"
  "caught_up db c (st\<lparr>bf_pending_confirm := pc\<rparr>) = caught_up db c st"
  "caught_up db c (st\<lparr>bf_pc := p\<rparr>) = caught_up db c st"
  by (simp_all add: caught_up_def held_def held_records_def)

lemmas window_simps = window_fields caught_up_fields answer_def answer_all_eq upd_metrics_def

lemma check_pending_confirm_caught_up:
  assumes "window_inv db high c st" "caught_up db c st"
  shows "caught_up db c (snd (check_pending_confirm dlv st))"
proof -
  have m: "mset (held_records (snd (check_pending_confirm dlv st))) = mset (held_records st)"
    by (rule check_pending_confirm_window(2)[OF assms(1)])
  show ?thesis using assms(2) mset_eq_setD[OF m] mset_eq_length[OF m] by (simp add: caught_up_def held_length)
qed

text \<open>What every stored and answered request keeps is kept by \<open>flush_pending_push\<close>.\<close>

lemma flush_pending_push_inv:
  assumes "P st"
    and "\<And>st p rest res st1. P st \<Longrightarrow> bf_pending_push st = p # rest \<Longrightarrow> \<not> capacity_full c (record_cost (pu_record p)) st \<Longrightarrow>
      store_record db c (pu_record p) (st\<lparr>bf_pending_push := rest\<rparr>) = (res, st1) \<Longrightarrow>
      P (answer_all (mr_message_id (pu_record p)) res (pu_replies p) st1)"
  shows "P (snd (flush_pending_push db c st))"
  using assms
proof (induction db c st rule: flush_pending_push.induct)
  case (1 db c st)
  show ?case
  proof (cases "bf_pending_push st")
    case Nil
    with 1 show ?thesis by (simp add: flush_pending_push.simps)
  next
    case (Cons p rest)
    show ?thesis
    proof (cases "capacity_full c (record_cost (pu_record p)) st")
      case True
      with 1 Cons show ?thesis by (simp add: flush_pending_push.simps)
    next
      case False
      obtain res st1 where store: "store_record db c (pu_record p) (st\<lparr>bf_pending_push := rest\<rparr>) = (res, st1)" by force
      have "P (snd (flush_pending_push db c (answer_all (mr_message_id (pu_record p)) res (pu_replies p) st1)))"
        using 1 Cons False store by (cases res) auto
      then show ?thesis
        using Cons False store by (subst flush_pending_push.simps) (auto split: sum.splits prod.splits)
    qed
  qed
qed

context wal_db
begin

lemma window_db:
  assumes "window_inv db high c st" "same_table db high (bf_db st) d"
  shows "window_inv db high c (st\<lparr>bf_db := d\<rparr>)" and "caught_up db c (st\<lparr>bf_db := d\<rparr>) = caught_up db c st"
  using window_frame[OF assms(1), of "st\<lparr>bf_db := d\<rparr>"] assms(2)
  by (simp_all add: same_table_def caught_up_def held_def held_records_def)

lemma flush_pending_push_window:
  assumes "window_inv db high c st" "caught_up db c st"
  shows "window_inv db high c (snd (flush_pending_push db c st)) \<and> caught_up db c (snd (flush_pending_push db c st))"
proof (rule flush_pending_push_inv[where P = "\<lambda>x. window_inv db high c x \<and> caught_up db c x"])
  fix st p rest res st1
  assume "window_inv db high c st \<and> caught_up db c st"
    and "store_record db c (pu_record p) (st\<lparr>bf_pending_push := rest\<rparr>) = (res, st1)"
  then show "window_inv db high c (answer_all (mr_message_id (pu_record p)) res (pu_replies p) st1) \<and>
      caught_up db c (answer_all (mr_message_id (pu_record p)) res (pu_replies p) st1)"
    using store_record_window[of c "st\<lparr>bf_pending_push := rest\<rparr>" "pu_record p" res st1] by (simp add: window_simps)
qed (use assms in simp)

lemma push_new_window:
  assumes inv: "window_inv db high c st" "caught_up db c st"
  shows "window_inv db high c (push_new db c reply r st)"
  using inv store_record_window[OF inv, of r]
  by (auto simp: push_new_def Let_def window_simps split: prod.splits capacity_policy.splits)

lemma push_inner_window:
  assumes inv: "window_inv db high c st" "caught_up db c st"
  shows "window_inv db high c (push_inner db cd c now b reply st)"
proof -
  have find: "window_inv db high c (st\<lparr>bf_db := d\<rparr>)" "caught_up db c (st\<lparr>bf_db := d\<rparr>)" if "db_find db m (bf_db st) = (x, d)" for m x d
    using window_db[OF inv(1) find_keeps[OF that]] inv(2) by simp_all
  show ?thesis
    using inv(1) find by (auto simp: push_inner_def Let_def window_simps push_new_window split: prod.splits sum.splits option.splits)
qed

lemma handle_next_window:
  assumes inv: "window_inv db high c st" and run: "handle_next db cd st = (res, st')"
  shows "window_inv db high c st'"
proof (cases "\<exists>y. res = Inr (Some y)")
  case False
  then show ?thesis
    using run inv update_fails window_db(1)[of c "upd_metrics observe_replayed st"] window_db(1)[OF inv]
    by (auto simp: handle_next_def Let_def window_simps split: list.splits option.splits prod.splits sum.splits if_splits)
next
  case True
  then obtain r rest n u d where st: "bf_mem st = r # rest" "db_update_sent db (mr_local_seq r) n (bf_db st) = (Inr u, d)"
      and st': "bf_db st' = d" "bf_mem st' = rest"
        "bf_inflight st' = AList.update (mr_local_seq r) (r\<lparr>mr_sent_count := n\<rparr>) (bf_inflight st)"
        "bf_last_loaded_seq st' = bf_last_loaded_seq st" "bf_acked st' = bf_acked st"
    using run by (auto simp: handle_next_def Let_def upd_metrics_def split: list.splits option.splits prod.splits sum.splits if_splits)
  have ok: "db_rows db d = map (\<lambda>x. if mr_local_seq x = mr_local_seq r then x\<lparr>mr_sent_count := n\<rparr> else x) (rows_of db st)"
      "high d = high (bf_db st)"
    using update_ok[OF st(2)] by auto
  have "mr_local_seq r \<notin> fst ` set (bf_inflight st)"
    using window_invD(2)[OF inv] window_inflight_distinct(2)[OF inv] by (auto simp: held_records_def st)
  then have infl: "bf_inflight st' = bf_inflight st @ [(mr_local_seq r, r\<lparr>mr_sent_count := n\<rparr>)]"
    unfolding st' by (rule alist_update_new)
  show ?thesis
  proof (rule window_recount[OF inv])
    show "sorted_wrt (<) (map mr_local_seq (bf_mem st'))" using window_invD(1)[OF inv] by (simp add: st st')
    show "mset (map mr_local_seq (held_records st')) = mset (map mr_local_seq (held_records st))"
      by (simp add: held_records_def st st'(2) infl)
    show "\<exists>q\<in>set (held_records st). same_content x q" if "x \<in> set (held_records st')" for x
      using that by (auto simp: held_records_def st st'(2) infl intro: bexI[of _ x] bexI[of _ r] simp del: bex_simps)
    show "\<exists>y\<in>set (rows_of db st'). same_content x y" if "x \<in> set (rows_of db st)" for x
      using imageI[OF that, of "\<lambda>x. if mr_local_seq x = mr_local_seq r then x\<lparr>mr_sent_count := n\<rparr> else x"]
      unfolding st' ok set_map by (rule rev_bexI) simp
    show "map mr_local_seq (rows_of db st') = map mr_local_seq (rows_of db st)" by (simp add: st' ok)
    show "mr_local_seq x = s" if "(s, x) \<in> set (bf_inflight st')" for s x
      using that window_invD(3)[OF inv] by (auto simp: infl)
  qed (simp_all add: st' ok)
qed

end

lemma shutdown_answers_eq:
  "shutdown_answers st = st\<lparr>bf_pending_push := [], bf_answers := bf_answers st @
     concat (map (\<lambda>p. map (\<lambda>i. AN_Push i (mr_message_id (pu_record p)) (Inl BE_Closed)) (pu_replies p)) (bf_pending_push st))\<rparr>"
proof -
  have "fold (\<lambda>p. answer_all (mr_message_id (pu_record p)) (Inl BE_Closed) (pu_replies p)) ps st =
      st\<lparr>bf_answers := bf_answers st @
        concat (map (\<lambda>p. map (\<lambda>i. AN_Push i (mr_message_id (pu_record p)) (Inl BE_Closed)) (pu_replies p)) ps)\<rparr>" for ps :: "pending_push list"
    by (induction ps arbitrary: st) (simp_all add: answer_all_eq)
  then show ?thesis by (simp add: shutdown_answers_def)
qed

lemma store_record_pc: "store_record db c r st = (res, st') \<Longrightarrow> bf_pc st' = bf_pc st"
  by (auto simp: store_record_def upd_metrics_def Let_def split: prod.splits sum.splits if_splits)

lemma handle_cmd_pc:
  assumes "bf_pc st = BP_Top"
  shows "bf_pc (handle_cmd db cd c gone now cmd st) \<noteq> BP_Recv"
proof (cases cmd)
  case (CM_Push b reply)
  have new: "bf_pc (push_new db c reply r st) = bf_pc st" for r and st
    by (cases "store_record db c r st")
      (simp add: push_new_def Let_def answer_def upd_metrics_def store_record_pc split: capacity_policy.splits)
  have "bf_pc (push_inner db cd c now b reply st) = bf_pc st" for st
    by (simp add: push_inner_def Let_def answer_def new split: prod.splits sum.splits option.splits)
  then show ?thesis using assms by (simp add: CM_Push handle_cmd_def prune_cancelled_waiters_def)
next
  case (CM_Next reply delivered)
  have "bf_pc (snd (handle_next db cd st)) = bf_pc st"
    by (auto simp: handle_next_def Let_def upd_metrics_def split: list.splits option.splits prod.splits sum.splits)
  then show ?thesis
    using assms by (auto simp: CM_Next handle_cmd_def finish_next_def answer_def split: prod.splits sum.splits option.splits)
next
  case (CM_Ack s reply)
  then show ?thesis
    using assms by (auto simp: handle_cmd_def handle_ack_def answer_def upd_metrics_def Let_def split: prod.splits sum.splits option.splits)
qed (use assms in \<open>simp_all add: handle_cmd_def answer_def shutdown_answers_eq\<close>)

context wal_db
begin

text \<open>The stages of one pass.\<close>

lemma upkeep_stages:
  assumes inv: "window_inv db high c st" and run: "upkeep db c dlv now st = (progress, st')"
  obtains requeued st1 cleaned st2 st3 loaded st4 st5 flushed where
    "check_pending_confirm dlv st = (requeued, st1)" "window_inv db high c st1"
    "cleanup_expired db (now - int (lc_retention_ns c)) st1 = (cleaned, st2)" "window_inv db high c st2"
    "st3 = (case cleaned of Inl e \<Rightarrow> st2 | Inr (n, bytes) \<Rightarrow> upd_metrics (observe_expired n bytes) st2)" "window_inv db high c st3"
    "load_more db c st3 = (loaded, st4)" "window_inv db high c st4"
    "st5 = (case loaded of Inl e \<Rightarrow> st4\<lparr>bf_load_error := Some e\<rparr> | Inr True \<Rightarrow> st4\<lparr>bf_load_error := None\<rparr> | Inr False \<Rightarrow> st4)"
    "window_inv db high c st5" "caught_up db c st5" "flush_pending_push db c st5 = (flushed, st')"
    "progress \<longleftrightarrow> requeued \<or> (\<exists>n bytes. cleaned = Inr (n, bytes) \<and> 0 < n) \<or> 0 < flushed"
proof -
  obtain requeued st1 where s1: "check_pending_confirm dlv st = (requeued, st1)" by force
  obtain cleaned st2 where s2: "cleanup_expired db (now - int (lc_retention_ns c)) st1 = (cleaned, st2)" by force
  define st3 where "st3 = (case cleaned of Inl e \<Rightarrow> st2 | Inr (n, bytes) \<Rightarrow> upd_metrics (observe_expired n bytes) st2)"
  obtain loaded st4 where s4: "load_more db c st3 = (loaded, st4)" by force
  define st5 where "st5 = (case loaded of Inl e \<Rightarrow> st4\<lparr>bf_load_error := Some e\<rparr> | Inr True \<Rightarrow> st4\<lparr>bf_load_error := None\<rparr> | Inr False \<Rightarrow> st4)"
  obtain flushed where s5: "flush_pending_push db c st5 = (flushed, st')"
      and p: "progress \<longleftrightarrow> requeued \<or> (\<exists>n bytes. cleaned = Inr (n, bytes) \<and> 0 < n) \<or> 0 < flushed"
    using run s1 s2 s4 unfolding st5_def st3_def upkeep_def Let_def by (fastforce split: prod.splits sum.splits)
  have i1: "window_inv db high c st1" using check_pending_confirm_window(1)[OF inv, of dlv] s1 by simp
  then have i2: "window_inv db high c st2" using s2 by (rule cleanup_expired_window)
  then have i3: "window_inv db high c st3" by (simp add: st3_def window_simps split: sum.splits prod.splits)
  note load = load_more_window[OF i3 s4]
  have i5: "window_inv db high c st5" using load(1) by (simp add: st5_def window_simps split: sum.splits bool.splits)
  have up5: "caught_up db c st5"
    using load(2) by (auto simp: st5_def caught_up_def held_def held_records_def split: sum.splits bool.splits)
  show thesis by (rule that[OF s1 i1 s2 i2 st3_def i3 s4 load(1) st5_def i5 up5 s5 p])
qed

lemma upkeep_window:
  assumes "window_inv db high c st" "upkeep db c dlv now st = (progress, st')"
  shows "window_inv db high c st' \<and> caught_up db c st'"
  using assms
proof (rule upkeep_stages)
  fix st5 flushed
  assume "window_inv db high c st5" "caught_up db c st5" "flush_pending_push db c st5 = (flushed, st')"
  then show ?thesis using flush_pending_push_window[of c st5] by simp
qed

lemma handle_cmd_window:
  assumes inv: "window_inv db high c st" "caught_up db c st"
  shows "window_inv db high c (handle_cmd db cd c gone now cmd st)"
proof (cases cmd)
  case (CM_Push b reply)
  then show ?thesis
    using push_inner_window[of c "prune_cancelled_waiters gone st"] inv
    by (simp add: handle_cmd_def prune_cancelled_waiters_def window_simps)
next
  case (CM_Next reply delivered)
  obtain res st1 where next': "handle_next db cd st = (res, st1)" by force
  note inv1 = handle_next_window[OF inv(1) this]
  then show ?thesis
    using handle_requeue_window
    by (auto simp: CM_Next handle_cmd_def next' finish_next_def window_simps split: sum.splits option.splits)
next
  case (CM_Ack s reply)
  then show ?thesis using handle_ack_window[OF inv(1)] by (auto simp: handle_cmd_def window_simps split: prod.splits)
next
  case (CM_Requeue s reply)
  then show ?thesis using handle_requeue_window[OF inv(1)] by (simp add: handle_cmd_def window_simps)
next
  case (CM_Shutdown reply)
  then show ?thesis using inv(1) by (simp add: handle_cmd_def shutdown_answers_eq window_simps)
qed

lemma same_table_trans: "same_table db high d d1 \<Longrightarrow> same_table db high d1 d2 \<Longrightarrow> same_table db high d d2"
  by (simp add: same_table_def)

lemma open_db_result:
  assumes "open_db db c d = (Inr (rs, l, rv), d')"
  shows "same_table db high d d'" and "rs = take (lc_memory_records c) (db_rows db d)"
    and "l = (if rs = [] then 0 else mr_local_seq (last rs))"
    and "rv_bytes rv = (\<Sum>r\<leftarrow>db_rows db d. length (mr_payload r) + text_length (mr_topic r) + text_length (mr_message_id r) +
      FIXED_OVERHEAD_PER_RECORD)"
proof -
  obtain v d1 where s1: "db_schema db d = (Inr v, d1)"
    using assms by (auto simp: open_db_def st_bind_def split: prod.splits sum.splits)
  obtain fresh where s2: "check_schema v = Inr fresh"
    using assms s1 by (cases "check_schema v") (auto simp: open_db_def st_bind_def st_lift_def)
  obtain d2 where s3: "(if fresh then db_create db else st_lift (Inr ())) d1 = (Inr (), d2)"
    using assms s1 s2 by (auto simp: open_db_def st_bind_def st_lift_def split: prod.splits sum.splits)
  obtain d3 where s4: "db_recover db d2 = (Inr rv, d3)" "db_first db (lc_memory_records c) d3 = (Inr rs, d')"
      and l: "l = (if rs = [] then 0 else mr_local_seq (last rs))"
    using assms s1 s2 s3 by (auto simp: open_db_def st_bind_def st_lift_def split: prod.splits sum.splits)
  have "same_table db high d1 d2" using s3 create_keeps by (cases fresh) (auto simp: st_lift_def)
  then have t: "same_table db high d d2" "same_table db high d d3" "same_table db high d d'"
    using schema_keeps[OF s1] recover_keeps[OF s4(1)] first_keeps[OF s4(2)] same_table_trans by blast+
  then show "same_table db high d d'" "l = (if rs = [] then 0 else mr_local_seq (last rs))" using l by auto
  show "rs = take (lc_memory_records c) (db_rows db d)"
    using first_ok[OF s4(2)] t(2) by (simp add: same_table_def)
  show "rv_bytes rv = (\<Sum>r\<leftarrow>db_rows db d. length (mr_payload r) + text_length (mr_topic r) + text_length (mr_message_id r) +
      FIXED_OVERHEAD_PER_RECORD)"
    using recover_ok[OF s4(1)] t(1) by (simp add: same_table_def)
qed

lemma buffer_open_result:
  assumes "buffer_open db c d = Inr st"
  shows "same_table db high d (bf_db st)" and "bf_mem st = take (lc_memory_records c) (rows_of db st)"
    and "bf_last_loaded_seq st = (if bf_mem st = [] then 0 else mr_local_seq (last (bf_mem st)))"
    and "bf_bytes st = (\<Sum>r\<leftarrow>rows_of db st. length (mr_payload r) + text_length (mr_topic r) + text_length (mr_message_id r) +
      FIXED_OVERHEAD_PER_RECORD)"
    and "bf_inflight st = []" "bf_acked st = {}" "bf_pc st = BP_Top" "bf_pending_push st = []" "bf_answers st = []"
proof -
  obtain rs l rv d' where o: "open_db db c d = (Inr (rs, l, rv), d')"
    using assms by (auto simp: buffer_open_def res_bind_def split: sum.splits prod.splits)
  note r = open_db_result[OF o]
  have st: "bf_db st = d'" "bf_mem st = rs" "bf_last_loaded_seq st = l" "bf_bytes st = rv_bytes rv" "bf_inflight st = []"
      "bf_acked st = {}" "bf_pc st = BP_Top" "bf_pending_push st = []" "bf_answers st = []"
    using assms o by (auto simp: buffer_open_def res_bind_def split: sum.splits)
  have "db_rows db d' = db_rows db d" using r(1) by (simp add: same_table_def)
  with st r show "same_table db high d (bf_db st)" "bf_mem st = take (lc_memory_records c) (rows_of db st)"
    "bf_last_loaded_seq st = (if bf_mem st = [] then 0 else mr_local_seq (last (bf_mem st)))"
    "bf_bytes st = (\<Sum>r\<leftarrow>rows_of db st. length (mr_payload r) + text_length (mr_topic r) + text_length (mr_message_id r) +
      FIXED_OVERHEAD_PER_RECORD)"
    "bf_inflight st = []" "bf_acked st = {}" "bf_pc st = BP_Top" "bf_pending_push st = []" "bf_answers st = []" by simp_all
qed

lemma buffer_open_window:
  assumes "buffer_open db c d = Inr st"
  shows "window_inv db high c st"
proof -
  define rs where "rs = bf_mem st"
  note o = buffer_open_result[OF assms]
  have rows: "rs = take (lc_memory_records c) (rows_of db st)" using o(2) by (simp only: rs_def)
  have st: "bf_mem st = rs" "bf_inflight st = []" "bf_acked st = {}"
      "bf_last_loaded_seq st = (if rs = [] then 0 else mr_local_seq (last rs))"
    using o(3,5,6) by (simp_all only: rs_def)
  define n where "n = lc_memory_records c"
  have split: "rows_of db st = rs @ drop n (rows_of db st)" using rows by (metis append_take_drop_id n_def)
  have sorted: "sorted_wrt (\<lambda>x y. mr_local_seq x < mr_local_seq y) (rs @ drop n (rows_of db st))"
    using rows_sorted[of "bf_db st"] split by (metis sorted_wrt_map)
  have held: "held_records st = rs" by (simp add: held_records_def st)
  show ?thesis
  proof (rule window_invI, goal_cases)
    case 1
    then show ?case using sorted by (simp add: st sorted_wrt_append sorted_wrt_map)
  next
    case 2
    then show ?case using sorted by (simp add: held sorted_wrt_append strict_sorted_iff flip: sorted_wrt_map)
  next
    case 4
    then show ?case by (simp add: held_def st(2)) (simp add: st(1) rows)
  next
    case (5 r)
    then show ?case using rows_range[of r "bf_db st"] rows by (auto simp: held dest: in_set_takeD)
  next
    case (6 r)
    then show ?case using rows same_content_refl(1)[of r] unfolding held by (metis in_set_takeD)
  next
    case 9
    have "last rs \<in> set (rows_of db st)" if "rs \<noteq> []" using that split by (metis Un_iff last_in_set set_append)
    then show ?case using rows_range[of "last rs" "bf_db st"] high_nonneg by (simp add: st)
  next
    case (10 x)
    then have "x \<in> set (drop n (rows_of db st))" using split by (metis Un_iff held imageI set_append)
    then show ?case using sorted rows_range[of x "bf_db st"] 10 by (auto simp: st(4) sorted_wrt_append)
  next
    case (11 x s)
    then have "x \<in> set (drop n (rows_of db st))" using split by (metis Un_iff held imageI set_append)
    then show ?case using sorted 11 by (auto simp: held sorted_wrt_append)
  qed (simp_all add: st)
qed

lemma buffer_step_window:
  assumes inv: "window_inv db high c st" and up: "bf_pc st = BP_Recv \<Longrightarrow> caught_up db c st"
    and step: "buffer_step db cd c x st = Some st'"
  shows "window_inv db high c st' \<and> (bf_pc st' = BP_Recv \<longrightarrow> caught_up db c st')"
proof (cases x)
  case (BX_Upkeep dlv now)
  obtain p st1 where "upkeep db c dlv now st = (p, st1)" by force
  then show ?thesis
    using step BX_Upkeep upkeep_window[OF inv] by (auto simp: window_simps split: if_splits)
next
  case (BX_Cmd dlv gone now cmd)
  define st1 where "st1 = snd (check_pending_confirm dlv (st\<lparr>bf_pc := BP_Top\<rparr>))"
  have "window_inv db high c st1" "caught_up db c st1" if "bf_pc st = BP_Recv"
    using check_pending_confirm_window(1)[of db high c "st\<lparr>bf_pc := BP_Top\<rparr>"]
      check_pending_confirm_caught_up[of db high c "st\<lparr>bf_pc := BP_Top\<rparr>"] inv up[OF that]
    by (simp_all add: st1_def window_simps)
  then have "window_inv db high c (handle_cmd db cd c gone now cmd st1)" if "bf_pc st = BP_Recv"
    using that by (intro handle_cmd_window) auto
  moreover have "bf_pc (handle_cmd db cd c gone now cmd st1) \<noteq> BP_Recv"
    by (rule handle_cmd_pc) (simp add: st1_def)
  ultimately show ?thesis using step by (auto simp: BX_Cmd st1_def split: if_splits)
qed (use step inv in \<open>auto simp: window_simps reject_cmd_def split: if_splits buffer_pc.splits\<close>)


lemma buffer_reach_window:
  assumes "buffer_reach db cd c d st"
  shows "window_inv db high c st" and "bf_pc st = BP_Recv \<Longrightarrow> caught_up db c st"
proof -
  have "window_inv db high c st \<and> (bf_pc st = BP_Recv \<longrightarrow> caught_up db c st)"
    using assms
  proof induction
    case (br_open st)
    then show ?case using buffer_open_window buffer_open_result(7) by auto
  next
    case (br_step st x st')
    then show ?case using buffer_step_window by blast
  qed
  then show "window_inv db high c st" "bf_pc st = BP_Recv \<Longrightarrow> caught_up db c st" by auto
qed

end

end
