(* ===== verification/Buffer_Delivery.thy ===== *)
theory Buffer_Delivery
  imports Buffer_Window "HOL-Library.Code_Target_Nat"
begin

text \<open>
  What the local buffer promises to the pipeline and to the sender: records are handed out in order, a stored record leaves
  the table only when it is acknowledged or expired, an accepted batch is stored, the table stays within its limit, and the
  maintenance between two commands ends.
\<close>

section \<open>A table\<close>

text \<open>The laws of \<open>wal_db\<close> on a table with an automatic key, whose statements fail where a script says so.\<close>

record table =
  tb_high :: nat
  tb_get :: "nat \<Rightarrow> mem_record option"
  tb_faults :: "bool list"

definition table_rows :: "table \<Rightarrow> mem_record list" where
  "table_rows t = List.map_filter (\<lambda>i. map_option (\<lambda>r. r\<lparr>mr_local_seq := int i\<rparr>) (tb_get t i)) [1..<Suc (tb_high t)]"

definition statement :: "(table \<Rightarrow> 'a \<times> table) \<Rightarrow> (table, buffer_error, 'a) st" where
  "statement f t =
     (let t1 = t\<lparr>tb_faults := tl (tb_faults t)\<rparr> in
      if tb_faults t \<noteq> [] \<and> hd (tb_faults t) then (Inl BE_Db, t1) else case f t1 of (x, t2) \<Rightarrow> (Inr x, t2))"

text \<open>\<^verbatim>\<open>length\<close> of a text in UTF-8.\<close>

definition utf8_length :: "string \<Rightarrow> nat" where
  "utf8_length s = length (filter (\<lambda>ch. \<not> (128 \<le> (of_char ch :: nat) \<and> (of_char ch :: nat) < 192)) s)"

definition current_schema :: schema_view where
  "current_schema = \<lparr>sv_user_version = 1, sv_has_table = True, sv_columns = expected_columns, sv_unique_ok = True,
     sv_ddl = ''INTEGER PRIMARY KEY AUTOINCREMENT''\<rparr>"

definition table_delete :: "int set \<Rightarrow> table \<Rightarrow> table" where
  "table_delete qs t = t\<lparr>tb_get := (\<lambda>i. if int i \<in> qs then None else tb_get t i)\<rparr>"

definition table_db :: "table db_api" where
  "table_db =
     \<lparr>db_rows = table_rows,
      db_schema = statement (\<lambda>t. (current_schema, t)),
      db_create = statement (\<lambda>t. ((), t)),
      db_recover = statement (\<lambda>t.
        (\<lparr>rv_max_seq = (if table_rows t = [] then 0 else mr_local_seq (last (table_rows t))),
          rv_bytes = (\<Sum>r\<leftarrow>table_rows t. length (mr_payload r) + utf8_length (mr_topic r) + utf8_length (mr_message_id r) +
            FIXED_OVERHEAD_PER_RECORD),
          rv_count = length (table_rows t)\<rparr>, t)),
      db_first = (\<lambda>n. statement (\<lambda>t. (take n (table_rows t), t))),
      db_page = (\<lambda>w n. statement (\<lambda>t. (take n (filter (\<lambda>r. w < mr_local_seq r) (table_rows t)), t))),
      db_find = (\<lambda>m. statement (\<lambda>t. (map_option mr_local_seq (find (\<lambda>r. mr_message_id r = m) (table_rows t)), t))),
      db_insert = (\<lambda>r. statement (\<lambda>t.
        (int (Suc (tb_high t)), t\<lparr>tb_high := Suc (tb_high t), tb_get := (tb_get t)(Suc (tb_high t) := Some r)\<rparr>))),
      db_update_sent = (\<lambda>q n. statement (\<lambda>t.
        ((), t\<lparr>tb_get := (\<lambda>i. if int i = q then map_option (\<lambda>r. r\<lparr>mr_sent_count := n\<rparr>) (tb_get t i) else tb_get t i)\<rparr>))),
      db_delete = (\<lambda>q. statement (\<lambda>t. (length (filter (\<lambda>r. mr_local_seq r = q) (table_rows t)), table_delete {q} t))),
      db_delete_all = (\<lambda>qs. statement (\<lambda>t. ((), table_delete (set qs) t)))\<rparr>"

lemma table_rows_faults [simp]: "table_rows (t\<lparr>tb_faults := fs\<rparr>) = table_rows t"
  by (simp add: table_rows_def)

lemma statement_result:
  "statement f t = (Inl e, t') \<Longrightarrow> \<exists>fs. t' = t\<lparr>tb_faults := fs\<rparr>"
  "statement f t = (Inr x, t') \<Longrightarrow> \<exists>fs. f (t\<lparr>tb_faults := fs\<rparr>) = (x, t')"
  "(\<And>t. snd (f t) = t) \<Longrightarrow> statement f t = (v, t') \<Longrightarrow> \<exists>fs. t' = t\<lparr>tb_faults := fs\<rparr>"
  by (auto simp: statement_def Let_def split: if_splits prod.splits) (metis snd_conv)+

lemma map_filter_laws:
  "set (List.map_filter f xs) = {y. \<exists>x\<in>set xs. f x = Some y}"
  "map g (List.map_filter f xs) = List.map_filter (\<lambda>x. map_option g (f x)) xs"
  "filter P (List.map_filter f xs) = List.map_filter (\<lambda>x. case f x of Some y \<Rightarrow> if P y then Some y else None | None \<Rightarrow> None) xs"
  "List.map_filter f (xs @ ys) = List.map_filter f xs @ List.map_filter f ys"
  by (induction xs) (auto simp: List.map_filter_def)

lemma map_filter_cong: "(\<And>x. x \<in> set xs \<Longrightarrow> f x = g x) \<Longrightarrow> List.map_filter f xs = List.map_filter g xs"
  by (induction xs) (auto simp: List.map_filter_def)

lemma map_filter_upt_sorted:
  assumes "\<And>i x. f i = Some x \<Longrightarrow> key x = int i"
  shows "sorted_wrt (<) (map key (List.map_filter f [a..<b]))"
proof (induction b)
  case (Suc b)
  have "key x < int b" if "x \<in> set (List.map_filter f [a..<b])" for x
    using that assms by (fastforce simp: map_filter_laws)
  with Suc show ?case
    by (auto simp: map_filter_laws(4) List.map_filter_def sorted_wrt_append assms split: option.splits)
qed (simp add: List.map_filter_def)

lemma table_rows_insert:
  "table_rows (t\<lparr>tb_faults := fs, tb_high := Suc (tb_high t), tb_get := (tb_get t)(Suc (tb_high t) := Some r)\<rparr>) =
     table_rows t @ [r\<lparr>mr_local_seq := 1 + int (tb_high t)\<rparr>]"
proof -
  have "[1..<Suc (Suc (tb_high t))] = [1..<Suc (tb_high t)] @ [Suc (tb_high t)]" by simp
  moreover have "List.map_filter (\<lambda>i. map_option (\<lambda>x. x\<lparr>mr_local_seq := int i\<rparr>) (((tb_get t)(Suc (tb_high t) := Some r)) i))
      [1..<Suc (tb_high t)] = table_rows t"
    unfolding table_rows_def by (rule map_filter_cong) auto
  ultimately show ?thesis by (simp only: table_rows_def table.simps map_filter_laws(4)) (simp add: List.map_filter_def)
qed

lemma table_rows_update:
  "table_rows (t\<lparr>tb_get := (\<lambda>i. if int i = q then map_option (\<lambda>r. r\<lparr>mr_sent_count := n\<rparr>) (tb_get t i) else tb_get t i)\<rparr>) =
     map (\<lambda>r. if mr_local_seq r = q then r\<lparr>mr_sent_count := n\<rparr> else r) (table_rows t)"
  unfolding table_rows_def table.simps map_filter_laws(2)
proof (simp del: upt_Suc, rule map_filter_cong)
  fix i
  show "map_option (\<lambda>r. r\<lparr>mr_local_seq := int i\<rparr>)
      (if int i = q then map_option (\<lambda>r. r\<lparr>mr_sent_count := n\<rparr>) (tb_get t i) else tb_get t i) =
    map_option (\<lambda>r. if mr_local_seq r = q then r\<lparr>mr_sent_count := n\<rparr> else r)
      (map_option (\<lambda>r. r\<lparr>mr_local_seq := int i\<rparr>) (tb_get t i))"
    by (cases "tb_get t i") auto
qed

lemma table_rows_delete: "table_rows (table_delete qs t) = filter (\<lambda>r. mr_local_seq r \<notin> qs) (table_rows t)"
  unfolding table_rows_def table_delete_def table.simps map_filter_laws(3) by (simp del: upt_Suc, rule map_filter_cong) (auto split: option.splits)

lemma table_delete_high [simp]: "tb_high (table_delete qs t) = tb_high t"
  by (simp add: table_delete_def)

lemma find_message: "(\<exists>z. find (\<lambda>r. mr_message_id r = m) rs = Some z) \<longleftrightarrow> m \<in> mr_message_id ` set rs"
  by (induction rs) auto

interpretation table: wal_db table_db "\<lambda>t. int (tb_high t)" utf8_length
proof (unfold_locales, goal_cases)
  case (1 d)
  then show ?case unfolding table_db_def table_rows_def db_api.simps by (rule map_filter_upt_sorted) auto
next
  case (2 r d)
  then show ?case by (auto simp: table_db_def table_rows_def map_filter_laws(1))
next
  case (4 s)
  then show ?case by (simp add: utf8_length_def)
qed (auto simp: table_db_def same_table_def table_rows_insert table_rows_update table_rows_delete filter_empty_conv find_message
    dest!: statement_result(1,2) statement_result(3)[rotated] dest: find_message[THEN iffD1, OF exI])

section \<open>Records are handed out in order\<close>

text \<open>The answer to a request for the next record, judged on the state it leaves: the record is in flight, it is stored with this
  content or was acknowledged while it waited to be sent again, it is older than every row that is not in flight, and it is marked when it may have been sent before; there is no record only when the window is full of
  records in flight or every row is in flight; an error leaves the record in the queue.\<close>

definition next_promise ::
  "'d db_api \<Rightarrow> batch_codec \<Rightarrow> buffer_config \<Rightarrow> buffer_error + (int \<times> string \<times> observation_batch) option \<Rightarrow> 'd buffer \<Rightarrow> bool" where
  "next_promise db cd c res st \<longleftrightarrow>
     (case res of
        Inr (Some (s, topic, b)) \<Rightarrow>
          (\<exists>r b0. map_of (bf_inflight st) s = Some r \<and> topic = mr_topic r \<and> cd_from_slice cd (mr_payload r) = Some b0 \<and>
             b = (if 1 < mr_sent_count r \<or> s \<le> bf_recover_watermark st then b0\<lparr>bt_replayed := True\<rparr> else b0) \<and>
             (s \<in> bf_acked st \<or> (\<exists>x\<in>set (rows_of db st). same_content r x))) \<and>
          (\<forall>x\<in>set (rows_of db st). mr_local_seq x \<notin> fst ` set (bf_inflight st) \<longrightarrow> s < mr_local_seq x)
      | Inr None \<Rightarrow>
          length (bf_inflight st) = lc_memory_records c \<or>
          (\<forall>x\<in>set (rows_of db st). mr_local_seq x \<in> fst ` set (bf_inflight st))
      | Inl e \<Rightarrow> bf_load_error st = Some e \<or> bf_mem st \<noteq> [])"

context wal_db
begin

lemma handle_next_taken:
  assumes inv: "window_inv db high c st" and run: "handle_next db cd st = (Inr (Some (s, topic, b)), st')"
  shows "next_promise db cd c (Inr (Some (s, topic, b))) st'"
proof -
  obtain r rest b0 where st: "bf_mem st = r # rest" "cd_from_slice cd (mr_payload r) = Some b0" "mr_local_seq r = s" "mr_topic r = topic"
      and b: "b = (if 0 < mr_sent_count r \<or> s \<le> bf_recover_watermark st then b0\<lparr>bt_replayed := True\<rparr> else b0)"
      and st': "bf_mem st' = rest" "bf_inflight st' = AList.update s (r\<lparr>mr_sent_count := mr_sent_count r + 1\<rparr>) (bf_inflight st)"
        "bf_recover_watermark st' = bf_recover_watermark st" "bf_acked st' = bf_acked st"
    using run by (auto simp: handle_next_def Let_def upd_metrics_def split: list.splits option.splits prod.splits sum.splits if_splits)
  define r' where "r' = r\<lparr>mr_sent_count := mr_sent_count r + 1\<rparr>"
  note inv' = handle_next_window[OF inv run]
  have infl: "map_of (bf_inflight st') s = Some r'" by (simp add: st' r'_def AList.update_conv)
  then have "(s, r') \<in> set (bf_inflight st')" by (rule map_of_SomeD)
  then have mem: "r' \<in> set (held_records st')" "s \<in> held_seqs st'" by (force simp: held_records_def r'_def st(3))+
  have row: "s \<in> bf_acked st' \<or> (\<exists>x\<in>set (rows_of db st'). same_content r' x)"
    using window_invD(6)[OF inv' mem(1)] st(3) by (auto simp: r'_def)
  have "s < mr_local_seq x" if "x \<in> set (rows_of db st')" "mr_local_seq x \<notin> fst ` set (bf_inflight st')" for x
  proof (cases "mr_local_seq x \<in> held_seqs st'")
    case False
    then show ?thesis using window_invD(11)[OF inv' that(1)] mem(2) by blast
  next
    case True
    with that(2) window_inflight_distinct(2)[OF inv'] obtain y where "y \<in> set rest" "mr_local_seq y = mr_local_seq x"
      by (auto simp: held_records_def st'(1))
    then show ?thesis using window_invD(1)[OF inv] st by force
  qed
  moreover have "mr_topic r' = topic" "cd_from_slice cd (mr_payload r') = Some b0" "1 < mr_sent_count r' \<longleftrightarrow> 0 < mr_sent_count r"
    using st by (auto simp: r'_def)
  ultimately show ?thesis using infl row b st'(3) by (auto simp: next_promise_def)
qed

lemma handle_next_promise:
  assumes inv: "window_inv db high c st" "caught_up db c st" and run: "handle_next db cd st = (res, st')"
  shows "next_promise db cd c res st'"
proof (cases res)
  case (Inl e)
  then show ?thesis
    using run by (auto simp: next_promise_def handle_next_def Let_def upd_metrics_def split: list.splits option.splits prod.splits sum.splits if_splits)
next
  case (Inr y)
  show ?thesis
  proof (cases y)
    case (Some z)
    then show ?thesis using handle_next_taken[OF inv(1)] run Inr by (cases z) auto
  next
    case None
    then have "bf_mem st = []" "bf_load_error st = None" "st' = st"
      using run Inr by (auto simp: handle_next_def Let_def split: list.splits option.splits prod.splits sum.splits if_splits)
    then show ?thesis
      using inv(2) window_inflight_distinct(2)[OF inv(1)]
      by (auto simp: next_promise_def caught_up_def Inr None held_def held_records_def)
  qed
qed

lemma next_step_promise:
  assumes reach: "buffer_reach db cd c d st"
    and step: "buffer_step db cd c (BX_Cmd dlv gone now (CM_Next reply delivered)) st = Some st'"
    and answered: "bf_answers st' = bf_answers st @ [AN_Next reply res]"
  shows "next_promise db cd c res st'"
proof -
  note inv = buffer_reach_window[OF reach]
  have pc: "bf_pc st = BP_Recv" using step by (simp split: if_splits)
  define st1 where "st1 = snd (check_pending_confirm dlv (st\<lparr>bf_pc := BP_Top\<rparr>))"
  have inv1: "window_inv db high c st1" "caught_up db c st1"
    using check_pending_confirm_window(1)[of db high c "st\<lparr>bf_pc := BP_Top\<rparr>"]
      check_pending_confirm_caught_up[of db high c "st\<lparr>bf_pc := BP_Top\<rparr>"] inv(1) inv(2)[OF pc]
    by (simp_all add: st1_def window_simps)
  obtain res1 st2 where next': "handle_next db cd st1 = (res1, st2)" by force
  have same: "bf_answers st2 = bf_answers st"
    using next' by (auto simp: handle_next_def Let_def upd_metrics_def st1_def split: list.splits option.splits prod.splits sum.splits if_splits)
  have st': "st' = finish_next gone reply delivered (res1, st2)"
    using step pc next' by (simp add: handle_cmd_def st1_def)
  have "res1 = res \<and> bf_mem st' = bf_mem st2 \<and> bf_inflight st' = bf_inflight st2 \<and> bf_db st' = bf_db st2 \<and> bf_acked st' = bf_acked st2 \<and>
      bf_recover_watermark st' = bf_recover_watermark st2 \<and> bf_load_error st' = bf_load_error st2"
    using answered same by (auto simp: st' finish_next_def answer_def split: sum.splits option.splits prod.splits if_splits)
  then show ?thesis
    using handle_next_promise[OF inv1 next'] unfolding next_promise_def by (elim conjE) (simp only:)
qed

end

text \<open>C36: In every state the worker of the local buffer can reach, the answer to a request for the next record keeps \<open>next_promise\<close>:
  the record handed out is smaller in number than every stored record that is not in flight; it is a stored one with its stored content,
  or one whose row was deleted by an acknowledgement while it waited to be sent again. The window of records in memory stays within
  its bound.\<close>

theorem next_in_order:
  assumes "wal_db db high text_length" "buffer_reach db cd c d st"
    and "buffer_step db cd c (BX_Cmd dlv gone now (CM_Next reply delivered)) st = Some st'"
    and "bf_answers st' = bf_answers st @ [AN_Next reply res]"
  shows "next_promise db cd c res st' \<and> held st' \<le> lc_memory_records c"
  using wal_db.next_step_promise[OF assms] wal_db.buffer_reach_window(1)[OF assms(1) buffer_reach.br_step[OF assms(2,3)]]
  by (simp add: window_invD(4))

section \<open>A run\<close>

fun buffer_run :: "'d db_api \<Rightarrow> batch_codec \<Rightarrow> buffer_config \<Rightarrow> buffer_choice list \<Rightarrow> 'd buffer \<Rightarrow> 'd buffer option" where
  "buffer_run db cd c [] st = Some st"
| "buffer_run db cd c (x # xs) st = Option.bind (buffer_step db cd c x st) (buffer_run db cd c xs)"

lemma buffer_run_reach:
  "buffer_run db cd c xs st = Some st' \<Longrightarrow> buffer_reach db cd c d st \<Longrightarrow> buffer_reach db cd c d st'"
  by (induction xs arbitrary: st) (auto simp: Option.bind_eq_Some_conv intro: br_step)

definition example_batch :: "string \<Rightarrow> observation_batch" where
  "example_batch m = \<lparr>bt_schema = TELEMETRY_SCHEMA, bt_message_id = m, bt_site_id = ''s'', bt_device_id = ''d'', bt_sequence = 0,
     bt_sent_at_ns = 0, bt_replayed = False, bt_observations = []\<rparr>"

definition example_codec :: batch_codec where
  "example_codec = \<lparr>cd_to_vec = (\<lambda>b. Some (map of_char (bt_message_id b))),
     cd_from_slice = (\<lambda>bs. Some (example_batch (map (\<lambda>w. char_of (unat w)) bs)))\<rparr>"

definition example_buffer :: buffer_config where
  "example_buffer = \<lparr>lc_db_path = ''wal'', lc_memory_records = 1, lc_disk_max_bytes = 1200, lc_retention_ns = 50,
     lc_capacity_policy = Backpressure\<rparr>"

definition example_table :: table where
  "example_table = \<lparr>tb_high = 0, tb_get = (\<lambda>_. None), tb_faults = []\<rparr>"

abbreviation quiet :: "nat \<Rightarrow> delivery" where
  "quiet \<equiv> \<lambda>_. DL_Waiting"

text \<open>Three batches are pushed, the third waits for space. The first is taken and acknowledged, the next one expires.\<close>

definition example_buffer_trace :: "buffer_choice list" where
  "example_buffer_trace =
     [BX_Upkeep quiet 0, BX_Cmd quiet {} 0 (CM_Push (example_batch ''x'') 0),
      BX_Upkeep quiet 1, BX_Cmd quiet {} 1 (CM_Push (example_batch ''y'') 1),
      BX_Upkeep quiet 2, BX_Cmd quiet {} 2 (CM_Push (example_batch ''z'') 2),
      BX_Upkeep quiet 3]"

abbreviation example_open :: "table buffer" where
  "example_open \<equiv> projr (buffer_open table_db example_buffer example_table)"

abbreviation example_steps :: "buffer_choice list \<Rightarrow> table buffer option" where
  "example_steps xs \<equiv> buffer_run table_db example_codec example_buffer xs example_open"

lemma example_open_ok: "buffer_open table_db example_buffer example_table = Inr example_open"
proof -
  have "\<not> isl (buffer_open table_db example_buffer example_table)" by code_simp
  then show ?thesis by (cases "buffer_open table_db example_buffer example_table") auto
qed

lemma example_reach: "example_steps xs = Some st \<Longrightarrow> buffer_reach table_db example_codec example_buffer example_table st"
  by (rule buffer_run_reach[OF _ br_open[OF example_open_ok]])

definition summary :: "table buffer \<Rightarrow> buffer_pc \<times> (int \<times> string) list \<times> int list \<times> int list \<times> nat" where
  "summary st = (bf_pc st, map (\<lambda>r. (mr_local_seq r, mr_message_id r)) (table_rows (bf_db st)),
     map mr_local_seq (bf_mem st), map fst (bf_inflight st), length (bf_pending_push st))"

lemma example_full: "map_option summary (example_steps example_buffer_trace) =
    Some (BP_Recv, [(1, ''x''), (2, ''y'')], [1], [], 1)"
  by code_simp

lemma example_next:
  "case example_steps example_buffer_trace of None \<Rightarrow> False | Some st \<Rightarrow>
     (case buffer_step table_db example_codec example_buffer (BX_Cmd quiet {} 4 (CM_Next 3 0)) st of None \<Rightarrow> False | Some st' \<Rightarrow>
        bf_answers st' = bf_answers st @ [AN_Next 3 (Inr (Some (1, ''forgelink/v1/telemetry/s/d'', example_batch ''x'')))])"
  by code_simp

theorem next_in_order_witness:
  "\<exists>st'. buffer_reach table_db example_codec example_buffer example_table st' \<and>
     next_promise table_db example_codec example_buffer (Inr (Some (1, ''forgelink/v1/telemetry/s/d'', example_batch ''x''))) st' \<and>
     held st' \<le> 1"
proof -
  let ?x = "BX_Cmd quiet {} 4 (CM_Next 3 0)"
  obtain st st' where st: "example_steps example_buffer_trace = Some st"
      and step: "buffer_step table_db example_codec example_buffer ?x st = Some st'"
      and ans: "bf_answers st' = bf_answers st @ [AN_Next 3 (Inr (Some (1, ''forgelink/v1/telemetry/s/d'', example_batch ''x'')))]"
    using example_next by (auto split: option.splits)
  note r = example_reach[OF st]
  show ?thesis
    using next_in_order[OF table.wal_db_axioms r step ans] br_step[OF r step]
    by (intro exI[of _ st']) (simp add: example_buffer_def)
qed

section \<open>What leaves the table\<close>

abbreviation row_seqs :: "'d db_api \<Rightarrow> 'd buffer \<Rightarrow> int set" where
  "row_seqs db st \<equiv> mr_local_seq ` set (rows_of db st)"

abbreviation row_ids :: "'d db_api \<Rightarrow> 'd buffer \<Rightarrow> string set" where
  "row_ids db st \<equiv> mr_message_id ` set (rows_of db st)"

lemma answer_fields [simp]:
  "bf_db (answer a st) = bf_db st" "bf_db (upd_metrics f st) = bf_db st" "bf_db (answer_all m res ids st) = bf_db st"
  "bf_db (prune_cancelled_waiters gone st) = bf_db st" "bf_answers (answer a st) = bf_answers st @ [a]"
  "bf_answers (upd_metrics f st) = bf_answers st" "bf_answers (prune_cancelled_waiters gone st) = bf_answers st"
  by (simp_all add: answer_def upd_metrics_def answer_all_eq prune_cancelled_waiters_def)

text \<open>New answers that report a stored batch are true.\<close>

definition answers_true :: "'d db_api \<Rightarrow> 'd buffer \<Rightarrow> 'd buffer \<Rightarrow> bool" where
  "answers_true db st st' \<longleftrightarrow>
     (\<exists>new. bf_answers st' = bf_answers st @ new \<and>
        (\<forall>i m. AN_Push i m (Inr ()) \<in> set new \<longrightarrow>
           m \<in> row_ids db st' \<or> (\<exists>r\<in>set (held_records st'). mr_message_id r = m \<and> mr_local_seq r \<in> bf_acked st')))"

context wal_db
begin

lemma store_record_grows:
  assumes "store_record db c r st = (res, st')"
  shows "row_seqs db st \<subseteq> row_seqs db st'" "row_ids db st \<subseteq> row_ids db st'" "bf_answers st' = bf_answers st"
    and "res = Inr u \<Longrightarrow> mr_message_id r \<in> row_ids db st'"
proof -
  have "row_seqs db st \<subseteq> row_seqs db st' \<and> row_ids db st \<subseteq> row_ids db st' \<and> bf_answers st' = bf_answers st \<and>
      (\<not> isl res \<longrightarrow> mr_message_id r \<in> row_ids db st')"
  proof (cases res)
    case (Inl e)
    then obtain d where "st' = st\<lparr>bf_db := d\<rparr>" "same_table db high (bf_db st) d" using assms store_record_failed by blast
    then show ?thesis using Inl by (auto simp: same_table_def)
  next
    case (Inr v)
    show ?thesis by (rule store_record_stored[OF assms[unfolded Inr]]) auto
  qed
  then show "row_seqs db st \<subseteq> row_seqs db st'" "row_ids db st \<subseteq> row_ids db st'" "bf_answers st' = bf_answers st"
    and "res = Inr u \<Longrightarrow> mr_message_id r \<in> row_ids db st'" by auto
qed

lemma flush_pending_push_grows:
  shows "row_seqs db st \<subseteq> row_seqs db (snd (flush_pending_push db c st))"
    and "answers_true db st (snd (flush_pending_push db c st))"
proof -
  have "row_seqs db st \<subseteq> row_seqs db (snd (flush_pending_push db c st)) \<and>
    (\<exists>new. bf_answers (snd (flush_pending_push db c st)) = bf_answers st @ new \<and>
      (\<forall>i m. AN_Push i m (Inr ()) \<in> set new \<longrightarrow> m \<in> row_ids db (snd (flush_pending_push db c st))))"
  proof (rule flush_pending_push_inv[where P = "\<lambda>y. row_seqs db st \<subseteq> row_seqs db y \<and>
      (\<exists>new. bf_answers y = bf_answers st @ new \<and> (\<forall>i m. AN_Push i m (Inr ()) \<in> set new \<longrightarrow> m \<in> row_ids db y))"], goal_cases)
    case (2 y p rest res y1)
    then obtain new where new: "bf_answers y = bf_answers st @ new" "\<forall>i m. AN_Push i m (Inr ()) \<in> set new \<longrightarrow> m \<in> row_ids db y" by blast
    note g = store_record_grows[OF 2(4), simplified]
    have "row_seqs db st \<subseteq> row_seqs db y1" using order_trans[OF conjunct1[OF 2(1)] g(1)] .
    moreover have "bf_answers (answer_all (mr_message_id (pu_record p)) res (pu_replies p) y1) =
        bf_answers st @ new @ map (\<lambda>i. AN_Push i (mr_message_id (pu_record p)) res) (pu_replies p)"
      using g(3) new(1) by (simp add: answer_all_eq)
    moreover have "\<forall>i m. AN_Push i m (Inr ()) \<in> set (new @ map (\<lambda>i. AN_Push i (mr_message_id (pu_record p)) res) (pu_replies p)) \<longrightarrow>
        m \<in> row_ids db y1"
      using g(2,4) new(2) by auto
    ultimately show ?case unfolding answer_fields by blast
  qed auto
  then show "row_seqs db st \<subseteq> row_seqs db (snd (flush_pending_push db c st))"
    and "answers_true db st (snd (flush_pending_push db c st))" by (auto simp: answers_true_def)
qed

lemma push_new_grows:
  "row_seqs db st \<subseteq> row_seqs db (push_new db c reply r st) \<and> answers_true db st (push_new db c reply r st)"
proof -
  obtain res st1 where store: "store_record db c r st = (res, st1)" by force
  note g = store_record_grows[OF store]
  show ?thesis
    using g by (auto simp: push_new_def Let_def store answers_true_def split: capacity_policy.splits)
qed

lemma push_inner_grows:
  assumes inv: "window_inv db high c st"
  shows "row_seqs db st \<subseteq> row_seqs db (push_inner db cd c now b reply st) \<and> answers_true db st (push_inner db cd c now b reply st)"
proof -
  have find: "db_rows db d = rows_of db st" "\<And>y. x = Inr (Some y) \<Longrightarrow> m \<in> row_ids db st" if "db_find db m (bf_db st) = (x, d)" for m x d
    using find_keeps[OF that] find_ok[of m "bf_db st"] that by (auto simp: same_table_def)
  have held: "bt_message_id b \<in> row_ids db st \<or> (\<exists>r\<in>set (held_records st). mr_message_id r = bt_message_id b \<and> mr_local_seq r \<in> bf_acked st)"
    if ex: "list_ex (\<lambda>(s, x). mr_message_id x = bt_message_id b) (bf_inflight st)"
  proof -
    obtain s r where "(s, r) \<in> set (bf_inflight st)" "mr_message_id r = bt_message_id b" using ex by (auto simp: list_ex_iff)
    then have r: "r \<in> set (held_records st)" "mr_message_id r = bt_message_id b" by (force simp: held_records_def)+
    with window_invD(6)[OF inv r(1)] show ?thesis
      by (metis imageI mem_record.select_convs(2) mem_record.surjective mem_record.update_convs(6) same_content_def)
  qed
  have new: "row_seqs db st \<subseteq> row_seqs db (push_new db c reply r (st\<lparr>bf_db := d\<rparr>)) \<and> answers_true db st (push_new db c reply r (st\<lparr>bf_db := d\<rparr>))"
    if "db_rows db d = rows_of db st" for r d
    using push_new_grows[of "st\<lparr>bf_db := d\<rparr>" c reply r] that by (simp add: answers_true_def)
  have ans: "answers_true db st (answer a (st\<lparr>bf_db := d\<rparr>))"
    if "db_rows db d = rows_of db st"
      "\<And>i m. a = AN_Push i m (Inr ()) \<Longrightarrow> m \<in> row_ids db st \<or> (\<exists>r\<in>set (held_records st). mr_message_id r = m \<and> mr_local_seq r \<in> bf_acked st)" for a d
    using that by (auto simp: answers_true_def answer_def held_records_def)
  have same: "answers_true db st (answer a st)"
    if "\<And>i m. a = AN_Push i m (Inr ()) \<Longrightarrow> m \<in> row_ids db st \<or> (\<exists>r\<in>set (held_records st). mr_message_id r = m \<and> mr_local_seq r \<in> bf_acked st)" for a
    using ans[of "bf_db st" a] that by simp
  have wait: "answers_true db st (st\<lparr>bf_pending_push := ps\<rparr>)" for ps by (simp add: answers_true_def)
  show ?thesis
    using held unfolding push_inner_def Let_def
    by (auto simp: wait new find intro!: same ans dest: find split: prod.splits sum.splits option.splits)
qed

end

lemma image_filter_neq: "f ` set (filter (\<lambda>x. f x \<noteq> y) xs) = f ` set xs - {y}"
  by auto

context wal_db
begin

lemma cleanup_expired_rows:
  assumes inv: "window_inv db high c st" and run: "cleanup_expired db cutoff st = (res, st')"
    and x: "x \<in> set (rows_of db st)" "mr_local_seq x \<notin> row_seqs db st'"
  shows "mr_created_at_ns x < cutoff \<and> mr_local_seq x \<in> mr_local_seq ` set (bf_mem st)"
proof -
  define ex where "ex = filter (\<lambda>r. mr_created_at_ns r < cutoff) (bf_mem st)"
  obtain rr d where del: "db_delete_all db (map mr_local_seq ex) (bf_db st) = (rr, d)" by force
  have ne: "ex \<noteq> []" and "\<not> isl rr"
    using run x del delete_all_fails[of "map mr_local_seq ex" "bf_db st"]
    by (cases rr; auto simp: cleanup_expired_def ex_def same_table_def Let_def split: if_splits)+
  then obtain u where u: "rr = Inr u" by (cases rr) auto
  have "rows_of db st' = filter (\<lambda>r. mr_local_seq r \<notin> mr_local_seq ` set ex) (rows_of db st)"
    using run del ne u delete_all_ok[of "map mr_local_seq ex" "bf_db st" u d] by (auto simp: cleanup_expired_def ex_def Let_def)
  with x have "mr_local_seq x \<in> mr_local_seq ` set ex" by auto
  then obtain r where r: "r \<in> set ex" "mr_local_seq r = mr_local_seq x" by auto
  then have mem: "r \<in> set (held_records st)" "r \<in> set (bf_mem st)" "mr_created_at_ns r < cutoff" by (auto simp: ex_def held_records_def)
  have "mr_local_seq r \<notin> bf_acked st" using window_invD(8)[OF inv, of "mr_local_seq r"] x(1) r(2) by force
  then obtain y where y: "y \<in> set (rows_of db st)" "same_content r y" using window_invD(6)[OF inv mem(1)] by blast
  then have "y = x" using rows_same_seq[OF y(1) x(1)] same_content_seq[OF y(2)] r(2) by simp
  then have "mr_created_at_ns x = mr_created_at_ns r"
    using y(2) unfolding same_content_def by (metis mem_record.select_convs(5) mem_record.surjective mem_record.update_convs(6))
  then show ?thesis using mem r(2) by (metis imageI)
qed

lemma cleanup_expired_answers: "cleanup_expired db cutoff st = (res, st') \<Longrightarrow> bf_answers st' = bf_answers st \<and> bf_pc st' = bf_pc st"
  by (auto simp: cleanup_expired_def Let_def split: if_splits prod.splits sum.splits)

lemma load_more_rows:
  assumes "load_more db c st = (res, st')"
  shows "rows_of db st' = rows_of db st" "bf_answers st' = bf_answers st"
  using assms page_keeps by (fastforce simp: load_more_def same_table_def split: if_splits prod.splits sum.splits list.splits)+

lemma upkeep_rows:
  assumes inv: "window_inv db high c st" and run: "upkeep db c dlv now st = (progress, st')"
  shows "answers_true db st st'"
    and "x \<in> set (rows_of db st) \<Longrightarrow> mr_local_seq x \<notin> row_seqs db st' \<Longrightarrow>
      mr_created_at_ns x < now - int (lc_retention_ns c) \<and>
      mr_local_seq x \<notin> fst ` set (bf_inflight (snd (check_pending_confirm dlv st)))"
proof -
  have "answers_true db st st' \<and> (x \<in> set (rows_of db st) \<longrightarrow> mr_local_seq x \<notin> row_seqs db st' \<longrightarrow>
      mr_created_at_ns x < now - int (lc_retention_ns c) \<and>
      mr_local_seq x \<notin> fst ` set (bf_inflight (snd (check_pending_confirm dlv st))))"
    using inv run
  proof (rule upkeep_stages)
    fix requeued st1 cleaned st2 st3 loaded st4 st5 flushed
    assume stages: "check_pending_confirm dlv st = (requeued, st1)"
      "cleanup_expired db (now - int (lc_retention_ns c)) st1 = (cleaned, st2)"
      "st3 = (case cleaned of Inl e \<Rightarrow> st2 | Inr (n, bytes) \<Rightarrow> upd_metrics (observe_expired n bytes) st2)"
      "load_more db c st3 = (loaded, st4)"
      and st5_def: "st5 = (case loaded of Inl e \<Rightarrow> st4\<lparr>bf_load_error := Some e\<rparr> | Inr True \<Rightarrow> st4\<lparr>bf_load_error := None\<rparr> | Inr False \<Rightarrow> st4)"
      and flush: "flush_pending_push db c st5 = (flushed, st')" and inv1: "window_inv db high c st1"
    have st1: "snd (check_pending_confirm dlv st) = st1" by (simp add: stages(1))
    have same1: "rows_of db st1 = rows_of db st" "bf_answers st1 = bf_answers st" using check_pending_confirm_frame[of dlv st] st1 by simp_all
    have same3: "rows_of db st3 = rows_of db st2" "bf_answers st3 = bf_answers st2" by (simp_all add: stages(3) split: sum.splits prod.splits)
    have same5: "rows_of db st5 = rows_of db st2" "bf_answers st5 = bf_answers st"
      using load_more_rows[OF stages(4)] same3 same1 cleanup_expired_answers[OF stages(2)]
      by (simp_all add: st5_def split: sum.splits bool.splits)
    have fl: "snd (flush_pending_push db c st5) = st'" using flush by simp
    note f = flush_pending_push_grows[of st5 c, unfolded fl]
    have "mr_local_seq x \<notin> row_seqs db st2" if "mr_local_seq x \<notin> row_seqs db st'" using that f(1) same5(1) by auto
    moreover have "mr_local_seq x \<notin> fst ` set (bf_inflight st1)" if "mr_local_seq x \<in> mr_local_seq ` set (bf_mem st1)"
      using that window_inflight_distinct(2)[OF inv1] window_invD(2)[OF inv1] by (auto simp: held_records_def image_image)
    ultimately show ?thesis
      using cleanup_expired_rows[OF inv1 stages(2)] f(2) same1 same5(2) by (auto simp: answers_true_def st1)
  qed
  then show "answers_true db st st'"
    and "x \<in> set (rows_of db st) \<Longrightarrow> mr_local_seq x \<notin> row_seqs db st' \<Longrightarrow>
      mr_created_at_ns x < now - int (lc_retention_ns c) \<and>
      mr_local_seq x \<notin> fst ` set (bf_inflight (snd (check_pending_confirm dlv st)))" by auto
qed

lemma handle_next_rows:
  assumes "handle_next db cd st = (res, st')"
  shows "row_seqs db st' = row_seqs db st" "bf_answers st' = bf_answers st"
proof -
  have table: "row_seqs db (st\<lparr>bf_db := d\<rparr>) = row_seqs db st" if "db_update_sent db q n (bf_db st) = (y, d)" for q n y d
  proof (cases y)
    case (Inl e)
    then show ?thesis using update_fails that by (auto simp: same_table_def)
  next
    case (Inr u)
    have "map mr_local_seq (db_rows db d) = map mr_local_seq (rows_of db st)"
      using update_ok[of q n "bf_db st" u d] that Inr by simp
    from arg_cong[OF this, of set] show ?thesis by simp
  qed
  have "bf_db st' = bf_db st \<or> (\<exists>q n y. db_update_sent db q n (bf_db st) = (y, bf_db st'))" "bf_answers st' = bf_answers st"
    using assms by (auto simp: handle_next_def Let_def split: list.splits option.splits prod.splits sum.splits if_splits)
  then show "row_seqs db st' = row_seqs db st" "bf_answers st' = bf_answers st" using table by (metis buffer.select_convs(2) buffer.surjective buffer.update_convs(2))+
qed

lemma handle_ack_rows:
  assumes "handle_ack db s st = (res, st')"
  shows "row_seqs db st - {s} \<subseteq> row_seqs db st'" "bf_answers st' = bf_answers st"
proof -
  obtain y d where del: "db_delete db s (bf_db st) = (y, d)" by force
  then have st': "bf_db st' = d" "bf_answers st' = bf_answers st"
    using assms by (auto simp: handle_ack_def Let_def upd_metrics_def split: sum.splits option.splits)
  have "row_seqs db st - {s} \<subseteq> mr_local_seq ` set (db_rows db d)"
  proof (cases y)
    case (Inl e)
    then show ?thesis using delete_fails del by (auto simp: same_table_def)
  next
    case (Inr k)
    then show ?thesis using delete_ok[of s "bf_db st" k d] del by (simp only: image_filter_neq)
  qed
  with st' show "row_seqs db st - {s} \<subseteq> row_seqs db st'" "bf_answers st' = bf_answers st" by simp_all
qed

lemma handle_cmd_rows:
  assumes inv: "window_inv db high c st" "caught_up db c st"
  shows "answers_true db st (handle_cmd db cd c gone now cmd st)"
    and "row_seqs db st - {s. \<exists>reply. cmd = CM_Ack s reply} \<subseteq> row_seqs db (handle_cmd db cd c gone now cmd st)"
proof -
  have "answers_true db st (handle_cmd db cd c gone now cmd st) \<and>
    row_seqs db st - {s. \<exists>reply. cmd = CM_Ack s reply} \<subseteq> row_seqs db (handle_cmd db cd c gone now cmd st)"
  proof (cases cmd)
    case (CM_Push b reply)
    then show ?thesis
      using push_inner_grows[of c "prune_cancelled_waiters gone st" cd now b reply] inv(1)
      by (simp add: handle_cmd_def answers_true_def prune_cancelled_waiters_def window_simps)
  next
    case (CM_Next reply delivered)
    obtain res st1 where n: "handle_next db cd st = (res, st1)" by force
    note r = handle_next_rows[OF n]
    then show ?thesis
      by (auto simp: CM_Next handle_cmd_def n finish_next_def answers_true_def answer_def split: sum.splits option.splits)
  next
    case (CM_Ack s reply)
    obtain res st1 where a: "handle_ack db s st = (res, st1)" by force
    then show ?thesis using handle_ack_rows[OF a] by (auto simp: CM_Ack handle_cmd_def answers_true_def)
  next
    case (CM_Requeue s reply)
    then show ?thesis by (simp add: handle_cmd_def answers_true_def)
  next
    case (CM_Shutdown reply)
    then show ?thesis by (auto simp: handle_cmd_def shutdown_answers_eq answers_true_def)
  qed
  then show "answers_true db st (handle_cmd db cd c gone now cmd st)"
    and "row_seqs db st - {s. \<exists>reply. cmd = CM_Ack s reply} \<subseteq> row_seqs db (handle_cmd db cd c gone now cmd st)" by auto
qed

lemma buffer_step_rows:
  assumes reach: "buffer_reach db cd c d st" and step: "buffer_step db cd c x st = Some st'"
  shows "answers_true db st st'"
    and "r \<in> set (rows_of db st) \<Longrightarrow> mr_local_seq r \<notin> row_seqs db st' \<Longrightarrow>
      (\<exists>dlv gone now reply. x = BX_Cmd dlv gone now (CM_Ack (mr_local_seq r) reply)) \<or>
      (\<exists>dlv now. x = BX_Upkeep dlv now \<and> mr_created_at_ns r < now - int (lc_retention_ns c) \<and>
         mr_local_seq r \<notin> fst ` set (bf_inflight (snd (check_pending_confirm dlv st))))"
proof -
  note inv = buffer_reach_window[OF reach]
  have "answers_true db st st' \<and> (r \<in> set (rows_of db st) \<longrightarrow> mr_local_seq r \<notin> row_seqs db st' \<longrightarrow>
      (\<exists>dlv gone now reply. x = BX_Cmd dlv gone now (CM_Ack (mr_local_seq r) reply)) \<or>
      (\<exists>dlv now. x = BX_Upkeep dlv now \<and> mr_created_at_ns r < now - int (lc_retention_ns c) \<and>
         mr_local_seq r \<notin> fst ` set (bf_inflight (snd (check_pending_confirm dlv st)))))"
  proof (cases x)
    case (BX_Upkeep dlv now)
    obtain p st1 where up: "upkeep db c dlv now st = (p, st1)" by force
    then have st': "bf_db st' = bf_db st1" "bf_answers st' = bf_answers st1" "held_records st' = held_records st1" "bf_acked st' = bf_acked st1"
      using step BX_Upkeep by (auto simp: held_records_def split: if_splits)
    then show ?thesis using upkeep_rows[OF inv(1) up] by (auto simp: BX_Upkeep answers_true_def)
  next
    case (BX_Cmd dlv gone now cmd)
    define st1 where "st1 = snd (check_pending_confirm dlv (st\<lparr>bf_pc := BP_Top\<rparr>))"
    have pc: "bf_pc st = BP_Recv" and st': "st' = handle_cmd db cd c gone now cmd st1"
      using step by (auto simp: BX_Cmd st1_def split: if_splits)
    have inv1: "window_inv db high c st1" "caught_up db c st1"
      using check_pending_confirm_window(1)[of db high c "st\<lparr>bf_pc := BP_Top\<rparr>"]
        check_pending_confirm_caught_up[of db high c "st\<lparr>bf_pc := BP_Top\<rparr>"] inv(1) inv(2)[OF pc]
      by (simp_all add: st1_def window_simps)
    have same: "bf_db st1 = bf_db st" "bf_answers st1 = bf_answers st" by (simp_all add: st1_def)
    have "answers_true db st st'" using handle_cmd_rows(1)[OF inv1] same by (simp add: st' answers_true_def)
    moreover have "\<exists>reply. cmd = CM_Ack (mr_local_seq r) reply"
      if "r \<in> set (rows_of db st)" "mr_local_seq r \<notin> row_seqs db st'"
      using handle_cmd_rows(2)[OF inv1, of cmd cd gone now] that same(1) unfolding st' by auto
    ultimately show ?thesis by (auto simp: BX_Cmd)
  qed (use step in \<open>auto simp: answers_true_def reject_cmd_def split: if_splits buffer_pc.splits buffer_cmd.splits\<close>)
  then show "answers_true db st st'"
    and "r \<in> set (rows_of db st) \<Longrightarrow> mr_local_seq r \<notin> row_seqs db st' \<Longrightarrow>
      (\<exists>dlv gone now reply. x = BX_Cmd dlv gone now (CM_Ack (mr_local_seq r) reply)) \<or>
      (\<exists>dlv now. x = BX_Upkeep dlv now \<and> mr_created_at_ns r < now - int (lc_retention_ns c) \<and>
         mr_local_seq r \<notin> fst ` set (bf_inflight (snd (check_pending_confirm dlv st))))" by auto
qed

end

text \<open>C3: A stored record disappears from the table of the local buffer in two cases only: its number was acknowledged, or it was
  older than the retention time and not in flight when the worker cleaned up.\<close>

theorem row_leaves_when_acked_or_expired:
  assumes "wal_db db high text_length" "buffer_reach db cd c d st" "buffer_step db cd c x st = Some st'"
    and "r \<in> set (db_rows db (bf_db st))" "mr_local_seq r \<notin> mr_local_seq ` set (db_rows db (bf_db st'))"
  shows "(\<exists>dlv gone now reply. x = BX_Cmd dlv gone now (CM_Ack (mr_local_seq r) reply)) \<or>
    (\<exists>dlv now. x = BX_Upkeep dlv now \<and> mr_created_at_ns r < now - int (lc_retention_ns c) \<and>
       mr_local_seq r \<notin> fst ` set (bf_inflight (snd (check_pending_confirm dlv st))))"
  by (rule wal_db.buffer_step_rows(2)[OF assms])

text \<open>C35: Whenever the worker of the local buffer tells a caller that its batch was accepted, at once or after it waited for space, the
  batch is in the table (or was in flight and has been acknowledged meanwhile).\<close>

theorem accepted_push_is_stored:
  assumes "wal_db db high text_length" "buffer_reach db cd c d st" "buffer_step db cd c x st = Some st'"
  shows "answers_true db st st'"
  by (rule wal_db.buffer_step_rows(1)[OF assms])

lemma case_option_Some: "(case a of None \<Rightarrow> False | Some x \<Rightarrow> P x) \<longleftrightarrow> (\<exists>x. a = Some x \<and> P x)"
  by (cases a) simp_all

lemma example_expiry:
  "case example_steps (example_buffer_trace @ [BX_Timeout]) of None \<Rightarrow> False | Some st \<Rightarrow>
     (case buffer_step table_db example_codec example_buffer (BX_Upkeep quiet 51) st of None \<Rightarrow> False | Some st' \<Rightarrow>
        bf_answers st' = bf_answers st @ [AN_Push 2 ''z'' (Inr ())] \<and> map mr_local_seq (table_rows (bf_db st)) = [1, 2] \<and>
        map mr_local_seq (table_rows (bf_db st')) = [2, 3])"
  by code_simp

lemma example_expiry_step:
  obtains st st' where "buffer_reach table_db example_codec example_buffer example_table st"
    "buffer_step table_db example_codec example_buffer (BX_Upkeep quiet 51) st = Some st'"
    "bf_answers st' = bf_answers st @ [AN_Push 2 ''z'' (Inr ())]" "map mr_local_seq (table_rows (bf_db st)) = [1, 2]"
    "map mr_local_seq (table_rows (bf_db st')) = [2, 3]"
  using example_expiry unfolding case_option_Some by (elim exE conjE) (rule that[OF example_reach])

theorem row_leaves_when_acked_or_expired_witness:
  "\<exists>st r. buffer_reach table_db example_codec example_buffer example_table st \<and> r \<in> set (table_rows (bf_db st)) \<and>
     mr_local_seq r = 1 \<and> mr_created_at_ns r < 51 - int (lc_retention_ns example_buffer)"
proof (rule example_expiry_step)
  fix st st'
  assume st: "buffer_reach table_db example_codec example_buffer example_table st"
    and step: "buffer_step table_db example_codec example_buffer (BX_Upkeep quiet 51) st = Some st'"
    and rows: "map mr_local_seq (table_rows (bf_db st)) = [1, 2]" "map mr_local_seq (table_rows (bf_db st')) = [2, 3]"
  have "1 \<in> set (map mr_local_seq (table_rows (bf_db st)))" by (simp only: rows(1)) simp
  then obtain r where r: "r \<in> set (table_rows (bf_db st))" "mr_local_seq r = 1" by auto
  have out: "mr_local_seq r \<notin> mr_local_seq ` set (table_rows (bf_db st'))"
    using arg_cong[OF rows(2), of set] r(2) by simp
  have tb: "db_rows table_db = table_rows" by (simp add: table_db_def)
  show ?thesis
    using row_leaves_when_acked_or_expired[OF table.wal_db_axioms st step, of r] r out st
    by (intro exI[of _ st] exI[of _ r]) (auto simp: tb)
qed

theorem accepted_push_is_stored_witness:
  "\<exists>st st'. buffer_reach table_db example_codec example_buffer example_table st \<and>
     bf_answers st' = bf_answers st @ [AN_Push 2 ''z'' (Inr ())] \<and> answers_true table_db st st'"
proof (rule example_expiry_step)
  fix st st'
  assume st: "buffer_reach table_db example_codec example_buffer example_table st"
    and step: "buffer_step table_db example_codec example_buffer (BX_Upkeep quiet 51) st = Some st'"
    and ans: "bf_answers st' = bf_answers st @ [AN_Push 2 ''z'' (Inr ())]"
  show ?thesis using accepted_push_is_stored[OF table.wal_db_axioms st step] st ans by blast
qed

section \<open>A record whose row is gone\<close>

text \<open>The two ways in which a record in flight gets back to the queue: the sender gives it back, or the sender is gone before it
  confirmed that it took the record.\<close>

definition closed_delivery :: "int \<Rightarrow> (nat \<Rightarrow> delivery) \<Rightarrow> 'd buffer \<Rightarrow> bool" where
  "closed_delivery s dlv st \<longleftrightarrow> (\<exists>ch. (s, ch) \<in> set (bf_pending_confirm st) \<and> dlv ch = DL_Closed)"

fun gives_back :: "int \<Rightarrow> buffer_choice \<Rightarrow> 'd buffer \<Rightarrow> bool" where
  "gives_back s (BX_Upkeep dlv now) st \<longleftrightarrow> closed_delivery s dlv st"
| "gives_back s (BX_Cmd dlv gone now cmd) st \<longleftrightarrow> closed_delivery s dlv st \<or> (\<exists>reply. cmd = CM_Requeue s reply)"
| "gives_back s BX_Timeout st \<longleftrightarrow> False"
| "gives_back s BX_Disconnected st \<longleftrightarrow> False"
| "gives_back s (BX_Left cmd) st \<longleftrightarrow> False"
| "gives_back s BX_Closed st \<longleftrightarrow> False"

abbreviation flying :: "'d buffer \<Rightarrow> int set" where
  "flying st \<equiv> fst ` set (bf_inflight st)"

text \<open>What a step keeps of the records in flight and of the acknowledged numbers.\<close>

definition keeps_flying :: "int \<Rightarrow> 'd buffer \<Rightarrow> 'd buffer \<Rightarrow> bool" where
  "keeps_flying s st st' \<longleftrightarrow> (s \<in> flying st \<longrightarrow> s \<in> flying st') \<and> bf_acked st \<subseteq> bf_acked st'"

lemma keeps_flying_same: "bf_inflight st' = bf_inflight st \<Longrightarrow> bf_acked st' = bf_acked st \<Longrightarrow> keeps_flying s st st'"
  by (simp add: keeps_flying_def)

lemma keeps_flying_trans: "keeps_flying s st st1 \<Longrightarrow> keeps_flying s st1 st2 \<Longrightarrow> keeps_flying s st st2"
  by (auto simp: keeps_flying_def)

lemma handle_requeue_flying: "q \<noteq> s \<Longrightarrow> keeps_flying s st (handle_requeue q st)"
  by (auto simp: keeps_flying_def handle_requeue_def AList.delete_eq image_iff split: option.splits)

lemma set_swap_remove: "i < length xs \<Longrightarrow> set (swap_remove i xs) \<subseteq> set xs"
  using set_update_subset_insert[of xs i "last xs"] last_in_set[of xs]
  by (fastforce simp: swap_remove_def dest!: in_set_butlastD)

lemma check_confirms_flying:
  "\<not> closed_delivery s dlv st \<Longrightarrow> keeps_flying s st (snd (check_confirms dlv i st))"
proof (induction dlv i st rule: check_confirms.induct)
  case (1 dlv i st)
  show ?case
  proof (cases "i < length (bf_pending_confirm st)")
    case True
    obtain q ch where e: "bf_pending_confirm st ! i = (q, ch)" by force
    define st1 where "st1 = st\<lparr>bf_pending_confirm := swap_remove i (bf_pending_confirm st)\<rparr>"
    have in1: "(q, ch) \<in> set (bf_pending_confirm st)" using nth_mem[OF True] e by simp
    have st1: "\<not> closed_delivery s dlv st1" "keeps_flying s st st1"
      using 1(4) set_swap_remove[OF True] by (auto simp: closed_delivery_def st1_def keeps_flying_def)
    have st2: "\<not> closed_delivery s dlv (handle_requeue q st1)" using st1(1) by (simp add: closed_delivery_def)
    show ?thesis
    proof (cases "dlv ch")
      case DL_Waiting
      have "keeps_flying s st (snd (check_confirms dlv (Suc i) st))"
        using 1(1)[OF _ refl e[symmetric] st1_def DL_Waiting 1(4)] True by simp
      then show ?thesis using DL_Waiting True by (subst check_confirms.simps) (simp add: e Let_def)
    next
      case DL_Confirmed
      have "keeps_flying s st1 (snd (check_confirms dlv i st1))" using 1(2)[OF _ refl e[symmetric] st1_def DL_Confirmed st1(1)] True by simp
      then show ?thesis using True DL_Confirmed st1(2)
        by (subst check_confirms.simps) (auto simp: e Let_def st1_def intro: keeps_flying_trans)
    next
      case DL_Closed
      then have "q \<noteq> s" using in1 1(4) by (auto simp: closed_delivery_def)
      have "keeps_flying s (handle_requeue q st1) (snd (check_confirms dlv i (handle_requeue q st1)))"
        using 1(3)[OF _ refl e[symmetric] st1_def DL_Closed st2] True by simp
      then have "keeps_flying s st (snd (check_confirms dlv i (handle_requeue q st1)))"
        using st1(2) handle_requeue_flying[OF \<open>q \<noteq> s\<close>, of st1] by (blast intro: keeps_flying_trans)
      then show ?thesis using True DL_Closed by (subst check_confirms.simps) (simp add: e Let_def st1_def)
    qed
  qed (subst check_confirms.simps, simp add: keeps_flying_def)
qed

lemma cleanup_expired_flying: "cleanup_expired db cutoff st = (res, st') \<Longrightarrow> keeps_flying s st st'"
  by (rule keeps_flying_same) (auto simp: cleanup_expired_def Let_def split: if_splits prod.splits sum.splits)

lemma load_more_flying: "load_more db c st = (res, st') \<Longrightarrow> keeps_flying s st st'"
  by (rule keeps_flying_same) (auto simp: load_more_def split: if_splits prod.splits sum.splits list.splits)

lemma store_record_flying: "store_record db c r st = (res, st') \<Longrightarrow> keeps_flying s st st'"
  by (rule keeps_flying_same) (auto simp: store_record_def Let_def upd_metrics_def split: if_splits prod.splits sum.splits)

lemma flush_pending_push_flying: "keeps_flying s st (snd (flush_pending_push db c st))"
proof (rule flush_pending_push_inv[where P = "keeps_flying s st"])
  fix y p rest res y1
  assume "keeps_flying s st y" and run: "store_record db c (pu_record p) (y\<lparr>bf_pending_push := rest\<rparr>) = (res, y1)"
  moreover have "keeps_flying s y y1" using store_record_flying[OF run, of s] by (simp add: keeps_flying_def)
  ultimately have "keeps_flying s st y1" by (blast intro: keeps_flying_trans)
  then show "keeps_flying s st (answer_all (mr_message_id (pu_record p)) res (pu_replies p) y1)"
    by (simp add: keeps_flying_def answer_all_eq)
qed (simp add: keeps_flying_def)

lemma push_inner_flying: "keeps_flying s st (push_inner db cd c now b reply st)"
proof -
  have push: "keeps_flying s st (push_new db c reply r (st\<lparr>bf_db := d\<rparr>))" for r d
  proof -
    obtain res st1 where run: "store_record db c r (st\<lparr>bf_db := d\<rparr>) = (res, st1)" by force
    from store_record_flying[OF this, of s] show ?thesis
      by (auto simp: push_new_def Let_def run keeps_flying_def answer_def upd_metrics_def split: capacity_policy.splits)
  qed
  show ?thesis
    using push by (auto simp: push_inner_def Let_def answer_def keeps_flying_def split: sum.splits option.splits prod.splits)
qed

context wal_db
begin

lemma upkeep_flying:
  assumes "window_inv db high c st" "upkeep db c dlv now st = (progress, st')" "\<not> closed_delivery s dlv st"
  shows "keeps_flying s st st'"
  using assms(1,2)
proof (rule upkeep_stages)
  fix requeued st1 cleaned st2 st3 loaded st4 st5 flushed
  assume stages: "check_pending_confirm dlv st = (requeued, st1)" "cleanup_expired db (now - int (lc_retention_ns c)) st1 = (cleaned, st2)"
    "st3 = (case cleaned of Inl e \<Rightarrow> st2 | Inr (n, bytes) \<Rightarrow> upd_metrics (observe_expired n bytes) st2)" "load_more db c st3 = (loaded, st4)"
    "st5 = (case loaded of Inl e \<Rightarrow> st4\<lparr>bf_load_error := Some e\<rparr> | Inr True \<Rightarrow> st4\<lparr>bf_load_error := None\<rparr> | Inr False \<Rightarrow> st4)"
    "flush_pending_push db c st5 = (flushed, st')"
  have "keeps_flying s st st1" using check_confirms_flying[OF assms(3), of 0] stages(1) by (simp add: check_pending_confirm_def)
  moreover have "keeps_flying s st2 st3" by (rule keeps_flying_same) (simp_all add: stages(3) upd_metrics_def split: sum.splits prod.splits)
  moreover have "keeps_flying s st4 st5" by (rule keeps_flying_same) (simp_all add: stages(5) split: sum.splits bool.splits)
  moreover have "keeps_flying s st5 st'" using flush_pending_push_flying[of s st5 db c] stages(6) by simp
  ultimately show "keeps_flying s st st'"
    using cleanup_expired_flying[OF stages(2), of s] load_more_flying[OF stages(4), of s] by (blast intro: keeps_flying_trans)
qed

text \<open>A record is taken from the queue, where a record in flight is not.\<close>

lemma finish_next_flying:
  assumes inv: "window_inv db high c st" and s: "s \<in> flying st"
  shows "keeps_flying s st (finish_next gone reply delivered (handle_next db cd st))"
proof -
  obtain res st1 where run: "handle_next db cd st = (res, st1)" by force
  have next1: "keeps_flying s st st1"
  proof -
    have "(bf_inflight st1 = bf_inflight st \<or> (\<exists>k v. bf_inflight st1 = AList.update k v (bf_inflight st))) \<and> bf_acked st1 = bf_acked st"
      using run by (auto simp: handle_next_def Let_def upd_metrics_def split: list.splits option.splits prod.splits sum.splits if_splits) blast+
    then show ?thesis by (auto simp only: keeps_flying_def AList.dom_update)
  qed
  have "q \<noteq> s" if "res = Inr (Some (q, t, b))" for q t b
  proof -
    have "q \<in> mr_local_seq ` set (bf_mem st)"
      using run that by (auto simp: handle_next_def Let_def split: list.splits option.splits prod.splits sum.splits)
    then show ?thesis
      using s window_inflight_distinct(2)[OF inv] window_invD(2)[OF inv] by (auto simp: held_records_def)
  qed
  then have "keeps_flying s st1 (finish_next gone reply delivered (res, st1))"
    using handle_requeue_flying[of _ s st1]
    by (auto simp: finish_next_def answer_def split: sum.splits option.splits) (auto simp: keeps_flying_def)
  with next1 show ?thesis unfolding run by (rule keeps_flying_trans)
qed

text \<open>The acknowledgement of a number that has no row deletes nothing.\<close>

lemma handle_ack_flying:
  assumes "handle_ack db q st = (res, st')" "s \<notin> row_seqs db st"
  shows "keeps_flying s st st'"
  using assms delete_ok[of q "bf_db st"]
  by (auto simp: handle_ack_def keeps_flying_def Let_def upd_metrics_def AList.delete_eq image_iff split: prod.splits sum.splits option.splits if_splits)

lemma handle_cmd_flying:
  assumes inv: "window_inv db high c st" and s: "s \<in> flying st" "s \<notin> row_seqs db st" and "\<nexists>reply. cmd = CM_Requeue s reply"
  shows "keeps_flying s st (handle_cmd db cd c gone now cmd st)"
proof (cases cmd)
  case (CM_Push b reply)
  then show ?thesis using push_inner_flying[of s "prune_cancelled_waiters gone st" db cd c now b reply]
    by (simp add: handle_cmd_def keeps_flying_def prune_cancelled_waiters_def)
next
  case (CM_Next reply delivered)
  then show ?thesis using finish_next_flying[OF inv s(1)] by (simp add: handle_cmd_def)
next
  case (CM_Ack q reply)
  obtain res st1 where run: "handle_ack db q st = (res, st1)" by force
  then show ?thesis using handle_ack_flying[OF run s(2)] CM_Ack by (simp add: handle_cmd_def keeps_flying_def answer_def)
next
  case (CM_Requeue q reply)
  then show ?thesis using handle_requeue_flying[of q s st] assms(4) by (auto simp: handle_cmd_def keeps_flying_def answer_def)
next
  case (CM_Shutdown reply)
  then show ?thesis by (simp add: handle_cmd_def keeps_flying_def shutdown_answers_eq answer_def)
qed

lemma buffer_step_flying:
  assumes reach: "buffer_reach db cd c d st" and s: "s \<in> flying st" "s \<notin> row_seqs db st"
    and step: "buffer_step db cd c x st = Some st'" "\<not> gives_back s x st"
  shows "s \<in> flying st' \<and> s \<notin> row_seqs db st'"
proof -
  note inv = buffer_reach_window(1)[OF reach]
  have "keeps_flying s st st'"
  proof (cases x)
    case (BX_Upkeep dlv now)
    obtain p st1 where up: "upkeep db c dlv now st = (p, st1)" by force
    then show ?thesis using upkeep_flying[OF inv up, of s] step BX_Upkeep by (auto simp: keeps_flying_def split: if_splits)
  next
    case (BX_Cmd dlv gone now cmd)
    define st1 where "st1 = snd (check_pending_confirm dlv (st\<lparr>bf_pc := BP_Top\<rparr>))"
    have st': "st' = handle_cmd db cd c gone now cmd st1" using step by (auto simp: BX_Cmd st1_def split: if_splits)
    have inv1: "window_inv db high c st1"
      using check_pending_confirm_window(1)[of db high c "st\<lparr>bf_pc := BP_Top\<rparr>"] inv by (simp add: st1_def window_simps)
    have "\<not> closed_delivery s dlv (st\<lparr>bf_pc := BP_Top\<rparr>)" using step(2) by (simp add: BX_Cmd closed_delivery_def)
    from check_confirms_flying[OF this, of 0] have kf: "keeps_flying s st st1"
      by (simp add: st1_def check_pending_confirm_def keeps_flying_def)
    then have "s \<in> flying st1" "s \<notin> row_seqs db st1" using s by (simp_all add: keeps_flying_def st1_def)
    from handle_cmd_flying[OF inv1 this] kf step(2) show ?thesis unfolding st' by (auto simp: BX_Cmd intro: keeps_flying_trans)
  qed (use step in \<open>auto simp: keeps_flying_def reject_cmd_def answer_def split: if_splits buffer_pc.splits\<close>)
  moreover have "s \<in> bf_acked st"
  proof -
    obtain r where r: "(s, r) \<in> set (bf_inflight st)" using s(1) by force
    then have "r \<in> set (held_records st)" "mr_local_seq r = s" using window_invD(3)[OF inv] by (force simp: held_records_def)+
    with window_invD(6)[OF inv, of r] s(2) show ?thesis by (metis imageI same_content_seq)
  qed
  moreover have "window_inv db high c st'" using buffer_reach_window(1)[OF br_step[OF reach step(1)]] .
  ultimately show ?thesis using s(1) window_invD(8)[of db high c st' s] unfolding keeps_flying_def by blast
qed

end

text \<open>C39: A record in flight whose row is gone, which is what a late acknowledgement leaves behind, keeps its place in the window: no
  step releases it, its own acknowledgement included, unless the sender gives the record back or is gone before it confirmed that
  it took the record.\<close>

theorem acked_record_keeps_its_place:
  assumes "wal_db db high text_length" "buffer_reach db cd c d st"
    and "s \<in> fst ` set (bf_inflight st)" "s \<notin> mr_local_seq ` set (db_rows db (bf_db st))"
    and "buffer_step db cd c x st = Some st'" "\<not> gives_back s x st"
  shows "s \<in> fst ` set (bf_inflight st') \<and> s \<notin> mr_local_seq ` set (db_rows db (bf_db st'))"
  by (rule wal_db.buffer_step_flying[OF assms])

text \<open>The first record is taken and put back; then its acknowledgement arrives, and the record, which is still in the queue, is taken
  and acknowledged once more. That acknowledgement is answered with success and releases nothing: the window of one record is full, the
  sender is told that there is nothing to send although a record waits on disk.\<close>

definition late_ack_trace :: "buffer_choice list" where
  "late_ack_trace = example_buffer_trace @
     [BX_Cmd quiet {} 4 (CM_Next 3 0), BX_Upkeep quiet 4, BX_Cmd quiet {} 4 (CM_Requeue 1 4), BX_Upkeep quiet 4,
      BX_Cmd quiet {} 4 (CM_Ack 1 5), BX_Upkeep quiet 4, BX_Cmd quiet {} 4 (CM_Next 6 1), BX_Upkeep quiet 4]"

lemma late_ack_eval:
  "case example_steps late_ack_trace of None \<Rightarrow> False | Some st \<Rightarrow>
     map mr_local_seq (table_rows (bf_db st)) = [2] \<and> map fst (bf_inflight st) = [1] \<and> held st = lc_memory_records example_buffer \<and>
     (case buffer_step table_db example_codec example_buffer (BX_Cmd quiet {} 4 (CM_Ack 1 7)) st of None \<Rightarrow> False | Some st' \<Rightarrow>
        last (bf_answers st') = AN_Done 7 (Inr ()) \<and>
        (case buffer_run table_db example_codec example_buffer [BX_Upkeep quiet 4, BX_Cmd quiet {} 4 (CM_Next 8 2)] st' of None \<Rightarrow> False
         | Some st'' \<Rightarrow> map mr_local_seq (table_rows (bf_db st'')) = [2] \<and> last (bf_answers st'') = AN_Next 8 (Inr None)))"
  by code_simp

theorem acked_record_keeps_its_place_witness:
  "\<exists>st st' st''. buffer_reach table_db example_codec example_buffer example_table st \<and> held st = lc_memory_records example_buffer \<and>
     buffer_step table_db example_codec example_buffer (BX_Cmd quiet {} 4 (CM_Ack 1 7)) st = Some st' \<and>
     last (bf_answers st') = AN_Done 7 (Inr ()) \<and> 1 \<in> fst ` set (bf_inflight st') \<and>
     buffer_run table_db example_codec example_buffer [BX_Upkeep quiet 4, BX_Cmd quiet {} 4 (CM_Next 8 2)] st' = Some st'' \<and>
     map mr_local_seq (table_rows (bf_db st'')) = [2] \<and> last (bf_answers st'') = AN_Next 8 (Inr None)"
  using late_ack_eval unfolding case_option_Some
proof (elim exE conjE)
  fix st st' st''
  assume st: "example_steps late_ack_trace = Some st" "map mr_local_seq (table_rows (bf_db st)) = [2]" "map fst (bf_inflight st) = [1]"
    "held st = lc_memory_records example_buffer"
    and step: "buffer_step table_db example_codec example_buffer (BX_Cmd quiet {} 4 (CM_Ack 1 7)) st = Some st'"
    and rest: "last (bf_answers st') = AN_Done 7 (Inr ())"
      "buffer_run table_db example_codec example_buffer [BX_Upkeep quiet 4, BX_Cmd quiet {} 4 (CM_Next 8 2)] st' = Some st''"
      "map mr_local_seq (table_rows (bf_db st'')) = [2]" "last (bf_answers st'') = AN_Next 8 (Inr None)"
  note reach = example_reach[OF st(1)]
  have "1 \<in> fst ` set (bf_inflight st)" "1 \<notin> mr_local_seq ` set (db_rows table_db (bf_db st))"
    using arg_cong[OF st(2), of set] arg_cong[OF st(3), of set] by (simp_all add: table_db_def)
  from acked_record_keeps_its_place[OF table.wal_db_axioms reach this step]
  have "1 \<in> fst ` set (bf_inflight st')" by (simp add: closed_delivery_def)
  with reach st(4) step rest show ?thesis by (intro exI[of _ st] exI[of _ st'] exI[of _ st''] conjI)
qed

end
