(* ===== verification/Buffer_Limits.thy ===== *)
theory Buffer_Limits
  imports Buffer_Delivery
begin

text \<open>
  Bounds of the local buffer: the estimated size of the table stays within its limit, up to what recovery did not count, and the
  maintenance of the worker between two commands ends.
\<close>

section \<open>Maintenance ends\<close>

text \<open>Everything the maintenance can still work on: deliveries to confirm, records in and outside the window, and requests that wait
  for space, which count twice because storing one adds a record.\<close>

definition upkeep_measure :: "'d db_api \<Rightarrow> 'd buffer \<Rightarrow> nat" where
  "upkeep_measure db st =
     length (bf_pending_confirm st) + length (unheld_rows db st) + held st + 2 * length (bf_pending_push st)"

lemma unheld_rows_cong:
  "rows_of db st' = rows_of db st \<Longrightarrow> held_seqs st' = held_seqs st \<Longrightarrow> unheld_rows db st' = unheld_rows db st"
  by (simp add: unheld_rows_def)

lemma check_confirms_shrinks:
  "length (bf_pending_confirm (snd (check_confirms dlv i st))) + (if fst (check_confirms dlv i st) then 1 else 0) \<le>
     length (bf_pending_confirm st)"
proof (induction dlv i st rule: check_confirms.induct)
  case (1 dlv i st)
  then show ?case
    by (subst (1 2) check_confirms.simps) (force simp: Let_def swap_remove_def split: prod.splits delivery.splits if_splits)
qed

lemma flush_pending_push_count:
  "fst (flush_pending_push db c st) + length (bf_pending_push (snd (flush_pending_push db c st))) \<le> length (bf_pending_push st)"
proof (induction db c st rule: flush_pending_push.induct)
  case (1 db c st)
  show ?case
  proof (cases "bf_pending_push st")
    case Nil
    then show ?thesis by (simp add: flush_pending_push.simps)
  next
    case (Cons p rest)
    obtain res st1 where store: "store_record db c (pu_record p) (st\<lparr>bf_pending_push := rest\<rparr>) = (res, st1)" by force
    then have rest: "bf_pending_push st1 = rest" using store_record_pending[of db c "pu_record p" "st\<lparr>bf_pending_push := rest\<rparr>"] by simp
    let ?next = "answer_all (mr_message_id (pu_record p)) res (pu_replies p) st1"
    show ?thesis
    proof (cases "capacity_full c (record_cost (pu_record p)) st")
      case True
      then show ?thesis using Cons by (simp add: flush_pending_push.simps)
    next
      case False
      have "fst (flush_pending_push db c ?next) + length (bf_pending_push (snd (flush_pending_push db c ?next))) \<le> length (bf_pending_push ?next)"
        using 1 Cons False store by (cases res) auto
      moreover have "bf_pending_push ?next = rest" using rest by (simp add: answer_all_eq)
      ultimately show ?thesis
        using Cons False store by (subst (1 2) flush_pending_push.simps) (auto split: sum.splits prod.splits)
    qed
  qed
qed

lemma check_pending_confirm_measure:
  assumes inv: "window_inv db high c st" and run: "check_pending_confirm dlv st = (requeued, st')"
  shows "upkeep_measure db st' + (if requeued then 1 else 0) \<le> upkeep_measure db st"
proof -
  have st': "snd (check_pending_confirm dlv st) = st'" using run by simp
  have held: "mset (held_records st') = mset (held_records st)" using check_pending_confirm_window(2)[OF inv, of dlv] st' by simp
  have "unheld_rows db st' = unheld_rows db st"
    using check_pending_confirm_frame(1)[of dlv st] st' mset_eq_setD[OF held] by (intro unheld_rows_cong) simp_all
  moreover have "held st' = held st" using mset_eq_length[OF held] by (simp add: held_length)
  moreover have "bf_pending_push st' = bf_pending_push st" using check_pending_confirm_frame(6)[of dlv st] st' by simp
  ultimately show ?thesis
    using check_confirms_shrinks[of dlv 0 st] run by (simp add: check_pending_confirm_def upkeep_measure_def)
qed

context wal_db
begin

lemma cleanup_expired_measure:
  assumes inv: "window_inv db high c st" and run: "cleanup_expired db cutoff st = (res, st')"
  shows "upkeep_measure db st' + (case res of Inr (n, _) \<Rightarrow> n | Inl _ \<Rightarrow> 0) \<le> upkeep_measure db st"
proof -
  define ex where "ex = filter (\<lambda>r. mr_created_at_ns r < cutoff) (bf_mem st)"
  obtain rr d where del: "db_delete_all db (map mr_local_seq ex) (bf_db st) = (rr, d)" by force
  show ?thesis
  proof (cases "ex = [] \<or> isl rr")
    case True
    then have "st' = st \<and> res = Inr (0, 0) \<or> (\<exists>e. res = Inl e) \<and> st' = st\<lparr>bf_db := d\<rparr> \<and> db_rows db d = rows_of db st"
      using run del delete_all_fails[of "map mr_local_seq ex" "bf_db st"]
      by (cases rr) (auto simp: cleanup_expired_def ex_def same_table_def Let_def split: if_splits)
    then show ?thesis by (auto simp: upkeep_measure_def unheld_rows_def held_def held_records_def)
  next
    case False
    then obtain u where u: "rr = Inr u" and ne: "ex \<noteq> []" by (cases rr) auto
    have res: "res = Inr (length ex, sum_list (map record_cost ex))"
        and st': "st' = st\<lparr>bf_db := d, bf_mem := filter (\<lambda>r. mr_local_seq r \<notin> mr_local_seq ` set ex) (bf_mem st),
          bf_bytes := bf_bytes st - sum_list (map record_cost ex)\<rparr>"
      using run del u ne by (simp_all add: cleanup_expired_def ex_def Let_def)
    have rows: "db_rows db d = filter (\<lambda>r. mr_local_seq r \<notin> mr_local_seq ` set ex) (rows_of db st)"
      using delete_all_ok del u by auto
    have inj: "inj_on mr_local_seq (set (bf_mem st))" using window_invD(2)[OF inv] by (simp add: held_records_def distinct_map)
    have "filter (\<lambda>r. mr_local_seq r \<notin> mr_local_seq ` set ex) (bf_mem st) = filter (\<lambda>r. \<not> mr_created_at_ns r < cutoff) (bf_mem st)"
      using inj by (intro filter_cong) (auto simp: ex_def inj_on_def)
    then have "length (filter (\<lambda>r. mr_local_seq r \<notin> mr_local_seq ` set ex) (bf_mem st)) + length ex = length (bf_mem st)"
      using sum_length_filter_compl[of "\<lambda>r. mr_created_at_ns r < cutoff" "bf_mem st"] by (simp add: ex_def)
    then have held: "held st' + length ex = held st" by (simp add: held_def st')
    have "length (unheld_rows db st') \<le> length (unheld_rows db st)"
    proof -
      have "unheld_rows db st' = filter (\<lambda>r. mr_local_seq r \<notin> mr_local_seq ` set ex) (unheld_rows db st)"
        unfolding unheld_rows_def st' by (auto simp: rows held_records_def image_Un intro!: filter_cong)
      then show ?thesis by simp
    qed
    with held show ?thesis by (simp add: upkeep_measure_def res st')
  qed
qed

lemma load_more_measure:
  assumes inv: "window_inv db high c st" and run: "load_more db c st = (res, st')"
  shows "upkeep_measure db st' = upkeep_measure db st"
proof (cases res)
  case (Inl e)
  then obtain d where "same_table db high (bf_db st) d" "st' = st\<lparr>bf_db := d\<rparr>" using run load_more_failed by blast
  then show ?thesis by (simp add: upkeep_measure_def unheld_rows_def held_def held_records_def same_table_def)
next
  case (Inr b)
  define n where "n = lc_memory_records c - held st"
  obtain d where d: "same_table db high (bf_db st) d" and st': "st' = st\<lparr>bf_db := d, bf_mem := bf_mem st @ take n (unheld_rows db st),
      bf_last_loaded_seq := (if take n (unheld_rows db st) = [] then bf_last_loaded_seq st else mr_local_seq (last (take n (unheld_rows db st))))\<rparr>"
    using load_more_result[OF inv run[unfolded Inr]] unfolding n_def by blast
  have "unheld_rows db st' = drop n (unheld_rows db st)" by (rule window_extend(2)[OF inv _ st' refl d]) (simp add: n_def)
  moreover have "held st' = held st + length (take n (unheld_rows db st))" by (simp add: st' held_def)
  moreover have "bf_pending_confirm st' = bf_pending_confirm st" "bf_pending_push st' = bf_pending_push st" by (simp_all add: st')
  ultimately show ?thesis by (simp add: upkeep_measure_def)
qed

lemma store_record_measure:
  assumes inv: "window_inv db high c st" and run: "store_record db c r st = (res, st')"
  shows "upkeep_measure db st' \<le> Suc (upkeep_measure db st)"
proof (cases res)
  case (Inl e)
  then obtain d where "st' = st\<lparr>bf_db := d\<rparr>" "same_table db high (bf_db st) d" using run store_record_failed by blast
  then show ?thesis by (simp add: upkeep_measure_def unheld_rows_def held_def held_records_def same_table_def)
next
  case (Inr u)
  have confirm: "bf_pending_confirm st' = bf_pending_confirm st"
    using run by (auto simp: store_record_def upd_metrics_def Let_def split: prod.splits sum.splits if_splits)
  show ?thesis
  proof (rule store_record_stored[OF run[unfolded Inr]])
    fix s
    assume ok: "high (bf_db st) < s" "rows_of db st' = rows_of db st @ [r\<lparr>mr_local_seq := s\<rparr>]"
      "bf_mem st' = (if bf_load_error st = None \<and> held st < lc_memory_records c then bf_mem st @ [r\<lparr>mr_local_seq := s\<rparr>] else bf_mem st)"
      "bf_inflight st' = bf_inflight st" "bf_pending_push st' = bf_pending_push st"
    have fresh: "mr_local_seq x \<noteq> s" if "x \<in> set (rows_of db st)" for x using rows_range[OF that] ok(1) by simp
    have old: "s \<notin> held_seqs st" using window_invD(5)[OF inv] ok(1) by force
    have hs: "held_seqs st' = (if bf_load_error st = None \<and> held st < lc_memory_records c then insert s (held_seqs st) else held_seqs st)"
      by (auto simp: held_records_def ok)
    have "filter (\<lambda>x. mr_local_seq x \<notin> held_seqs st') (rows_of db st) = unheld_rows db st"
      unfolding unheld_rows_def hs using fresh by (auto intro!: filter_cong)
    then have "length (unheld_rows db st') + held st' = Suc (length (unheld_rows db st) + held st)"
      using old by (simp add: unheld_rows_def[of db st'] ok(2) hs) (simp add: held_def ok(3,4))
    then show ?thesis by (simp add: upkeep_measure_def confirm ok(5))
  qed
qed

lemma flush_pending_push_measure:
  assumes inv: "window_inv db high c st" "caught_up db c st" and run: "flush_pending_push db c st = (n, st')"
  shows "upkeep_measure db st' + n \<le> upkeep_measure db st"
proof -
  have "(window_inv db high c (snd (flush_pending_push db c st)) \<and> caught_up db c (snd (flush_pending_push db c st))) \<and>
      upkeep_measure db (snd (flush_pending_push db c st)) + length (bf_pending_push st) \<le>
      upkeep_measure db st + length (bf_pending_push (snd (flush_pending_push db c st)))"
  proof (rule flush_pending_push_inv[where P = "\<lambda>y. (window_inv db high c y \<and> caught_up db c y) \<and>
      upkeep_measure db y + length (bf_pending_push st) \<le> upkeep_measure db st + length (bf_pending_push y)"], goal_cases)
    case (2 y p rest res y1)
    let ?y = "y\<lparr>bf_pending_push := rest\<rparr>"
    have w: "window_inv db high c ?y" "caught_up db c ?y" using 2(1) by (simp_all add: window_simps)
    have m: "upkeep_measure db ?y + 2 = upkeep_measure db y"
      by (simp add: upkeep_measure_def unheld_rows_def held_def held_records_def 2(2))
    have a: "upkeep_measure db (answer_all i r' ids y1) = upkeep_measure db y1" for i r' ids
      by (simp add: upkeep_measure_def unheld_rows_def held_def held_records_def answer_all_eq)
    have "bf_pending_push y1 = rest" using store_record_pendingD[OF 2(4)[symmetric]] by simp
    then show ?case
      using store_record_window[OF w 2(4)] store_record_measure[OF w(1) 2(4)] m 2(1,2) unfolding a
      by (simp add: window_simps)
  qed (use inv in simp)
  then show ?thesis using flush_pending_push_count[of db c st] run by simp
qed

lemma upkeep_measure_decreases:
  assumes inv: "window_inv db high c st" and run: "upkeep db c dlv now st = (progress, st')"
  shows "upkeep_measure db st' + (if progress then 1 else 0) \<le> upkeep_measure db st"
  using inv run
proof (rule upkeep_stages)
  fix requeued st1 cleaned st2 st3 loaded st4 st5 flushed
  assume stages: "check_pending_confirm dlv st = (requeued, st1)"
    "cleanup_expired db (now - int (lc_retention_ns c)) st1 = (cleaned, st2)"
    "st3 = (case cleaned of Inl e \<Rightarrow> st2 | Inr (n, bytes) \<Rightarrow> upd_metrics (observe_expired n bytes) st2)"
    "load_more db c st3 = (loaded, st4)"
    and st5_def: "st5 = (case loaded of Inl e \<Rightarrow> st4\<lparr>bf_load_error := Some e\<rparr> | Inr True \<Rightarrow> st4\<lparr>bf_load_error := None\<rparr> | Inr False \<Rightarrow> st4)"
    and flush: "flush_pending_push db c st5 = (flushed, st')"
    and progress: "progress \<longleftrightarrow> requeued \<or> (\<exists>n bytes. cleaned = Inr (n, bytes) \<and> 0 < n) \<or> 0 < flushed"
    and invs: "window_inv db high c st1" "window_inv db high c st3" "window_inv db high c st5" "caught_up db c st5"
  have "upkeep_measure db st3 = upkeep_measure db st2" "upkeep_measure db st5 = upkeep_measure db st4"
    by (simp_all add: stages(3) st5_def upkeep_measure_def unheld_rows_def held_def held_records_def upd_metrics_def
        split: sum.splits prod.splits bool.splits)
  then show ?thesis
    using check_pending_confirm_measure[OF inv stages(1)] cleanup_expired_measure[OF invs(1) stages(2)] load_more_measure[OF invs(2) stages(4)]
      flush_pending_push_measure[OF invs(3,4) flush] progress
    by (auto split: if_splits sum.splits)
qed

end

lemma flush_pending_push_pc: "bf_pc (snd (flush_pending_push db c st)) = bf_pc st"
  by (rule flush_pending_push_inv[where P = "\<lambda>y. bf_pc y = bf_pc st"]) (auto simp: answer_all_eq dest: store_record_pc)

lemma load_more_pc: "load_more db c st = (res, st') \<Longrightarrow> bf_pc st' = bf_pc st"
  by (auto simp: load_more_def split: if_splits prod.splits sum.splits list.splits)

text \<open>Passes of the maintenance, each with the deliveries and the clock it sees, until one makes no progress.\<close>

fun upkeep_run ::
  "'d db_api \<Rightarrow> batch_codec \<Rightarrow> buffer_config \<Rightarrow> ((nat \<Rightarrow> delivery) \<times> int) list \<Rightarrow> 'd buffer \<Rightarrow> 'd buffer" where
  "upkeep_run db cd c [] st = st"
| "upkeep_run db cd c ((dlv, now) # env) st =
     (case buffer_step db cd c (BX_Upkeep dlv now) st of None \<Rightarrow> st | Some st' \<Rightarrow> upkeep_run db cd c env st')"

context wal_db
begin

lemma upkeep_pc:
  assumes "window_inv db high c st" "upkeep db c dlv now st = (progress, st')"
  shows "bf_pc st' = bf_pc st"
  using assms
proof (rule upkeep_stages)
  fix requeued st1 cleaned st2 st3 loaded st4 st5 flushed
  assume stages: "check_pending_confirm dlv st = (requeued, st1)"
    "cleanup_expired db (now - int (lc_retention_ns c)) st1 = (cleaned, st2)"
    "st3 = (case cleaned of Inl e \<Rightarrow> st2 | Inr (n, bytes) \<Rightarrow> upd_metrics (observe_expired n bytes) st2)"
    "load_more db c st3 = (loaded, st4)"
    "st5 = (case loaded of Inl e \<Rightarrow> st4\<lparr>bf_load_error := Some e\<rparr> | Inr True \<Rightarrow> st4\<lparr>bf_load_error := None\<rparr> | Inr False \<Rightarrow> st4)"
    "flush_pending_push db c st5 = (flushed, st')"
  have "bf_pc st5 = bf_pc st4" "bf_pc st3 = bf_pc st2" by (simp_all add: stages(3,5) upd_metrics_def split: sum.splits bool.splits prod.splits)
  then show ?thesis
    using check_pending_confirm_frame(7)[of dlv st] stages(1) cleanup_expired_answers[OF stages(2)] load_more_pc[OF stages(4)]
      flush_pending_push_pc[of db c st5] stages(6) by simp
qed

lemma upkeep_run_recv: "bf_pc st = BP_Recv \<Longrightarrow> upkeep_run db cd c env st = st"
  by (cases env) auto

lemma upkeep_run_ends:
  assumes "window_inv db high c st" "bf_pc st = BP_Top" "upkeep_measure db st < length env"
  shows "bf_pc (upkeep_run db cd c env st) = BP_Recv"
  using assms
proof (induction env arbitrary: st)
  case (Cons e env)
  obtain dlv now where e: "e = (dlv, now)" by force
  obtain progress st1 where up: "upkeep db c dlv now st = (progress, st1)" by force
  note inv1 = upkeep_window[OF Cons.prems(1) up]
  have pc: "bf_pc st1 = BP_Top" using upkeep_pc[OF Cons.prems(1) up] Cons.prems(2) by simp
  show ?case
  proof (cases progress)
    case True
    then have "upkeep_measure db st1 < length env"
      using upkeep_measure_decreases[OF Cons.prems(1) up] Cons.prems(3) by simp
    then show ?thesis using Cons.IH[of st1] inv1 pc True up Cons.prems(2) by (simp add: e)
  next
    case False
    then show ?thesis using up Cons.prems(2) by (simp add: e upkeep_run_recv)
  qed
qed simp

end

text \<open>C38: The worker of the local buffer repeats its maintenance (unconfirmed deliveries, expired records, loading, waiting requests) as
  long as a pass makes progress. Whatever the clock and the receivers do meanwhile, and whichever statements fail, it is back at its
  channel after at most as many passes as there is work.\<close>

theorem upkeep_terminates:
  assumes "wal_db db high text_length" "buffer_reach db cd c d st" "bf_pc st = BP_Top" "upkeep_measure db st < length env"
  shows "bf_pc (upkeep_run db cd c env st) = BP_Recv"
  by (rule wal_db.upkeep_run_ends[OF assms(1) wal_db.buffer_reach_window(1)[OF assms(1,2)] assms(3,4)])

lemma example_idle: "case example_steps (example_buffer_trace @ [BX_Timeout]) of None \<Rightarrow> False | Some st \<Rightarrow>
    bf_pc st = BP_Top \<and> upkeep_measure table_db st = 4"
  by code_simp

theorem upkeep_terminates_witness:
  "\<exists>st. buffer_reach table_db example_codec example_buffer example_table st \<and> bf_pc st = BP_Top \<and>
     bf_pc (upkeep_run table_db example_codec example_buffer (replicate 5 (quiet, 51)) st) = BP_Recv"
proof -
  obtain st where st: "example_steps (example_buffer_trace @ [BX_Timeout]) = Some st" "bf_pc st = BP_Top" "upkeep_measure table_db st = 4"
    using example_idle unfolding case_option_Some by blast
  note r = example_reach[OF st(1)]
  have "bf_pc (upkeep_run table_db example_codec example_buffer (replicate 5 (quiet, 51)) st) = BP_Recv"
    by (rule upkeep_terminates[OF table.wal_db_axioms r st(2)]) (use st(3) in simp)
  with r st(2) show ?thesis by blast
qed

section \<open>The table stays within its limit\<close>

definition table_cost :: "mem_record list \<Rightarrow> nat" where
  "table_cost rs = (\<Sum>r\<leftarrow>rs. record_cost r)"

text \<open>What \<^verbatim>\<open>open_db\<close> counts: the characters of the texts.\<close>

definition recovered_bytes :: "(string \<Rightarrow> nat) \<Rightarrow> mem_record list \<Rightarrow> nat" where
  "recovered_bytes text_length rs =
     (\<Sum>r\<leftarrow>rs. length (mr_payload r) + text_length (mr_topic r) + text_length (mr_message_id r) + FIXED_OVERHEAD_PER_RECORD)"

text \<open>Records in the window that were acknowledged while they waited to be sent again.\<close>

definition stale :: "'d buffer \<Rightarrow> mem_record list" where
  "stale st = filter (\<lambda>r. mr_local_seq r \<in> bf_acked st) (held_records st)"

definition disk_inv :: "nat \<Rightarrow> nat \<Rightarrow> 'd db_api \<Rightarrow> 'd buffer \<Rightarrow> bool" where
  "disk_inv missing limit db st \<longleftrightarrow>
     table_cost (rows_of db st) + table_cost (stale st) \<le> bf_bytes st + missing \<and> bf_bytes st \<le> limit"

lemma table_cost_simps [simp]:
  "table_cost [] = 0" "table_cost (r # rs) = record_cost r + table_cost rs" "table_cost (rs @ qs) = table_cost rs + table_cost qs"
  by (simp_all add: table_cost_def)

lemma table_cost_mset: "mset rs = mset qs \<Longrightarrow> table_cost rs = table_cost qs"
  unfolding table_cost_def by (metis mset_map sum_mset_sum_list)

lemma record_cost_fields [simp]: "record_cost (r\<lparr>mr_sent_count := n\<rparr>) = record_cost r" "record_cost (r\<lparr>mr_local_seq := s\<rparr>) = record_cost r"
  by (simp_all add: record_cost_def)

lemma table_cost_norm: "table_cost (map (\<lambda>r. r\<lparr>mr_sent_count := 0\<rparr>) rs) = table_cost rs"
  by (induction rs) simp_all

lemma table_cost_split: "table_cost rs = table_cost (filter P rs) + table_cost (filter (\<lambda>r. \<not> P r) rs)"
  by (induction rs) simp_all

lemma stale_mset:
  assumes "mset (held_records st') = mset (held_records st)" "bf_acked st' = bf_acked st"
  shows "table_cost (stale st') = table_cost (stale st)"
  by (rule table_cost_mset) (simp add: stale_def mset_filter assms)

context wal_db
begin

text \<open>Held records that were not acknowledged cost as much as their rows.\<close>

lemma held_cost_rows:
  assumes inv: "window_inv db high c st" and A: "set A \<subseteq> set (held_records st)" "distinct (map mr_local_seq A)"
    and unacked: "\<And>r. r \<in> set A \<Longrightarrow> mr_local_seq r \<notin> bf_acked st"
  shows "table_cost A = table_cost (filter (\<lambda>x. mr_local_seq x \<in> mr_local_seq ` set A) (rows_of db st))"
proof -
  define norm where "norm = (\<lambda>r :: mem_record. r\<lparr>mr_sent_count := 0\<rparr>)"
  define B where "B = filter (\<lambda>x. mr_local_seq x \<in> mr_local_seq ` set A) (rows_of db st)"
  have seq: "mr_local_seq (norm r) = mr_local_seq r" for r by (simp add: norm_def)
  have "distinct (map mr_local_seq (map norm A))" using A(2) by (simp add: comp_def seq)
  then have dA: "distinct (map norm A)" by (rule conjunct1[OF iffD1[OF distinct_map]])
  have "distinct (map mr_local_seq B)" unfolding B_def by (rule distinct_map_filter[OF rows_distinct])
  then have "distinct (map mr_local_seq (map norm B))" by (simp add: comp_def seq)
  then have dB: "distinct (map norm B)" by (rule conjunct1[OF iffD1[OF distinct_map]])
  have row: "\<exists>x\<in>set B. norm r = norm x" if r: "r \<in> set A" for r
  proof -
    obtain x where x: "x \<in> set (rows_of db st)" "same_content r x" using window_invD(6)[OF inv, of r] unacked[OF r] A(1) r by blast
    then show ?thesis using r same_content_seq[OF x(2)] by (intro bexI[of _ x]) (auto simp: B_def norm_def same_content_def)
  qed
  have "set (map norm A) = set (map norm B)"
  proof (rule set_eqI, rule iffI)
    fix y assume "y \<in> set (map norm A)"
    then show "y \<in> set (map norm B)" using row by (auto simp: image_iff)
  next
    fix y assume "y \<in> set (map norm B)"
    then obtain x r where x: "y = norm x" "x \<in> set B" and r: "r \<in> set A" "mr_local_seq r = mr_local_seq x"
      by (auto simp: B_def)
    obtain x' where x': "x' \<in> set B" "norm r = norm x'" using row[OF r(1)] by blast
    then have "mr_local_seq x' = mr_local_seq x" using seq[of r] seq[of x'] r(2) by simp
    then have "x' = x" using rows_same_seq[of x' "bf_db st" x] x'(1) x(2) by (simp add: B_def)
    then show "y \<in> set (map norm A)" using x(1) x'(2) r(1) by (metis imageI list.set_map)
  qed
  then have "mset (map norm A) = mset (map norm B)" using set_eq_iff_mset_eq_distinct[OF dA dB] by blast
  then have "table_cost (map norm A) = table_cost (map norm B)" by (rule table_cost_mset)
  then show ?thesis by (simp add: norm_def table_cost_norm B_def)
qed

lemma disk_frame:
  assumes "disk_inv missing limit db st" "rows_of db st' = rows_of db st" "held_records st' = held_records st" "bf_acked st' = bf_acked st"
    and "bf_bytes st' = bf_bytes st"
  shows "disk_inv missing limit db st'"
  using assms by (simp add: disk_inv_def stale_def)

lemma store_record_disk:
  assumes inv: "window_inv db high c st" "disk_inv missing limit db st" and room: "\<not> capacity_full c (record_cost r) st"
    and limit: "lc_disk_max_bytes c \<le> limit" "lc_disk_max_bytes c < U64_MAX" and run: "store_record db c r st = (res, st')"
  shows "disk_inv missing limit db st'"
proof (cases res)
  case (Inl e)
  then obtain d where "st' = st\<lparr>bf_db := d\<rparr>" "same_table db high (bf_db st) d" using run store_record_failed by blast
  then show ?thesis using disk_frame[OF inv(2), of st'] by (simp add: same_table_def held_records_def)
next
  case (Inr u)
  have bytes: "sat_add_u64 (bf_bytes st) (record_cost r) = bf_bytes st + record_cost r" "bf_bytes st + record_cost r \<le> limit"
    using room limit by (auto simp: capacity_full_def sat_add_u64_def min_def split: if_splits)
  show ?thesis
  proof (rule store_record_stored[OF run[unfolded Inr]])
    fix s
    assume ok: "high (bf_db st) < s" "rows_of db st' = rows_of db st @ [r\<lparr>mr_local_seq := s\<rparr>]"
      "bf_mem st' = (if bf_load_error st = None \<and> held st < lc_memory_records c then bf_mem st @ [r\<lparr>mr_local_seq := s\<rparr>] else bf_mem st)"
      "bf_inflight st' = bf_inflight st" "bf_acked st' = bf_acked st" "bf_bytes st' = sat_add_u64 (bf_bytes st) (record_cost r)"
    have "s \<notin> bf_acked st" using window_invD(7)[OF inv(1), of s] ok(1) by auto
    then have "stale st' = stale st" using ok by (simp add: stale_def held_records_def)
    then show ?thesis using inv(2) bytes by (simp add: disk_inv_def ok)
  qed
qed

lemma flush_pending_push_disk:
  assumes inv: "window_inv db high c st" "caught_up db c st" "disk_inv missing limit db st"
    and limit: "lc_disk_max_bytes c \<le> limit" "lc_disk_max_bytes c < U64_MAX"
  shows "disk_inv missing limit db (snd (flush_pending_push db c st))"
proof -
  have "(window_inv db high c (snd (flush_pending_push db c st)) \<and> caught_up db c (snd (flush_pending_push db c st))) \<and>
      disk_inv missing limit db (snd (flush_pending_push db c st))"
  proof (rule flush_pending_push_inv[where P = "\<lambda>y. (window_inv db high c y \<and> caught_up db c y) \<and> disk_inv missing limit db y"], goal_cases)
    case (2 y p rest res y1)
    let ?y = "y\<lparr>bf_pending_push := rest\<rparr>"
    have w: "window_inv db high c ?y" "caught_up db c ?y" "disk_inv missing limit db ?y"
      using 2(1) disk_frame[of missing limit y ?y] by (simp_all add: window_simps held_records_def)
    have "disk_inv missing limit db y1"
      by (rule store_record_disk[OF w(1,3) _ limit 2(4)]) (use 2(3) in \<open>simp add: capacity_full_def\<close>)
    then have "disk_inv missing limit db (answer_all (mr_message_id (pu_record p)) res (pu_replies p) y1)"
      by (rule disk_frame) (simp_all add: answer_all_eq held_records_def)
    then show ?case using store_record_window[OF w(1,2) 2(4)] by (simp add: window_simps)
  qed (use inv in simp)
  then show ?thesis by simp
qed

lemma cleanup_expired_disk:
  assumes inv: "window_inv db high c st" "disk_inv missing limit db st" and run: "cleanup_expired db cutoff st = (res, st')"
  shows "disk_inv missing limit db st'"
proof -
  define ex where "ex = filter (\<lambda>r. mr_created_at_ns r < cutoff) (bf_mem st)"
  obtain rr d where del: "db_delete_all db (map mr_local_seq ex) (bf_db st) = (rr, d)" by force
  show ?thesis
  proof (cases "ex = [] \<or> isl rr")
    case True
    then have "st' = st \<or> st' = st\<lparr>bf_db := d\<rparr> \<and> db_rows db d = rows_of db st"
      using run del delete_all_fails[of "map mr_local_seq ex" "bf_db st"]
      by (cases rr) (auto simp: cleanup_expired_def ex_def same_table_def Let_def split: if_splits)
    then show ?thesis using inv(2) disk_frame[OF inv(2), of st'] by (auto simp: held_records_def)
  next
    case False
    then obtain u where u: "rr = Inr u" and ne: "ex \<noteq> []" by (cases rr) auto
    have st': "bf_mem st' = filter (\<lambda>r. mr_local_seq r \<notin> mr_local_seq ` set ex) (bf_mem st)" "bf_db st' = d"
        "bf_inflight st' = bf_inflight st" "bf_acked st' = bf_acked st" "bf_bytes st' = bf_bytes st - table_cost ex"
      using run del u ne by (auto simp: cleanup_expired_def ex_def Let_def table_cost_def)
    have rows: "db_rows db d = filter (\<lambda>r. mr_local_seq r \<notin> mr_local_seq ` set ex) (rows_of db st)"
      using delete_all_ok del u by auto
    have dist: "distinct (map mr_local_seq (bf_mem st))" using window_invD(2)[OF inv(1)] by (simp add: held_records_def)
    define live where "live = filter (\<lambda>r. mr_local_seq r \<notin> bf_acked st) ex"
    have "table_cost live = table_cost (filter (\<lambda>x. mr_local_seq x \<in> mr_local_seq ` set live) (rows_of db st))"
      using dist by (intro held_cost_rows[OF inv(1)]) (auto simp: live_def ex_def held_records_def distinct_map_filter)
    also have "filter (\<lambda>x. mr_local_seq x \<in> mr_local_seq ` set live) (rows_of db st) =
        filter (\<lambda>x. mr_local_seq x \<in> mr_local_seq ` set ex) (rows_of db st)"
    proof (rule filter_cong[OF refl])
      fix x assume x: "x \<in> set (rows_of db st)"
      then have "mr_local_seq x \<notin> bf_acked st" using window_invD(8)[OF inv(1), of "mr_local_seq x"] by blast
      then show "mr_local_seq x \<in> mr_local_seq ` set live \<longleftrightarrow> mr_local_seq x \<in> mr_local_seq ` set ex" by (auto simp: live_def)
    qed
    finally have live: "table_cost (rows_of db st') + table_cost live = table_cost (rows_of db st)"
      using table_cost_split[of "rows_of db st" "\<lambda>x. mr_local_seq x \<in> mr_local_seq ` set ex"] by (simp add: st' rows)
    have mem': "bf_mem st' = filter (\<lambda>r. \<not> mr_created_at_ns r < cutoff) (bf_mem st)"
      unfolding st' using dist by (intro filter_cong) (auto simp: ex_def distinct_map inj_on_def)
    have "table_cost (filter (\<lambda>r. mr_local_seq r \<in> bf_acked st) (bf_mem st)) =
        table_cost (filter (\<lambda>r. mr_local_seq r \<in> bf_acked st) ex) + table_cost (filter (\<lambda>r. mr_local_seq r \<in> bf_acked st) (bf_mem st'))"
      using table_cost_split[of "filter (\<lambda>r. mr_local_seq r \<in> bf_acked st) (bf_mem st)" "\<lambda>r. mr_created_at_ns r < cutoff"]
      by (simp add: ex_def mem' conj_commute)
    then have "table_cost (stale st) = table_cost (filter (\<lambda>r. mr_local_seq r \<in> bf_acked st) ex) + table_cost (stale st')"
      by (simp add: stale_def held_records_def st'(3,4))
    then show ?thesis
      using inv(2) live table_cost_split[of ex "\<lambda>r. mr_local_seq r \<in> bf_acked st"]
      unfolding disk_inv_def st'(5) live_def by (elim conjE, intro conjI) linarith+
  qed
qed

end
text \<open>An acknowledged row: its record leaves the window, or it becomes stale.\<close>

lemma stale_acked:
  assumes "s \<notin> bf_acked st" "bf_acked st' = insert s (bf_acked st)" "held_records st' = held_records st"
  shows "table_cost (stale st') = table_cost (filter (\<lambda>r. mr_local_seq r = s) (held_records st)) + table_cost (stale st)"
proof -
  have "filter (\<lambda>r. mr_local_seq r = s) (stale st') = filter (\<lambda>r. mr_local_seq r = s) (held_records st)"
    by (auto simp: stale_def assms intro: filter_cong)
  moreover have "filter (\<lambda>r. mr_local_seq r \<noteq> s) (stale st') = stale st"
    using assms(1) by (auto simp: stale_def assms(2,3) intro: filter_cong)
  ultimately show ?thesis using table_cost_split[of "stale st'" "\<lambda>r. mr_local_seq r = s"] by simp
qed

lemma stale_released:
  assumes "s \<notin> bf_acked st" "bf_acked st' = insert s (bf_acked st)" "mset (held_records st) = add_mset r (mset (held_records st'))"
    and "mr_local_seq r = s" "distinct (map mr_local_seq (held_records st))"
  shows "table_cost (stale st') = table_cost (stale st)" and "table_cost (filter (\<lambda>r. mr_local_seq r = s) (held_records st)) = record_cost r"
proof -
  have seqs: "mset (map mr_local_seq (held_records st)) = mset (s # map mr_local_seq (held_records st'))" using assms(3,4) by simp
  have out: "s \<notin> held_seqs st'" using assms(5) mset_eq_imp_distinct_iff[OF seqs] by simp
  have "mset (stale st) = mset (stale st')"
  proof -
    have "mset (stale st) = filter_mset (\<lambda>r. mr_local_seq r \<in> bf_acked st) (mset (held_records st'))"
      using assms(1,4) by (simp add: stale_def mset_filter assms(3))
    also have "\<dots> = mset (stale st')"
      using out by (auto simp: stale_def mset_filter assms(2) intro!: filter_mset_cong)
    finally show ?thesis .
  qed
  then show "table_cost (stale st') = table_cost (stale st)" by (intro table_cost_mset) simp
  have none: "filter_mset (\<lambda>r. mr_local_seq r = s) (mset (held_records st')) = {#}" using out by (auto simp: filter_mset_eq_conv)
  have "mset (filter (\<lambda>r. mr_local_seq r = s) (held_records st)) = mset [r]"
    unfolding mset_filter assms(3) by (simp add: assms(4) none)
  from table_cost_mset[OF this] show "table_cost (filter (\<lambda>r. mr_local_seq r = s) (held_records st)) = record_cost r" by simp
qed

context wal_db
begin

lemma acked_row_cost:
  assumes inv: "window_inv db high c st" and s: "s \<notin> bf_acked st"
  shows "table_cost (filter (\<lambda>r. mr_local_seq r = s) (held_records st)) \<le> table_cost (filter (\<lambda>x. mr_local_seq x = s) (rows_of db st))"
proof -
  define A where "A = filter (\<lambda>r. mr_local_seq r = s) (held_records st)"
  have "distinct (map mr_local_seq A)" unfolding A_def by (rule distinct_map_filter[OF window_invD(2)[OF inv]])
  then have cost: "table_cost A = table_cost (filter (\<lambda>x. mr_local_seq x \<in> mr_local_seq ` set A) (rows_of db st))"
    using s by (intro held_cost_rows[OF inv]) (auto simp: A_def)
  show ?thesis
  proof (cases "A = []")
    case True
    then show ?thesis by (simp add: A_def)
  next
    case False
    then have "mr_local_seq ` set A = {s}" using hd_in_set[of A] by (auto simp: A_def)
    then show ?thesis using cost by (simp add: A_def)
  qed
qed

lemma handle_ack_disk:
  assumes inv: "window_inv db high c st" "disk_inv missing limit db st" and run: "handle_ack db s st = (res, st')"
  shows "disk_inv missing limit db st'"
proof -
  obtain y d where del: "db_delete db s (bf_db st) = (y, d)" by force
  show ?thesis
  proof (cases y)
    case (Inl e)
    then have "st' = st\<lparr>bf_db := d\<rparr>" using run del by (simp add: handle_ack_def)
    then show ?thesis using disk_frame[OF inv(2), of st'] delete_fails del Inl by (simp add: same_table_def held_records_def)
  next
    case (Inr k)
    note ok = delete_ok[of s "bf_db st" k d, OF del[unfolded Inr]]
    show ?thesis
    proof (cases "0 < k")
      case False
      then have "st' = st\<lparr>bf_db := d\<rparr>" using run del Inr by (simp add: handle_ack_def)
      moreover have "filter (\<lambda>r. mr_local_seq r \<noteq> s) (rows_of db st) = rows_of db st" using ok False by (intro filter_True) auto
      ultimately show ?thesis using disk_frame[OF inv(2), of st'] ok by (simp add: held_records_def)
    next
      case True
      then have new: "s \<notin> bf_acked st" using ok window_invD(8)[OF inv(1), of s] by blast
      have st': "bf_db st' = d" "bf_mem st' = bf_mem st" "bf_acked st' = insert s (bf_acked st)"
        using run del Inr True by (auto simp: handle_ack_def upd_metrics_def Let_def split: option.splits)
      have A: "table_cost (filter (\<lambda>r. mr_local_seq r = s) (held_records st)) + table_cost (rows_of db st') \<le> table_cost (rows_of db st)"
        using acked_row_cost[OF inv(1) new] table_cost_split[of "rows_of db st" "\<lambda>x. mr_local_seq x = s"] ok by (simp add: st')
      show ?thesis
      proof (cases "map_of (bf_inflight st) s")
        case None
        then have rest: "bf_inflight st' = bf_inflight st" "bf_bytes st' = bf_bytes st"
          using run del Inr True by (auto simp: handle_ack_def upd_metrics_def Let_def)
        have "held_records st' = held_records st" by (simp add: held_records_def st' rest)
        from stale_acked[OF new st'(3) this] show ?thesis using inv(2) A unfolding disk_inv_def rest by simp
      next
        case (Some r)
        then have rest: "bf_inflight st' = AList.delete s (bf_inflight st)" "bf_bytes st' = bf_bytes st - record_cost r"
          using run del Inr True by (auto simp: handle_ack_def upd_metrics_def Let_def)
        have "mset (held_records st) = add_mset r (mset (held_records st'))"
          using mset_delete_alist[OF window_inflight_distinct(1)[OF inv(1)] Some, symmetric] by (simp add: held_records_def st' rest)
        note released = stale_released[OF new st'(3) this window_invD(3)[OF inv(1) map_of_SomeD[OF Some]] window_invD(2)[OF inv(1)]]
        show ?thesis using inv(2) A released unfolding disk_inv_def rest by (elim conjE, intro conjI) linarith+
      qed
    qed
  qed
qed


lemma load_more_disk:
  assumes inv: "window_inv db high c st" "disk_inv missing limit db st" and run: "load_more db c st = (res, st')"
  shows "disk_inv missing limit db st'"
proof (cases res)
  case (Inl e)
  then obtain d where "same_table db high (bf_db st) d" "st' = st\<lparr>bf_db := d\<rparr>" using run load_more_failed by blast
  then show ?thesis using disk_frame[OF inv(2), of st'] by (simp add: same_table_def held_records_def)
next
  case (Inr b)
  define rs where "rs = take (lc_memory_records c - held st) (unheld_rows db st)"
  obtain d where d: "same_table db high (bf_db st) d" and st': "st' = st\<lparr>bf_db := d, bf_mem := bf_mem st @ rs,
      bf_last_loaded_seq := (if rs = [] then bf_last_loaded_seq st else mr_local_seq (last rs))\<rparr>"
    using load_more_result[OF inv(1) run[unfolded Inr]] unfolding rs_def by blast
  have "mr_local_seq x \<notin> bf_acked st" if "x \<in> set rs" for x
  proof -
    have "x \<in> set (rows_of db st)" using that by (auto simp: rs_def unheld_rows_def dest: in_set_takeD)
    then show ?thesis using window_invD(8)[OF inv(1), of "mr_local_seq x"] by blast
  qed
  then have "stale st' = stale st" by (auto simp: st' stale_def held_records_def)
  then show ?thesis using inv(2) d by (simp add: disk_inv_def st' same_table_def)
qed

lemma handle_next_disk:
  assumes inv: "window_inv db high c st" "disk_inv missing limit db st" and run: "handle_next db cd st = (res, st')"
  shows "disk_inv missing limit db st'"
proof (cases "\<exists>y. res = Inr (Some y)")
  case False
  have "rows_of db st' = rows_of db st \<and> held_records st' = held_records st \<and> bf_acked st' = bf_acked st \<and> bf_bytes st' = bf_bytes st"
    using False run update_fails
    by (auto simp: handle_next_def Let_def upd_metrics_def same_table_def held_records_def
        split: list.splits option.splits prod.splits sum.splits if_splits)
  then show ?thesis using disk_frame[OF inv(2)] by blast
next
  case True
  then obtain r rest n u d where st: "bf_mem st = r # rest" "db_update_sent db (mr_local_seq r) n (bf_db st) = (Inr u, d)"
      and st': "bf_db st' = d" "bf_mem st' = rest"
        "bf_inflight st' = AList.update (mr_local_seq r) (r\<lparr>mr_sent_count := n\<rparr>) (bf_inflight st)"
        "bf_acked st' = bf_acked st" "bf_bytes st' = bf_bytes st"
    using run by (auto simp: handle_next_def Let_def upd_metrics_def split: list.splits option.splits prod.splits sum.splits if_splits)
  have "table_cost (db_rows db d) = table_cost (rows_of db st)"
    using update_ok[OF st(2)] by (simp add: table_cost_def comp_def if_distrib cong: if_cong)
  moreover have "mr_local_seq r \<notin> fst ` set (bf_inflight st)"
    using window_invD(2)[OF inv(1)] window_inflight_distinct(2)[OF inv(1)] by (auto simp: held_records_def st)
  then have "bf_inflight st' = bf_inflight st @ [(mr_local_seq r, r\<lparr>mr_sent_count := n\<rparr>)]"
    unfolding st' by (rule alist_update_new)
  then have "table_cost (stale st') = table_cost (stale st)" by (simp add: stale_def held_records_def st st'(2,4))
  ultimately show ?thesis using inv(2) by (simp add: disk_inv_def st')
qed

lemma push_new_disk:
  assumes inv: "window_inv db high c st" "disk_inv missing limit db st" and limit: "lc_disk_max_bytes c \<le> limit" "lc_disk_max_bytes c < U64_MAX"
  shows "disk_inv missing limit db (push_new db c reply r st)"
proof -
  obtain res st1 where store: "store_record db c r st = (res, st1)" by force
  have "disk_inv missing limit db st1" if "\<not> capacity_full c (record_cost r) st"
    by (rule store_record_disk[OF inv that limit store])
  moreover have "disk_inv missing limit db (answer a st1) = disk_inv missing limit db st1" for a
    by (simp add: disk_inv_def stale_def held_records_def answer_def)
  ultimately show ?thesis
    using inv(2) by (auto simp: push_new_def Let_def store disk_inv_def stale_def held_records_def answer_def upd_metrics_def
        split: capacity_policy.splits)
qed

lemma push_inner_disk:
  assumes inv: "window_inv db high c st" "disk_inv missing limit db st" and limit: "lc_disk_max_bytes c \<le> limit" "lc_disk_max_bytes c < U64_MAX"
  shows "disk_inv missing limit db (push_inner db cd c now b reply st)"
proof -
  have new: "disk_inv missing limit db (push_new db c reply r (st\<lparr>bf_db := d\<rparr>))" if "db_find db m (bf_db st) = (x, d)" for m x d r
    using find_keeps[OF that] window_db(1)[OF inv(1)] disk_frame[OF inv(2), of "st\<lparr>bf_db := d\<rparr>"]
    by (intro push_new_disk limit) (auto simp: same_table_def held_records_def)
  have found: "db_rows db d = rows_of db st" if "db_find db m (bf_db st) = (x, d)" for m x d
    using find_keeps[OF that] by (simp add: same_table_def)
  have same: "disk_inv missing limit db (answer a (st\<lparr>bf_db := d\<rparr>))" if "db_rows db d = rows_of db st" for a d
    using inv(2) that by (simp add: disk_inv_def stale_def held_records_def answer_def)
  have stay: "disk_inv missing limit db (answer a st)" "disk_inv missing limit db (st\<lparr>bf_pending_push := ps\<rparr>)" for a ps
    using inv(2) by (simp_all add: disk_inv_def stale_def held_records_def answer_def)
  show ?thesis
    unfolding push_inner_def Let_def
    by (auto simp: stay new intro!: same dest: found split: prod.splits sum.splits option.splits)
qed

lemma confirm_disk:
  assumes "window_inv db high c st" "disk_inv missing limit db st"
  shows "disk_inv missing limit db (snd (check_pending_confirm dlv st))"
  using assms(2) stale_mset[OF check_pending_confirm_window(2)[OF assms(1)] check_pending_confirm_frame(3)]
  by (simp add: disk_inv_def)

lemma requeue_disk:
  assumes "window_inv db high c st" "disk_inv missing limit db st"
  shows "disk_inv missing limit db (handle_requeue s st)"
  using assms(2) stale_mset[OF handle_requeue_held[OF window_inflight_distinct(1)[OF assms(1)]] handle_requeue_frame(3)]
  by (simp add: disk_inv_def)

lemma handle_cmd_disk:
  assumes inv: "window_inv db high c st" "disk_inv missing limit db st" and limit: "lc_disk_max_bytes c \<le> limit" "lc_disk_max_bytes c < U64_MAX"
  shows "disk_inv missing limit db (handle_cmd db cd c gone now cmd st)"
proof (cases cmd)
  case (CM_Push b reply)
  have "disk_inv missing limit db (prune_cancelled_waiters gone st)"
    by (rule disk_frame[OF inv(2)]) (simp_all add: prune_cancelled_waiters_def held_records_def)
  moreover have "window_inv db high c (prune_cancelled_waiters gone st)" using inv(1) by (simp add: prune_cancelled_waiters_def window_simps)
  ultimately show ?thesis using push_inner_disk limit by (simp add: CM_Push handle_cmd_def)
next
  case (CM_Next reply delivered)
  obtain res st1 where n: "handle_next db cd st = (res, st1)" by force
  note i = handle_next_window[OF inv(1) n] handle_next_disk[OF inv n]
  have "disk_inv missing limit db (answer a (st1\<lparr>bf_pending_confirm := cs\<rparr>))" for a cs
    by (rule disk_frame[OF i(2)]) (simp_all add: answer_def held_records_def)
  moreover have "disk_inv missing limit db (answer a st1)" for a
    by (rule disk_frame[OF i(2)]) (simp_all add: answer_def held_records_def)
  ultimately show ?thesis
    using requeue_disk[OF i] by (auto simp: CM_Next handle_cmd_def n finish_next_def split: sum.splits option.splits)
next
  case (CM_Ack s reply)
  obtain res st1 where a: "handle_ack db s st = (res, st1)" by force
  have "disk_inv missing limit db (answer x st1)" for x
    by (rule disk_frame[OF handle_ack_disk[OF inv a]]) (simp_all add: answer_def held_records_def)
  then show ?thesis by (simp add: CM_Ack handle_cmd_def a)
next
  case (CM_Requeue s reply)
  have "disk_inv missing limit db (answer x (handle_requeue s st))" for x
    by (rule disk_frame[OF requeue_disk[OF inv]]) (simp_all add: answer_def held_records_def)
  then show ?thesis by (simp add: CM_Requeue handle_cmd_def)
next
  case (CM_Shutdown reply)
  then show ?thesis
    by (intro disk_frame[OF inv(2)]) (simp_all add: handle_cmd_def shutdown_answers_eq answer_def held_records_def)
qed

lemma upkeep_disk:
  assumes inv: "window_inv db high c st" "disk_inv missing limit db st" and limit: "lc_disk_max_bytes c \<le> limit" "lc_disk_max_bytes c < U64_MAX"
    and run: "upkeep db c dlv now st = (progress, st')"
  shows "disk_inv missing limit db st'"
  using inv(1) run
proof (rule upkeep_stages)
  fix requeued st1 cleaned st2 st3 loaded st4 st5 flushed
  assume stages: "check_pending_confirm dlv st = (requeued, st1)"
    "cleanup_expired db (now - int (lc_retention_ns c)) st1 = (cleaned, st2)"
    "st3 = (case cleaned of Inl e \<Rightarrow> st2 | Inr (n, bytes) \<Rightarrow> upd_metrics (observe_expired n bytes) st2)"
    "load_more db c st3 = (loaded, st4)"
    and st5_def: "st5 = (case loaded of Inl e \<Rightarrow> st4\<lparr>bf_load_error := Some e\<rparr> | Inr True \<Rightarrow> st4\<lparr>bf_load_error := None\<rparr> | Inr False \<Rightarrow> st4)"
    and flush: "flush_pending_push db c st5 = (flushed, st')"
    and invs: "window_inv db high c st1" "window_inv db high c st3" "window_inv db high c st5" "caught_up db c st5"
  have "disk_inv missing limit db st1" using confirm_disk[OF inv, of dlv] stages(1) by simp
  then have d2: "disk_inv missing limit db st2" using cleanup_expired_disk[OF invs(1)] stages(2) by blast
  have "disk_inv missing limit db st3"
    by (rule disk_frame[OF d2]) (simp_all add: stages(3) upd_metrics_def held_records_def split: sum.splits prod.splits)
  then have d4: "disk_inv missing limit db st4" using load_more_disk[OF invs(2)] stages(4) by blast
  have "disk_inv missing limit db st5"
    by (rule disk_frame[OF d4]) (simp_all add: st5_def held_records_def split: sum.splits bool.splits)
  from flush_pending_push_disk[OF invs(3,4) this limit] show ?thesis using flush by simp
qed

lemma buffer_reach_disk:
  assumes reach: "buffer_reach db cd c d st" and max: "lc_disk_max_bytes c < U64_MAX"
  defines "rec \<equiv> recovered_bytes text_length (db_rows db d)"
  shows "disk_inv (table_cost (db_rows db d) - rec) (max (lc_disk_max_bytes c) rec) db st"
  using reach
proof induction
  case (br_open st)
  note o = buffer_open_result[OF br_open]
  have "rows_of db st = db_rows db d" using o(1) by (simp add: same_table_def)
  then have "bf_bytes st = rec" using o(4) by (simp add: rec_def recovered_bytes_def)
  then show ?case using o(6) \<open>rows_of db st = db_rows db d\<close> by (simp add: disk_inv_def stale_def)
next
  case (br_step st x st')
  let ?D = "disk_inv (table_cost (db_rows db d) - rec) (max (lc_disk_max_bytes c) rec) db"
  note inv = buffer_reach_window[OF br_step(1)]
  have pc: "?D (y\<lparr>bf_pc := p\<rparr>) = ?D y" "?D (answer a y) = ?D y" for y p a
    by (simp_all add: disk_inv_def stale_def held_records_def answer_def)
  show ?case
  proof (cases x)
    case (BX_Upkeep dlv now)
    obtain p st1 where up: "upkeep db c dlv now st = (p, st1)" by force
    have "?D st1" by (rule upkeep_disk[OF inv(1) br_step(3) _ max up]) simp
    then show ?thesis using br_step(2) up by (auto simp: BX_Upkeep pc split: if_splits)
  next
    case (BX_Cmd dlv gone now cmd)
    let ?st = "st\<lparr>bf_pc := BP_Top\<rparr>"
    have w: "window_inv db high c ?st" "?D ?st" using inv(1) br_step(3) pc by (simp_all add: window_simps)
    have "?D (handle_cmd db cd c gone now cmd (snd (check_pending_confirm dlv ?st)))"
      by (rule handle_cmd_disk[OF check_pending_confirm_window(1)[OF w(1)] confirm_disk[OF w] _ max]) simp
    then show ?thesis using br_step(2) by (auto simp: BX_Cmd split: if_splits)
  qed (use br_step in \<open>auto simp: pc reject_cmd_def split: if_splits buffer_pc.splits\<close>)
qed

end

text \<open>C37: The estimated size of the table of the local buffer never exceeds the configured limit, or its size at start when that was
  already larger, plus what recovery does not count: it measures topics and message numbers in characters, a pushed record in bytes.\<close>

theorem disk_within_limit:
  assumes "wal_db db high text_length" "buffer_reach db cd c d st" "lc_disk_max_bytes c < U64_MAX"
  shows "table_cost (db_rows db (bf_db st)) \<le>
    max (lc_disk_max_bytes c) (recovered_bytes text_length (db_rows db d)) +
    (table_cost (db_rows db d) - recovered_bytes text_length (db_rows db d))"
  using wal_db.buffer_reach_disk[OF assms] by (simp add: disk_inv_def)

theorem disk_within_limit_witness:
  "\<exists>st. buffer_reach table_db example_codec example_buffer example_table st \<and> table_cost (table_rows (bf_db st)) \<le> 1200"
proof -
  obtain st where st: "example_steps (example_buffer_trace @ [BX_Timeout]) = Some st"
    using example_idle unfolding case_option_Some by blast
  have "db_rows table_db = table_rows" "table_rows example_table = []" "lc_disk_max_bytes example_buffer = 1200"
    by (simp_all add: table_db_def table_rows_def example_table_def List.map_filter_def example_buffer_def)
  then show ?thesis
    using disk_within_limit[OF table.wal_db_axioms example_reach[OF st]] example_reach[OF st]
    by (intro exI[of _ st]) (simp add: recovered_bytes_def U64_MAX_def)
qed

end
