(* ===== verification/Driver_Loader.thy ===== *)
theory Driver_Loader
  imports Modbus_Driver Control_Operation
begin

text \<open>
  The way of a control action from the executor to the wire: \<^verbatim>\<open>crates/driver-loader/src/driver.rs\<close> and \<^verbatim>\<open>error.rs\<close> (calls through the
  function table of a plugin), \<^verbatim>\<open>crates/device-manager/src/session.rs\<close> (the session of a device) and \<^verbatim>\<open>control_exec.rs\<close> (the
  executor). The plugin is the Modbus driver of \<^verbatim>\<open>Modbus_Driver\<close>. The JSON text of envelopes is not modelled: an argument tells
  whether the text of a response, or of an error, can be read. Loading a library and the lock around a session are not
  modelled; a call holds the lock for its whole duration.
\<close>

section \<open>Errors of the loader\<close>

datatype loader_error =
    LE_LoadFailed
  | LE_EntryNotFound
  | LE_InvalidEntryName
  | LE_NullEntry
  | LE_StructTooSmall
  | LE_AbiIncompatible
  | LE_ManifestAbiMismatch
  | LE_MissingFunction
  | LE_CreateFailed "driver_error_info option"
  | LE_CallFailed string int "driver_error_info option"
  | LE_EmptyResponse string
  | LE_InvalidUtf8 string
  | LE_InvalidResponse string
  | LE_InvalidHandle
  | LE_Encoding

fun loader_code :: "loader_error \<Rightarrow> string" where
  "loader_code LE_LoadFailed = ''driver_load_failed''"
| "loader_code LE_EntryNotFound = ''driver_entry_not_found''"
| "loader_code LE_InvalidEntryName = ''driver_manifest_entry_invalid''"
| "loader_code LE_NullEntry = ''driver_entry_null''"
| "loader_code LE_StructTooSmall = ''driver_struct_too_small''"
| "loader_code LE_AbiIncompatible = ''driver_abi_incompatible''"
| "loader_code LE_ManifestAbiMismatch = ''driver_manifest_abi_mismatch''"
| "loader_code LE_MissingFunction = ''driver_missing_function''"
| "loader_code (LE_CreateFailed _) = ''driver_create_failed''"
| "loader_code (LE_CallFailed _ _ _) = ''driver_call_failed''"
| "loader_code (LE_EmptyResponse _) = ''driver_empty_response''"
| "loader_code (LE_InvalidUtf8 _) = ''driver_invalid_utf8''"
| "loader_code (LE_InvalidResponse _) = ''driver_invalid_response''"
| "loader_code LE_InvalidHandle = ''driver_invalid_handle''"
| "loader_code LE_Encoding = ''driver_encoding_error''"

section \<open>Calls through the function table\<close>

record native_driver =
  nd_handle :: "modbus_driver option"
  nd_connected :: bool

text \<open>How the text of a response reads, whether the text of an error can be read, and whether a request can be written.\<close>

datatype reading = RD_Ok | RD_NotUtf8 | RD_NotJson

record envelopes =
  ev_response :: reading
  ev_error :: bool
  ev_request :: bool

definition take_response :: "string \<Rightarrow> reading \<Rightarrow> 'a option \<Rightarrow> loader_error + 'a" where
  "take_response f rd out =
     (case out of
        None \<Rightarrow> Inl (LE_EmptyResponse f)
      | Some x \<Rightarrow> (case rd of RD_Ok \<Rightarrow> Inr x | RD_NotUtf8 \<Rightarrow> Inl (LE_InvalidUtf8 f) | RD_NotJson \<Rightarrow> Inl (LE_InvalidResponse f)))"

definition fetch_error :: "bool \<Rightarrow> modbus_driver option \<Rightarrow> driver_error_info option" where
  "fetch_error readable h =
     (case fst (api_get_last_error h) of
        (status, out) \<Rightarrow>
          if status \<noteq> 0 then None
          else (case out of Some (Some info) \<Rightarrow> if readable then Some info else None | _ \<Rightarrow> None))"

definition call_failed :: "string \<Rightarrow> int \<Rightarrow> envelopes \<Rightarrow> modbus_driver option \<Rightarrow> loader_error" where
  "call_failed f status ev h = LE_CallFailed f status (fetch_error (ev_error ev) h)"

text \<open>The common shape of a call with a result.\<close>

definition native_call ::
  "string \<Rightarrow> envelopes \<Rightarrow> (modbus_driver option \<Rightarrow> (int \<times> 'a option) \<times> modbus_driver option) \<Rightarrow> (native_driver, loader_error, 'a) st" where
  "native_call f ev entry nd =
     (case entry (nd_handle nd) of
        ((status, out), h) \<Rightarrow>
          (if status \<noteq> 0 then Inl (call_failed f status ev h) else take_response f (ev_response ev) out, nd\<lparr>nd_handle := h\<rparr>))"

text \<open>A handle that was not created is dropped after its error was read.\<close>

definition native_create ::
  "(string \<Rightarrow> modbus_config option) \<Rightarrow> connect_outcome list \<Rightarrow> stream option list \<Rightarrow> envelopes \<Rightarrow> ffi_str \<Rightarrow> loader_error + native_driver" where
  "native_create parse_json connects opens ev config =
     (case api_create parse_json connects opens config of
        (status, d) \<Rightarrow>
          if status \<noteq> 0 then Inl (LE_CreateFailed (fetch_error (ev_error ev) (Some d)))
          else Inr \<lparr>nd_handle = Some d, nd_connected = False\<rparr>)"

definition native_connect :: "envelopes \<Rightarrow> (native_driver, loader_error, unit) st" where
  "native_connect ev nd =
     (case api_connect (nd_handle nd) of
        ((status, _), h) \<Rightarrow>
          if status \<noteq> 0 then (Inl (call_failed ''connect'' status ev h), nd\<lparr>nd_handle := h\<rparr>)
          else (Inr (), nd\<lparr>nd_handle := h, nd_connected := True\<rparr>))"

definition native_disconnect :: "envelopes \<Rightarrow> (native_driver, loader_error, unit) st" where
  "native_disconnect ev nd =
     (case api_disconnect (nd_handle nd) of
        (status, h) \<Rightarrow>
          if status \<noteq> 0 then (Inl (call_failed ''disconnect'' status ev h), nd\<lparr>nd_handle := h\<rparr>)
          else (Inr (), nd\<lparr>nd_handle := h, nd_connected := False\<rparr>))"

definition ffi_str_of :: "string \<Rightarrow> ffi_str" where
  "ffi_str_of s = \<lparr>fs_null = False, fs_bytes = string_bytes s\<rparr>"

definition native_validate_address :: "envelopes \<Rightarrow> string \<Rightarrow> (native_driver, loader_error, address_metadata) st" where
  "native_validate_address ev address = native_call ''validate_address'' ev (api_validate_address (ffi_str_of address))"

definition native_read :: "envelopes \<Rightarrow> (nat \<Rightarrow> timestamp_ns) \<Rightarrow> driver_read_item list \<Rightarrow> (native_driver, loader_error, raw_read_result list) st" where
  "native_read ev clock items =
     native_call ''read'' ev (api_read clock (Some (map (\<lambda>item.
       \<lparr>fr_id = ri_id item, fr_address = ffi_str_of (ri_address item), fr_expected_type = data_type_to_tag (ri_expected_type item)\<rparr>) items)))"

fun tag_for_value :: "raw_value \<Rightarrow> loader_error + type_tag" where
  "tag_for_value (RV_Bool _) = Inr Tag_Bool"
| "tag_for_value (RV_I64 _) = Inr Tag_I64"
| "tag_for_value (RV_U64 _) = Inr Tag_U64"
| "tag_for_value (RV_F64 _) = Inr Tag_F64"
| "tag_for_value (RV_String _) = Inr Tag_String"
| "tag_for_value (RV_Bytes _) = Inr Tag_Bytes"
| "tag_for_value (RV_Array _) = Inl LE_Encoding"
| "tag_for_value (RV_Struct _) = Inl LE_Encoding"

fun encode_write_items :: "driver_write_item list \<Rightarrow> loader_error + ffi_write_item list" where
  "encode_write_items [] = Inr []"
| "encode_write_items (item # items) =
     res_bind (tag_for_value (dwi_value item)) (\<lambda>tag.
     res_bind (res_map_err (\<lambda>_. LE_Encoding) (encode_value_bytes (tag_num tag) (dwi_value item))) (\<lambda>bytes.
     res_bind (encode_write_items items) (\<lambda>rest.
       Inr (\<lparr>fw_id = dwi_id item, fw_address = ffi_str_of (dwi_address item), fw_value_type = tag_num tag, fw_value_bytes = bytes\<rparr> # rest))))"

definition native_write :: "envelopes \<Rightarrow> driver_write_item list \<Rightarrow> (native_driver, loader_error, raw_write_result list) st" where
  "native_write ev items nd =
     (case encode_write_items items of
        Inl e \<Rightarrow> (Inl e, nd)
      | Inr ffi_items \<Rightarrow> native_call ''write'' ev (api_write (Some ffi_items)) nd)"

text \<open>The Modbus driver answers \<^verbatim>\<open>execute\<close> with \<^verbatim>\<open>unsupported\<close>.\<close>

definition native_execute :: "envelopes \<Rightarrow> driver_command \<Rightarrow> (native_driver, loader_error, raw_command_result) st" where
  "native_execute ev command nd =
     (if \<not> ev_request ev then (Inl LE_Encoding, nd)
      else native_call ''execute'' ev (\<lambda>h. map_prod (map_prod id (\<lambda>_. None)) id (api_unsupported h)) nd)"

section \<open>The session of a device\<close>

fun map_loader_error :: "loader_error \<Rightarrow> driver_error_info" where
  "map_loader_error (LE_CallFailed f status (Some info)) = info"
| "map_loader_error (LE_CallFailed f status None) =
     \<lparr>ei_code = loader_code (LE_CallFailed f status None), ei_protocol_code = None, ei_retryable = True\<rparr>"
| "map_loader_error e = \<lparr>ei_code = loader_code e, ei_protocol_code = None, ei_retryable = False\<rparr>"

definition session_read_batch ::
  "envelopes \<Rightarrow> (nat \<Rightarrow> timestamp_ns) \<Rightarrow> driver_read_item list \<Rightarrow> (native_driver, driver_error_info, raw_read_result list) st" where
  "session_read_batch ev clock items nd = map_prod (res_map_err map_loader_error) id (native_read ev clock items nd)"

definition session_write_batch :: "envelopes \<Rightarrow> driver_write_item list \<Rightarrow> (native_driver, driver_error_info, raw_write_result list) st" where
  "session_write_batch ev items nd = map_prod (res_map_err map_loader_error) id (native_write ev items nd)"

definition session_execute_command :: "envelopes \<Rightarrow> driver_command \<Rightarrow> (native_driver, driver_error_info, raw_command_result) st" where
  "session_execute_command ev command nd = map_prod (res_map_err map_loader_error) id (native_execute ev command nd)"

section \<open>The executor\<close>

definition executor_error :: "string \<Rightarrow> driver_error_info" where
  "executor_error code = \<lparr>ei_code = code, ei_protocol_code = None, ei_retryable = False\<rparr>"

datatype certainty = Deterministic | Uncertain

definition NOT_SENT_CODES :: "string list" where
  "NOT_SENT_CODES = [''connection_failed'', ''unsupported'', ''config_error'', ''invalid_address'', ''invalid_type'',
     ''driver_encoding_error'', ''modbus_exception'']"

definition classify_failure :: "driver_error_info \<Rightarrow> certainty" where
  "classify_failure info = (if ei_code info \<in> set NOT_SENT_CODES then Deterministic else Uncertain)"

text \<open>What became of the blocking task: it finished, it never ran, or it panicked and left the session in some state.\<close>

datatype blocking = BL_Finished | BL_Cancelled | BL_Panicked native_driver

type_synonym devices = "device_id \<Rightarrow> native_driver option"

definition executor_write ::
  "blocking \<Rightarrow> envelopes \<Rightarrow> device_id \<Rightarrow> driver_write_item list \<Rightarrow> devices \<Rightarrow> exec_write_outcome \<times> devices" where
  "executor_write bl ev dev items devs =
     (case devs dev of
        None \<Rightarrow> (WO_Failed (executor_error ''device_not_found''), devs)
      | Some s \<Rightarrow>
          (case bl of
             BL_Finished \<Rightarrow>
               (case session_write_batch ev items s of
                  (Inr results, s') \<Rightarrow> (WO_Succeeded results, devs(dev \<mapsto> s'))
                | (Inl info, s') \<Rightarrow>
                    (case classify_failure info of Deterministic \<Rightarrow> WO_Failed info | Uncertain \<Rightarrow> WO_Indeterminate info, devs(dev \<mapsto> s')))
           | BL_Cancelled \<Rightarrow> (WO_Failed (executor_error ''executor_runtime_shutdown''), devs)
           | BL_Panicked s' \<Rightarrow> (WO_Indeterminate (executor_error ''executor_blocking_panicked''), devs(dev \<mapsto> s'))))"

definition executor_execute ::
  "blocking \<Rightarrow> envelopes \<Rightarrow> device_id \<Rightarrow> driver_command \<Rightarrow> devices \<Rightarrow> execute_outcome \<times> devices" where
  "executor_execute bl ev dev command devs =
     (case devs dev of
        None \<Rightarrow> (EO_Failed (executor_error ''device_not_found''), devs)
      | Some s \<Rightarrow>
          (case bl of
             BL_Finished \<Rightarrow>
               (case session_execute_command ev command s of
                  (Inr result, s') \<Rightarrow> (EO_Succeeded result, devs(dev \<mapsto> s'))
                | (Inl info, s') \<Rightarrow>
                    (case classify_failure info of Deterministic \<Rightarrow> EO_Failed info | Uncertain \<Rightarrow> EO_Indeterminate info, devs(dev \<mapsto> s')))
           | BL_Cancelled \<Rightarrow> (EO_Failed (executor_error ''executor_runtime_shutdown''), devs)
           | BL_Panicked s' \<Rightarrow> (EO_Indeterminate (executor_error ''executor_blocking_panicked''), devs(dev \<mapsto> s'))))"

section \<open>A failed write was not sent\<close>

fun any_log :: "any_transport \<Rightarrow> bytes list" where
  "any_log (TcpT t) = tt_log t"
| "any_log (RtuT t) = rt_log t"

text \<open>The frames a driver has put on the wire since its transport was created.\<close>

definition frames :: "modbus_driver \<Rightarrow> bytes list" where
  "frames d = (case md_transport d of Some t \<Rightarrow> any_log t | None \<Rightarrow> [])"

definition frames_sent :: "native_driver \<Rightarrow> bytes list" where
  "frames_sent nd = (case nd_handle nd of Some d \<Rightarrow> frames d | None \<Rightarrow> [])"

lemma any_connect_log: "any_log (snd (any_connect t)) = any_log t"
  by (cases t) (auto simp: tcp_connect_def rtu_connect_def Let_def split: connect_outcome.splits option.splits list.splits prod.splits if_splits)

lemma connect_loop_log: "any_log (snd (connect_loop n e t)) = any_log t"
proof (induction n arbitrary: e t)
  case (Suc n)
  then show ?case using any_connect_log[of t] by (auto split: prod.splits sum.splits)
qed simp

lemma ensure_connected_frames: "frames (snd (ensure_connected_before_plan d)) = frames d"
proof (cases "md_transport d")
  case (Some t)
  then show ?thesis
    using connect_loop_log[of "connect_attempts (md_config d)" driver_panic t]
    by (auto simp: ensure_connected_before_plan_def driver_connect_def on_transport_def frames_def split: prod.splits)
qed (simp add: ensure_connected_before_plan_def frames_def)

lemma request_write_plan_error: "request_write_plan p d = (Inl (Failed e), d') \<Longrightarrow> transaction_error e"
proof -
  assume "request_write_plan p d = (Inl (Failed e), d')"
  then obtain t t' where drop: "drop_session (any_write_transaction (word_of_nat (wp_unit_id p)) (wp_function p)
      (word_of_nat (wp_start_offset p)) (wp_payload p)) t = (Inl e, t')" (is "drop_session ?m t = _")
    unfolding request_write_plan_def on_transport_Inl by (metis call_failure_Failed driver_failure.distinct(1))
  obtain r t1 where "?m t = (r, t1)" by force
  then show ?thesis using drop any.write_error by (cases r) (auto simp: drop_session_def)
qed

text \<open>Once a session is up, a batch fails with an error of a transaction.\<close>

lemma write_plans_connected_error:
  assumes "session d True" "write_plans plans results d = (Inl (Failed e), d')"
  shows "transaction_error e \<and> is_transport_level e"
  using assms
proof (induction plans arbitrary: d results)
  case (Cons p plans)
  have up: "ensure_connected_before_plan d = (Inr (), d)"
    using Cons.prems(1) by (auto simp: ensure_connected_before_plan_def session_def)
  obtain r d1 where req: "request_write_plan p d = (r, d1)" by force
  note out = request_write_plan_outcome[OF Cons.prems(1) req]
  show ?case
  proof (cases r)
    case (Inr x)
    then show ?thesis using Cons up req out by auto
  next
    case (Inl f)
    then obtain e1 where f: "f = Failed e1" using out by (cases f) auto
    then show ?thesis
      using Cons up req out Inl request_write_plan_error[of p d e1 d1] by (auto split: if_splits)
  qed
qed simp

lemma transaction_error_uncertain:
  "transaction_error e \<Longrightarrow> is_transport_level e \<Longrightarrow> classify_failure (into_info e) = Uncertain"
  by (auto simp: transaction_error_def classify_failure_def NOT_SENT_CODES_def into_info_def error_defs is_transport_level_def)

lemma write_batch_frames:
  assumes "write_batch items d = (Inl (Failed e), d')" "classify_failure (into_info e) = Deterministic"
  shows "frames d' = frames d"
proof (cases "plan_write_batch items (mc_unit_id (md_config d)) (mc_word_order (md_config d))")
  case (Some planned)
  show ?thesis
  proof (cases planned)
    case (Inl e')
    then show ?thesis using assms(1) Some by (simp add: write_batch_def)
  next
    case (Inr pr)
    obtain plans errs where pr: "pr = (plans, errs)" by force
    have run: "write_plans plans errs d = (Inl (Failed e), d')"
      using assms(1) Some Inr pr by (auto simp: write_batch_def split: prod.splits sum.splits)
    show ?thesis
    proof (cases plans)
      case Nil
      then show ?thesis using run by simp
    next
      case (Cons p ps)
      obtain r d1 where en: "ensure_connected_before_plan d = (r, d1)" by force
      show ?thesis
      proof (cases r)
        case (Inl f)
        then show ?thesis using run Cons en ensure_connected_frames[of d] by simp
      next
        case (Inr u)
        have "\<exists>b. session d b" using en Inr by (auto simp: ensure_connected_before_plan_def session_def split: option.splits)
        then have up: "session d1 True" using ensure_connected_outcome[OF _ en] Inr by auto
        then have "ensure_connected_before_plan d1 = (Inr (), d1)" by (auto simp: ensure_connected_before_plan_def session_def)
        then have "write_plans plans errs d1 = (Inl (Failed e), d')" using run en Inr by (simp add: Cons)
        from write_plans_connected_error[OF up this] show ?thesis using transaction_error_uncertain assms(2) by auto
      qed
    qed
  qed
qed (use assms(1) in \<open>simp add: write_batch_def\<close>)

lemma abi_fail_frames [simp]: "frames (snd (abi_fail e d)) = frames d"
  by (simp add: abi_fail_def frames_def)

lemma api_write_frames:
  assumes "api_write its (Some d) = ((status, out), Some d')" "status \<noteq> 0" "\<forall>info. md_last_error d' = Some info \<longrightarrow> classify_failure info = Deterministic"
  shows "frames d' = frames d"
proof -
  have fail: "frames d' = frames d" if "abi_fail e d = ((status, out), d')" for e
    using abi_fail_frames[of e d] that by (simp add: abi_fail_def)
  show ?thesis
  proof (cases "\<exists>its' ws. its = Some its' \<and> ffi_write_items its' = Inr ws")
    case False
    then show ?thesis using assms(1) fail by (auto simp: api_write_def on_handle_def map_prod_id_eq split: option.splits sum.splits)
  next
    case True
    then obtain its' ws where ws: "its = Some its'" "ffi_write_items its' = Inr ws" by blast
    obtain r d1 where batch: "write_batch ws d = (r, d1)" by force
    have run: "abi_result (r, d1) = ((status, out), d')" using assms(1) ws batch by (auto simp: api_write_def on_handle_def map_prod_id_eq)
    show ?thesis
    proof (cases r)
      case (Inr x)
      then show ?thesis using run assms(2) by simp
    next
      case (Inl f)
      then show ?thesis
      proof (cases f)
        case (Failed e)
        then have d': "d' = d1\<lparr>md_last_error := Some (into_info e)\<rparr>" using run Inl by (simp add: abi_fail_def)
        then have "classify_failure (into_info e) = Deterministic" using assms(3) by simp
        then show ?thesis using write_batch_frames[OF batch[unfolded Inl Failed]] by (simp add: d' frames_def)
      next
        case Panicked
        then have "md_last_error d' = Some (into_info driver_panic)" using run Inl by (auto simp: abi_fail_def)
        moreover have "classify_failure (into_info driver_panic) = Uncertain"
          by (simp add: classify_failure_def NOT_SENT_CODES_def into_info_def error_defs)
        ultimately show ?thesis using assms(3) by simp
      qed
    qed
  qed
qed

lemma encode_write_ids: "encode_write_items items = Inr ffi \<Longrightarrow> map fw_id ffi = map dwi_id items"
  by (induction items arbitrary: ffi) (auto simp: res_bind_def split: sum.splits)

lemma ffi_write_ids: "ffi_write_items ffi = Inr ws \<Longrightarrow> map wq_id ws = map fw_id ffi"
  by (induction ffi arbitrary: ws) (auto simp: res_bind_def split: sum.splits)

lemma api_write_answers:
  assumes "api_write (Some ffi) (Some d) = ((0, Some rs), h)" "md_transport d \<noteq> None"
  shows "mset (map rw_item_id rs) = mset (map fw_id ffi)"
proof -
  obtain ws where ws: "ffi_write_items ffi = Inr ws"
    using assms(1) by (auto simp: api_write_def on_handle_def abi_fail_def split: sum.splits)
  obtain r d1 where batch: "write_batch ws d = (r, d1)" by force
  have "r = Inr rs"
  proof (cases r)
    case (Inl f)
    then show ?thesis using assms(1) ws batch by (cases f) (auto simp: api_write_def on_handle_def abi_fail_def)
  qed (use assms(1) ws batch in \<open>auto simp: api_write_def on_handle_def\<close>)
  moreover obtain b where "session d b" using assms(2) by (auto simp: session_def)
  ultimately show ?thesis using write_batch_outcome[of d b ws r d1] batch ffi_write_ids[OF ws] by auto
qed

text \<open>A registered device has a handle that was created successfully.\<close>

definition handles_ok :: "devices \<Rightarrow> bool" where
  "handles_ok devs \<longleftrightarrow> (\<forall>nd\<in>ran devs. \<exists>d. nd_handle nd = Some d \<and> md_transport d \<noteq> None)"

lemma session_write_outcome:
  assumes "session_write_batch ev items s = (r, s')" "nd_handle s = Some d" "md_transport d \<noteq> None"
  shows "case r of
      Inr rs \<Rightarrow> mset (map rw_item_id rs) = mset (map dwi_id items)
    | Inl info \<Rightarrow> classify_failure info = Deterministic \<longrightarrow> frames_sent s' = frames_sent s"
proof (cases "encode_write_items items")
  case (Inl e)
  then show ?thesis using assms(1) by (auto simp: session_write_batch_def native_write_def)
next
  case (Inr ffi)
  obtain status out h where call: "api_write (Some ffi) (Some d) = ((status, out), h)" by (metis surj_pair)
  then obtain d' where h: "h = Some d'"
    by (cases "case ffi_write_items ffi of Inl e \<Rightarrow> abi_fail e d | Inr ws \<Rightarrow> abi_result (write_batch ws d)")
      (auto simp: api_write_def on_handle_def)
  have s': "s' = s\<lparr>nd_handle := Some d'\<rparr>"
    and r: "r = res_map_err map_loader_error (if status \<noteq> 0 then Inl (call_failed ''write'' status ev (Some d')) else take_response ''write'' (ev_response ev) out)"
    using assms(1,2) Inr call h by (auto simp: session_write_batch_def native_write_def native_call_def)
  have frames: "frames_sent s' = frames d'" "frames_sent s = frames d" by (simp_all add: frames_sent_def s' assms(2))
  show ?thesis
  proof (cases "status = 0")
    case True
    show ?thesis
    proof (cases "take_response ''write'' (ev_response ev) out")
      case (Inl e)
      then have "classify_failure (map_loader_error e) = Uncertain"
        by (auto simp: take_response_def classify_failure_def NOT_SENT_CODES_def split: option.splits reading.splits)
      then show ?thesis using r True Inl by simp
    next
      case resp: (Inr rs)
      then have "out = Some rs" by (auto simp: take_response_def split: option.splits reading.splits)
      then show ?thesis
        using r True resp api_write_answers[of ffi d rs h] call assms(3) encode_write_ids[OF Inr] by simp
    qed
  next
    case False
    have r: "r = Inl (map_loader_error (LE_CallFailed ''write'' status (if ev_error ev then md_last_error d' else None)))"
      using r False by (auto simp: call_failed_def fetch_error_def api_get_last_error_def on_handle_def split: option.splits)
    show ?thesis
    proof (cases "ev_error ev \<and> md_last_error d' \<noteq> None")
      case True
      then obtain info where "md_last_error d' = Some info" "r = Inl info" using r by auto
      then show ?thesis using api_write_frames[OF call[unfolded h] False] frames by auto
    next
      case False
      then have "r = Inl (map_loader_error (LE_CallFailed ''write'' status None))" using r by (auto split: if_splits)
      then show ?thesis by (simp add: classify_failure_def NOT_SENT_CODES_def)
    qed
  qed
qed

text \<open>C4: A control write reported as failed, the outcome that allows a retry, has put no frame on the wire of any device; a write
  reported as done has an answer for every item. Whatever the device, the plugin and the texts that cross the C interface do.\<close>

theorem failed_write_sent_nothing:
  assumes "handles_ok devs" "executor_write bl ev dev items devs = (outcome, devs')"
  shows "case outcome of
      WO_Failed info \<Rightarrow> (\<forall>x. map_option frames_sent (devs' x) = map_option frames_sent (devs x))
    | WO_Succeeded rs \<Rightarrow> mset (map rw_item_id rs) = mset (map dwi_id items)
    | WO_Indeterminate info \<Rightarrow> True"
proof (cases "devs dev")
  case None
  then show ?thesis using assms(2) by (auto simp: executor_write_def)
next
  case (Some s)
  then obtain d where d: "nd_handle s = Some d" "md_transport d \<noteq> None"
    using assms(1) unfolding handles_ok_def by (meson ranI)
  obtain r s' where run: "session_write_batch ev items s = (r, s')" by force
  note out = session_write_outcome[OF run d]
  show ?thesis
    using assms(2) out Some run
    by (cases bl; cases r) (auto simp: executor_write_def split: certainty.splits)
qed

definition example_native :: native_driver where
  "example_native = \<lparr>nd_handle = Some example_driver, nd_connected = False\<rparr>"

definition example_write_item :: driver_write_item where
  "example_write_item = \<lparr>dwi_id = 3, dwi_address = ''30001'', dwi_value = RV_U64 5\<rparr>"

definition readable :: envelopes where
  "readable = \<lparr>ev_response = RD_Ok, ev_error = True, ev_request = True\<rparr>"

lemma example_encoded:
  "\<exists>ffi ws. encode_write_items [example_write_item] = Inr ffi \<and> ffi_write_items ffi = Inr ws \<and> map wq_address ws = [''30001'']"
proof -
  have "case encode_write_items [example_write_item] of Inl _ \<Rightarrow> False | Inr ffi \<Rightarrow>
      (case ffi_write_items ffi of Inl _ \<Rightarrow> False | Inr ws \<Rightarrow> map wq_address ws = [''30001''])"
    by code_simp
  then show ?thesis by (auto split: sum.splits)
qed

lemma read_only_write:
  assumes "wq_address w = ''30001''"
  shows "fst (write_batch [w] example_driver) = Inl (Failed invalid_address)"
proof -
  have "parse_address ''30001'' 1 = Inr \<lparr>ma_unit_id = 1, ma_kind = InputRegister, ma_address = 30001\<rparr>"
    using trim_graphic[of "''30001''"]
    by (simp add: parse_address_def graphic_def parse_u32_def digit_val_def validate_def explicit_max_def
        infer_kind_from_numeric_def matches_numeric_def)
  then show ?thesis using assms by (simp add: write_batch_def plan_write_batch_def del: One_nat_def)
qed

lemma example_refused:
  "\<exists>devs'. executor_write BL_Finished readable ''plc'' [example_write_item] [''plc'' \<mapsto> example_native] = (WO_Failed (into_info invalid_address), devs')"
proof -
  obtain ffi ws where enc: "encode_write_items [example_write_item] = Inr ffi" "ffi_write_items ffi = Inr ws" "map wq_address ws = [''30001'']"
    using example_encoded by (elim exE conjE) (rule that)
  then obtain w where w: "ws = [w]" "wq_address w = ''30001''" by auto
  obtain d' where run: "write_batch ws example_driver = (Inl (Failed invalid_address), d')"
    using read_only_write[OF w(2)] w(1) by (cases "write_batch ws example_driver") simp
  have "session_write_batch readable [example_write_item] example_native =
      (Inl (into_info invalid_address), example_native\<lparr>nd_handle := Some (d'\<lparr>md_last_error := Some (into_info invalid_address)\<rparr>)\<rparr>)"
    unfolding session_write_batch_def native_write_def enc(1)
    by (simp add: native_call_def enc(2) api_write_def on_handle_def example_native_def run abi_fail_def
        call_failed_def fetch_error_def api_get_last_error_def readable_def)
  moreover have "classify_failure (into_info invalid_address) = Deterministic"
    by (simp add: classify_failure_def NOT_SENT_CODES_def into_info_def error_defs)
  ultimately show ?thesis by (simp add: executor_write_def)
qed

theorem failed_write_sent_nothing_witness:
  "\<exists>devs'. executor_write BL_Finished readable ''plc'' [example_write_item] [''plc'' \<mapsto> example_native] = (WO_Failed (into_info invalid_address), devs') \<and>
     map_option frames_sent (devs' ''plc'') = Some []"
proof -
  obtain devs' where run: "executor_write BL_Finished readable ''plc'' [example_write_item] [''plc'' \<mapsto> example_native] = (WO_Failed (into_info invalid_address), devs')"
    using example_refused by (elim exE) (rule that)
  have "handles_ok [''plc'' \<mapsto> example_native]" by (simp add: handles_ok_def example_native_def)
  from failed_write_sent_nothing[OF this run] have "map_option frames_sent (devs' ''plc'') = Some (frames_sent example_native)" by simp
  moreover have "frames_sent example_native = []" by (simp add: frames_sent_def example_native_def frames_def example_driver_def)
  ultimately show ?thesis using run by (intro exI[of _ devs']) simp
qed

end
