(* ===== verification/Spec2Isabelle.thy ===== *)
theory Spec2Isabelle
  imports Abi_Tag Modbus_Driver Control_Schedule Control_Trace Buffer_Limits Driver_Loader
begin

text \<open>
  A verification development for ForgeLink, an industrial data-collection platform in Rust.

  \<^bold>\<open>The program.\<close> A collector reads device properties through protocol drivers (shared libraries behind a C interface), turns
  them into observations, batches them and keeps the batches in a local buffer until they are acknowledged in the north; in the
  other direction the control engine accepts requests to write properties or execute commands, authorizes them, makes them
  idempotent through a journal, validates them against the device profile, queues them per device, hands them to the driver
  one at a time and audits the outcome. Modelled are one protocol driver from the loader through its C interface down to the
  wire, the whole control path from a submission to the driver, and the way of an observation from a decoded value through
  the pipeline into the local buffer.

  \<^bold>\<open>Theories and the code they model\<close> (paths under \<^verbatim>\<open>src/\<close>).

  \<^item> \<^verbatim>\<open>Prelude\<close>, \<^verbatim>\<open>Rust_Index\<close>, \<^verbatim>\<open>Rust_Str\<close>, \<^verbatim>\<open>Ieee_Float\<close>, \<^verbatim>\<open>Ieee_Arith\<close>: what the Rust code uses of its language and standard library:
    result and state combinators, byte order of words, indexing that panics, trimming, splitting, decimal numbers, the bit layout, conversions and arithmetic of
    floats.
  \<^item> \<^verbatim>\<open>Observation\<close>, \<^verbatim>\<open>Control_Types\<close>, \<^verbatim>\<open>Profile_Model\<close>: the data types of \<^verbatim>\<open>crates/observation-model\<close>, \<^verbatim>\<open>crates/driver-contract\<close> and
    \<^verbatim>\<open>crates/profile-engine/src/models.rs\<close>. \<^verbatim>\<open>Profile_Convert\<close>: \<^verbatim>\<open>convert.rs\<close>, decoding of reads and encoding of writes.
  \<^item> \<^verbatim>\<open>Abi_Tag\<close>: \<^verbatim>\<open>crates/driver-abi/src/tag.rs\<close>, the tagged values of the C interface.
  \<^item> \<^verbatim>\<open>Modbus_Address\<close>, \<^verbatim>\<open>Modbus_Frame\<close>, \<^verbatim>\<open>Modbus_Codec\<close>, \<^verbatim>\<open>Modbus_Error\<close>, \<^verbatim>\<open>Modbus_Batch\<close>, \<^verbatim>\<open>Modbus_Session\<close>, \<^verbatim>\<open>Modbus_Config\<close>,
    \<^verbatim>\<open>Modbus_Driver\<close>: \<^verbatim>\<open>drivers/modbus/src\<close> file by file (\<^verbatim>\<open>Modbus_Frame\<close> also \<^verbatim>\<open>crc.rs\<close>, \<^verbatim>\<open>Modbus_Codec\<close> both \<^verbatim>\<open>decode.rs\<close> and
    \<^verbatim>\<open>encode.rs\<close>). A transport is a script of what the operating system delivers; a driver call is a function on the
    driver record that returns a result, a failure or a panic. An index or a slice out of bounds, an \<^verbatim>\<open>expect\<close> and an
    \<^verbatim>\<open>unreachable!\<close> are values of these definitions; that no input reaches them is proved. Arithmetic is that of the
    release profile, which wraps.
  \<^item> \<^verbatim>\<open>Driver_Loader\<close>: \<^verbatim>\<open>crates/driver-loader/src/driver.rs\<close> (a \<^verbatim>\<open>NativeDriver\<close> over the function table of the Modbus driver),
    \<^verbatim>\<open>error.rs\<close>, and of \<^verbatim>\<open>crates/device-manager/src\<close> the session (\<^verbatim>\<open>session.rs\<close>) and the executor of control actions
    (\<^verbatim>\<open>control_exec.rs\<close>).
  \<^item> \<^verbatim>\<open>Control_Policy\<close> (\<^verbatim>\<open>policy.rs\<close>, \<^verbatim>\<open>role.rs\<close>, \<^verbatim>\<open>auth.rs\<close>), \<^verbatim>\<open>Control_Journal\<close> (\<^verbatim>\<open>journal.rs\<close>), \<^verbatim>\<open>Control_Audit\<close> (\<^verbatim>\<open>audit.rs\<close>),
    \<^verbatim>\<open>Control_Validate\<close> (\<^verbatim>\<open>validate.rs\<close>), \<^verbatim>\<open>Control_Operation\<close> (\<^verbatim>\<open>executor.rs\<close>, \<^verbatim>\<open>run_operation\<close> of \<^verbatim>\<open>queue.rs\<close>), \<^verbatim>\<open>Control_Queue\<close>
    (\<^verbatim>\<open>queue.rs\<close>, \<^verbatim>\<open>metrics.rs\<close>), \<^verbatim>\<open>Control_Worker\<close> (the worker, its supervisor and the forced stop of \<^verbatim>\<open>queue.rs\<close> as a step
    relation), \<^verbatim>\<open>Control_Schedule\<close> (bound, selection and draining), \<^verbatim>\<open>Control_Engine\<close> (\<^verbatim>\<open>engine.rs\<close>, \<^verbatim>\<open>catalog.rs\<close>: submission,
    cancellation, status and shutdown, cut into the steps between two awaits), \<^verbatim>\<open>Control_System\<close> (the engine with any number of
    submissions and devices as one transition system), \<^verbatim>\<open>Control_Approval\<close> (what an executed action had to pass) and
    \<^verbatim>\<open>Control_Trace\<close> (complete runs of the engine), all of \<^verbatim>\<open>crates/control-engine/src\<close>.
  \<^item> \<^verbatim>\<open>Domain_Model\<close>: \<^verbatim>\<open>crates/domain-model/src\<close>, from a decoded value to an observation.
  \<^item> \<^verbatim>\<open>Data_Pipeline\<close>: \<^verbatim>\<open>crates/data-pipeline/src\<close>, the task that batches observations per device.
  \<^item> \<^verbatim>\<open>Local_Buffer\<close>: \<^verbatim>\<open>crates/local-buffer/src\<close>, the worker that owns the database; \<^verbatim>\<open>Buffer_Window\<close> (the records in memory are a
    window on the table), \<^verbatim>\<open>Buffer_Delivery\<close> (order, acknowledgement and storage) and \<^verbatim>\<open>Buffer_Limits\<close> (termination of the
    maintenance loop, bound of the table).

  \<^bold>\<open>What the lemmas show.\<close> For the driver: addresses, values and frames round-trip; a check sum detects burst errors; a transaction
  accepts exactly the prescribed response; planning covers every item of a batch exactly once within the limits of the
  protocol; every batch answers every item; no sequence of calls through the C interface panics (an index out of bounds included); and a control write that the
  executor reports as failed has put nothing on the wire. For the control path: an acknowledged registration keeps its key from
  being registered again until it expires, over crashes and restarts that open the file; a file journal refines the in-memory one; the engine hands
  at most one action per key to the executor, and only actions that were authorized and validated; every device of the engine
  behaves like the single-device system; a receipt that denies an execution is true; a queue stays within its capacity, is served
  in the order of effective priority, and drains after it was closed. For the way north: decoded values have the declared type;
  identifiers are unambiguous; the pipeline sends the observations of a device in order and without a gap, and drops
  or discards only at its end or when it is cancelled; the local buffer
  hands records out in order, removes them only when they are acknowledged or expired, confirms only what is stored, keeps
  within its limit, and its maintenance ends. Where the code does not keep what its comments promise, the counterexample is a
  theorem.

  \<^bold>\<open>Interfaces.\<close> The locale \<^verbatim>\<open>authorizer\<close> is interpreted by both authorizers, the locale \<^verbatim>\<open>control_journal\<close> by the in-memory and
  the file journal. The locale \<^verbatim>\<open>wal_db\<close> states what the local buffer relies on of its database (numbers grow, statements
  that fail change nothing, pages come in order); a reference table, in which any statement may fail, interprets it. The
  theorems about the buffer hold for every such database.

  \<^bold>\<open>Bounds.\<close> Definitions are total functions; loops that the code bounds by its data recurse on that data, retry loops on the
  configured number of attempts. No fuel is used: the maintenance loop of the buffer, which the code repeats while there is
  progress, is shown to end by a measure. Machine integers are words or naturals with the wrap-around written out where the
  code can reach it.

  \<^bold>\<open>Not modelled.\<close> Texts of messages and log lines; JSON texts, SHA-256 and SQLite, which are parameters; sockets, serial ports
  and file descriptors below the scripts of their answers; time, which is an argument of every step. A submission
  whose caller drops it half-way is not modelled. The MQTT client, the REST interface and the applications wire third-party
  libraries together and are left out, as are the packaging of drivers and the loading of shared libraries. The other protocol
  drivers repeat the structure of the Modbus driver over other wire formats; the poll engine, the registration of devices and the validation of profile files are not modelled either.
\<close>

end
